(* ===== verification/DF_Prelude.thy ===== *)
theory DF_Prelude
  imports Complex_Main "HOL-Library.AList" "HOL-Library.Product_Lexorder"
begin

text \<open>
  Shared vocabulary of the DevFlow development.

  \<^item> Results: a Python call that may raise is a function into \<open>py_error + 'a\<close>, where \<open>Inl\<close>
    is the exception that leaves the call. \<open>fold_res\<close> is a \<open>for\<close> loop whose body may raise.
  \<^item> Tables: a database table is a list of rows in scan order. \<open>upd_where\<close> is
    \<open>UPDATE .. WHERE ..\<close>, \<open>filter\<close> is \<open>SELECT .. WHERE ..\<close>, \<open>del_where\<close> is
    \<open>DELETE .. WHERE ..\<close>, and an insert appends.
  \<^item> Time: a naive UTC \<open>datetime\<close> is an \<open>int\<close>, the microseconds since the epoch; a
    \<open>timedelta\<close> is an \<open>int\<close> too. Python floats in the configuration (seconds) are rationals;
    \<open>timedelta_s\<close> rounds them to microseconds half to even, as \<open>datetime.timedelta\<close> does.
  \<^item> Strings are \<open>string\<close>; identifiers (UUIDs) are strings drawn from a supply.
\<close>

named_theorems row_simps \<open>how table operations act on keys, lengths and lookups\<close>
named_theorems keep_intros \<open>operations keep their invariant\<close>

type_synonym time = int
type_synonym uid = string

section \<open>Exceptions and results\<close>

text \<open>
  \<open>ApiError status code message\<close> is \<open>backend.core.security.ApiError\<close>; the others are the
  Python exceptions the modelled code raises or lets through. \<open>MissingGreenlet\<close> is what
  SQLAlchemy raises when a relationship that was not loaded is read in an asyncio session.
  \<open>ValidationError\<close> is pydantic's, without its list of details.
\<close>

datatype py_error =
    ApiError nat string string
  | DagValidationError string
  | ValueError string
  | KeyError string
  | TypeError string
  | IntegrityError
  | CancelledError
  | MissingGreenlet
  | AttributeError string
  | ValidationError

type_synonym 'a res = "py_error + 'a"

fun fold_res :: "('s \<Rightarrow> 'a \<Rightarrow> 'e + 's) \<Rightarrow> 's \<Rightarrow> 'a list \<Rightarrow> 'e + 's" where
  "fold_res f s [] = Inr s"
| "fold_res f s (x # xs) = (case f s x of Inl e \<Rightarrow> Inl e | Inr s' \<Rightarrow> fold_res f s' xs)"

lemma fold_res_append:
  "fold_res f s (xs @ ys) = (case fold_res f s xs of Inl e \<Rightarrow> Inl e | Inr s' \<Rightarrow> fold_res f s' ys)"
  by (induction xs arbitrary: s) (auto split: sum.splits)

text \<open>A loop whose body never raises on the states it meets is a plain fold.\<close>

lemma fold_res_total:
  assumes step: "\<And>s x. P s \<Longrightarrow> x \<in> A \<Longrightarrow> f s x = Inr (g s x) \<and> P (g s x)"
    and "set xs \<subseteq> A" and "P s"
  shows "fold_res f s xs = Inr (foldl g s xs) \<and> P (foldl g s xs)"
  using assms(2,3)
proof (induction xs arbitrary: s)
  case Nil
  then show ?case by simp
next
  case (Cons x xs)
  from step [of s x] Cons.prems have "f s x = Inr (g s x)" and "P (g s x)" by simp_all
  with Cons show ?case by simp
qed

lemma fold_res_inv:
  assumes "fold_res f s xs = Inr s'" and "P s" and "set xs \<subseteq> A"
    and step: "\<And>s x t. P s \<Longrightarrow> x \<in> A \<Longrightarrow> f s x = Inr t \<Longrightarrow> P t"
  shows "P s'"
  using assms(1-3)
proof (induction xs arbitrary: s)
  case Nil
  then show ?case by simp
next
  case (Cons x xs)
  then obtain t where t: "f s x = Inr t" and rest: "fold_res f t xs = Inr s'"
    by (auto split: sum.splits)
  have "P t" using step [OF Cons.prems(2) _ t] Cons.prems(3) by simp
  with Cons rest show ?case by simp
qed

section \<open>f-strings\<close>

text \<open>\<open>str(n)\<close> of an integer, and a text in single quotes.\<close>

fun nat_digits :: "nat \<Rightarrow> string" where
  "nat_digits n = (if n < 10 then [char_of (48 + n)] else nat_digits (n div 10) @ [char_of (48 + n mod 10)])"

declare nat_digits.simps [simp del]

definition int_str :: "int \<Rightarrow> string" where
  "int_str n = (if n < 0 then CHR ''-'' # nat_digits (nat (- n)) else nat_digits (nat n))"

definition quoted :: "string \<Rightarrow> string" where
  "quoted s = CHR 0x27 # s @ [CHR 0x27]"

text \<open>Different numbers are written differently.\<close>

definition digits_value :: "string \<Rightarrow> nat" where
  "digits_value s = foldl (\<lambda>a c. 10 * a + (of_char c - 48)) 0 s"

lemma digits_value_nat [simp]: "digits_value (nat_digits n) = n"
proof (induction n rule: nat_digits.induct)
  case (1 n)
  then show ?case
    by (subst nat_digits.simps) (simp add: digits_value_def)
qed

lemma nat_digits_inj [simp]: "nat_digits m = nat_digits n \<longleftrightarrow> m = n"
  by (metis digits_value_nat)

section \<open>Tables\<close>

definition upd_where :: "('r \<Rightarrow> bool) \<Rightarrow> ('r \<Rightarrow> 'r) \<Rightarrow> 'r list \<Rightarrow> 'r list" where
  "upd_where P f rows = map (\<lambda>r. if P r then f r else r) rows"

definition del_where :: "('r \<Rightarrow> bool) \<Rightarrow> 'r list \<Rightarrow> 'r list" where
  "del_where P rows = filter (\<lambda>r. \<not> P r) rows"

lemma in_map_filter: "y \<in> set (List.map_filter f xs) \<longleftrightarrow> (\<exists>x \<in> set xs. f x = Some y)"
  by (induction xs) (auto simp: map_filter_simps split: option.splits)

lemma upd_where_simps [simp]:
  "upd_where P f [] = []"
  "upd_where P f (r # rows) = (if P r then f r else r) # upd_where P f rows"
  "length (upd_where P f rows) = length rows"
  "upd_where P f (rows @ rows') = upd_where P f rows @ upd_where P f rows'"
  by (simp_all add: upd_where_def)

lemma del_where_simps [simp]:
  "del_where P [] = []"
  "del_where P (r # rows) = (if P r then del_where P rows else r # del_where P rows)"
  "set (del_where P rows) = {r \<in> set rows. \<not> P r}"
  by (auto simp: del_where_def)

lemma set_upd_where: "set (upd_where P f rows) = {f r |r. r \<in> set rows \<and> P r} \<union> {r \<in> set rows. \<not> P r}"
  by (auto simp: upd_where_def)

lemma upd_whereI:
  assumes "\<And>r. r \<in> set rows \<Longrightarrow> P r \<Longrightarrow> Q (f r)" and "\<And>r. r \<in> set rows \<Longrightarrow> \<not> P r \<Longrightarrow> Q r"
  shows "\<forall>r \<in> set (upd_where P f rows). Q r"
  using assms by (auto simp: set_upd_where)

lemma map_upd_where [row_simps]:
  "(\<And>r. P r \<Longrightarrow> g (f r) = g r) \<Longrightarrow> map g (upd_where P f rows) = map g rows"
  by (simp add: upd_where_def)

lemma upd_where_none [simp]: "(\<And>r. r \<in> set rows \<Longrightarrow> \<not> P r) \<Longrightarrow> upd_where P f rows = rows"
  by (induction rows) auto

lemma filter_upd_where:
  "(\<And>r. P r \<Longrightarrow> Q (f r) = Q r) \<Longrightarrow> filter Q (upd_where P f rows) = upd_where P f (filter Q rows)"
  by (induction rows) auto

lemma find_upd_where:
  "(\<And>r. P r \<Longrightarrow> Q (f r) = Q r) \<Longrightarrow>
   find Q (upd_where P f rows) = map_option (\<lambda>r. if P r then f r else r) (find Q rows)"
  by (induction rows) auto

lemma find_append: "find P (xs @ ys) = (case find P xs of None \<Rightarrow> find P ys | Some r \<Rightarrow> Some r)"
  by (induction xs) auto

lemma find_SomeD: "find P xs = Some r \<Longrightarrow> r \<in> set xs \<and> P r"
  by (auto simp: find_Some_iff)

lemma find_key_unique:
  assumes "distinct (map key rows)" and "r \<in> set rows"
  shows "find (\<lambda>r'. key r' = key r) rows = Some r"
  using assms
proof (induction rows)
  case Nil
  then show ?case by simp
next
  case (Cons a rows)
  show ?case
  proof (cases "key a = key r")
    case True
    with Cons.prems have "a = r" by (auto simp: distinct_map inj_on_def)
    then show ?thesis by simp
  next
    case False
    with Cons show ?thesis by auto
  qed
qed

lemma length_filter_upd_le:
  assumes "\<And>r. P r \<Longrightarrow> Q (f r) \<Longrightarrow> Q r"
  shows "length (filter Q (upd_where P f rows)) \<le> length (filter Q rows)"
  using assms by (induction rows) auto

text \<open>
  The interface of an operation on a keyed table that writes columns other than the key: it
  neither adds, drops nor renames a row. Most \<open>UPDATE\<close> statements of the repository have it.
\<close>

locale keyed_update =
  fixes key :: "'r \<Rightarrow> 'k"
    and oper :: "'r list \<Rightarrow> 'r list"
  assumes oper_keys: "map key (oper rows) = map key rows"
begin

lemma keeps_length: "length (oper rows) = length rows"
  using oper_keys [of rows] by (metis length_map)

lemma keeps_distinct: "distinct (map key (oper rows)) \<longleftrightarrow> distinct (map key rows)"
  by (simp add: oper_keys)

lemma keeps_key_set: "key ` set (oper rows) = key ` set rows"
  using oper_keys [of rows] by (metis set_map)

lemma keeps_present: "(find (\<lambda>r. key r = k) (oper rows) = None) \<longleftrightarrow> (find (\<lambda>r. key r = k) rows = None)"
  using keeps_key_set [of rows] by (auto simp: find_None_iff image_iff) (metis image_iff)+

end

section \<open>Time\<close>

definition secs :: "int \<Rightarrow> time" where
  "secs n = n * 1000000"

definition days :: "int \<Rightarrow> time" where
  "days n = n * 86400000000"

text \<open>Python's \<open>round\<close>: to the nearest integer, halves to the even one.\<close>

definition py_round :: "rat \<Rightarrow> int" where
  "py_round x = (let f = \<lfloor>x\<rfloor>; d = x - of_int f in
     if d < 1 / 2 then f else if 1 / 2 < d then f + 1 else if even f then f else f + 1)"

definition timedelta_s :: "rat \<Rightarrow> time" where
  "timedelta_s s = py_round (s * 1000000)"

lemma py_round_of_int [simp]: "py_round (of_int n) = n"
  by (simp add: py_round_def)

lemma py_round_mono_0: "0 \<le> x \<Longrightarrow> 0 \<le> py_round x"
  by (simp add: py_round_def Let_def)

lemma timedelta_s_nonneg: "0 \<le> s \<Longrightarrow> 0 \<le> timedelta_s s"
  by (simp add: timedelta_s_def py_round_mono_0)

lemma timedelta_s_of_int [simp]: "timedelta_s (of_int n) = secs n"
proof -
  have "timedelta_s (of_int n) = py_round (of_int (n * 1000000))"
    by (simp add: timedelta_s_def)
  then show ?thesis by (simp only: py_round_of_int secs_def)
qed

lemma secs_mono [simp]: "secs a \<le> secs b \<longleftrightarrow> a \<le> b" "secs a < secs b \<longleftrightarrow> a < b"
  by (simp_all add: secs_def)

section \<open>Reachability over a step function, shared by the state machines\<close>

text \<open>
  A component driven by commands: \<open>step c s\<close> is the state after command \<open>c\<close>. A predicate that
  the start state has and every step keeps holds after every run.
\<close>

locale command_machine =
  fixes step :: "'c \<Rightarrow> 's \<Rightarrow> 's"
    and good :: "'s \<Rightarrow> bool"
    and allowed :: "'c \<Rightarrow> 's \<Rightarrow> bool"
  assumes step_good: "good s \<Longrightarrow> allowed c s \<Longrightarrow> good (step c s)"
begin

inductive reaches :: "'s \<Rightarrow> 's \<Rightarrow> bool" for s0 where
  start: "reaches s0 s0"
| next_step: "reaches s0 s \<Longrightarrow> allowed c s \<Longrightarrow> reaches s0 (step c s)"

lemma reaches_good: "reaches s0 s \<Longrightarrow> good s0 \<Longrightarrow> good s"
  by (induction rule: reaches.induct) (auto intro: step_good)

end

end
