(* ===== verification/Entities.thy ===== *)
theory Entities
  imports DF_Prelude
begin

text \<open>
  The data model of \<open>backend/models/entities.py\<close>: one record per table, one datatype per enum,
  and the database as a record of tables. Nullable columns are options, JSON columns that the
  code reads by key are typed records (the workflow document and the task configuration, whose
  keys \<open>backend/schemas/workflow.py\<close> fixes), other JSON columns are \<open>json\<close> values. Column names
  carry a two-letter table prefix. Relationships are joins on the foreign keys.

  \<open>uuid_supply\<close> and \<open>uuid_draws\<close> stand for \<open>uuid.uuid4\<close>: the \<open>n\<close>-th identifier drawn is
  \<open>uuid_supply n\<close>.
\<close>

section \<open>Enums\<close>

datatype execution_status = EPending | ERunning | ESuccess | EFailed | ECancelled

datatype task_state =
  TPending | TQueued | TRunning | TSuccess | TFailed | TRetrying | TCancelled | TSkipped

datatype queue_job_state = QQueued | QLeased | QCompleted | QCancelled | QFailed

fun execution_status_value :: "execution_status \<Rightarrow> string" where
  "execution_status_value EPending = ''pending''"
| "execution_status_value ERunning = ''running''"
| "execution_status_value ESuccess = ''success''"
| "execution_status_value EFailed = ''failed''"
| "execution_status_value ECancelled = ''cancelled''"

section \<open>JSON values, task configuration and workflow documents\<close>

datatype json = JNull | JBool bool | JInt int | JStr string | JList "json list" | JObj "(string \<times> json) list"

text \<open>
  A task configuration is a JSON object; a field is \<open>None\<close> where the key is absent. Seconds that
  the code reads with \<open>float(..)\<close> are rationals.
\<close>

record task_config =
  cf_type :: "string option"
  cf_duration_ms :: "int option"
  cf_max_retries :: "int option"
  cf_fail_first_n :: "int option"
  cf_backoff_seconds :: "rat option"
  cf_delay_seconds :: "rat option"
  cf_priority :: "int option"
  cf_timeout_seconds :: "rat option"
  cf_allow_failure :: bool
  cf_method :: "string option"
  cf_url :: "string option"
  cf_headers :: "(string \<times> string) list"
  cf_body :: "string option"
  cf_expected_status :: "int option"
  cf_message :: "string option"

definition empty_config :: task_config where
  "empty_config = \<lparr>cf_type = None, cf_duration_ms = None, cf_max_retries = None,
     cf_fail_first_n = None, cf_backoff_seconds = None, cf_delay_seconds = None,
     cf_priority = None, cf_timeout_seconds = None, cf_allow_failure = False,
     cf_method = None, cf_url = None, cf_headers = [], cf_body = None,
     cf_expected_status = None, cf_message = None\<rparr>"

record task_spec =
  ts_name :: string
  ts_deps :: "string list"
  ts_config :: task_config

record wf_document =
  doc_name :: string
  doc_description :: "string option"
  doc_revision :: int
  doc_tasks :: "task_spec list"

section \<open>Rows\<close>

record workflow =
  wf_id :: uid
  wf_tenant :: uid
  wf_name :: string
  wf_description :: "string option"
  wf_current_revision :: int
  wf_is_archived :: bool
  wf_created_at :: time
  wf_updated_at :: time

record wf_revision =
  rv_id :: uid
  rv_workflow :: uid
  rv_tenant :: uid
  rv_revision :: int
  rv_document :: wf_document
  rv_created_by :: string
  rv_created_at :: time

record task_definition =
  td_id :: uid
  td_workflow :: uid
  td_name :: string
  td_deps :: "string list"
  td_config :: task_config
  td_created_at :: time

record execution =
  ex_id :: uid
  ex_tenant :: uid
  ex_workflow :: uid
  ex_workflow_revision :: "uid option"
  ex_workflow_name :: string
  ex_revision :: int
  ex_snapshot :: wf_document
  ex_status :: execution_status
  ex_cancel_requested :: bool
  ex_idempotency_key :: "string option"
  ex_triggered_by :: string
  ex_created_at :: time
  ex_updated_at :: time
  ex_started_at :: "time option"
  ex_finished_at :: "time option"

record etask =
  et_id :: uid
  et_execution :: uid
  et_task :: "uid option"
  et_name :: string
  et_deps :: "string list"
  et_config :: task_config
  et_status :: task_state
  et_retries :: int
  et_started_at :: "time option"
  et_finished_at :: "time option"
  et_error :: "string option"
  et_worker :: "string option"
  et_heartbeat_at :: "time option"

record elog =
  lg_id :: uid
  lg_execution :: uid
  lg_task :: "uid option"
  lg_level :: string
  lg_message :: string
  lg_created_at :: time

record job =
  qj_id :: uid
  qj_tenant :: uid
  qj_workflow :: uid
  qj_etask :: uid
  qj_execution :: uid
  qj_task :: uid
  qj_priority :: int
  qj_available_at :: time
  qj_retry_count :: int
  qj_attempts :: int
  qj_max_attempts :: int
  qj_dead_lettered :: bool
  qj_last_error :: "string option"
  qj_state :: queue_job_state
  qj_leased_by :: "string option"
  qj_leased_at :: "time option"
  qj_lease_expires_at :: "time option"
  qj_completed_at :: "time option"
  qj_created_at :: time

record worker_record =
  wk_id :: string
  wk_state :: string
  wk_execution :: "uid option"
  wk_task :: "uid option"
  wk_processed :: int
  wk_failed :: int
  wk_last_seen_at :: "time option"
  wk_last_error :: "string option"
  wk_is_active :: bool
  wk_updated_at :: time

record tenant =
  tn_id :: uid
  tn_name :: string
  tn_slug :: string
  tn_created_at :: time

record api_key =
  ak_id :: uid
  ak_tenant :: uid
  ak_name :: string
  ak_prefix :: string
  ak_hash :: string
  ak_role :: string
  ak_created_at :: time
  ak_last_used_at :: "time option"
  ak_revoked_at :: "time option"

record audit_log =
  au_id :: uid
  au_tenant :: uid
  au_actor_key :: "uid option"
  au_actor_label :: string
  au_action :: string
  au_resource_type :: string
  au_resource_id :: string
  au_details :: json
  au_created_at :: time

record secret_record =
  sr_id :: uid
  sr_tenant :: uid
  sr_name :: string
  sr_ciphertext :: string
  sr_created_at :: time
  sr_updated_at :: time

record webhook_endpoint =
  wh_id :: uid
  wh_tenant :: uid
  wh_url :: string
  wh_secret :: string
  wh_events :: "string list"
  wh_is_active :: bool
  wh_created_at :: time

record webhook_delivery =
  wd_id :: uid
  wd_tenant :: uid
  wd_endpoint :: uid
  wd_event_type :: string
  wd_payload :: json
  wd_status :: string
  wd_attempts :: int
  wd_next_attempt_at :: time
  wd_last_error :: "string option"
  wd_created_at :: time
  wd_delivered_at :: "time option"

record wf_schedule =
  sc_id :: uid
  sc_tenant :: uid
  sc_workflow :: uid
  sc_cron :: "string option"
  sc_interval_seconds :: "int option"
  sc_next_run_at :: time
  sc_is_enabled :: bool
  sc_created_at :: time
  sc_last_run_at :: "time option"

record outbox_event =
  ob_id :: uid
  ob_tenant :: uid
  ob_event_type :: string
  ob_execution :: "uid option"
  ob_payload :: json
  ob_created_at :: time
  ob_processed_at :: "time option"

section \<open>The database\<close>

record db =
  tenants :: "tenant list"
  api_keys :: "api_key list"
  workflows :: "workflow list"
  revisions :: "wf_revision list"
  task_defs :: "task_definition list"
  executions :: "execution list"
  etasks :: "etask list"
  elogs :: "elog list"
  jobs :: "job list"
  worker_rows :: "worker_record list"
  audits :: "audit_log list"
  secrets :: "secret_record list"
  endpoints :: "webhook_endpoint list"
  deliveries :: "webhook_delivery list"
  schedules :: "wf_schedule list"
  outbox :: "outbox_event list"
  uuid_supply :: "nat \<Rightarrow> uid"
  uuid_draws :: nat

definition empty_db :: "(nat \<Rightarrow> uid) \<Rightarrow> db" where
  "empty_db supply = \<lparr>tenants = [], api_keys = [], workflows = [], revisions = [], task_defs = [],
     executions = [], etasks = [], elogs = [], jobs = [], worker_rows = [], audits = [],
     secrets = [], endpoints = [], deliveries = [], schedules = [], outbox = [],
     uuid_supply = supply, uuid_draws = 0\<rparr>"

text \<open>\<open>generate_uuid\<close>: the next identifier and the database with it drawn.\<close>

definition generate_uuid :: "db \<Rightarrow> uid \<times> db" where
  "generate_uuid d = (uuid_supply d (uuid_draws d), d\<lparr>uuid_draws := Suc (uuid_draws d)\<rparr>)"

lemma fst_generate_uuid [simp]: "fst (generate_uuid d) = uuid_supply d (uuid_draws d)"
  by (simp add: generate_uuid_def)

lemma snd_generate_uuid [simp]: "snd (generate_uuid d) = d\<lparr>uuid_draws := Suc (uuid_draws d)\<rparr>"
  by (simp add: generate_uuid_def)

text \<open>
  \<open>LogService.write\<close> and \<open>OutboxService.write\<close> add one row; the row is written when the session
  commits, here with the transaction they belong to.
\<close>

definition log_write :: "time \<Rightarrow> uid \<Rightarrow> string \<Rightarrow> string \<Rightarrow> uid option \<Rightarrow> db \<Rightarrow> db" where
  "log_write now eid message level tid d = (case generate_uuid d of (i, d') \<Rightarrow>
     d'\<lparr>elogs := elogs d' @ [\<lparr>lg_id = i, lg_execution = eid, lg_task = tid, lg_level = level,
        lg_message = message, lg_created_at = now\<rparr>]\<rparr>)"

definition outbox_write :: "time \<Rightarrow> uid \<Rightarrow> string \<Rightarrow> uid option \<Rightarrow> json \<Rightarrow> db \<Rightarrow> db" where
  "outbox_write now tenant event_type eid payload d = (case generate_uuid d of (i, d') \<Rightarrow>
     d'\<lparr>outbox := outbox d' @ [\<lparr>ob_id = i, ob_tenant = tenant, ob_event_type = event_type,
        ob_execution = eid, ob_payload = payload, ob_created_at = now, ob_processed_at = None\<rparr>]\<rparr>)"

text \<open>Frame facts: what the two writers leave alone.\<close>

named_theorems frame_simps \<open>which tables an operation leaves unchanged\<close>

lemma log_write_frame [simp, frame_simps]:
  "executions (log_write n e m l t d) = executions d"
  "etasks (log_write n e m l t d) = etasks d"
  "jobs (log_write n e m l t d) = jobs d"
  "outbox (log_write n e m l t d) = outbox d"
  "workflows (log_write n e m l t d) = workflows d"
  "revisions (log_write n e m l t d) = revisions d"
  "task_defs (log_write n e m l t d) = task_defs d"
  "uuid_supply (log_write n e m l t d) = uuid_supply d"
  "uuid_draws (log_write n e m l t d) = Suc (uuid_draws d)"
  by (simp_all add: log_write_def generate_uuid_def)

lemma outbox_write_frame [simp, frame_simps]:
  "executions (outbox_write n t y e p d) = executions d"
  "etasks (outbox_write n t y e p d) = etasks d"
  "jobs (outbox_write n t y e p d) = jobs d"
  "elogs (outbox_write n t y e p d) = elogs d"
  "workflows (outbox_write n t y e p d) = workflows d"
  "revisions (outbox_write n t y e p d) = revisions d"
  "task_defs (outbox_write n t y e p d) = task_defs d"
  "uuid_supply (outbox_write n t y e p d) = uuid_supply d"
  "uuid_draws (outbox_write n t y e p d) = Suc (uuid_draws d)"
  by (simp_all add: outbox_write_def generate_uuid_def)

text \<open>The tables that executions and workflows never write.\<close>

definition outer_tables :: "db \<Rightarrow> tenant list \<times> api_key list \<times> secret_record list \<times> webhook_endpoint list \<times>
    webhook_delivery list \<times> wf_schedule list" where
  "outer_tables d = (tenants d, api_keys d, secrets d, endpoints d, deliveries d, schedules d)"

lemma outer_tables_frame [simp, frame_simps]:
  "outer_tables (workflows_update f d) = outer_tables d"
  "outer_tables (revisions_update f1 d) = outer_tables d"
  "outer_tables (task_defs_update f2 d) = outer_tables d"
  "outer_tables (executions_update f3 d) = outer_tables d"
  "outer_tables (etasks_update f4 d) = outer_tables d"
  "outer_tables (elogs_update f5 d) = outer_tables d"
  "outer_tables (jobs_update f6 d) = outer_tables d"
  "outer_tables (worker_rows_update f7 d) = outer_tables d"
  "outer_tables (audits_update f8 d) = outer_tables d"
  "outer_tables (outbox_update f9 d) = outer_tables d"
  "outer_tables (uuid_draws_update f10 d) = outer_tables d"
  "outer_tables (log_write n e m l t d) = outer_tables d"
  "outer_tables (outbox_write n te y ex p d) = outer_tables d"
  by (simp_all add: outer_tables_def log_write_def outbox_write_def generate_uuid_def)

end
