(* ===== verification/Settings.thy ===== *)
theory Settings
  imports Entities
begin

text \<open>
  \<open>backend/core/config.py\<close>: the settings, their defaults, the ranges that the
  \<open>Field(ge=.., le=..)\<close> declarations enforce, and the production validator.
\<close>

record settings =
  environment :: string
  app_name :: string
  app_version :: string
  api_prefix :: string
  database_url :: string
  database_pool_size :: int
  database_max_overflow :: int
  database_pool_timeout_seconds :: rat
  auto_migrate :: bool
  worker_count :: int
  worker_poll_interval_ms :: int
  worker_heartbeat_interval_seconds :: int
  worker_shutdown_grace_seconds :: int
  worker_instance_id :: string
  inline_workers_enabled :: bool
  queue_lease_seconds :: int
  queue_poison_max_attempts :: int
  queue_aging_seconds :: int
  max_concurrent_tasks_per_workflow :: int
  max_task_timeout_seconds :: int
  task_retention_days :: int
  cors_origins :: string
  docs_enabled :: bool
  log_level :: string
  log_format :: string
  queue_name :: string
  realtime_poll_interval_ms :: int
  realtime_bus :: string
  realtime_channel :: string
  max_request_body_bytes :: int
  request_timeout_seconds :: rat
  bootstrap_api_key :: string
  bootstrap_tenant_name :: string
  auth_cache_ttl_seconds :: int
  rate_limit_requests_per_minute :: int
  rate_limit_burst :: int
  rate_limit_backend :: string
  redis_url :: string
  max_concurrent_executions_per_tenant :: int
  secret_encryption_key :: string
  metrics_enabled :: bool
  otel_exporter_otlp_endpoint :: string
  watchdog_interval_seconds :: int
  scheduler_interval_seconds :: int
  retention_interval_seconds :: int
  log_retention_days :: int
  execution_retention_days :: int
  queue_retention_days :: int
  worker_retention_days :: int
  webhook_timeout_seconds :: rat
  webhook_max_attempts :: int
  allow_private_task_targets :: bool

definition DEVELOPMENT_API_KEY :: string where
  "DEVELOPMENT_API_KEY = ''devflow-dev-key''"

text \<open>The default database path is below \<open>ROOT_DIR\<close>, here that of the container image, \<open>/app\<close>.\<close>

definition default_settings :: settings where
  "default_settings = \<lparr>environment = ''development'', app_name = ''DevFlow'', app_version = ''2.0.0'',
     api_prefix = ''/api/v1'', database_url = ''sqlite+aiosqlite:////app/devflow.db'',
     database_pool_size = 10, database_max_overflow = 10, database_pool_timeout_seconds = 30,
     auto_migrate = True, worker_count = 4, worker_poll_interval_ms = 250,
     worker_heartbeat_interval_seconds = 5, worker_shutdown_grace_seconds = 20,
     worker_instance_id = [], inline_workers_enabled = True, queue_lease_seconds = 30,
     queue_poison_max_attempts = 5, queue_aging_seconds = 60,
     max_concurrent_tasks_per_workflow = 16, max_task_timeout_seconds = 600, task_retention_days = 30,
     cors_origins = ''http://localhost:5173,http://127.0.0.1:5173'', docs_enabled = True,
     log_level = ''INFO'', log_format = ''json'', queue_name = ''database'',
     realtime_poll_interval_ms = 1000, realtime_bus = ''auto'', realtime_channel = ''devflow_events'',
     max_request_body_bytes = 1048576, request_timeout_seconds = 30,
     bootstrap_api_key = DEVELOPMENT_API_KEY, bootstrap_tenant_name = ''Default tenant'',
     auth_cache_ttl_seconds = 30, rate_limit_requests_per_minute = 600, rate_limit_burst = 100,
     rate_limit_backend = ''memory'', redis_url = [], max_concurrent_executions_per_tenant = 20,
     secret_encryption_key = [], metrics_enabled = True, otel_exporter_otlp_endpoint = [],
     watchdog_interval_seconds = 15, scheduler_interval_seconds = 15, retention_interval_seconds = 3600,
     log_retention_days = 30, execution_retention_days = 90, queue_retention_days = 7,
     worker_retention_days = 7, webhook_timeout_seconds = 10, webhook_max_attempts = 5,
     allow_private_task_targets = False\<rparr>"

text \<open>The ranges of the \<open>Field\<close> declarations; a \<open>Settings\<close> object outside them is never built.\<close>

definition between :: "'a::linorder \<Rightarrow> 'a \<Rightarrow> 'a \<Rightarrow> bool" where
  "between lo hi x \<longleftrightarrow> lo \<le> x \<and> x \<le> hi"

definition settings_in_range :: "settings \<Rightarrow> bool" where
  "settings_in_range S \<longleftrightarrow>
     between 1 100 (database_pool_size S) \<and> between 0 100 (database_max_overflow S) \<and>
     between 1 120 (database_pool_timeout_seconds S) \<and>
     between 1 64 (worker_count S) \<and> between 100 10000 (worker_poll_interval_ms S) \<and>
     between 1 300 (worker_heartbeat_interval_seconds S) \<and>
     between 1 300 (worker_shutdown_grace_seconds S) \<and> between 5 3600 (queue_lease_seconds S) \<and>
     between 1 100 (queue_poison_max_attempts S) \<and> between 1 3600 (queue_aging_seconds S) \<and>
     between 1 1000 (max_concurrent_tasks_per_workflow S) \<and>
     between 1 86400 (max_task_timeout_seconds S) \<and> between 1 3650 (task_retention_days S) \<and>
     between 250 10000 (realtime_poll_interval_ms S) \<and>
     between 1024 50000000 (max_request_body_bytes S) \<and> between 1 300 (request_timeout_seconds S) \<and>
     between 0 300 (auth_cache_ttl_seconds S) \<and>
     between 1 1000000 (rate_limit_requests_per_minute S) \<and> between 1 100000 (rate_limit_burst S) \<and>
     between 1 10000 (max_concurrent_executions_per_tenant S) \<and>
     between 2 600 (watchdog_interval_seconds S) \<and> between 2 600 (scheduler_interval_seconds S) \<and>
     between 60 86400 (retention_interval_seconds S) \<and>
     between 1 3650 (log_retention_days S) \<and> between 1 3650 (execution_retention_days S) \<and>
     between 1 3650 (queue_retention_days S) \<and> between 1 3650 (worker_retention_days S) \<and>
     between 1 60 (webhook_timeout_seconds S) \<and> between 1 20 (webhook_max_attempts S)"

lemma default_settings_in_range: "settings_in_range default_settings"
  by (simp add: settings_in_range_def default_settings_def between_def)

section \<open>Strings as the settings code uses them\<close>

text \<open>
  \<open>str.lower\<close>, \<open>str.strip\<close> and \<open>str.split(c)\<close> on the ASCII range. Strings here are lists of
  8-bit characters, so code points above 255 are outside the model, and those above 127 have no
  case and are not white space here.
\<close>

definition lower_char :: "char \<Rightarrow> char" where
  "lower_char c = (if 65 \<le> (of_char c :: nat) \<and> (of_char c :: nat) \<le> 90 then char_of ((of_char c :: nat) + 32) else c)"

definition py_lower :: "string \<Rightarrow> string" where
  "py_lower s = map lower_char s"

definition is_space :: "char \<Rightarrow> bool" where
  "is_space c \<longleftrightarrow> (of_char c :: nat) \<in> {9, 10, 11, 12, 13, 28, 29, 30, 31, 32}"

definition py_strip :: "string \<Rightarrow> string" where
  "py_strip s = rev (dropWhile is_space (rev (dropWhile is_space s)))"

fun py_split :: "char \<Rightarrow> string \<Rightarrow> string list" where
  "py_split c [] = [[]]"
| "py_split c (x # xs) = (if x = c then [] # py_split c xs
     else (case py_split c xs of [] \<Rightarrow> [[x]] | w # ws \<Rightarrow> (x # w) # ws))"

lemma dropWhile_idem_rev:
  "dropWhile P (rev (dropWhile P (rev (dropWhile P xs)))) = rev (dropWhile P (rev (dropWhile P xs)))"
proof (cases "dropWhile P xs")
  case Nil
  then show ?thesis by (simp only: rev.simps dropWhile.simps)
next
  case (Cons y ys)
  then have y: "\<not> P y" by (metis hd_dropWhile list.distinct(1) list.sel(1))
  have "rev (dropWhile P (rev (y # ys))) = y # rev (dropWhile P (rev ys))"
  proof (cases "\<forall>z \<in> set (rev ys). P z")
    case True
    then have "dropWhile P (rev ys) = []" by (simp only: dropWhile_eq_Nil_conv)
    moreover have "dropWhile P (rev ys @ [y]) = dropWhile P [y]"
      using True by (intro dropWhile_append2) simp
    then have "dropWhile P (rev ys @ [y]) = [y]" using y by simp
    ultimately show ?thesis by (simp only: rev.simps append.simps)
  next
    case False
    then obtain z where "z \<in> set (rev ys)" and "\<not> P z" by auto
    then have "dropWhile P (rev ys @ [y]) = dropWhile P (rev ys) @ [y]"
      by (rule dropWhile_append1)
    then show ?thesis by simp
  qed
  with Cons y show ?thesis by simp
qed

lemma py_strip_idem [simp]: "py_strip (py_strip s) = py_strip s"
  by (simp add: py_strip_def dropWhile_idem_rev)

section \<open>Derived settings and the production validator\<close>

definition is_production :: "settings \<Rightarrow> bool" where
  "is_production S \<longleftrightarrow> py_lower (environment S) = ''production''"

definition cors_origin_list :: "settings \<Rightarrow> string list" where
  "cors_origin_list S = (let origins = map py_strip (filter (\<lambda>o'. py_strip o' \<noteq> []) (py_split CHR '','' (cors_origins S)))
     in if is_production S then origins
        else if origins \<noteq> [] then origins else [''http://localhost:5173'', ''http://127.0.0.1:5173''])"

definition validate_production_settings :: "settings \<Rightarrow> settings res" where
  "validate_production_settings S =
     (if realtime_bus S \<notin> {''auto'', ''postgres'', ''off''}
        then Inl (ValueError ''DEVFLOW_REALTIME_BUS must be one of: auto, postgres, off.'')
      else if is_production S then
        (if cors_origin_list S = []
           then Inl (ValueError ''DEVFLOW_CORS_ORIGINS must list at least one origin in production.'')
         else if bootstrap_api_key S = DEVELOPMENT_API_KEY \<or> length (bootstrap_api_key S) < 24
           then Inl (ValueError ''DEVFLOW_BOOTSTRAP_API_KEY must be a unique secret of at least 24 characters.'')
         else if secret_encryption_key S = []
           then Inl (ValueError ''DEVFLOW_SECRET_ENCRYPTION_KEY must be set in production.'')
         else if auto_migrate S
           then Inl (ValueError ''DEVFLOW_AUTO_MIGRATE must be false in production; run migrations as a release job.'')
         else Inr S)
      else Inr S)"

text \<open>What a production process that starts is known to run with.\<close>

lemma production_settings_hardened:
  assumes "validate_production_settings S = Inr S'" and "is_production S"
  shows "S' = S \<and> cors_origin_list S \<noteq> [] \<and> bootstrap_api_key S \<noteq> DEVELOPMENT_API_KEY \<and>
    24 \<le> length (bootstrap_api_key S) \<and> secret_encryption_key S \<noteq> [] \<and> \<not> auto_migrate S"
  using assms by (auto simp: validate_production_settings_def split: if_splits)

end
