(* ===== verification/Dag.thy ===== *)
theory Dag
  imports Entities
begin

text \<open>
  \<open>backend/services/dag_service.py\<close>: \<open>DagService.validate\<close>, Kahn's algorithm with its error
  cases. \<open>indegree\<close> is the Python dictionary, an association list in insertion order;
  \<open>adjacency\<close> is the \<open>defaultdict(list)\<close>, a function that is \<open>[]\<close> outside its keys.

  The lemmas show that the work list loop stops, that it visits exactly the tasks all of whose
  ancestors can be visited, and that \<open>validate\<close> therefore accepts a task list exactly when the
  names are distinct, every dependency exists and the dependency relation has no cycle.
\<close>

type_synonym indegrees = "(string \<times> int) list"
type_synonym adjacency = "string \<Rightarrow> string list"

section \<open>The code\<close>

text \<open>Lines 21-23: \<open>adjacency[dependency].append(name)\<close> and \<open>indegree[name] += 1\<close>.\<close>

definition bump :: "string \<Rightarrow> indegrees \<Rightarrow> indegrees" where
  "bump n ind = (case map_of ind n of None \<Rightarrow> ind | Some k \<Rightarrow> AList.update n (k + 1) ind)"

fun add_dependency :: "string set \<Rightarrow> string \<Rightarrow> adjacency \<times> indegrees \<Rightarrow> string \<Rightarrow>
    py_error + (adjacency \<times> indegrees)" where
  "add_dependency names name (adj, ind) dep =
     (if dep \<notin> names then Inl (DagValidationError (''Dependency '' @ quoted dep @ '' does not exist.''))
      else Inr (adj(dep := adj dep @ [name]), bump name ind))"

definition add_task :: "string set \<Rightarrow> adjacency \<times> indegrees \<Rightarrow> task_spec \<Rightarrow>
    py_error + (adjacency \<times> indegrees)" where
  "add_task names st t = fold_res (add_dependency names (ts_name t)) st (ts_deps t)"

text \<open>
  Lines 31-34: one neighbour's indegree goes down; it is queued when the indegree reaches 0.
\<close>

fun relax :: "string list \<Rightarrow> indegrees \<Rightarrow> string list \<Rightarrow> py_error + (indegrees \<times> string list)" where
  "relax [] ind queue = Inr (ind, queue)"
| "relax (n # ns) ind queue =
     (case map_of ind n of
        None \<Rightarrow> Inl (KeyError n)
      | Some k \<Rightarrow> relax ns (AList.update n (k - 1) ind) (if k - 1 = 0 then queue @ [n] else queue))"

text \<open>
  The \<open>while queue\<close> loop. What shrinks is the length of the queue plus the number of positive
  indegrees: a neighbour that is queued loses its positive indegree.
\<close>

definition positives :: "indegrees \<Rightarrow> nat" where
  "positives ind = card {n. \<exists>k. map_of ind n = Some k \<and> 0 < k}"

lemma finite_positives: "finite {n. \<exists>k. map_of ind n = Some k \<and> 0 < k}"
proof (rule finite_subset)
  show "{n. \<exists>k. map_of ind n = Some k \<and> 0 < k} \<subseteq> dom (map_of ind)" by auto
qed (simp add: finite_dom_map_of)

lemma positives_update:
  assumes "map_of ind n = Some k"
  shows "positives (AList.update n (k - 1) ind) + (if k - 1 = 0 then 1 else 0) \<le> positives ind"
proof -
  let ?P = "\<lambda>f. {n. \<exists>k. f n = Some k \<and> (0::int) < k}"
  let ?f = "map_of ind"
  have upd: "map_of (AList.update n (k - 1) ind) = ?f(n \<mapsto> k - 1)"
    by (simp add: update_conv')
  show ?thesis
  proof (cases "k - 1 = 0")
    case True
    then have k: "k = 1" by simp
    then have eq: "?P (?f(n \<mapsto> k - 1)) = ?P ?f - {n}" by auto
    have "n \<in> ?P ?f" using assms k by auto
    then have "Suc (card (?P ?f - {n})) = card (?P ?f)"
      by (rule card_Suc_Diff1 [OF finite_positives])
    then show ?thesis
      unfolding positives_def upd eq using k by simp
  next
    case False
    have "?P (?f(n \<mapsto> k - 1)) \<subseteq> ?P ?f" using assms by auto
    then have "card (?P (?f(n \<mapsto> k - 1))) \<le> card (?P ?f)"
      by (rule card_mono [OF finite_positives])
    then show ?thesis unfolding positives_def upd using False by simp
  qed
qed

lemma relax_measure:
  "relax ns ind queue = Inr (ind', queue') \<Longrightarrow>
   length queue' + positives ind' \<le> length queue + positives ind"
proof (induction ns arbitrary: ind queue)
  case Nil
  then show ?case by simp
next
  case (Cons n ns)
  then obtain k where k: "map_of ind n = Some k"
    and r: "relax ns (AList.update n (k - 1) ind) (if k - 1 = 0 then queue @ [n] else queue) = Inr (ind', queue')"
    by (auto split: option.splits)
  from Cons.IH [OF r] positives_update [OF k] show ?case
    by (simp split: if_splits)
qed

function kahn_loop :: "adjacency \<Rightarrow> indegrees \<Rightarrow> string list \<Rightarrow> nat \<Rightarrow> py_error + nat" where
  "kahn_loop adj ind [] visited = Inr visited"
| "kahn_loop adj ind (current # queue) visited =
     (case relax (adj current) ind queue of
        Inl e \<Rightarrow> Inl e
      | Inr (ind', queue') \<Rightarrow> kahn_loop adj ind' queue' (Suc visited))"
  by pat_completeness auto
termination
  by (relation "measure (\<lambda>(adj, ind, queue, visited). length queue + positives ind)")
     (auto dest: relax_measure)

definition validate :: "task_spec list \<Rightarrow> unit res" where
  "validate tasks =
     (let names = set (map ts_name tasks) in
      if card names \<noteq> length tasks
        then Inl (DagValidationError ''Task names must be unique within a workflow.'')
      else
        (case fold_res (add_task names) (\<lambda>_. [], map (\<lambda>t. (ts_name t, 0)) tasks) tasks of
           Inl e \<Rightarrow> Inl e
         | Inr (adj, ind) \<Rightarrow>
             (case kahn_loop adj ind (map fst (filter (\<lambda>(n, k). k = 0) ind)) 0 of
                Inl e \<Rightarrow> Inl e
              | Inr visited \<Rightarrow>
                  (if visited \<noteq> length tasks
                     then Inl (DagValidationError ''Workflow dependencies contain a cycle.'')
                   else Inr ()))))"

section \<open>What the graph-building loop computes\<close>

text \<open>The dependency entries in the order the loop meets them, with repetitions.\<close>

definition entries :: "task_spec list \<Rightarrow> (string \<times> string) list" where
  "entries tasks = concat (map (\<lambda>t. map (\<lambda>d. (d, ts_name t)) (ts_deps t)) tasks)"

definition adj_of :: "(string \<times> string) list \<Rightarrow> adjacency" where
  "adj_of E = (\<lambda>d. map snd (filter (\<lambda>e. fst e = d) E))"

definition pending_in :: "(string \<times> string) list \<Rightarrow> string set \<Rightarrow> string \<Rightarrow> int" where
  "pending_in E V n = int (length (filter (\<lambda>e. snd e = n \<and> fst e \<notin> V) E))"

definition built :: "string set \<Rightarrow> (string \<times> string) list \<Rightarrow> adjacency \<times> indegrees \<Rightarrow> bool" where
  "built N E st \<longleftrightarrow> fst st = adj_of E \<and> dom (map_of (snd st)) = N \<and> distinct (map fst (snd st)) \<and>
     (\<forall>n \<in> N. map_of (snd st) n = Some (pending_in E {} n))"

lemma built_add_dependency:
  assumes "built N E st" and "name \<in> N" and "dep \<in> N"
  shows "\<exists>st'. add_dependency N name st dep = Inr st' \<and> built N (E @ [(dep, name)]) st'"
proof -
  obtain adj ind where st: "st = (adj, ind)" by (cases st)
  from assms st have k: "map_of ind name = Some (pending_in E {} name)" by (simp add: built_def)
  have "built N (E @ [(dep, name)]) (adj(dep := adj dep @ [name]), bump name ind)"
    using assms(1) k st unfolding built_def
    by (auto simp: adj_of_def pending_in_def bump_def update_conv' distinct_update fun_eq_iff
        simp del: map_of_eq_Some_iff)
  with assms(3) st show ?thesis by simp
qed

lemma built_deps:
  "built N E st \<Longrightarrow> name \<in> N \<Longrightarrow> set deps \<subseteq> N \<Longrightarrow>
   \<exists>st'. fold_res (add_dependency N name) st deps = Inr st' \<and> built N (E @ map (\<lambda>d. (d, name)) deps) st'"
proof (induction deps arbitrary: E st)
  case Nil
  then show ?case by simp
next
  case (Cons d deps)
  then obtain st1 where "add_dependency N name st d = Inr st1" and "built N (E @ [(d, name)]) st1"
    using built_add_dependency [of N E st name d] by auto
  with Cons.IH [of "E @ [(d, name)]" st1] Cons.prems show ?case by simp
qed

lemma built_tasks:
  "built N E st \<Longrightarrow> ts_name ` set tasks \<subseteq> N \<Longrightarrow> (\<forall>t \<in> set tasks. set (ts_deps t) \<subseteq> N) \<Longrightarrow>
   \<exists>st'. fold_res (add_task N) st tasks = Inr st' \<and> built N (E @ entries tasks) st'"
proof (induction tasks arbitrary: E st)
  case Nil
  then show ?case by (simp add: entries_def)
next
  case (Cons t tasks)
  then obtain st1 where "add_task N st t = Inr st1"
    and "built N (E @ map (\<lambda>d. (d, ts_name t)) (ts_deps t)) st1"
    using built_deps [of N E st "ts_name t" "ts_deps t"] by (auto simp: add_task_def)
  with Cons.IH [OF this(2)] Cons.prems show ?case by (simp add: entries_def)
qed

lemma built_start:
  assumes "distinct (map ts_name tasks)"
  shows "built (ts_name ` set tasks) [] (\<lambda>_. [], map (\<lambda>t. (ts_name t, 0)) tasks)"
proof -
  have "map_of (map (\<lambda>t. (ts_name t, 0)) tasks) n = Some 0" if "n \<in> ts_name ` set tasks" for n
    using that by (induction tasks) auto
  moreover have "dom (map_of (map (\<lambda>t. (ts_name t, 0::int)) tasks)) = ts_name ` set tasks"
    by (simp add: dom_map_of_conv_image_fst image_image)
  ultimately show ?thesis
    using assms by (simp add: built_def adj_of_def pending_in_def comp_def)
qed

lemma missing_dep_error:
  assumes "\<not> (\<forall>t \<in> set tasks. set (ts_deps t) \<subseteq> N)"
  shows "\<exists>m. fold_res (add_task N) st tasks = Inl (DagValidationError m)"
proof -
  have only: "r = DagValidationError (''Dependency '' @ quoted d @ '' does not exist.'')"
    if "add_dependency N name st d = Inl r" for r st name d
    using that by (cases st) (auto split: if_splits)
  have only_deps: "\<exists>m. r = DagValidationError m"
    if "fold_res (add_dependency N name) st deps = Inl r" for r st name deps
    using that by (induction deps arbitrary: st) (auto split: sum.splits dest: only)
  have one: "\<exists>m. fold_res (add_dependency N name) st deps = Inl (DagValidationError m)"
    if "\<not> set deps \<subseteq> N" for st name deps
    using that
  proof (induction deps arbitrary: st)
    case Nil
    then show ?case by simp
  next
    case (Cons d deps)
    then show ?case
      by (cases st; cases "d \<in> N") auto
  qed
  from assms show ?thesis
  proof (induction tasks arbitrary: st)
    case Nil
    then show ?case by simp
  next
    case (Cons t tasks)
    show ?case
    proof (cases "fold_res (add_dependency N (ts_name t)) st (ts_deps t)")
      case (Inl r)
      with only_deps show ?thesis by (auto simp: add_task_def)
    next
      case (Inr st1)
      then have "set (ts_deps t) \<subseteq> N" using one [of "ts_deps t" "ts_name t" st] by auto
      with Cons Inr show ?thesis by (auto simp: add_task_def)
    qed
  qed
qed


section \<open>What the work list loop computes\<close>

text \<open>
  \<open>relax\<close> subtracts from each neighbour the number of its occurrences, and queues exactly the
  neighbours whose indegree reaches 0.
\<close>

lemma relax_correct:
  "(\<forall>m \<in> set ns. \<exists>k. map_of ind m = Some k \<and> int (count_list ns m) \<le> k) \<Longrightarrow>
   \<exists>ind' new. relax ns ind queue = Inr (ind', queue @ new) \<and>
     map_of ind' = (\<lambda>m. map_option (\<lambda>k. k - int (count_list ns m)) (map_of ind m)) \<and>
     distinct new \<and> set new = {m \<in> set ns. map_of ind m = Some (int (count_list ns m))}"
proof (induction ns arbitrary: ind queue)
  case Nil
  then show ?case by (auto simp: option.map_ident fun_eq_iff)
next
  case (Cons n ns)
  from Cons.prems obtain k where k: "map_of ind n = Some k" and kc: "int (count_list ns n) + 1 \<le> k"
    by auto
  let ?ind = "AList.update n (k - 1) ind"
  let ?q = "if k - 1 = 0 then queue @ [n] else queue"
  have upd: "map_of ?ind = (map_of ind)(n \<mapsto> k - 1)" by (simp add: update_conv')
  have "\<forall>m \<in> set ns. \<exists>k. map_of ?ind m = Some k \<and> int (count_list ns m) \<le> k"
    using Cons.prems kc by (auto simp: upd split: if_splits)
  from Cons.IH [OF this, of ?q] obtain ind' new where
    r: "relax ns ?ind ?q = Inr (ind', ?q @ new)"
    and m: "map_of ind' = (\<lambda>m. map_option (\<lambda>k. k - int (count_list ns m)) (map_of ?ind m))"
    and d: "distinct new" and s: "set new = {m \<in> set ns. map_of ?ind m = Some (int (count_list ns m))}"
    by blast
  have m': "map_of ind' = (\<lambda>m. map_option (\<lambda>k. k - int (count_list (n # ns) m)) (map_of ind m))"
    using k by (auto simp: m upd fun_eq_iff)
  show ?case
  proof (cases "k - 1 = 0")
    case True
    with kc have n0: "n \<notin> set ns" by (simp add: count_list_0_iff [symmetric])
    then have new: "set (n # new) = {m \<in> set (n # ns). map_of ind m = Some (int (count_list (n # ns) m))}"
      using True k by (auto simp: s update_conv' count_list_0_iff)
    have "distinct (n # new)" using d n0 s by auto
    with r m' new True k show ?thesis
      by (intro exI [of _ ind'] exI [of _ "n # new"]) simp
  next
    case False
    have new: "set new = {m \<in> set (n # ns). map_of ind m = Some (int (count_list (n # ns) m))}"
      using False k kc by (auto simp: s upd count_list_0_iff split: if_splits)
    with r m' d False k show ?thesis
      by (intro exI [of _ ind'] exI [of _ new]) simp
  qed
qed

text \<open>
  The loop invariant: \<open>V\<close> the tasks taken off the queue, in order. Every task in \<open>V\<close> or in the
  queue has all its dependencies in \<open>V\<close>, and \<open>V\<close> lists dependencies before dependents.
\<close>

definition topo_listed :: "(string \<times> string) list \<Rightarrow> string list \<Rightarrow> bool" where
  "topo_listed E V \<longleftrightarrow> (\<forall>xs n ys. V = xs @ n # ys \<longrightarrow> (\<forall>d. (d, n) \<in> set E \<longrightarrow> d \<in> set xs))"

definition kahn_inv :: "string set \<Rightarrow> (string \<times> string) list \<Rightarrow> indegrees \<Rightarrow> string list \<Rightarrow> string list \<Rightarrow> bool" where
  "kahn_inv N E ind V queue \<longleftrightarrow> distinct (V @ queue) \<and> set (V @ queue) \<subseteq> N \<and>
     dom (map_of ind) = N \<and> (\<forall>n \<in> N. map_of ind n = Some (pending_in E (set V) n)) \<and>
     (\<forall>n \<in> N. n \<in> set (V @ queue) \<longleftrightarrow> pending_in E (set V) n = 0) \<and> topo_listed E V"

lemma pending_in_0: "pending_in E V n = 0 \<longleftrightarrow> (\<forall>d. (d, n) \<in> set E \<longrightarrow> d \<in> V)"
  by (auto simp: pending_in_def filter_empty_conv)

lemma pending_in_insert:
  "c \<notin> V \<Longrightarrow> pending_in E (insert c V) n = pending_in E V n - int (count_list (adj_of E c) n)"
  by (induction E) (auto simp: pending_in_def adj_of_def)

lemma pending_in_ge: "c \<notin> V \<Longrightarrow> int (count_list (adj_of E c) n) \<le> pending_in E V n"
  by (induction E) (auto simp: pending_in_def adj_of_def)

lemma set_adj_of: "set (adj_of E c) = {n. (c, n) \<in> set E}"
  by (force simp: adj_of_def)

lemma topo_listed_snoc:
  assumes "topo_listed E V" and "\<forall>d. (d, n) \<in> set E \<longrightarrow> d \<in> set V"
  shows "topo_listed E (V @ [n])"
  unfolding topo_listed_def
proof (intro allI impI)
  fix xs m ys d
  assume eq: "V @ [n] = xs @ m # ys" and "(d, m) \<in> set E"
  then show "d \<in> set xs"
    using assms unfolding topo_listed_def by (cases ys rule: rev_cases) auto
qed

lemma kahn_step:
  assumes inv: "kahn_inv N E ind V (c # queue)" and closed: "snd ` set E \<subseteq> N"
  shows "\<exists>ind' queue'. relax (adj_of E c) ind queue = Inr (ind', queue') \<and>
    kahn_inv N E ind' (V @ [c]) queue'"
proof -
  from inv have cV: "c \<notin> set V" and cN: "c \<in> N" and dist: "distinct (V @ c # queue)"
    and dom: "dom (map_of ind) = N"
    and ind: "\<forall>n \<in> N. map_of ind n = Some (pending_in E (set V) n)"
    and zero: "\<forall>n \<in> N. n \<in> set (V @ c # queue) \<longleftrightarrow> pending_in E (set V) n = 0"
    and topo: "topo_listed E V" and sub: "set (V @ c # queue) \<subseteq> N"
    by (auto simp: kahn_inv_def)
  have nsN: "set (adj_of E c) \<subseteq> N" using closed by (force simp: set_adj_of)
  have "\<forall>m \<in> set (adj_of E c). \<exists>k. map_of ind m = Some k \<and> int (count_list (adj_of E c) m) \<le> k"
    using ind nsN pending_in_ge [OF cV] by blast
  from relax_correct [OF this, of queue] obtain ind' new where
    r: "relax (adj_of E c) ind queue = Inr (ind', queue @ new)"
    and m: "map_of ind' = (\<lambda>m. map_option (\<lambda>k. k - int (count_list (adj_of E c) m)) (map_of ind m))"
    and d: "distinct new"
    and s: "set new = {m \<in> set (adj_of E c). map_of ind m = Some (int (count_list (adj_of E c) m))}"
    by blast
  let ?V = "set (V @ [c])"
  have pend: "pending_in E ?V n = pending_in E (set V) n - int (count_list (adj_of E c) n)" for n
    using pending_in_insert [OF cV] by simp
  have ind': "\<forall>n \<in> N. map_of ind' n = Some (pending_in E ?V n)"
    using ind pend by (simp add: m)
  have dom': "dom (map_of ind') = N" using dom by (auto simp: m)
  have new_iff: "n \<in> set new \<longleftrightarrow> n \<in> set (adj_of E c) \<and> pending_in E ?V n = 0" if "n \<in> N" for n
    using that ind pend [of n] by (auto simp: s)
  have zero': "n \<in> set ((V @ [c]) @ queue @ new) \<longleftrightarrow> pending_in E ?V n = 0" if n: "n \<in> N" for n
  proof
    assume "n \<in> set ((V @ [c]) @ queue @ new)"
    then consider "n \<in> set new" | "n \<in> set (V @ c # queue)" by auto
    then show "pending_in E ?V n = 0"
    proof cases
      case 1
      then show ?thesis using new_iff [OF n] by simp
    next
      case 2
      then have "pending_in E (set V) n = 0" using zero n by simp
      then show ?thesis by (auto simp: pending_in_0)
    qed
  next
    assume z: "pending_in E ?V n = 0"
    show "n \<in> set ((V @ [c]) @ queue @ new)"
    proof (cases "n \<in> set (adj_of E c)")
      case True
      then show ?thesis using new_iff [OF n] z by simp
    next
      case False
      then have "count_list (adj_of E c) n = 0" by (simp add: count_list_0_iff)
      with z pend [of n] have "pending_in E (set V) n = 0" by simp
      then have "n \<in> set (V @ c # queue)" using zero n by simp
      then show ?thesis by auto
    qed
  qed
  have "set new \<inter> set (V @ c # queue) = {}"
  proof -
    have "n \<notin> set (V @ c # queue)" if "n \<in> set new" for n
    proof -
      from that have e: "(c, n) \<in> set E" by (simp add: s set_adj_of)
      then have "pending_in E (set V) n \<noteq> 0" using cV by (auto simp: pending_in_0)
      moreover have "n \<in> N" using e closed by force
      ultimately show ?thesis using zero by simp
    qed
    then show ?thesis by auto
  qed
  then have dist': "distinct ((V @ [c]) @ queue @ new)" using dist d by auto
  have "topo_listed E (V @ [c])"
    using topo zero cN by (intro topo_listed_snoc) (auto simp: pending_in_0)
  moreover have "set ((V @ [c]) @ queue @ new) \<subseteq> N" using sub nsN s by auto
  ultimately have "kahn_inv N E ind' (V @ [c]) (queue @ new)"
    using dist' dom' ind' zero' by (simp add: kahn_inv_def)
  with r show ?thesis by blast
qed

lemma kahn_loop_correct:
  "adj = adj_of E \<Longrightarrow> snd ` set E \<subseteq> N \<Longrightarrow> kahn_inv N E ind V queue \<Longrightarrow> visited = length V \<Longrightarrow>
   \<exists>V' ind'. kahn_loop adj ind queue visited = Inr (length V') \<and> kahn_inv N E ind' V' []"
proof (induction adj ind queue visited arbitrary: V rule: kahn_loop.induct)
  case (1 adj ind visited)
  then show ?case by auto
next
  case (2 adj ind current queue visited)
  from kahn_step [OF "2.prems"(3,2)] "2.prems"(1) obtain ind' queue' where
    r: "relax (adj current) ind queue = Inr (ind', queue')" and i: "kahn_inv N E ind' (V @ [current]) queue'"
    by auto
  have "\<exists>V' ind''. kahn_loop adj ind' queue' (Suc visited) = Inr (length V') \<and> kahn_inv N E ind'' V' []"
    using "2.IH" [OF r refl "2.prems"(1,2) i] "2.prems"(4) by simp
  then show ?case by (simp add: r)
qed


section \<open>Acceptance\<close>

text \<open>The dependency relation: \<open>(d, n)\<close> when task \<open>n\<close> lists \<open>d\<close> among its dependencies.\<close>

definition edges :: "task_spec list \<Rightarrow> (string \<times> string) set" where
  "edges tasks = {(d, ts_name t) |d t. t \<in> set tasks \<and> d \<in> set (ts_deps t)}"

definition well_formed_dag :: "task_spec list \<Rightarrow> bool" where
  "well_formed_dag tasks \<longleftrightarrow> distinct (map ts_name tasks) \<and>
     (\<forall>t \<in> set tasks. set (ts_deps t) \<subseteq> ts_name ` set tasks) \<and> acyclic (edges tasks)"

lemma set_entries: "set (entries tasks) = edges tasks"
  by (auto simp: entries_def edges_def)

lemma topo_listed_acyclic:
  assumes "topo_listed E V" and "snd ` set E \<subseteq> set V"
  shows "acyclic (set E)"
proof (rule acyclicI_order [where f = "\<lambda>x. - int (length (takeWhile (\<lambda>y. y \<noteq> x) V))"])
  fix a b assume ab: "(a, b) \<in> set E"
  with assms(2) have "b \<in> set V" by force
  then obtain xs ys where V: "V = xs @ b # ys" and b: "b \<notin> set xs"
    by (meson split_list_first)
  with assms(1) ab have "a \<in> set xs" by (auto simp: topo_listed_def)
  then obtain us vs where xs: "xs = us @ a # vs" and a: "a \<notin> set us" by (meson split_list_first)
  from b have "takeWhile (\<lambda>y. y \<noteq> b) V = xs" by (auto simp: V takeWhile_append)
  moreover from a have "takeWhile (\<lambda>y. y \<noteq> a) V = us" by (auto simp: V xs takeWhile_append)
  ultimately show "- int (length (takeWhile (\<lambda>y. y \<noteq> b) V)) < - int (length (takeWhile (\<lambda>y. y \<noteq> a) V))"
    by (simp add: xs)
qed

lemma kahn_visits_all:
  assumes inv: "kahn_inv N E ind V []" and "acyclic (set E)" and closed: "fst ` set E \<subseteq> N"
  shows "set V = N"
proof (rule ccontr)
  assume "set V \<noteq> N"
  with inv obtain n where n: "n \<in> N - set V" by (auto simp: kahn_inv_def)
  from assms(2) have "wf (set E)" by (simp add: finite_acyclic_wf)
  from wfE_min [OF this n] obtain z where z: "z \<in> N - set V"
    and min: "\<And>y. (y, z) \<in> set E \<Longrightarrow> y \<notin> N - set V" by blast
  have "\<forall>d. (d, z) \<in> set E \<longrightarrow> d \<in> set V" using min closed by force
  then have "z \<in> set V" using inv z by (auto simp: kahn_inv_def pending_in_0)
  with z show False by simp
qed

lemma kahn_start:
  assumes b: "built N E (adj, ind)"
  shows "kahn_inv N E ind [] (map fst (filter (\<lambda>(n, k). k = 0) ind))"
proof -
  have dist: "distinct (map fst ind)" and dom: "dom (map_of ind) = N"
    and ind: "\<forall>n \<in> N. map_of ind n = Some (pending_in E {} n)"
    using b by (simp_all add: built_def)
  let ?q = "map fst (filter (\<lambda>(n, k). k = 0) ind)"
  have "set ?q = {n. map_of ind n = Some 0}"
    using dist by (force simp: image_iff)
  moreover have "distinct ?q" using dist by (rule distinct_map_filter)
  ultimately show ?thesis
    using dom ind by (auto simp: kahn_inv_def topo_listed_def)
qed

lemma validate_built:
  assumes "distinct (map ts_name tasks)"
    and "\<forall>t \<in> set tasks. set (ts_deps t) \<subseteq> ts_name ` set tasks"
  shows "validate tasks = Inr () \<longleftrightarrow> acyclic (edges tasks)"
    and "\<not> acyclic (edges tasks) \<Longrightarrow>
      validate tasks = Inl (DagValidationError ''Workflow dependencies contain a cycle.'')"
proof -
  let ?N = "ts_name ` set tasks" and ?E = "entries tasks"
  have card: "card ?N = length tasks"
    using distinct_card [OF assms(1)] by simp
  have closed: "fst ` set ?E \<subseteq> ?N" "snd ` set ?E \<subseteq> ?N"
    using assms(2) by (auto simp: set_entries edges_def subset_iff)
  from built_tasks [OF built_start [OF assms(1)] subset_refl assms(2)] obtain adj ind where
    st: "fold_res (add_task ?N) (\<lambda>_. [], map (\<lambda>t. (ts_name t, 0)) tasks) tasks = Inr (adj, ind)"
    and b: "built ?N ?E (adj, ind)" by auto
  from b have adj: "adj = adj_of ?E" by (simp add: built_def)
  from kahn_loop_correct [OF adj closed(2) kahn_start [OF b] refl] obtain V ind' where
    k: "kahn_loop adj ind (map fst (filter (\<lambda>(n, k). k = 0) ind)) 0 = Inr (length V)"
    and i: "kahn_inv ?N ?E ind' V []" by auto
  have dV: "distinct V" and sV: "set V \<subseteq> ?N" and tV: "topo_listed ?E V"
    using i by (auto simp: kahn_inv_def)
  have full: "length V = length tasks \<longleftrightarrow> set V = ?N"
    using distinct_card [OF dV] sV card card_subset_eq [of ?N "set V"] by auto
  have acy: "set V = ?N \<longleftrightarrow> acyclic (edges tasks)"
    using topo_listed_acyclic [OF tV] kahn_visits_all [OF i _ closed(1)] closed(2)
    by (auto simp: set_entries)
  have res: "validate tasks = (if length V \<noteq> length tasks
      then Inl (DagValidationError ''Workflow dependencies contain a cycle.'') else Inr ())"
    using st k card by (simp add: validate_def)
  from res full acy show "validate tasks = Inr () \<longleftrightarrow> acyclic (edges tasks)"
    and "\<not> acyclic (edges tasks) \<Longrightarrow>
      validate tasks = Inl (DagValidationError ''Workflow dependencies contain a cycle.'')"
    by auto
qed

lemma validate_duplicate:
  "\<not> distinct (map ts_name tasks) \<Longrightarrow>
   validate tasks = Inl (DagValidationError ''Task names must be unique within a workflow.'')"
  using card_distinct [of "map ts_name tasks"] by (auto simp: validate_def)

lemma validate_missing:
  assumes "distinct (map ts_name tasks)"
    and "\<not> (\<forall>t \<in> set tasks. set (ts_deps t) \<subseteq> ts_name ` set tasks)"
  shows "\<exists>m. validate tasks = Inl (DagValidationError m)"
proof -
  have "card (ts_name ` set tasks) = length tasks"
    using distinct_card [OF assms(1)] by simp
  moreover obtain m where "fold_res (add_task (ts_name ` set tasks))
      (\<lambda>_. [], map (\<lambda>t. (ts_name t, 0)) tasks) tasks = Inl (DagValidationError m)"
    using missing_dep_error [OF assms(2)] by blast
  ultimately show ?thesis by (simp add: validate_def)
qed

lemma validate_iff: "validate tasks = Inr () \<longleftrightarrow> well_formed_dag tasks"
proof (cases "distinct (map ts_name tasks)")
  case False
  then show ?thesis by (simp add: validate_duplicate well_formed_dag_def)
next
  case d: True
  show ?thesis
  proof (cases "\<forall>t \<in> set tasks. set (ts_deps t) \<subseteq> ts_name ` set tasks")
    case True
    with d show ?thesis by (simp add: validate_built(1) well_formed_dag_def)
  next
    case False
    with validate_missing [OF d] show ?thesis by (auto simp: well_formed_dag_def)
  qed
qed

text \<open>Every rejection is a \<open>DagValidationError\<close>: no \<open>KeyError\<close> escapes the loop.\<close>

lemma validate_only_dag_errors:
  "validate tasks = Inl e \<Longrightarrow> \<exists>m. e = DagValidationError m"
proof -
  assume e: "validate tasks = Inl e"
  show ?thesis
  proof (cases "distinct (map ts_name tasks)")
    case False
    with e show ?thesis by (auto simp: validate_duplicate)
  next
    case d: True
    show ?thesis
    proof (cases "\<forall>t \<in> set tasks. set (ts_deps t) \<subseteq> ts_name ` set tasks")
      case True
      with validate_built [OF d True] e show ?thesis by (cases "acyclic (edges tasks)") auto
    next
      case False
      with validate_missing [OF d] e show ?thesis by auto
    qed
  qed
qed

text \<open>An accepted task list has a topological order: the order in which the loop visits it.\<close>

lemma well_formed_topo_order:
  assumes "well_formed_dag tasks"
  shows "\<exists>V. distinct V \<and> set V = ts_name ` set tasks \<and> topo_listed (entries tasks) V"
proof -
  let ?N = "ts_name ` set tasks" and ?E = "entries tasks"
  from assms have d: "distinct (map ts_name tasks)"
    and c: "\<forall>t \<in> set tasks. set (ts_deps t) \<subseteq> ?N" and a: "acyclic (set ?E)"
    by (auto simp: well_formed_dag_def set_entries)
  have closed: "fst ` set ?E \<subseteq> ?N" "snd ` set ?E \<subseteq> ?N"
    using c by (auto simp: set_entries edges_def subset_iff)
  from built_tasks [OF built_start [OF d] subset_refl c] obtain adj ind where
    b: "built ?N ?E (adj, ind)" by auto
  from b have adj: "adj = adj_of ?E" by (simp add: built_def)
  from kahn_loop_correct [OF adj closed(2) kahn_start [OF b] refl] obtain V ind' where
    i: "kahn_inv ?N ?E ind' V []" by auto
  from kahn_visits_all [OF i a closed(1)] i show ?thesis
    by (intro exI [of _ V]) (auto simp: kahn_inv_def)
qed


section \<open>Properties\<close>

text \<open>C3. \<open>DagService.validate\<close> accepts a task list exactly when the task names are distinct, every
  dependency names a task of the list, and the dependency relation is acyclic.\<close>

theorem dag_validate_iff:
  "validate tasks = Inr () \<longleftrightarrow>
     distinct (map ts_name tasks) \<and>
     (\<forall>t \<in> set tasks. set (ts_deps t) \<subseteq> ts_name ` set tasks) \<and>
     acyclic (edges tasks)"
  using validate_iff [of tasks] by (simp add: well_formed_dag_def)

text \<open>An instance: a fan-out with a join is accepted, and a two-task cycle is refused.\<close>

definition fan_tasks :: "task_spec list" where
  "fan_tasks = map (\<lambda>(n, ds). \<lparr>ts_name = n, ts_deps = ds, ts_config = empty_config\<rparr>)
     [(''join'', [''a'', ''b'']), (''a'', [''start'']), (''b'', [''start'']), (''start'', [])]"

lemma validate_fan: "validate fan_tasks = Inr ()"
  by code_simp

lemma validate_cycle:
  "validate (map (\<lambda>(n, ds). \<lparr>ts_name = n, ts_deps = ds, ts_config = empty_config\<rparr>)
     [(''a'', [''b'']), (''b'', [''a''])]) =
   Inl (DagValidationError ''Workflow dependencies contain a cycle.'')"
  by code_simp

lemma dag_validate_iff_witness: "validate fan_tasks = Inr () \<and> acyclic (edges fan_tasks)"
  using validate_fan dag_validate_iff [of fan_tasks] by simp

end
