(* ===== verification/Job_Queue.thy ===== *)
theory Job_Queue
  imports Settings
begin

text \<open>
  \<open>backend/queue/job_queue.py\<close>: the durable queue. The table \<open>queue_jobs\<close> is a list of \<open>job\<close>
  rows; every method is a function on the table (and on the process-local dead-letter buffer where
  it touches it) that takes the value of \<open>utc_now()\<close>. A method is one transaction, except that a
  claim is split into the \<open>SELECT\<close> (\<open>select_candidate\<close>) and the guarded \<open>UPDATE .. RETURNING\<close>
  (\<open>claim_update\<close>), so that two workers' claims can interleave. Database failures
  (\<open>SQLAlchemyError\<close>) are outside the model, except in \<open>stats\<close>, which reports them.

  The lemmas give each row's state machine, the row invariant \<open>job_ok\<close> (leases, attempt bounds,
  dead letters), the order in which jobs are claimed, and the exclusivity of leases.
\<close>

section \<open>In-memory jobs and the process state\<close>

record queue_job =
  jb_id :: uid
  jb_etask :: uid
  jb_execution :: uid
  jb_task :: uid
  jb_tenant :: uid
  jb_workflow :: uid
  jb_priority :: int
  jb_available_at :: time
  jb_retry_count :: int
  jb_attempts :: int
  jb_max_attempts :: int
  jb_enqueued_at :: time

definition job_sort_key :: "queue_job \<Rightarrow> time \<times> int \<times> uid" where
  "job_sort_key j = (jb_available_at j, - jb_priority j, jb_id j)"

record dead_letter =
  dl_id :: uid
  dl_etask :: uid
  dl_execution :: uid
  dl_task :: uid
  dl_tenant :: uid
  dl_attempts :: int
  dl_error :: string

record queue_mem =
  last_requeue_at :: time
  dead_letter_buffer :: "dead_letter list"

definition init_queue_mem :: queue_mem where
  "init_queue_mem = \<lparr>last_requeue_at = 0, dead_letter_buffer = []\<rparr>"

definition requeue_interval :: "settings \<Rightarrow> time" where
  "requeue_interval S = max (secs 1) (min (queue_lease_seconds S * 500000) (secs 5))"

section \<open>Operations\<close>

definition enqueue :: "time \<Rightarrow> queue_job \<Rightarrow> job list \<Rightarrow> job list res" where
  "enqueue now j rows =
     (if jb_tenant j = [] then Inl (ValueError ''Queue jobs must carry a tenant_id.'')
      else Inr (rows @ [\<lparr>qj_id = jb_id j, qj_tenant = jb_tenant j, qj_workflow = jb_workflow j,
        qj_etask = jb_etask j, qj_execution = jb_execution j, qj_task = jb_task j,
        qj_priority = jb_priority j, qj_available_at = jb_available_at j,
        qj_retry_count = jb_retry_count j, qj_attempts = jb_attempts j,
        qj_max_attempts = jb_max_attempts j, qj_dead_lettered = False, qj_last_error = None,
        qj_state = QQueued, qj_leased_by = None, qj_leased_at = None, qj_lease_expires_at = None,
        qj_completed_at = None, qj_created_at = now\<rparr>]))"

definition leased_count :: "uid \<Rightarrow> job list \<Rightarrow> int" where
  "leased_count w rows = int (length (filter (\<lambda>r. qj_state r = QLeased \<and> qj_workflow r = w) rows))"

definition claim_query :: "settings \<Rightarrow> job list \<Rightarrow> job \<Rightarrow> bool" where
  "claim_query S rows c \<longleftrightarrow> leased_count (qj_workflow c) rows < max_concurrent_tasks_per_workflow S"

definition claimable :: "settings \<Rightarrow> time \<Rightarrow> job list \<Rightarrow> job \<Rightarrow> bool" where
  "claimable S now rows r \<longleftrightarrow> qj_state r = QQueued \<and> qj_available_at r \<le> now \<and> claim_query S rows r"

text \<open>
  The \<open>ORDER BY\<close>: aged jobs first, then higher priority, then earlier availability, then earlier
  creation. Ties keep scan order.
\<close>

definition claim_key :: "settings \<Rightarrow> time \<Rightarrow> job \<Rightarrow> int \<times> int \<times> time \<times> time" where
  "claim_key S now r =
     (if qj_available_at r \<le> now - secs (queue_aging_seconds S) then 0 else 1,
      - qj_priority r, qj_available_at r, qj_created_at r)"

text \<open>
  \<open>locked\<close> are the rows that other open transactions hold; on PostgreSQL \<open>FOR UPDATE SKIP LOCKED\<close>
  passes over them. On SQLite it is empty.
\<close>

definition select_candidate :: "settings \<Rightarrow> time \<Rightarrow> uid list \<Rightarrow> job list \<Rightarrow> job option" where
  "select_candidate S now locked rows =
     (case sort_key (claim_key S now) (filter (\<lambda>r. claimable S now rows r \<and> qj_id r \<notin> set locked) rows) of
        [] \<Rightarrow> None | r # _ \<Rightarrow> Some r)"

definition lease_to :: "settings \<Rightarrow> time \<Rightarrow> string \<Rightarrow> job \<Rightarrow> job" where
  "lease_to S now worker r = r\<lparr>qj_state := QLeased, qj_leased_by := Some worker,
     qj_leased_at := Some now, qj_lease_expires_at := Some (now + secs (queue_lease_seconds S)),
     qj_attempts := qj_attempts r + 1\<rparr>"

definition job_of_row :: "job \<Rightarrow> queue_job" where
  "job_of_row r = \<lparr>jb_id = qj_id r, jb_etask = qj_etask r, jb_execution = qj_execution r,
     jb_task = qj_task r, jb_tenant = qj_tenant r, jb_workflow = qj_workflow r,
     jb_priority = qj_priority r, jb_available_at = qj_available_at r,
     jb_retry_count = qj_retry_count r, jb_attempts = qj_attempts r,
     jb_max_attempts = qj_max_attempts r, jb_enqueued_at = qj_created_at r\<rparr>"

definition claim_update :: "settings \<Rightarrow> time \<Rightarrow> string \<Rightarrow> uid \<Rightarrow> job list \<Rightarrow> queue_job option \<times> job list" where
  "claim_update S now worker jid rows =
     (case find (\<lambda>r. qj_id r = jid \<and> qj_state r = QQueued) rows of
        None \<Rightarrow> (None, rows)
      | Some r \<Rightarrow> (Some (job_of_row (lease_to S now worker r)),
          upd_where (\<lambda>r. qj_id r = jid \<and> qj_state r = QQueued) (lease_to S now worker) rows))"

definition claim_next_available :: "settings \<Rightarrow> time \<Rightarrow> uid list \<Rightarrow> string \<Rightarrow> job list \<Rightarrow> queue_job option \<times> job list" where
  "claim_next_available S now locked worker rows =
     (case select_candidate S now locked rows of
        None \<Rightarrow> (None, rows)
      | Some c \<Rightarrow> claim_update S now worker (qj_id c) rows)"

definition renew_lease :: "settings \<Rightarrow> time \<Rightarrow> uid \<Rightarrow> string \<Rightarrow> job list \<Rightarrow> bool \<times> job list" where
  "renew_lease S now jid worker rows =
     (let P = (\<lambda>r. qj_id r = jid \<and> qj_state r = QLeased \<and> qj_leased_by r = Some worker)
      in (filter P rows \<noteq> [],
          upd_where P (\<lambda>r. r\<lparr>qj_lease_expires_at := Some (now + secs (queue_lease_seconds S))\<rparr>) rows))"

definition acknowledge :: "time \<Rightarrow> uid \<Rightarrow> job list \<Rightarrow> job list" where
  "acknowledge now jid rows =
     upd_where (\<lambda>r. qj_id r = jid \<and> qj_state r \<noteq> QCancelled)
       (\<lambda>r. r\<lparr>qj_state := QCompleted, qj_completed_at := Some now, qj_leased_by := None,
              qj_leased_at := None, qj_lease_expires_at := None\<rparr>) rows"

definition cancel_execution_jobs :: "time \<Rightarrow> uid \<Rightarrow> job list \<Rightarrow> job list" where
  "cancel_execution_jobs now eid rows =
     upd_where (\<lambda>r. qj_execution r = eid \<and> qj_state r \<in> {QQueued, QLeased})
       (\<lambda>r. r\<lparr>qj_state := QCancelled, qj_completed_at := Some now, qj_lease_expires_at := None\<rparr>) rows"

definition cancel_task_jobs :: "time \<Rightarrow> uid \<Rightarrow> job list \<Rightarrow> job list" where
  "cancel_task_jobs now tid rows =
     upd_where (\<lambda>r. qj_etask r = tid \<and> qj_state r = QQueued)
       (\<lambda>r. r\<lparr>qj_state := QCancelled, qj_completed_at := Some now\<rparr>) rows"

text \<open>\<open>requeue_stale_jobs\<close>: expired leases go back to the queue or, out of attempts, to dead letters.\<close>

definition lease_expired :: "time \<Rightarrow> job \<Rightarrow> bool" where
  "lease_expired now r \<longleftrightarrow> qj_state r = QLeased \<and>
     (case qj_lease_expires_at r of None \<Rightarrow> False | Some e \<Rightarrow> e < now)"

definition exceeded_error :: "job \<Rightarrow> string" where
  "exceeded_error r = ''Job exceeded '' @ int_str (qj_max_attempts r) @ '' attempts after repeated worker loss.''"

definition reap_job :: "time \<Rightarrow> job \<Rightarrow> job" where
  "reap_job now r =
     (if qj_max_attempts r \<le> qj_attempts r
        then r\<lparr>qj_state := QFailed, qj_dead_lettered := True, qj_completed_at := Some now,
               qj_lease_expires_at := None, qj_last_error := Some (exceeded_error r)\<rparr>
        else r\<lparr>qj_state := QQueued, qj_leased_by := None, qj_leased_at := None,
               qj_lease_expires_at := None,
               qj_last_error := Some (''Lease expired after attempt '' @ int_str (qj_attempts r) @ ''.'')\<rparr>)"

definition dead_letter_of :: "job \<Rightarrow> dead_letter" where
  "dead_letter_of r = \<lparr>dl_id = qj_id r, dl_etask = qj_etask r, dl_execution = qj_execution r,
     dl_task = qj_task r, dl_tenant = qj_tenant r, dl_attempts = qj_attempts r,
     dl_error = exceeded_error r\<rparr>"

definition requeue_stale_jobs :: "time \<Rightarrow> job list \<times> queue_mem \<Rightarrow> dead_letter list \<times> job list \<times> queue_mem" where
  "requeue_stale_jobs now st = (case st of (rows, mem) \<Rightarrow>
     let dead = map dead_letter_of (filter (\<lambda>r. lease_expired now r \<and> qj_max_attempts r \<le> qj_attempts r) rows)
     in (dead, upd_where (lease_expired now) (reap_job now) rows,
         mem\<lparr>dead_letter_buffer := dead_letter_buffer mem @ dead\<rparr>))"

definition drain_dead_letters :: "queue_mem \<Rightarrow> dead_letter list \<times> queue_mem" where
  "drain_dead_letters mem = (dead_letter_buffer mem, mem\<lparr>dead_letter_buffer := []\<rparr>)"

text \<open>\<open>t\<close> is the monotonic time of the event loop, \<open>now\<close> the UTC time.\<close>

definition requeue_stale_jobs_if_due :: "settings \<Rightarrow> time \<Rightarrow> time \<Rightarrow> job list \<times> queue_mem \<Rightarrow> job list \<times> queue_mem" where
  "requeue_stale_jobs_if_due S t now st = (case st of (rows, mem) \<Rightarrow>
     if t - last_requeue_at mem < requeue_interval S then (rows, mem)
     else snd (requeue_stale_jobs now (rows, mem\<lparr>last_requeue_at := t\<rparr>)))"

text \<open>
  The polling loop. \<open>wall\<close> gives the UTC time at a loop time, \<open>others\<close> is what the rest of the
  system does to the store while this worker sleeps.
\<close>

function dequeue :: "settings \<Rightarrow> (time \<Rightarrow> time) \<Rightarrow> (time \<Rightarrow> job list \<times> queue_mem \<Rightarrow> job list \<times> queue_mem) \<Rightarrow>
    string \<Rightarrow> time \<Rightarrow> time \<Rightarrow> job list \<times> queue_mem \<Rightarrow> queue_job option \<times> job list \<times> queue_mem" where
  "dequeue S wall others worker deadline t st =
     (case requeue_stale_jobs_if_due S t (wall t) st of (rows, mem) \<Rightarrow>
      case claim_next_available S (wall t) [] worker rows of
        (Some j, rows') \<Rightarrow> (Some j, rows', mem)
      | (None, rows') \<Rightarrow>
          (let remaining = deadline - t in
           if remaining \<le> 0 then (None, rows', mem)
           else dequeue S wall others worker deadline (t + min 250000 remaining) (others t (rows', mem))))"
  by pat_completeness auto
termination
  by (relation "measure (\<lambda>(S, wall, others, worker, deadline, t, st). nat (deadline - t))") auto

declare dequeue.simps [simp del]

section \<open>Dead letters, statistics\<close>

definition dead_letter_count :: "job list \<Rightarrow> nat" where
  "dead_letter_count rows = length (filter qj_dead_lettered rows)"

definition count_dead_letters :: "uid \<Rightarrow> job list \<Rightarrow> nat" where
  "count_dead_letters tenant rows = length (filter (\<lambda>r. qj_tenant r = tenant \<and> qj_dead_lettered r) rows)"

definition get_dead_letter :: "uid \<Rightarrow> uid \<Rightarrow> job list \<Rightarrow> job option" where
  "get_dead_letter tenant jid rows =
     find (\<lambda>r. qj_id r = jid \<and> qj_tenant r = tenant \<and> qj_dead_lettered r) rows"

definition list_dead_letters :: "uid \<Rightarrow> nat \<Rightarrow> nat \<Rightarrow> job list \<Rightarrow> job list" where
  "list_dead_letters tenant limit offset rows =
     take limit (drop offset (sort_key (\<lambda>r. - qj_created_at r)
       (filter (\<lambda>r. qj_tenant r = tenant \<and> qj_dead_lettered r) rows)))"

definition replay_dead_letter :: "time \<Rightarrow> uid \<Rightarrow> uid \<Rightarrow> job list \<Rightarrow> job option \<times> job list" where
  "replay_dead_letter now tenant jid rows =
     (case get_dead_letter tenant jid rows of
        None \<Rightarrow> (None, rows)
      | Some r \<Rightarrow>
          (let f = (\<lambda>r. r\<lparr>qj_state := QQueued, qj_dead_lettered := False, qj_attempts := 0,
                         qj_available_at := now, qj_completed_at := None, qj_last_error := None\<rparr>)
           in (Some (f r), upd_where (\<lambda>r'. qj_id r' = qj_id r) f rows)))"

definition resolve_dead_letter :: "time \<Rightarrow> uid \<Rightarrow> uid \<Rightarrow> job list \<Rightarrow> job option \<times> job list" where
  "resolve_dead_letter now tenant jid rows =
     (case get_dead_letter tenant jid rows of
        None \<Rightarrow> (None, rows)
      | Some r \<Rightarrow>
          (let f = (\<lambda>r. r\<lparr>qj_state := QCompleted, qj_dead_lettered := False, qj_completed_at := Some now\<rparr>)
           in (Some (f r), upd_where (\<lambda>r'. qj_id r' = qj_id r) f rows)))"

record queue_stats =
  queued_jobs :: nat
  delayed_jobs :: nat
  in_flight_jobs :: nat
  dead_letter_jobs :: nat
  total_enqueued :: nat
  total_processed :: nat
  queue_backend :: string
  is_durable :: bool
  stats_healthy :: bool
  stats_error :: "string option"

text \<open>\<open>stats\<close>: the table is \<open>None\<close> when the database cannot be read. An empty tenant means all.\<close>

definition stats :: "time \<Rightarrow> uid option \<Rightarrow> job list option \<Rightarrow> queue_stats" where
  "stats now tenant table =
     (case table of
        None \<Rightarrow> \<lparr>queued_jobs = 0, delayed_jobs = 0, in_flight_jobs = 0, dead_letter_jobs = 0,
          total_enqueued = 0, total_processed = 0, queue_backend = ''database'', is_durable = True,
          stats_healthy = False,
          stats_error = Some ''Queue statistics unavailable.''\<rparr>
      | Some rows \<Rightarrow>
          (let mine = filter (\<lambda>r. case tenant of None \<Rightarrow> True | Some [] \<Rightarrow> True | Some t \<Rightarrow> qj_tenant r = t) rows;
               n = (\<lambda>P. length (filter P mine))
           in \<lparr>queued_jobs = n (\<lambda>r. qj_state r = QQueued \<and> qj_available_at r \<le> now),
               delayed_jobs = n (\<lambda>r. qj_state r = QQueued \<and> now < qj_available_at r),
               in_flight_jobs = n (\<lambda>r. qj_state r = QLeased),
               dead_letter_jobs = n qj_dead_lettered,
               total_enqueued = length mine,
               total_processed = n (\<lambda>r. qj_state r = QCompleted),
               queue_backend = ''database'', is_durable = True, stats_healthy = True, stats_error = None\<rparr>))"

definition stale_lease_count :: "time \<Rightarrow> job list \<Rightarrow> nat" where
  "stale_lease_count now rows = length (filter (lease_expired now) rows)"

text \<open>The bulk updates write columns of existing rows and keep the table's keys.\<close>

interpretation ack_rows: keyed_update qj_id "acknowledge now jid" for now jid
  by unfold_locales (simp add: acknowledge_def map_upd_where)

interpretation stopped_rows: keyed_update qj_id "cancel_execution_jobs now eid" for now eid
  by unfold_locales (simp add: cancel_execution_jobs_def map_upd_where)

interpretation skipped_rows: keyed_update qj_id "cancel_task_jobs now tid" for now tid
  by unfold_locales (simp add: cancel_task_jobs_def map_upd_where)

interpretation reaped_rows: keyed_update qj_id "upd_where (lease_expired now) (reap_job now)" for now
  by unfold_locales (simp add: reap_job_def map_upd_where)

section \<open>Commands and the row state machine\<close>

text \<open>
  The state-changing methods as commands, so that a property can range over all of them.
  \<open>OClaim\<close> is a whole claim, \<open>OClaimUpdate\<close> only its \<open>UPDATE\<close> (for a job selected earlier).
\<close>

datatype queue_op =
    OEnqueue queue_job
  | OClaim "uid list" string
  | OClaimUpdate string uid
  | ORenew uid string
  | OAcknowledge uid
  | OCancelExecution uid
  | OCancelTask uid
  | OReap
  | OReplay uid uid
  | OResolve uid uid

fun queue_step :: "settings \<Rightarrow> time \<times> queue_op \<Rightarrow> job list \<Rightarrow> job list" where
  "queue_step S (now, OEnqueue j) rows = (case enqueue now j rows of Inl _ \<Rightarrow> rows | Inr rows' \<Rightarrow> rows')"
| "queue_step S (now, OClaim locked w) rows = snd (claim_next_available S now locked w rows)"
| "queue_step S (now, OClaimUpdate w jid) rows = snd (claim_update S now w jid rows)"
| "queue_step S (now, ORenew jid w) rows = snd (renew_lease S now jid w rows)"
| "queue_step S (now, OAcknowledge jid) rows = acknowledge now jid rows"
| "queue_step S (now, OCancelExecution eid) rows = cancel_execution_jobs now eid rows"
| "queue_step S (now, OCancelTask tid) rows = cancel_task_jobs now tid rows"
| "queue_step S (now, OReap) rows = upd_where (lease_expired now) (reap_job now) rows"
| "queue_step S (now, OReplay tenant jid) rows = snd (replay_dead_letter now tenant jid rows)"
| "queue_step S (now, OResolve tenant jid) rows = snd (resolve_dead_letter now tenant jid rows)"

text \<open>Every command but \<open>enqueue\<close> is one \<open>UPDATE\<close>: which rows, and what is written.\<close>

definition replay_row :: "time \<Rightarrow> job \<Rightarrow> job" where
  "replay_row now r = r\<lparr>qj_state := QQueued, qj_dead_lettered := False, qj_attempts := 0,
     qj_available_at := now, qj_completed_at := None, qj_last_error := None\<rparr>"

definition resolve_row :: "time \<Rightarrow> job \<Rightarrow> job" where
  "resolve_row now r = r\<lparr>qj_state := QCompleted, qj_dead_lettered := False, qj_completed_at := Some now\<rparr>"

lemma claim_update_rows:
  "snd (claim_update S now w jid rows) =
     upd_where (\<lambda>r. qj_id r = jid \<and> qj_state r = QQueued) (lease_to S now w) rows"
  by (auto simp: claim_update_def find_None_iff split: option.splits)

lemma get_dead_letter_None:
  "get_dead_letter tenant jid rows = None \<longleftrightarrow>
     (\<forall>r \<in> set rows. \<not> (qj_id r = jid \<and> qj_tenant r = tenant \<and> qj_dead_lettered r))"
  by (auto simp: get_dead_letter_def find_None_iff)

lemma get_dead_letter_SomeD:
  "get_dead_letter tenant jid rows = Some r \<Longrightarrow>
     r \<in> set rows \<and> qj_id r = jid \<and> qj_tenant r = tenant \<and> qj_dead_lettered r"
  by (auto simp: get_dead_letter_def dest: find_SomeD)

lemma replay_rows:
  "snd (replay_dead_letter now tenant jid rows) =
     (if get_dead_letter tenant jid rows = None then rows
      else upd_where (\<lambda>r. qj_id r = jid) (replay_row now) rows)"
  by (auto simp: replay_dead_letter_def replay_row_def [abs_def] Let_def split: option.splits dest: get_dead_letter_SomeD)

lemma resolve_rows:
  "snd (resolve_dead_letter now tenant jid rows) =
     (if get_dead_letter tenant jid rows = None then rows
      else upd_where (\<lambda>r. qj_id r = jid) (resolve_row now) rows)"
  by (auto simp: resolve_dead_letter_def resolve_row_def [abs_def] Let_def split: option.splits dest: get_dead_letter_SomeD)

lemma enqueue_cases:
  "enqueue now j rows = Inr rows' \<Longrightarrow> jb_tenant j \<noteq> [] \<and>
     (\<exists>r. rows' = rows @ [r] \<and> qj_id r = jb_id j \<and> qj_state r = QQueued \<and> qj_attempts r = jb_attempts j \<and>
        qj_max_attempts r = jb_max_attempts j \<and> \<not> qj_dead_lettered r \<and> qj_lease_expires_at r = None \<and>
        qj_leased_by r = None \<and> qj_etask r = jb_etask j \<and> qj_execution r = jb_execution j \<and>
        qj_workflow r = jb_workflow j)"
  by (auto simp: enqueue_def split: if_splits)

text \<open>The moves a row's state can make.\<close>

inductive job_moves :: "queue_job_state \<Rightarrow> queue_job_state \<Rightarrow> bool" where
  claim: "job_moves QQueued QLeased"
| requeue: "job_moves QLeased QQueued"
| poison: "job_moves QLeased QFailed"
| ack: "s \<noteq> QCancelled \<Longrightarrow> job_moves s QCompleted"
| cancel_queued: "job_moves QQueued QCancelled"
| cancel_leased: "job_moves QLeased QCancelled"
| replay: "s = QFailed \<or> s = QCompleted \<Longrightarrow> job_moves s QQueued"

inductive_cases from_cancelled [elim!]: "job_moves QCancelled s"
inductive_cases from_queued [elim]: "job_moves QQueued s"
inductive_simps job_moves_leased: "job_moves s QLeased"
inductive_simps job_moves_failed: "job_moves s QFailed"

section \<open>The row invariant\<close>

definition job_ok :: "job \<Rightarrow> bool" where
  "job_ok r \<longleftrightarrow> 0 \<le> qj_attempts r \<and> qj_attempts r \<le> qj_max_attempts r \<and>
     (qj_state r = QQueued \<longrightarrow> qj_attempts r < qj_max_attempts r) \<and>
     (qj_state r = QLeased \<longrightarrow> 1 \<le> qj_attempts r \<and> qj_leased_by r \<noteq> None) \<and>
     (qj_state r = QLeased \<longleftrightarrow> qj_lease_expires_at r \<noteq> None) \<and>
     (qj_state r = QFailed \<longrightarrow> qj_dead_lettered r) \<and>
     (qj_dead_lettered r \<longrightarrow> qj_state r = QFailed \<or> qj_state r = QCompleted) \<and>
     1 \<le> qj_max_attempts r"

definition queue_ok :: "job list \<Rightarrow> bool" where
  "queue_ok rows \<longleftrightarrow> distinct (map qj_id rows) \<and> (\<forall>r \<in> set rows. job_ok r)"

lemma job_ok_writes [keep_intros]:
  "job_ok r \<Longrightarrow> qj_state r = QQueued \<Longrightarrow> job_ok (lease_to S now w r)"
  "job_ok r \<Longrightarrow> qj_state r = QLeased \<Longrightarrow> job_ok (r\<lparr>qj_lease_expires_at := Some e\<rparr>)"
  "job_ok r \<Longrightarrow> job_ok (r\<lparr>qj_state := QCompleted, qj_completed_at := c, qj_leased_by := None,
      qj_leased_at := None, qj_lease_expires_at := None\<rparr>)"
  "job_ok r \<Longrightarrow> qj_state r \<in> {QQueued, QLeased} \<Longrightarrow>
     job_ok (r\<lparr>qj_state := QCancelled, qj_completed_at := c, qj_lease_expires_at := None\<rparr>)"
  "job_ok r \<Longrightarrow> qj_state r = QQueued \<Longrightarrow> job_ok (r\<lparr>qj_state := QCancelled, qj_completed_at := c\<rparr>)"
  "job_ok r \<Longrightarrow> lease_expired now r \<Longrightarrow> job_ok (reap_job now r)"
  "job_ok r \<Longrightarrow> qj_dead_lettered r \<Longrightarrow> job_ok (replay_row now r)"
  "job_ok r \<Longrightarrow> qj_dead_lettered r \<Longrightarrow> job_ok (resolve_row now r)"
  by (auto simp: job_ok_def lease_to_def reap_job_def lease_expired_def replay_row_def resolve_row_def
      split: option.splits)

lemma queue_ok_upd_where:
  assumes "queue_ok rows" and "\<And>r. P r \<Longrightarrow> qj_id (f r) = qj_id r"
    and "\<And>r. r \<in> set rows \<Longrightarrow> job_ok r \<Longrightarrow> P r \<Longrightarrow> job_ok (f r)"
  shows "queue_ok (upd_where P f rows)"
  using assms by (auto simp: queue_ok_def map_upd_where set_upd_where)

lemma reap_job_id [simp]: "qj_id (reap_job now r) = qj_id r"
  by (simp add: reap_job_def)

lemma lease_to_id [simp]: "qj_id (lease_to S now w r) = qj_id r"
  by (simp add: lease_to_def)

text \<open>What a new job must carry: a fresh identifier and an attempt budget.\<close>

fun op_allowed :: "time \<times> queue_op \<Rightarrow> job list \<Rightarrow> bool" where
  "op_allowed (now, OEnqueue j) rows \<longleftrightarrow>
     jb_id j \<notin> qj_id ` set rows \<and> jb_attempts j = 0 \<and> 1 \<le> jb_max_attempts j"
| "op_allowed _ rows \<longleftrightarrow> True"

lemma claim_rows:
  "snd (claim_next_available S now locked w rows) =
     (case select_candidate S now locked rows of None \<Rightarrow> rows
      | Some c \<Rightarrow> snd (claim_update S now w (qj_id c) rows))"
  by (simp add: claim_next_available_def split: option.splits)

lemma claim_update_ok: "queue_ok rows \<Longrightarrow> queue_ok (snd (claim_update S now w jid rows))"
  unfolding claim_update_rows by (erule queue_ok_upd_where) (auto intro: keep_intros)

lemma dead_letter_unique:
  assumes "queue_ok rows" and "get_dead_letter tenant jid rows = Some d" and "r \<in> set rows" and "qj_id r = jid"
  shows "qj_dead_lettered r"
proof -
  from get_dead_letter_SomeD [OF assms(2)] have "d \<in> set rows" "qj_id d = qj_id r" "qj_dead_lettered d"
    using assms(4) by auto
  with assms(1,3) show ?thesis by (auto simp: queue_ok_def distinct_map inj_on_def)
qed

lemma queue_step_ok:
  assumes "queue_ok rows" and "op_allowed c rows"
  shows "queue_ok (queue_step S c rows)"
proof (cases c)
  case (Pair now oper)
  show ?thesis
  proof (cases oper)
    case (OEnqueue j)
    show ?thesis
    proof (cases "enqueue now j rows")
      case (Inl e)
      with assms Pair OEnqueue show ?thesis by simp
    next
      case (Inr rows')
      with enqueue_cases [OF Inr] assms Pair OEnqueue show ?thesis
        by (auto simp: queue_ok_def job_ok_def)
    qed
  next
    case (OClaim locked w)
    with assms Pair show ?thesis by (auto simp: claim_rows claim_update_ok split: option.splits)
  next
    case (OClaimUpdate w jid)
    with assms Pair show ?thesis by (simp add: claim_update_ok)
  next
    case (ORenew jid w)
    with assms Pair show ?thesis
      by (auto simp: renew_lease_def Let_def intro!: queue_ok_upd_where keep_intros)
  next
    case (OAcknowledge jid)
    with assms Pair show ?thesis
      by (auto simp: acknowledge_def intro!: queue_ok_upd_where keep_intros)
  next
    case (OCancelExecution eid)
    with assms Pair show ?thesis
      by (auto simp: cancel_execution_jobs_def intro!: queue_ok_upd_where keep_intros)
  next
    case (OCancelTask tid)
    with assms Pair show ?thesis
      by (auto simp: cancel_task_jobs_def intro!: queue_ok_upd_where keep_intros)
  next
    case OReap
    with assms Pair show ?thesis by (auto intro!: queue_ok_upd_where keep_intros)
  next
    case (OReplay tenant jid)
    with assms Pair show ?thesis
      by (auto simp: replay_rows intro!: queue_ok_upd_where keep_intros dest: dead_letter_unique)
         (auto simp: replay_row_def)
  next
    case (OResolve tenant jid)
    with assms Pair show ?thesis
      by (auto simp: resolve_rows intro!: queue_ok_upd_where keep_intros dest: dead_letter_unique)
         (auto simp: resolve_row_def)
  qed
qed


interpretation qm: command_machine "queue_step S" queue_ok op_allowed for S
  by unfold_locales (rule queue_step_ok)

section \<open>State moves\<close>

definition row_evolves :: "job \<Rightarrow> job \<Rightarrow> bool" where
  "row_evolves r r' \<longleftrightarrow> qj_id r' = qj_id r \<and> (qj_state r' = qj_state r \<or> job_moves (qj_state r) (qj_state r'))"

lemma row_evolves_refl [simp]: "row_evolves r r"
  by (simp add: row_evolves_def)

lemma list_all2_upd_where:
  assumes "\<And>r. r \<in> set rows \<Longrightarrow> P r \<Longrightarrow> row_evolves r (f r)"
  shows "list_all2 row_evolves rows (upd_where P f rows)"
  using assms by (induction rows) auto

lemma row_evolves_writes [intro]:
  "qj_state r = QQueued \<Longrightarrow> row_evolves r (lease_to S now w r)"
  "qj_state r \<noteq> QCancelled \<Longrightarrow> row_evolves r (r\<lparr>qj_state := QCompleted, qj_completed_at := c,
      qj_leased_by := None, qj_leased_at := None, qj_lease_expires_at := None\<rparr>)"
  "row_evolves r (r\<lparr>qj_lease_expires_at := x\<rparr>)"
  "qj_state r = QQueued \<or> qj_state r = QLeased \<Longrightarrow>
     row_evolves r (r\<lparr>qj_state := QCancelled, qj_completed_at := c, qj_lease_expires_at := None\<rparr>)"
  "qj_state r = QQueued \<Longrightarrow> row_evolves r (r\<lparr>qj_state := QCancelled, qj_completed_at := c\<rparr>)"
  "lease_expired now r \<Longrightarrow> row_evolves r (reap_job now r)"
  "qj_state r = QFailed \<or> qj_state r = QCompleted \<Longrightarrow> row_evolves r (replay_row now r)"
  "qj_state r = QFailed \<or> qj_state r = QCompleted \<Longrightarrow> row_evolves r (resolve_row now r)"
  by (auto simp: row_evolves_def lease_to_def reap_job_def lease_expired_def replay_row_def
      resolve_row_def intro: job_moves.intros)

lemma dead_letter_row_state:
  assumes "queue_ok rows" and "get_dead_letter tenant jid rows = Some d" and "r \<in> set rows" and "qj_id r = jid"
  shows "qj_state r = QFailed \<or> qj_state r = QCompleted"
  using dead_letter_unique [OF assms] assms(1,3) by (auto simp: queue_ok_def job_ok_def)

lemma queue_step_evolves:
  assumes "queue_ok rows"
  shows "list_all2 row_evolves rows (take (length rows) (queue_step S (now, oper) rows))"
proof (cases oper)
  case (OEnqueue j)
  then show ?thesis
    by (cases "enqueue now j rows") (auto dest!: enqueue_cases simp: list_all2_refl)
next
  case (OClaim locked w)
  then show ?thesis
    by (auto simp: claim_rows claim_update_rows list_all2_refl intro!: list_all2_upd_where split: option.splits)
next
  case (OReplay tenant jid)
  with assms show ?thesis
    by (auto simp: replay_rows list_all2_refl intro!: list_all2_upd_where dest: dead_letter_row_state)
next
  case (OResolve tenant jid)
  with assms show ?thesis
    by (auto simp: resolve_rows list_all2_refl intro!: list_all2_upd_where dest: dead_letter_row_state)
qed (auto simp: claim_update_rows renew_lease_def Let_def acknowledge_def cancel_execution_jobs_def
       cancel_task_jobs_def intro!: list_all2_upd_where)

section \<open>The claim order\<close>

lemma select_candidate_Some:
  assumes "select_candidate S now locked rows = Some c"
  shows "c \<in> set rows" and "claimable S now rows c" and "qj_id c \<notin> set locked"
    and "\<forall>r \<in> set rows. claimable S now rows r \<longrightarrow> qj_id r \<notin> set locked \<longrightarrow> claim_key S now c \<le> claim_key S now r"
proof -
  let ?e = "filter (\<lambda>r. claimable S now rows r \<and> qj_id r \<notin> set locked) rows"
  from assms obtain rest where sk: "sort_key (claim_key S now) ?e = c # rest"
    by (auto simp: select_candidate_def split: list.splits)
  have set_eq: "set (c # rest) = set ?e" using arg_cong [OF sk, of set] by simp
  then show "c \<in> set rows" and "claimable S now rows c" and "qj_id c \<notin> set locked" by auto
  have "sorted (map (claim_key S now) (sort_key (claim_key S now) ?e))" by (rule sorted_sort_key)
  then have "\<forall>r \<in> set (c # rest). claim_key S now c \<le> claim_key S now r" unfolding sk by auto
  then have "\<forall>r \<in> set ?e. claim_key S now c \<le> claim_key S now r" unfolding set_eq .
  then show "\<forall>r \<in> set rows. claimable S now rows r \<longrightarrow> qj_id r \<notin> set locked \<longrightarrow> claim_key S now c \<le> claim_key S now r"
    by simp
qed

lemma sort_key_Nil_iff: "sort_key f xs = [] \<longleftrightarrow> xs = []"
proof -
  have "length (sort_key f xs) = length xs" by simp
  then show ?thesis by (simp only: length_0_conv [symmetric])
qed

lemma select_candidate_None:
  "select_candidate S now locked rows = None \<longleftrightarrow>
     (\<forall>r \<in> set rows. claimable S now rows r \<longrightarrow> qj_id r \<in> set locked)"
proof -
  let ?e = "filter (\<lambda>r. claimable S now rows r \<and> qj_id r \<notin> set locked) rows"
  have "select_candidate S now locked rows = None \<longleftrightarrow> sort_key (claim_key S now) ?e = []"
    by (simp add: select_candidate_def split: list.splits)
  also have "\<dots> \<longleftrightarrow> ?e = []" by (rule sort_key_Nil_iff)
  finally show ?thesis by (auto simp: filter_empty_conv)
qed

lemma claim_update_selected:
  assumes "distinct (map qj_id rows)" and "c \<in> set rows" and "qj_state c = QQueued"
  shows "claim_update S now w (qj_id c) rows =
    (Some (job_of_row (lease_to S now w c)), upd_where (\<lambda>r. r = c) (lease_to S now w) rows)"
proof -
  have uniq: "qj_id r = qj_id c \<and> qj_state r = QQueued \<longleftrightarrow> r = c" if "r \<in> set rows" for r
    using assms that by (auto simp: distinct_map inj_on_def)
  then have "find (\<lambda>r. qj_id r = qj_id c \<and> qj_state r = QQueued) rows = find (\<lambda>r. r = c) rows"
    by (intro find_cong) auto
  also have "\<dots> = Some c" using assms(2) by (induction rows) auto
  finally have f: "find (\<lambda>r. qj_id r = qj_id c \<and> qj_state r = QQueued) rows = Some c" .
  have "upd_where (\<lambda>r. qj_id r = qj_id c \<and> qj_state r = QQueued) (lease_to S now w) rows =
      upd_where (\<lambda>r. r = c) (lease_to S now w) rows"
    using uniq by (auto simp: upd_where_def)
  with f show ?thesis by (simp add: claim_update_def)
qed

section \<open>Leases are exclusive\<close>

lemma in_upd_where: "r \<in> set rows \<Longrightarrow> \<not> P r \<Longrightarrow> r \<in> set (upd_where P f rows)"
  by (auto simp: set_upd_where)

lemma leased_unclaimed:
  assumes "r \<in> set rows" and "qj_state r \<noteq> QQueued"
  shows "r \<in> set (snd (claim_next_available S now locked w rows))" and "r \<in> set (snd (claim_update S now w jid rows))"
  using assms by (auto simp: claim_rows claim_update_rows in_upd_where split: option.splits)

text \<open>
  What can have become of a leased row: its holder still has it, with the lease perhaps renewed, or the job
  has been acknowledged (by anybody: \<open>acknowledge\<close> does not ask who holds it), or its execution was cancelled.
\<close>

definition lease_outcome :: "job \<Rightarrow> time \<Rightarrow> queue_op set \<Rightarrow> job \<Rightarrow> bool" where
  "lease_outcome r e ops r' \<longleftrightarrow>
     (\<exists>x \<ge> e. r' = r\<lparr>qj_lease_expires_at := Some x\<rparr>) \<or>
     (qj_id r' = qj_id r \<and> qj_state r' = QCompleted \<and> \<not> qj_dead_lettered r' \<and> OAcknowledge (qj_id r) \<in> ops) \<or>
     (qj_id r' = qj_id r \<and> qj_state r' = QCancelled \<and> OCancelExecution (qj_execution r) \<in> ops)"

lemma lease_outcome_id: "lease_outcome r e ops r' \<Longrightarrow> qj_id r' = qj_id r"
  by (auto simp: lease_outcome_def)

lemma lease_outcome_refl: "qj_lease_expires_at r = Some e \<Longrightarrow> lease_outcome r e {} r"
  by (cases r) (auto simp: lease_outcome_def intro!: exI [of _ e])

lemma lease_outcome_mono: "lease_outcome r e ops r' \<Longrightarrow> ops \<subseteq> ops' \<Longrightarrow> lease_outcome r e ops' r'"
  by (auto simp: lease_outcome_def)

lemma lease_outcome_unqueued: "lease_outcome r e ops r' \<Longrightarrow> qj_state r = QLeased \<Longrightarrow> qj_state r' \<noteq> QQueued"
  by (auto simp: lease_outcome_def)

lemma lease_outcome_alive: "lease_outcome r e ops r' \<Longrightarrow> job_ok r' \<Longrightarrow> qj_state r = QLeased \<Longrightarrow> \<not> qj_dead_lettered r'"
  by (auto simp: lease_outcome_def job_ok_def)

text \<open>The commands that are one \<open>UPDATE\<close>, with what they write.\<close>

lemma step_writes:
  "queue_step S (now, ORenew jid w) rows = upd_where (\<lambda>x. qj_id x = jid \<and> qj_state x = QLeased \<and> qj_leased_by x = Some w)
     (\<lambda>x. x\<lparr>qj_lease_expires_at := Some (now + secs (queue_lease_seconds S))\<rparr>) rows"
  "queue_step S (now, OAcknowledge jid) rows = upd_where (\<lambda>x. qj_id x = jid \<and> qj_state x \<noteq> QCancelled)
     (\<lambda>x. x\<lparr>qj_state := QCompleted, qj_completed_at := Some now, qj_leased_by := None, qj_leased_at := None, qj_lease_expires_at := None\<rparr>) rows"
  "queue_step S (now, OCancelExecution eid) rows = upd_where (\<lambda>x. qj_execution x = eid \<and> qj_state x \<in> {QQueued, QLeased})
     (\<lambda>x. x\<lparr>qj_state := QCancelled, qj_completed_at := Some now, qj_lease_expires_at := None\<rparr>) rows"
  "queue_step S (now, OCancelTask tid) rows = upd_where (\<lambda>x. qj_etask x = tid \<and> qj_state x = QQueued)
     (\<lambda>x. x\<lparr>qj_state := QCancelled, qj_completed_at := Some now\<rparr>) rows"
  "queue_step S (now, OReap) rows = upd_where (lease_expired now) (reap_job now) rows"
  by (simp_all add: renew_lease_def Let_def acknowledge_def cancel_execution_jobs_def cancel_task_jobs_def)

lemma in_written: "r \<in> set rows \<Longrightarrow> P r \<Longrightarrow> f r \<in> set (upd_where P f rows)"
  by (auto simp: set_upd_where)

lemma lease_outcome_step:
  assumes ok: "queue_ok rows" and r': "r' \<in> set rows" and out: "lease_outcome r e ops r'" and led: "qj_state r = QLeased"
    and times: "e \<le> now + secs (queue_lease_seconds S)" "now \<le> e"
  shows "\<exists>r'' \<in> set (queue_step S (now, oper) rows). lease_outcome r e (insert oper ops) r''"
proof -
  note mono = lease_outcome_mono [OF out subset_insertI]
  have good: "job_ok r'" using ok r' by (simp add: queue_ok_def)
  note unq = lease_outcome_unqueued [OF out led] and alive = lease_outcome_alive [OF out good led]
  have keep: ?thesis if "r' \<in> set (queue_step S (now, oper) rows)"
    using that mono by blast
  have written: ?thesis if "oper = c" "queue_step S (now, c) rows = upd_where P f rows" and "P r' \<Longrightarrow> lease_outcome r e (insert oper ops) (f r')" for c P f
  proof (cases "P r'")
    case True
    with in_written [where P = P and f = f, OF r'] that show ?thesis by auto
  next
    case False
    with in_upd_where [OF r'] that(1,2) show ?thesis by (intro keep) simp
  qed
  show ?thesis
  proof (cases oper)
    case (OEnqueue j)
    with r' show ?thesis by (intro keep) (auto split: sum.splits dest!: enqueue_cases)
  next
    case (OClaim locked w)
    with leased_unclaimed(1) [OF r' unq] show ?thesis by (intro keep) simp
  next
    case (OClaimUpdate w jid)
    with leased_unclaimed(2) [OF r' unq] show ?thesis by (intro keep) simp
  next
    case (ORenew jid w)
    show ?thesis by (rule written [OF ORenew step_writes(1)]) (use out times(1) in \<open>auto simp: lease_outcome_def\<close>)
  next
    case (OAcknowledge jid)
    show ?thesis by (rule written [OF OAcknowledge step_writes(2)])
      (use alive lease_outcome_id [OF out] in \<open>auto simp: lease_outcome_def OAcknowledge\<close>)
  next
    case (OCancelExecution eid)
    show ?thesis by (rule written [OF OCancelExecution step_writes(3)]) (use out in \<open>auto simp: lease_outcome_def OCancelExecution\<close>)
  next
    case (OCancelTask tid)
    show ?thesis by (rule written [OF OCancelTask step_writes(4)]) (use unq in simp)
  next
    case OReap
    show ?thesis by (rule written [OF OReap step_writes(5)]) (use out times in \<open>auto simp: lease_expired_def lease_outcome_def\<close>)
  next
    case (OReplay tenant jid)
    with r' alive dead_letter_unique [OF ok _ r'] show ?thesis
      by (intro keep) (auto simp: replay_rows intro!: in_upd_where)
  next
    case (OResolve tenant jid)
    with r' alive dead_letter_unique [OF ok _ r'] show ?thesis
      by (intro keep) (auto simp: resolve_rows intro!: in_upd_where)
  qed
qed

definition queue_run :: "settings \<Rightarrow> (time \<times> queue_op) list \<Rightarrow> job list \<Rightarrow> job list" where
  "queue_run S cmds rows = foldl (\<lambda>rows c. queue_step S c rows) rows cmds"

fun run_allowed :: "settings \<Rightarrow> (time \<times> queue_op) list \<Rightarrow> job list \<Rightarrow> bool" where
  "run_allowed S [] rows \<longleftrightarrow> True"
| "run_allowed S (c # cmds) rows \<longleftrightarrow> op_allowed c rows \<and> run_allowed S cmds (queue_step S c rows)"

lemma queue_run_ok: "queue_ok rows \<Longrightarrow> run_allowed S cmds rows \<Longrightarrow> queue_ok (queue_run S cmds rows)"
  by (induction cmds arbitrary: rows) (auto simp: queue_run_def queue_step_ok)

lemma lease_outcome_run:
  assumes "queue_ok rows" and "run_allowed S cmds rows" and "r' \<in> set rows" and "lease_outcome r e ops r'" and "qj_state r = QLeased"
    and "\<forall>(now, oper) \<in> set cmds. e \<le> now + secs (queue_lease_seconds S) \<and> now \<le> e"
  shows "\<exists>r'' \<in> set (queue_run S cmds rows). lease_outcome r e (ops \<union> snd ` set cmds) r''"
  using assms
proof (induction cmds arbitrary: rows r' ops)
  case Nil
  then show ?case by (auto simp: queue_run_def)
next
  case (Cons c cmds)
  obtain now oper where c: "c = (now, oper)" by (cases c)
  from lease_outcome_step [OF Cons.prems(1,3,4,5), of now S oper] Cons.prems(6) c obtain r1 where
    r1: "r1 \<in> set (queue_step S c rows)" "lease_outcome r e (insert oper ops) r1" by auto
  have "queue_ok (queue_step S c rows)" "run_allowed S cmds (queue_step S c rows)"
    using Cons.prems(1,2) by (simp_all add: queue_step_ok)
  from Cons.IH [OF this r1 Cons.prems(5)] Cons.prems(6) show ?case by (simp add: queue_run_def c)
qed

section \<open>The per-workflow cap\<close>

definition within_cap :: "settings \<Rightarrow> job list \<Rightarrow> bool" where
  "within_cap S rows \<longleftrightarrow> (\<forall>w. leased_count w rows \<le> max_concurrent_tasks_per_workflow S)"

lemma lease_to_fields:
  "qj_state (lease_to S now w r) = QLeased" "qj_leased_by (lease_to S now w r) = Some w"
  "qj_lease_expires_at (lease_to S now w r) = Some (now + secs (queue_lease_seconds S))"
  "qj_attempts (lease_to S now w r) = qj_attempts r + 1" "qj_workflow (lease_to S now w r) = qj_workflow r"
  by (simp_all add: lease_to_def)

lemma within_cap_upd_where:
  assumes "within_cap S rows"
    and "\<And>r. P r \<Longrightarrow> qj_state (f r) = QLeased \<Longrightarrow> qj_state r = QLeased \<and> qj_workflow (f r) = qj_workflow r"
  shows "within_cap S (upd_where P f rows)"
proof -
  have "leased_count w (upd_where P f rows) \<le> leased_count w rows" for w
    unfolding leased_count_def using assms(2)
    by (intro iffD2 [OF of_nat_le_iff] length_filter_upd_le) fastforce
  with assms(1) show ?thesis unfolding within_cap_def by (meson order_trans)
qed

lemma leased_count_lease:
  assumes "distinct rows" and "c \<in> set rows" and "qj_state c \<noteq> QLeased"
  shows "leased_count w (upd_where (\<lambda>r. r = c) (lease_to S now worker) rows) =
    leased_count w rows + (if qj_workflow c = w then 1 else 0)"
  using assms
proof (induction rows)
  case Nil
  then show ?case by simp
next
  case (Cons a rows)
  show ?case
  proof (cases "a = c")
    case True
    with Cons.prems have "upd_where (\<lambda>r. r = c) (lease_to S now worker) rows = rows"
      by (intro upd_where_none) auto
    with True Cons.prems show ?thesis by (simp add: leased_count_def lease_to_fields)
  next
    case False
    with Cons show ?thesis by (auto simp: leased_count_def)
  qed
qed

lemma claim_next_Some:
  assumes "claim_next_available S now locked w rows = (Some j, rows')" and "distinct (map qj_id rows)"
  shows "\<exists>c. select_candidate S now locked rows = Some c \<and> j = job_of_row (lease_to S now w c) \<and>
    rows' = upd_where (\<lambda>r. r = c) (lease_to S now w) rows"
proof -
  from assms(1) obtain c where c: "select_candidate S now locked rows = Some c"
    by (auto simp: claim_next_available_def split: option.splits)
  from select_candidate_Some(1,2) [OF c] have "c \<in> set rows" "qj_state c = QQueued"
    by (auto simp: claimable_def)
  from claim_update_selected [OF assms(2) this] c assms(1) show ?thesis
    by (auto simp: claim_next_available_def)
qed

lemma claim_next_None:
  assumes "claim_next_available S now locked w rows = (None, rows')" and "distinct (map qj_id rows)"
  shows "select_candidate S now locked rows = None \<and> rows' = rows"
proof (cases "select_candidate S now locked rows")
  case None
  with assms(1) show ?thesis by (simp add: claim_next_available_def)
next
  case (Some c)
  from select_candidate_Some(1,2) [OF Some] have "c \<in> set rows" "qj_state c = QQueued"
    by (auto simp: claimable_def)
  from claim_update_selected [OF assms(2) this] Some assms(1) show ?thesis
    by (auto simp: claim_next_available_def)
qed

lemma within_cap_claim:
  assumes "within_cap S rows" and "distinct (map qj_id rows)"
  shows "within_cap S (snd (claim_next_available S now locked w rows))"
proof (cases "claim_next_available S now locked w rows")
  case (Pair r rows')
  show ?thesis
  proof (cases r)
    case None
    with claim_next_None [of S now locked w rows rows'] Pair assms show ?thesis by simp
  next
    case (Some j)
    with claim_next_Some [of S now locked w rows j rows'] Pair assms(2) obtain c where
      c: "select_candidate S now locked rows = Some c"
      and rows': "rows' = upd_where (\<lambda>r. r = c) (lease_to S now w) rows" by auto
    from select_candidate_Some(1,2) [OF c] have "c \<in> set rows" and q: "qj_state c = QQueued"
      and lt: "leased_count (qj_workflow c) rows < max_concurrent_tasks_per_workflow S"
      by (auto simp: claimable_def claim_query_def)
    with leased_count_lease [of rows c _ S now w] assms(2) have
      "leased_count v rows' = leased_count v rows + (if qj_workflow c = v then 1 else 0)" for v
      by (simp add: rows' distinct_map)
    with assms(1) lt have "within_cap S rows'" by (force simp: within_cap_def)
    then show ?thesis by (simp add: Pair)
  qed
qed

lemma within_cap_step:
  assumes "queue_ok rows" and "within_cap S rows" and "\<And>w jid. oper \<noteq> OClaimUpdate w jid"
  shows "within_cap S (queue_step S (now, oper) rows)"
proof (cases oper)
  case (OEnqueue j)
  with assms(2) show ?thesis
    by (auto simp: within_cap_def leased_count_def split: sum.splits dest!: enqueue_cases)
next
  case (OClaim locked w)
  with assms show ?thesis by (simp add: within_cap_claim queue_ok_def)
next
  case (OReplay tenant jid)
  with assms(2) show ?thesis by (auto simp: replay_rows replay_row_def intro!: within_cap_upd_where)
next
  case (OResolve tenant jid)
  with assms(2) show ?thesis by (auto simp: resolve_rows resolve_row_def intro!: within_cap_upd_where)
qed (use assms in \<open>auto simp: renew_lease_def Let_def acknowledge_def cancel_execution_jobs_def
       cancel_task_jobs_def reap_job_def lease_expired_def split: if_splits intro!: within_cap_upd_where\<close>)

section \<open>Reaping and polling\<close>

lemma reaped_not_stale:
  assumes "queue_ok rows" and "r' \<in> set (upd_where (lease_expired now) (reap_job now) rows)"
  shows "\<not> lease_expired now r'"
  using assms(2) by (auto simp: set_upd_where) (auto simp: lease_expired_def reap_job_def split: if_splits)

lemma requeue_if_due_rows:
  "fst (requeue_stale_jobs_if_due S t now (rows, mem)) = rows \<or>
   fst (requeue_stale_jobs_if_due S t now (rows, mem)) = queue_step S (now, OReap) rows"
  by (simp add: requeue_stale_jobs_if_due_def requeue_stale_jobs_def Let_def)

lemma requeue_if_due_ok:
  "queue_ok rows \<Longrightarrow> queue_ok (fst (requeue_stale_jobs_if_due S t now (rows, mem)))"
  using requeue_if_due_rows [of S t now rows mem] queue_step_ok [of rows "(now, OReap)" S] by auto

lemma dequeue_result:
  assumes "queue_ok (fst st)" and "\<And>u x. queue_ok (fst x) \<Longrightarrow> queue_ok (fst (others u x))"
  shows "case dequeue S wall others w deadline t st of (res, rows', mem') \<Rightarrow>
    queue_ok rows' \<and> (\<forall>j. res = Some j \<longrightarrow> (\<exists>r \<in> set rows'. job_of_row r = j \<and> qj_state r = QLeased \<and>
      qj_leased_by r = Some w))"
  using assms
proof (induction S wall others w deadline t st rule: dequeue.induct)
  case (1 S wall others w deadline t st)
  obtain rows0 mem0 where st: "st = (rows0, mem0)" by (cases st)
  obtain rows mem where due: "requeue_stale_jobs_if_due S t (wall t) st = (rows, mem)"
    by (cases "requeue_stale_jobs_if_due S t (wall t) st")
  have ok: "queue_ok rows"
    using requeue_if_due_ok [of rows0 S t "wall t" mem0] "1.prems"(1) due st by simp
  obtain res rows' where cl: "claim_next_available S (wall t) [] w rows = (res, rows')"
    by (cases "claim_next_available S (wall t) [] w rows")
  have ok': "queue_ok rows'" using queue_step_ok [OF ok, of "(wall t, OClaim [] w)" S] cl by simp
  show ?case
  proof (cases res)
    case (Some j)
    with cl claim_next_Some [of S "wall t" "[]" w rows j rows'] ok obtain c where
      c: "select_candidate S (wall t) [] rows = Some c" and j: "j = job_of_row (lease_to S (wall t) w c)"
      and rows': "rows' = upd_where (\<lambda>r. r = c) (lease_to S (wall t) w) rows"
      by (auto simp: queue_ok_def)
    have "lease_to S (wall t) w c \<in> set rows'"
      using select_candidate_Some(1) [OF c] by (auto simp: rows' set_upd_where)
    then show ?thesis using ok' j
      by (subst dequeue.simps) (auto simp: due cl Some lease_to_fields intro!: bexI)
  next
    case None
    show ?thesis
    proof (cases "deadline - t \<le> 0")
      case True
      then show ?thesis using ok' by (subst dequeue.simps) (simp add: due cl None)
    next
      case False
      have "queue_ok (fst (others t (rows', mem)))" using "1.prems"(2) [of "(rows', mem)" t] ok' by simp
      with "1.IH" [OF due [symmetric] cl [symmetric] None refl False] "1.prems"(2) show ?thesis
        using False by (subst dequeue.simps) (simp add: due cl None Let_def)
    qed
  qed
qed

section \<open>Properties\<close>

text \<open>In every store that a run of queue operations can reach from the empty one, the row
  invariant holds: identifiers are distinct, a row is leased exactly when it has a lease expiry,
  it has then been attempted at least once, no job is attempted more often than its budget, a
  queued job has an attempt left, and a failed job is a dead letter.\<close>

theorem queue_reachable_ok:
  "qm.reaches S [] rows \<Longrightarrow> distinct (map qj_id rows) \<and>
    (\<forall>r \<in> set rows.
       0 \<le> qj_attempts r \<and> qj_attempts r \<le> qj_max_attempts r \<and>
       (qj_state r = QQueued \<longrightarrow> qj_attempts r < qj_max_attempts r) \<and>
       (qj_state r = QLeased \<longrightarrow> 1 \<le> qj_attempts r \<and> qj_leased_by r \<noteq> None) \<and>
       (qj_state r = QLeased \<longleftrightarrow> qj_lease_expires_at r \<noteq> None) \<and>
       (qj_state r = QFailed \<longrightarrow> qj_dead_lettered r))"
  using qm.reaches_good [of S "[]" rows] by (auto simp: queue_ok_def job_ok_def)

text \<open>Whatever operation runs, a row keeps its identifier and its state either stays or makes
  one of the moves of the job state machine; in particular a cancelled job stays cancelled.\<close>

theorem queue_rows_evolve:
  assumes "queue_ok rows"
  shows "list_all2 (\<lambda>r r'. qj_id r' = qj_id r \<and> (qj_state r' = qj_state r \<or> job_moves (qj_state r) (qj_state r')))
    rows (take (length rows) (queue_step S (now, oper) rows))"
  using queue_step_evolves [OF assms, of S now oper] by (simp add: row_evolves_def [abs_def])

lemma claimable_iff:
  "claimable S now rows r \<longleftrightarrow> qj_state r = QQueued \<and> qj_available_at r \<le> now \<and>
     int (length (filter (\<lambda>x. qj_state x = QLeased \<and> qj_workflow x = qj_workflow r) rows)) < max_concurrent_tasks_per_workflow S"
  by (simp add: claimable_def claim_query_def leased_count_def)

text \<open>C19. A claim considers the rows that are queued, available, not locked by another transaction, and whose workflow
  has fewer leased jobs than \<open>max_concurrent_tasks_per_workflow\<close>. It returns nothing, and changes nothing,
  exactly when there is none. Otherwise it takes one that comes first: a job available for \<open>queue_aging_seconds\<close>
  goes before one that is not, then the higher priority, then the earlier availability, then the earlier
  creation. That row is leased to the worker for \<open>queue_lease_seconds\<close> with one more attempt, no other
  row changes, and the job returned carries the row's data.\<close>

theorem claim_next_available_spec:
  assumes "distinct (map qj_id rows)"
  shows "let open_job = (\<lambda>r. r \<in> set rows \<and> qj_id r \<notin> set locked \<and> qj_state r = QQueued \<and> qj_available_at r \<le> now \<and>
        int (length (filter (\<lambda>x. qj_state x = QLeased \<and> qj_workflow x = qj_workflow r) rows)) < max_concurrent_tasks_per_workflow S);
      aged = (\<lambda>r. qj_available_at r + secs (queue_aging_seconds S) \<le> now) in
    case claim_next_available S now locked w rows of
      (None, rows') \<Rightarrow> rows' = rows \<and> (\<forall>r. \<not> open_job r)
    | (Some j, rows') \<Rightarrow> (\<exists>c. open_job c \<and>
        (\<forall>r. open_job r \<longrightarrow> (aged r \<longrightarrow> aged c) \<and>
          (aged c = aged r \<longrightarrow> qj_priority r \<le> qj_priority c \<and>
            (qj_priority c = qj_priority r \<longrightarrow> qj_available_at c \<le> qj_available_at r \<and>
              (qj_available_at c = qj_available_at r \<longrightarrow> qj_created_at c \<le> qj_created_at r)))) \<and>
        rows' = map (\<lambda>r. if r = c then r\<lparr>qj_state := QLeased, qj_leased_by := Some w, qj_leased_at := Some now,
            qj_lease_expires_at := Some (now + secs (queue_lease_seconds S)), qj_attempts := qj_attempts r + 1\<rparr> else r) rows \<and>
        j = \<lparr>jb_id = qj_id c, jb_etask = qj_etask c, jb_execution = qj_execution c, jb_task = qj_task c,
          jb_tenant = qj_tenant c, jb_workflow = qj_workflow c, jb_priority = qj_priority c,
          jb_available_at = qj_available_at c, jb_retry_count = qj_retry_count c, jb_attempts = qj_attempts c + 1,
          jb_max_attempts = qj_max_attempts c, jb_enqueued_at = qj_created_at c\<rparr>)"
proof (cases "claim_next_available S now locked w rows")
  case (Pair res rows')
  show ?thesis
  proof (cases res)
    case None
    with Pair claim_next_None [of S now locked w rows rows'] assms show ?thesis
      by (auto simp: select_candidate_None claimable_iff)
  next
    case (Some j)
    with Pair claim_next_Some [of S now locked w rows j rows'] assms obtain c where
      c: "select_candidate S now locked rows = Some c" and rest: "j = job_of_row (lease_to S now w c)"
        "rows' = upd_where (\<lambda>r. r = c) (lease_to S now w) rows" by auto
    note sel = select_candidate_Some [OF c]
    have first: "claim_key S now c \<le> claim_key S now r" if "r \<in> set rows" "claimable S now rows r" "qj_id r \<notin> set locked" for r
      using sel(4) that by blast
    have rows': "rows' = map (\<lambda>r. if r = c then r\<lparr>qj_state := QLeased, qj_leased_by := Some w, qj_leased_at := Some now,
        qj_lease_expires_at := Some (now + secs (queue_lease_seconds S)), qj_attempts := qj_attempts r + 1\<rparr> else r) rows"
      by (simp add: rest(2) upd_where_def lease_to_def cong: map_cong)
    show ?thesis unfolding Let_def Pair Some prod.case option.case
    proof (intro exI [of _ c] conjI allI impI)
      fix r
      assume "r \<in> set rows \<and> qj_id r \<notin> set locked \<and> qj_state r = QQueued \<and> qj_available_at r \<le> now \<and>
        int (length (filter (\<lambda>x. qj_state x = QLeased \<and> qj_workflow x = qj_workflow r) rows)) < max_concurrent_tasks_per_workflow S"
      then have le: "claim_key S now c \<le> claim_key S now r" by (intro first) (simp_all add: claimable_iff)
      then show "qj_available_at c + secs (queue_aging_seconds S) \<le> now" if "qj_available_at r + secs (queue_aging_seconds S) \<le> now"
        using that by (auto simp: claim_key_def less_eq_prod_def split: if_splits)
      assume same: "(qj_available_at c + secs (queue_aging_seconds S) \<le> now) = (qj_available_at r + secs (queue_aging_seconds S) \<le> now)"
      with le show "qj_priority r \<le> qj_priority c" by (auto simp: claim_key_def less_eq_prod_def split: if_splits)
      assume prio: "qj_priority c = qj_priority r"
      from le same prio show "qj_available_at c \<le> qj_available_at r" by (auto simp: claim_key_def less_eq_prod_def split: if_splits)
      assume "qj_available_at c = qj_available_at r"
      with le same prio show "qj_created_at c \<le> qj_created_at r" by (auto simp: claim_key_def less_eq_prod_def split: if_splits)
    qed (use sel rest(1) rows' in \<open>simp_all add: claimable_iff job_of_row_def lease_to_def\<close>)
  qed
qed

lemma claimed_was_queued:
  assumes "queue_ok rows" and "r' \<in> set rows" and "qj_state r' \<noteq> QQueued"
  shows "claim_next_available S u locked w rows = (Some j, rows') \<Longrightarrow> jb_id j \<noteq> qj_id r'"
    and "claim_update S u w (qj_id r') rows = (None, rows)"
proof -
  assume cl: "claim_next_available S u locked w rows = (Some j, rows')"
  from claim_next_Some [OF cl] assms(1) obtain c where c: "select_candidate S u locked rows = Some c"
    "j = job_of_row (lease_to S u w c)" by (auto simp: queue_ok_def)
  have "c \<in> set rows" "qj_state c = QQueued" using select_candidate_Some(1,2) [OF c(1)] by (simp_all add: claimable_def)
  with assms have "qj_id c \<noteq> qj_id r'" by (auto simp: queue_ok_def distinct_map inj_on_def)
  then show "jb_id j \<noteq> qj_id r'" by (simp add: c(2) job_of_row_def)
next
  have "find (\<lambda>r. qj_id r = qj_id r' \<and> qj_state r = QQueued) rows = None"
    using assms by (auto simp: find_None_iff queue_ok_def distinct_map inj_on_def)
  then show "claim_update S u w (qj_id r') rows = (None, rows)" by (simp add: claim_update_def)
qed


text \<open>Two workers that selected the same job from the same snapshot do not both get it: after the
  first guarded update the second finds no queued row and changes nothing.\<close>

theorem claim_race_single_winner:
  assumes "distinct (map qj_id rows)" and "claim_update S t1 w1 jid rows = (Some j, rows1)"
  shows "claim_update S t2 w2 jid rows1 = (None, rows1)"
proof -
  have r1: "rows1 = upd_where (\<lambda>r. qj_id r = jid \<and> qj_state r = QQueued) (lease_to S t1 w1) rows"
    using claim_update_rows [of S t1 w1 jid rows] assms(2) by simp
  have "\<forall>r \<in> set rows1. \<not> (qj_id r = jid \<and> qj_state r = QQueued)"
    unfolding r1 by (rule upd_whereI) (simp_all add: lease_to_fields)
  then have "find (\<lambda>r. qj_id r = jid \<and> qj_state r = QQueued) rows1 = None"
    by (simp only: find_None_iff) blast
  then show ?thesis by (simp add: claim_update_def)
qed

text \<open>When claims run one at a time, the number of leased jobs of a workflow never exceeds
  \<open>max_concurrent_tasks_per_workflow\<close>, whatever operation runs.\<close>

theorem claims_respect_cap:
  assumes "queue_ok rows" and "\<And>w. leased_count w rows \<le> max_concurrent_tasks_per_workflow S"
    and "\<And>w jid. oper \<noteq> OClaimUpdate w jid"
  shows "leased_count w (queue_step S (now, oper) rows) \<le> max_concurrent_tasks_per_workflow S"
  using within_cap_step [of rows S oper now] assms by (simp add: within_cap_def)

text \<open>C20. The reaper takes every leased job whose lease ended before now. One that has used up its attempts becomes a
  failed dead letter, completed now, without a lease, with an error that names the limit; it is reported
  and buffered with its data. Any other goes back to the queue without holder and lease, with an error that
  names the attempt. No other row and no other column changes, and no expired lease is left.\<close>

theorem requeue_stale_jobs_spec:
  assumes "requeue_stale_jobs now (rows, mem) = (dead, rows', mem')"
  shows "let stale = (\<lambda>r. qj_state r = QLeased \<and> (\<exists>e. qj_lease_expires_at r = Some e \<and> e < now));
      exceeded = (\<lambda>r. ''Job exceeded '' @ int_str (qj_max_attempts r) @ '' attempts after repeated worker loss.'') in
    rows' = map (\<lambda>r. if \<not> stale r then r
      else if qj_max_attempts r \<le> qj_attempts r
      then r\<lparr>qj_state := QFailed, qj_dead_lettered := True, qj_completed_at := Some now, qj_lease_expires_at := None,
             qj_last_error := Some (exceeded r)\<rparr>
      else r\<lparr>qj_state := QQueued, qj_leased_by := None, qj_leased_at := None, qj_lease_expires_at := None,
             qj_last_error := Some (''Lease expired after attempt '' @ int_str (qj_attempts r) @ ''.'')\<rparr>) rows \<and>
    dead = map (\<lambda>r. \<lparr>dl_id = qj_id r, dl_etask = qj_etask r, dl_execution = qj_execution r, dl_task = qj_task r,
        dl_tenant = qj_tenant r, dl_attempts = qj_attempts r, dl_error = exceeded r\<rparr>)
      (filter (\<lambda>r. stale r \<and> qj_max_attempts r \<le> qj_attempts r) rows) \<and>
    mem' = mem\<lparr>dead_letter_buffer := dead_letter_buffer mem @ dead\<rparr> \<and>
    stale_lease_count now rows' = 0"
proof -
  have stale: "lease_expired now r \<longleftrightarrow> qj_state r = QLeased \<and> (\<exists>e. qj_lease_expires_at r = Some e \<and> e < now)" for r
    by (auto simp: lease_expired_def split: option.splits)
  have left: "\<not> lease_expired now r" if "r \<in> set (upd_where (lease_expired now) (reap_job now) rows)" for r
    using that by (auto simp: set_upd_where) (auto simp: lease_expired_def reap_job_def split: if_splits)
  have res: "rows' = upd_where (lease_expired now) (reap_job now) rows"
    "dead = map dead_letter_of (filter (\<lambda>r. lease_expired now r \<and> qj_max_attempts r \<le> qj_attempts r) rows)"
    "mem' = mem\<lparr>dead_letter_buffer := dead_letter_buffer mem @ dead\<rparr>"
    using assms by (auto simp: requeue_stale_jobs_def Let_def)
  have flip: "(if P then a else b) = (if \<not> P then b else a)" for P and a b :: job by simp
  have "stale_lease_count now rows' = 0"
    using left by (simp add: stale_lease_count_def filter_empty_conv res(1))
  moreover have "dead_letter_of = (\<lambda>r. \<lparr>dl_id = qj_id r, dl_etask = qj_etask r, dl_execution = qj_execution r, dl_task = qj_task r,
      dl_tenant = qj_tenant r, dl_attempts = qj_attempts r, dl_error = exceeded_error r\<rparr>)"
    by (simp add: fun_eq_iff dead_letter_of_def)
  moreover have "upd_where (lease_expired now) (reap_job now) rows = map (\<lambda>r. if \<not> lease_expired now r then r
      else if qj_max_attempts r \<le> qj_attempts r
      then r\<lparr>qj_state := QFailed, qj_dead_lettered := True, qj_completed_at := Some now, qj_lease_expires_at := None,
             qj_last_error := Some (exceeded_error r)\<rparr>
      else r\<lparr>qj_state := QQueued, qj_leased_by := None, qj_leased_at := None, qj_lease_expires_at := None,
             qj_last_error := Some (''Lease expired after attempt '' @ int_str (qj_attempts r) @ ''.'')\<rparr>) rows"
    unfolding upd_where_def reap_job_def by (rule map_cong [OF refl]) (rule flip)
  ultimately show ?thesis unfolding Let_def stale [symmetric] exceeded_error_def [symmetric] using res by (simp only: simp_thms)
qed

text \<open>Whenever the polling loop returns a job, that job's row is leased to the polling worker in the
  store it leaves, whatever the rest of the system did while it slept, provided it kept the row invariant.\<close>

theorem dequeue_returns_leased:
  assumes "queue_ok rows" and "\<And>u x. queue_ok (fst x) \<Longrightarrow> queue_ok (fst (others u x))"
    and "dequeue S wall others w deadline t (rows, mem) = (Some j, rows', mem')"
  shows "queue_ok rows' \<and> (\<exists>r \<in> set rows'. job_of_row r = j \<and> qj_state r = QLeased \<and> qj_leased_by r = Some w)"
  using dequeue_result [where st = "(rows, mem)" and others = others and S = S and wall = wall and w = w
      and deadline = deadline and t = t, OF _ assms(2)] assms(1,3) by simp

text \<open>The counts of a healthy statistics answer add up: every row is queued, delayed, in flight,
  processed, cancelled or failed.\<close>

theorem stats_account_for_every_job:
  "let s = stats now tenant (Some rows) in
     total_enqueued s = queued_jobs s + delayed_jobs s + in_flight_jobs s + total_processed s +
       length (filter (\<lambda>r. (case tenant of None \<Rightarrow> True | Some [] \<Rightarrow> True | Some t \<Rightarrow> qj_tenant r = t) \<and>
          (qj_state r = QCancelled \<or> qj_state r = QFailed)) rows)"
proof -
  let ?mine = "\<lambda>r. case tenant of None \<Rightarrow> True | Some [] \<Rightarrow> True | Some t \<Rightarrow> qj_tenant r = t"
  have "length xs = length (filter (\<lambda>r. qj_state r = QQueued \<and> qj_available_at r \<le> now) xs) +
      length (filter (\<lambda>r. qj_state r = QQueued \<and> now < qj_available_at r) xs) +
      length (filter (\<lambda>r. qj_state r = QLeased) xs) + length (filter (\<lambda>r. qj_state r = QCompleted) xs) +
      length (filter (\<lambda>r. qj_state r = QCancelled \<or> qj_state r = QFailed) xs)" for xs
  proof (induction xs)
    case Nil
    then show ?case by simp
  next
    case (Cons r xs)
    then show ?case by (cases "qj_state r") auto
  qed
  from this [of "filter ?mine rows"] show ?thesis
    by (simp add: stats_def Let_def conj_commute conj_left_commute)
qed

text \<open>Acknowledging never takes a job off the dead-letter list: a worker that finishes after its job was
  dead-lettered completes the row, and the completed row still counts as a dead letter.\<close>

theorem acknowledge_keeps_dead_letters:
  "dead_letter_count (acknowledge now jid rows) = dead_letter_count rows"
  by (induction rows) (auto simp: dead_letter_count_def acknowledge_def)

section \<open>The interface the workers use\<close>

text \<open>
  What a worker relies on: a claim hands out a lease, a lease has one holder, nobody else's claim
  takes a lease away before it expires, and an acknowledged job is finished and never handed out
  again. The client lemmas are proved once from these laws.
\<close>

locale lease_store =
  fixes inv :: "'s \<Rightarrow> bool"
    and holds :: "'s \<Rightarrow> uid \<Rightarrow> string \<Rightarrow> time \<Rightarrow> bool"
    and finished :: "'s \<Rightarrow> uid \<Rightarrow> bool"
    and claim :: "time \<Rightarrow> string \<Rightarrow> 's \<Rightarrow> queue_job option \<times> 's"
    and ack :: "time \<Rightarrow> uid \<Rightarrow> 's \<Rightarrow> 's"
  assumes claim_inv: "inv s \<Longrightarrow> inv (snd (claim t w s))"
    and ack_inv: "inv s \<Longrightarrow> inv (ack t i s)"
    and claim_holds: "inv s \<Longrightarrow> claim t w s = (Some j, s') \<Longrightarrow> \<exists>e. holds s' (jb_id j) w e"
    and claim_keeps: "inv s \<Longrightarrow> holds s i w e \<Longrightarrow> t \<le> e \<Longrightarrow> holds (snd (claim t w' s)) i w e"
    and holds_unique: "inv s \<Longrightarrow> holds s i w e \<Longrightarrow> holds s i w' e' \<Longrightarrow> w' = w \<and> e' = e"
    and ack_finished: "inv s \<Longrightarrow> holds s i w e \<Longrightarrow> finished (ack t i s) i"
    and finished_stays: "inv s \<Longrightarrow> finished s i \<Longrightarrow> finished (snd (claim t w s)) i"
    and finished_unheld: "inv s \<Longrightarrow> finished s i \<Longrightarrow> \<not> holds s i w e"
begin

lemma no_second_holder:
  assumes "inv s" and "holds s i w e" and "t \<le> e" and "w' \<noteq> w"
    and "claim t w' s = (Some j, s')"
  shows "jb_id j \<noteq> i \<and> holds s' i w e"
proof -
  from claim_keeps [OF assms(1-3), of w'] assms(5) have keep: "holds s' i w e" by simp
  from claim_inv [OF assms(1), of t w'] assms(5) have inv': "inv s'" by simp
  from claim_holds [OF assms(1,5)] obtain e' where "holds s' (jb_id j) w' e'" by blast
  then have "jb_id j \<noteq> i" using holds_unique [OF inv' keep, of w' e'] assms(4) by blast
  with keep show ?thesis by simp
qed

lemma finished_never_claimed:
  assumes "inv s" and "finished s i" and "claim t w s = (Some j, s')"
  shows "jb_id j \<noteq> i"
proof
  assume "jb_id j = i"
  moreover from claim_holds [OF assms(1,3)] obtain e where "holds s' (jb_id j) w e" by blast
  moreover have "finished s' i" using finished_stays [OF assms(1,2), of t w] assms(3) by simp
  moreover have "inv s'" using claim_inv [OF assms(1), of t w] assms(3) by simp
  ultimately show False using finished_unheld by blast
qed

end

definition holds_lease :: "job list \<Rightarrow> uid \<Rightarrow> string \<Rightarrow> time \<Rightarrow> bool" where
  "holds_lease rows i w e \<longleftrightarrow> (\<exists>r \<in> set rows. qj_id r = i \<and> qj_state r = QLeased \<and>
     qj_leased_by r = Some w \<and> qj_lease_expires_at r = Some e)"

definition job_finished :: "job list \<Rightarrow> uid \<Rightarrow> bool" where
  "job_finished rows i \<longleftrightarrow> (\<exists>r \<in> set rows. qj_id r = i \<and> (qj_state r = QCompleted \<or> qj_state r = QCancelled))"

lemma row_unique: "queue_ok rows \<Longrightarrow> r \<in> set rows \<Longrightarrow> r' \<in> set rows \<Longrightarrow> qj_id r = qj_id r' \<Longrightarrow> r = r'"
  by (auto simp: queue_ok_def distinct_map inj_on_def)

interpretation lq: lease_store queue_ok holds_lease job_finished
    "\<lambda>t w rows. claim_next_available S t [] w rows" acknowledge for S
proof unfold_locales
  fix s t w
  assume ok: "queue_ok s"
  show "queue_ok (snd (claim_next_available S t [] w s))"
    using queue_step_ok [OF ok, of "(t, OClaim [] w)" S] by simp
  fix i
  show "queue_ok (acknowledge t i s)"
    using queue_step_ok [OF ok, of "(t, OAcknowledge i)" S] by simp
next
  fix s t w j s'
  assume ok: "queue_ok s" and cl: "claim_next_available S t [] w s = (Some j, s')"
  from claim_next_Some [OF cl] ok obtain c where
    c: "select_candidate S t [] s = Some c" and j: "j = job_of_row (lease_to S t w c)"
    and s': "s' = upd_where (\<lambda>r. r = c) (lease_to S t w) s" by (auto simp: queue_ok_def)
  have "lease_to S t w c \<in> set s'" using select_candidate_Some(1) [OF c] by (auto simp: s' set_upd_where)
  then have "holds_lease s' (jb_id j) w (t + secs (queue_lease_seconds S))"
    unfolding holds_lease_def by (rule bexI [rotated]) (simp add: j job_of_row_def lease_to_fields)
  then show "\<exists>e. holds_lease s' (jb_id j) w e" ..
next
  fix s i w e t w'
  assume ok: "queue_ok s" and "holds_lease s i w e" and te: "t \<le> e"
  then obtain r where r: "r \<in> set s" "qj_id r = i" "qj_state r = QLeased" "qj_leased_by r = Some w"
    "qj_lease_expires_at r = Some e" by (auto simp: holds_lease_def)
  have "r \<in> set (snd (claim_next_available S t [] w' s))"
    by (rule leased_unclaimed(1)) (use r in simp_all)
  with r show "holds_lease (snd (claim_next_available S t [] w' s)) i w e"
    by (auto simp: holds_lease_def)
next
  fix s i w e w' e'
  assume "queue_ok s" and "holds_lease s i w e" and "holds_lease s i w' e'"
  then obtain r r' where "queue_ok s" and r: "r \<in> set s" "qj_id r = i" "qj_leased_by r = Some w"
      "qj_lease_expires_at r = Some e"
    and r': "r' \<in> set s" "qj_id r' = i" "qj_leased_by r' = Some w'" "qj_lease_expires_at r' = Some e'"
    unfolding holds_lease_def by blast
  moreover have "r = r'" using row_unique [OF \<open>queue_ok s\<close> r(1) r'(1)] r(2) r'(2) by simp
  ultimately show "w' = w \<and> e' = e" by simp
next
  fix s i w e t
  assume "queue_ok s" and "holds_lease s i w e"
  then obtain r where "r \<in> set s" "qj_id r = i" "qj_state r = QLeased" by (auto simp: holds_lease_def)
  then show "job_finished (acknowledge t i s) i"
    unfolding job_finished_def acknowledge_def upd_where_def
    by (intro bexI [where x = "(if qj_id r = i \<and> qj_state r \<noteq> QCancelled then r\<lparr>qj_state := QCompleted,
       qj_completed_at := Some t, qj_leased_by := None, qj_leased_at := None, qj_lease_expires_at := None\<rparr> else r)"])
      auto
next
  fix s i t w
  assume ok: "queue_ok s" and "job_finished s i"
  then obtain r where r: "r \<in> set s" "qj_id r = i" "qj_state r = QCompleted \<or> qj_state r = QCancelled"
    by (auto simp: job_finished_def)
  then have "r \<in> set (snd (claim_next_available S t [] w s))"
    by (auto simp: claim_rows claim_update_rows intro!: in_upd_where split: option.splits)
  with r show "job_finished (snd (claim_next_available S t [] w s)) i" by (auto simp: job_finished_def)
next
  fix s i w e
  assume ok: "queue_ok s" and "job_finished s i"
  then obtain r where r: "r \<in> set s" "qj_id r = i" "qj_state r \<noteq> QLeased" by (auto simp: job_finished_def)
  show "\<not> holds_lease s i w e"
  proof
    assume "holds_lease s i w e"
    then obtain r' where r': "r' \<in> set s" "qj_id r' = i" "qj_state r' = QLeased" by (auto simp: holds_lease_def)
    with row_unique [OF ok r(1) r'(1)] r show False by simp
  qed
qed

text \<open>While a worker's lease has not expired, another worker's claim returns a different job and the
  lease stays with its holder; and a job that was acknowledged or cancelled is never claimed again.\<close>

theorem no_job_for_two_workers:
  assumes "queue_ok rows" and "claim_next_available S t [] w' rows = (Some j, rows')"
  shows "(holds_lease rows i w e \<and> t \<le> e \<and> w' \<noteq> w \<longrightarrow> jb_id j \<noteq> i \<and> holds_lease rows' i w e) \<and>
    (job_finished rows i \<longrightarrow> jb_id j \<noteq> i)"
  using lq.no_second_holder [of rows i w e t w' S j rows'] lq.finished_never_claimed [of rows i S t w' j rows'] assms
  by auto

section \<open>Instances\<close>

definition demo_job :: "uid \<Rightarrow> int \<Rightarrow> queue_job" where
  "demo_job i prio = \<lparr>jb_id = i, jb_etask = ''et1'', jb_execution = ''ex1'', jb_task = ''t1'', jb_tenant = ''acme'',
     jb_workflow = ''wf1'', jb_priority = prio, jb_available_at = 0, jb_retry_count = 0, jb_attempts = 0,
     jb_max_attempts = 5, jb_enqueued_at = 0\<rparr>"

definition demo_queue :: "job list" where
  "demo_queue = queue_run default_settings [(0, OEnqueue (demo_job ''j1'' 0)), (1, OEnqueue (demo_job ''j2'' 3))] []"

definition demo_leased :: "job list" where
  "demo_leased = queue_step default_settings (10, OClaim [] ''w1'') demo_queue"

lemma demo_queue_ok: "queue_ok demo_queue"
  by code_simp

lemma demo_leased_ok: "queue_ok demo_leased"
  by code_simp

lemma demo_claims: "map qj_state demo_leased = [QQueued, QLeased]"
  by code_simp

lemma queue_reachable_ok_witness:
  "qm.reaches default_settings [] demo_leased \<and> distinct (map qj_id demo_leased) \<and> map qj_state demo_leased = [QQueued, QLeased]"
proof -
  let ?q1 = "queue_step default_settings (0, OEnqueue (demo_job ''j1'' 0)) []"
  have "qm.reaches default_settings [] ?q1"
    by (rule qm.next_step [OF qm.start]) (simp add: demo_job_def)
  then have "qm.reaches default_settings [] demo_queue"
    unfolding demo_queue_def queue_run_def foldl.simps
    by (rule qm.next_step) (simp add: demo_job_def enqueue_def)
  then have r: "qm.reaches default_settings [] demo_leased"
    unfolding demo_leased_def by (rule qm.next_step) simp
  from queue_reachable_ok [OF r] r demo_claims show ?thesis by blast
qed

lemma queue_rows_evolve_witness:
  "map qj_state (queue_step default_settings (20, OCancelExecution ''ex1'') demo_leased) = [QCancelled, QCancelled] \<and>
   list_all2 (\<lambda>r r'. qj_id r' = qj_id r \<and> (qj_state r' = qj_state r \<or> job_moves (qj_state r) (qj_state r')))
    demo_leased (take (length demo_leased) (queue_step default_settings (20, OCancelExecution ''ex1'') demo_leased))"
proof
  show "map qj_state (queue_step default_settings (20, OCancelExecution ''ex1'') demo_leased) = [QCancelled, QCancelled]"
    by code_simp
qed (rule queue_rows_evolve [OF demo_leased_ok])

lemma claim_next_available_spec_witness:
  "\<exists>j rows'. claim_next_available default_settings 10 [] ''w1'' demo_queue = (Some j, rows') \<and> jb_id j = ''j2'' \<and>
     jb_attempts j = 1 \<and> (\<exists>r \<in> set rows'. qj_id r = ''j2'' \<and> qj_leased_by r = Some ''w1'')"
proof -
  have d: "distinct (map qj_id demo_queue)" by code_simp
  have c: "map_option (\<lambda>j. (jb_id j, jb_attempts j)) (fst (claim_next_available default_settings 10 [] ''w1'' demo_queue)) = Some (''j2'', 1)"
    by code_simp
  obtain r rows' where eq: "claim_next_available default_settings 10 [] ''w1'' demo_queue = (r, rows')"
    by (cases "claim_next_available default_settings 10 [] ''w1'' demo_queue")
  with c obtain j where r: "r = Some j" "jb_id j = ''j2''" "jb_attempts j = 1" by auto
  have "\<exists>x \<in> set rows'. qj_id x = jb_id j \<and> qj_leased_by x = Some ''w1''"
    using claim_next_available_spec [OF d, of "[]" 10 default_settings "''w1''"] by (auto simp: eq r(1) Let_def)
  with eq r show ?thesis by auto
qed


lemma claim_race_single_winner_witness:
  "claim_update default_settings 11 ''w2'' ''j2'' (snd (claim_update default_settings 10 ''w1'' ''j2'' demo_queue)) =
     (None, snd (claim_update default_settings 10 ''w1'' ''j2'' demo_queue))"
proof -
  have d: "distinct (map qj_id demo_queue)" by code_simp
  have c: "fst (claim_update default_settings 10 ''w1'' ''j2'' demo_queue) \<noteq> None" by code_simp
  obtain r rows' where eq: "claim_update default_settings 10 ''w1'' ''j2'' demo_queue = (r, rows')"
    by (cases "claim_update default_settings 10 ''w1'' ''j2'' demo_queue")
  with c obtain j where "r = Some j" by auto
  with claim_race_single_winner [OF d, of default_settings 10 "''w1''" "''j2''"] eq show ?thesis by simp
qed

lemma claims_respect_cap_witness:
  "leased_count ''wf1'' (queue_step default_settings (20, OClaim [] ''w2'') demo_leased) \<le>
     max_concurrent_tasks_per_workflow default_settings \<and>
   leased_count ''wf1'' (queue_step default_settings (20, OClaim [] ''w2'') demo_leased) = 2"
proof
  have "leased_count w demo_leased \<le> max_concurrent_tasks_per_workflow default_settings" for w
  proof -
    have "length demo_leased = 2" by code_simp
    then have "leased_count w demo_leased \<le> 2"
      using length_filter_le [of "\<lambda>r. qj_state r = QLeased \<and> qj_workflow r = w" demo_leased]
      by (simp add: leased_count_def)
    then show ?thesis by (simp add: default_settings_def)
  qed
  then show "leased_count ''wf1'' (queue_step default_settings (20, OClaim [] ''w2'') demo_leased) \<le>
     max_concurrent_tasks_per_workflow default_settings"
    by (intro claims_respect_cap [OF demo_leased_ok]) simp_all
  show "leased_count ''wf1'' (queue_step default_settings (20, OClaim [] ''w2'') demo_leased) = 2"
    by code_simp
qed

lemma requeue_stale_jobs_spec_witness:
  "map qj_state (fst (snd (requeue_stale_jobs 40000000 (demo_leased, init_queue_mem)))) = [QQueued, QQueued] \<and>
   stale_lease_count 40000000 (fst (snd (requeue_stale_jobs 40000000 (demo_leased, init_queue_mem)))) = 0"
proof
  show "map qj_state (fst (snd (requeue_stale_jobs 40000000 (demo_leased, init_queue_mem)))) = [QQueued, QQueued]"
    by code_simp
  show "stale_lease_count 40000000 (fst (snd (requeue_stale_jobs 40000000 (demo_leased, init_queue_mem)))) = 0"
    using requeue_stale_jobs_spec [of 40000000 demo_leased init_queue_mem]
    by (cases "requeue_stale_jobs 40000000 (demo_leased, init_queue_mem)") auto
qed

lemma dequeue_returns_leased_witness:
  "\<exists>j rows' mem'. dequeue default_settings (\<lambda>t. t) (\<lambda>_ st. st) ''w1'' 1000000 10 (demo_queue, init_queue_mem) = (Some j, rows', mem') \<and>
     queue_ok rows'"
proof -
  have due: "requeue_stale_jobs_if_due default_settings 10 10 (demo_queue, init_queue_mem) = (demo_queue, init_queue_mem)"
    by (simp add: requeue_stale_jobs_if_due_def requeue_interval_def default_settings_def init_queue_mem_def secs_def)
  have c: "fst (claim_next_available default_settings 10 [] ''w1'' demo_queue) \<noteq> None" by code_simp
  obtain r rows' where eq: "claim_next_available default_settings 10 [] ''w1'' demo_queue = (r, rows')"
    by (cases "claim_next_available default_settings 10 [] ''w1'' demo_queue")
  with c obtain j where "r = Some j" by auto
  with eq due have "dequeue default_settings (\<lambda>t. t) (\<lambda>_ st. st) ''w1'' 1000000 10 (demo_queue, init_queue_mem) =
      (Some j, rows', init_queue_mem)"
    by (subst dequeue.simps) simp
  with dequeue_returns_leased [OF demo_queue_ok _ this] show ?thesis by blast
qed

lemma no_job_for_two_workers_witness:
  "holds_lease demo_leased ''j2'' ''w1'' 30000010 \<and>
   (\<exists>j rows'. claim_next_available default_settings 20 [] ''w2'' demo_leased = (Some j, rows') \<and> jb_id j \<noteq> ''j2'' \<and>
     holds_lease rows' ''j2'' ''w1'' 30000010)"
proof -
  have h: "holds_lease demo_leased ''j2'' ''w1'' 30000010" by code_simp
  have c: "fst (claim_next_available default_settings 20 [] ''w2'' demo_leased) \<noteq> None" by code_simp
  obtain r rows' where eq: "claim_next_available default_settings 20 [] ''w2'' demo_leased = (r, rows')"
    by (cases "claim_next_available default_settings 20 [] ''w2'' demo_leased")
  with c obtain j where r: "r = Some j" by auto
  from no_job_for_two_workers [OF demo_leased_ok, of default_settings 20 "''w2''" j rows' "''j2''" "''w1''" 30000010] eq r h
  show ?thesis by auto
qed

text \<open>The cap is checked in the \<open>SELECT\<close> only, so claims that interleave can exceed it: with a cap of
  one, two workers on PostgreSQL each select a different job (the second skips the row the first has
  locked), both updates succeed, and the workflow has two leased jobs.\<close>

theorem concurrent_claims_exceed_cap:
  "let S = default_settings\<lparr>max_concurrent_tasks_per_workflow := 1\<rparr> in
   map_option qj_id (select_candidate S 10 [] demo_queue) = Some ''j2'' \<and>
   map_option qj_id (select_candidate S 10 [''j2''] demo_queue) = Some ''j1'' \<and>
   leased_count ''wf1'' (snd (claim_update S 10 ''w2'' ''j1'' (snd (claim_update S 10 ''w1'' ''j2'' demo_queue)))) = 2"
  by code_simp

end
