(* ===== verification/Execution.thy ===== *)
theory Execution
  imports Job_Queue Dag
begin

text \<open>
  \<open>backend/services/execution_service.py\<close>: the life of an execution.

  A method works on a SQLAlchemy session: the execution and its tasks as loaded objects, and the
  rest of the database behind them. \<open>session\<close> is that state; \<open>se_sent\<close> collects the realtime
  broadcasts. A request handler loads a session, runs and commits in one step. A worker's
  \<open>_run_task\<close> is split where the task handler runs: \<open>execute_task\<close> commits the \<open>running\<close> state and
  hands out a \<open>running\<close> value, \<open>finish_task\<close> continues with the handler's outcome on a database
  that may have moved on. The worker's session keeps the objects it loaded (\<open>expire_on_commit\<close> is
  off), so \<open>finish_task\<close> sees the execution row and its own task row as they were at the start,
  and \<open>commit\<close> writes back only the attributes that changed (\<open>merge3\<close>).

  Metrics and context variables are not modelled. Every \<open>utc_now()\<close> of one step is the same \<open>now\<close>.
\<close>

section \<open>Sessions\<close>

record session =
  se_exec :: execution
  se_items :: "etask list"
  se_db :: db
  se_sent :: "(uid \<times> json) list"

definition load_session :: "uid \<Rightarrow> db \<Rightarrow> session option" where
  "load_session eid d = (case find (\<lambda>e. ex_id e = eid) (executions d) of
     None \<Rightarrow> None
   | Some e \<Rightarrow> Some \<lparr>se_exec = e, se_items = filter (\<lambda>i. et_execution i = eid) (etasks d),
       se_db = d, se_sent = []\<rparr>)"

text \<open>\<open>_get_execution\<close>: only the tenant's own execution, 404 otherwise.\<close>

definition get_execution :: "uid \<Rightarrow> uid \<Rightarrow> db \<Rightarrow> session res" where
  "get_execution tenant eid d =
     (case load_session eid d of
        None \<Rightarrow> Inl (ApiError 404 ''not_found'' ''Execution not found.'')
      | Some s \<Rightarrow> if ex_tenant (se_exec s) = tenant then Inr s
                 else Inl (ApiError 404 ''not_found'' ''Execution not found.''))"

definition merge3 :: "'a \<Rightarrow> 'a \<Rightarrow> 'a \<Rightarrow> 'a" where
  "merge3 base cur row = (if cur = base then row else cur)"

definition merge_execution :: "execution \<Rightarrow> execution \<Rightarrow> execution \<Rightarrow> execution" where
  "merge_execution b c r = r\<lparr>
     ex_status := merge3 (ex_status b) (ex_status c) (ex_status r),
     ex_cancel_requested := merge3 (ex_cancel_requested b) (ex_cancel_requested c) (ex_cancel_requested r),
     ex_updated_at := merge3 (ex_updated_at b) (ex_updated_at c) (ex_updated_at r),
     ex_started_at := merge3 (ex_started_at b) (ex_started_at c) (ex_started_at r),
     ex_finished_at := merge3 (ex_finished_at b) (ex_finished_at c) (ex_finished_at r)\<rparr>"

definition merge_etask :: "etask \<Rightarrow> etask \<Rightarrow> etask \<Rightarrow> etask" where
  "merge_etask b c r = r\<lparr>
     et_status := merge3 (et_status b) (et_status c) (et_status r),
     et_retries := merge3 (et_retries b) (et_retries c) (et_retries r),
     et_started_at := merge3 (et_started_at b) (et_started_at c) (et_started_at r),
     et_finished_at := merge3 (et_finished_at b) (et_finished_at c) (et_finished_at r),
     et_error := merge3 (et_error b) (et_error c) (et_error r),
     et_worker := merge3 (et_worker b) (et_worker c) (et_worker r),
     et_heartbeat_at := merge3 (et_heartbeat_at b) (et_heartbeat_at c) (et_heartbeat_at r)\<rparr>"

definition write_item :: "etask list \<Rightarrow> etask list \<Rightarrow> etask \<Rightarrow> etask" where
  "write_item base cur r =
     (case (find (\<lambda>i. et_id i = et_id r) base, find (\<lambda>i. et_id i = et_id r) cur) of
        (Some b, Some c) \<Rightarrow> merge_etask b c r
      | _ \<Rightarrow> r)"

text \<open>\<open>session.commit()\<close>: \<open>base\<close> is the session as loaded.\<close>

definition commit :: "session \<Rightarrow> session \<Rightarrow> db" where
  "commit base s = (let d = se_db s in
     d\<lparr>executions := upd_where (\<lambda>r. ex_id r = ex_id (se_exec s))
          (merge_execution (se_exec base) (se_exec s)) (executions d),
       etasks := map (write_item (se_items base) (se_items s)) (etasks d)\<rparr>)"

definition set_item :: "(etask \<Rightarrow> bool) \<Rightarrow> (etask \<Rightarrow> etask) \<Rightarrow> session \<Rightarrow> session" where
  "set_item P f s = s\<lparr>se_items := upd_where P f (se_items s)\<rparr>"

definition set_exec :: "(execution \<Rightarrow> execution) \<Rightarrow> session \<Rightarrow> session" where
  "set_exec f s = s\<lparr>se_exec := f (se_exec s)\<rparr>"

definition on_db :: "(db \<Rightarrow> db) \<Rightarrow> session \<Rightarrow> session" where
  "on_db f s = s\<lparr>se_db := f (se_db s)\<rparr>"

definition broadcast :: "json \<Rightarrow> session \<Rightarrow> session" where
  "broadcast payload s = s\<lparr>se_sent := se_sent s @ [(ex_id (se_exec s), payload)]\<rparr>"

definition write_log :: "time \<Rightarrow> string \<Rightarrow> string \<Rightarrow> uid option \<Rightarrow> session \<Rightarrow> session" where
  "write_log now message level tid s = on_db (log_write now (ex_id (se_exec s)) message level tid) s"

definition exec_event :: "string \<Rightarrow> session \<Rightarrow> json" where
  "exec_event ty s = JObj [(''type'', JStr ty), (''executionId'', JStr (ex_id (se_exec s)))]"

definition json_opt :: "string option \<Rightarrow> json" where
  "json_opt x = (case x of None \<Rightarrow> JNull | Some v \<Rightarrow> JStr v)"

definition task_event :: "string \<Rightarrow> etask \<Rightarrow> session \<Rightarrow> json" where
  "task_event ty i s = JObj [(''type'', JStr ty), (''executionId'', JStr (ex_id (se_exec s))),
     (''taskId'', json_opt (et_task i))]"

definition status_event :: "session \<Rightarrow> json" where
  "status_event s = JObj [(''type'', JStr ''execution.updated''), (''executionId'', JStr (ex_id (se_exec s))),
     (''status'', JStr (execution_status_value (ex_status (se_exec s))))]"

section \<open>State sets and the execution's status\<close>

definition SATISFIED_STATES :: "task_state set" where
  "SATISFIED_STATES = {TSuccess, TSkipped}"

definition ACTIVE_STATES :: "task_state set" where
  "ACTIVE_STATES = {TPending, TQueued, TRunning, TRetrying}"

definition TERMINAL_EXECUTION_STATES :: "execution_status set" where
  "TERMINAL_EXECUTION_STATES = {ESuccess, EFailed, ECancelled}"

definition status_of_states :: "bool \<Rightarrow> task_state set \<Rightarrow> execution_status" where
  "status_of_states cancel_requested states =
     (if TFailed \<in> states then EFailed
      else if cancel_requested \<and> states \<subseteq> {TSuccess, TSkipped, TCancelled, TFailed} then ECancelled
      else if states \<subseteq> SATISFIED_STATES then ESuccess
      else if TCancelled \<in> states \<and> states \<inter> {TPending, TQueued, TRunning} = {} then ECancelled
      else ERunning)"

definition finish_event_payload :: "execution \<Rightarrow> execution_status \<Rightarrow> json" where
  "finish_event_payload e st = JObj [(''executionId'', JStr (ex_id e)), (''workflowId'', JStr (ex_workflow e)),
     (''workflowName'', JStr (ex_workflow_name e)), (''status'', JStr (execution_status_value st))]"

definition refresh_execution_status :: "time \<Rightarrow> session \<Rightarrow> session" where
  "refresh_execution_status now s =
     (let e = se_exec s; states = set (map et_status (se_items s)) in
      if states = {} then set_exec (\<lambda>e. e\<lparr>ex_status := EPending\<rparr>) s
      else let st = status_of_states (ex_cancel_requested e) states in
        if st = ERunning
          then set_exec (\<lambda>e. e\<lparr>ex_status := ERunning, ex_finished_at := None, ex_updated_at := now\<rparr>) s
        else
          let s1 = set_exec (\<lambda>e. e\<lparr>ex_status := st,
                 ex_finished_at := (if st \<in> TERMINAL_EXECUTION_STATES
                    then Some (case ex_finished_at e of None \<Rightarrow> now | Some t \<Rightarrow> t) else ex_finished_at e),
                 ex_updated_at := now\<rparr>) s
          in if ex_status e \<noteq> st \<and> st \<in> TERMINAL_EXECUTION_STATES
               then on_db (outbox_write now (ex_tenant e) (''execution.'' @ execution_status_value st)
                      (Some (ex_id e)) (finish_event_payload e st)) s1
             else s1)"

definition finalize_session :: "time \<Rightarrow> session \<Rightarrow> session" where
  "finalize_session now s = (let s1 = refresh_execution_status now s in broadcast (status_event s1) s1)"

section \<open>Queueing ready tasks\<close>

text \<open>\<open>items_by_name\<close>: a later task of the same name wins, as in the dict comprehension.\<close>

definition item_named :: "etask list \<Rightarrow> string \<Rightarrow> etask option" where
  "item_named items n = find (\<lambda>i. et_name i = n) (rev items)"

definition get_or :: "'a option \<Rightarrow> 'a \<Rightarrow> 'a" where
  "get_or x y = (case x of None \<Rightarrow> y | Some v \<Rightarrow> v)"

definition queue_item :: "settings \<Rightarrow> time \<Rightarrow> time \<Rightarrow> etask \<Rightarrow> session \<Rightarrow> session res" where
  "queue_item S now available_at item s =
     (case generate_uuid (se_db s) of (jid, d) \<Rightarrow>
        case enqueue now \<lparr>jb_id = jid, jb_etask = et_id item, jb_execution = ex_id (se_exec s),
               jb_task = get_or (et_task item) [], jb_tenant = ex_tenant (se_exec s),
               jb_workflow = ex_workflow (se_exec s), jb_priority = get_or (cf_priority (et_config item)) 0,
               jb_available_at = available_at, jb_retry_count = et_retries item, jb_attempts = 0,
               jb_max_attempts = queue_poison_max_attempts S, jb_enqueued_at = now\<rparr> (jobs d) of
          Inl e \<Rightarrow> Inl e
        | Inr rows \<Rightarrow> Inr (s\<lparr>se_db := d\<lparr>jobs := rows\<rparr>\<rparr>))"

datatype readiness = NotPending | MissingDep | FailedDep | CancelledDep | Ready | Waiting

definition readiness_of :: "etask list \<Rightarrow> etask \<Rightarrow> readiness" where
  "readiness_of items item =
     (if et_status item \<noteq> TPending then NotPending
      else let deps = map (item_named items) (et_deps item) in
        if None \<in> set deps then MissingDep
        else if Some TFailed \<in> set (map (map_option et_status) deps) then FailedDep
        else if Some TCancelled \<in> set (map (map_option et_status) deps) then CancelledDep
        else if \<forall>s \<in> set (map (map_option et_status) deps). s \<in> Some ` SATISFIED_STATES then Ready
        else Waiting)"

definition finish_item :: "time \<Rightarrow> uid \<Rightarrow> task_state \<Rightarrow> string option \<Rightarrow> session \<Rightarrow> session" where
  "finish_item now iid st err =
     set_item (\<lambda>i. et_id i = iid) (\<lambda>i. i\<lparr>et_status := st, et_finished_at := Some now, et_error := err\<rparr>)"

text \<open>One iteration of the loop over \<open>execution.execution_tasks\<close>; the flag is \<open>changed\<close>.\<close>

definition ready_step :: "settings \<Rightarrow> time \<Rightarrow> session \<times> bool \<Rightarrow> uid \<Rightarrow> (session \<times> bool) res" where
  "ready_step S now sc iid = (case sc of (s, changed) \<Rightarrow>
     case find (\<lambda>i. et_id i = iid) (se_items s) of
       None \<Rightarrow> Inr (s, changed)
     | Some item \<Rightarrow>
        (case readiness_of (se_items s) item of
           NotPending \<Rightarrow> Inr (s, changed)
         | MissingDep \<Rightarrow> Inr (write_log now (''Task '' @ quoted (et_name item) @ '' failed because a dependency is missing.'')
               ''ERROR'' (Some iid) (finish_item now iid TFailed (Some ''Dependency definition is missing.'') s), True)
         | FailedDep \<Rightarrow> Inr (write_log now (''Task '' @ quoted (et_name item) @ '' marked failed because a dependency failed.'')
               ''ERROR'' (Some iid) (set_exec (\<lambda>e. e\<lparr>ex_updated_at := now\<rparr>)
                  (finish_item now iid TFailed (Some ''Blocked by failed dependency.'') s)), True)
         | CancelledDep \<Rightarrow> Inr (finish_item now iid TCancelled (Some ''Blocked by cancelled dependency.'') s, True)
         | Ready \<Rightarrow>
             (case queue_item S now (now + timedelta_s (get_or (cf_delay_seconds (et_config item)) 0)) item
                (set_exec (\<lambda>e. e\<lparr>ex_updated_at := now\<rparr>)
                  (set_item (\<lambda>i. et_id i = iid) (\<lambda>i. i\<lparr>et_status := TQueued, et_heartbeat_at := Some now\<rparr>) s)) of
                Inl e \<Rightarrow> Inl e
              | Inr s1 \<Rightarrow> Inr (write_log now (''Task '' @ quoted (et_name item) @ '' queued.'') ''INFO'' (Some iid) s1, True))
         | Waiting \<Rightarrow> Inr (s, changed)))"

definition ready_pass :: "settings \<Rightarrow> time \<Rightarrow> session \<Rightarrow> session res" where
  "ready_pass S now s =
     (if ex_cancel_requested (se_exec s)
        then Inr (refresh_execution_status now (set_exec (\<lambda>e. e\<lparr>ex_updated_at := now\<rparr>)
               (set_item (\<lambda>i. et_status i \<in> ACTIVE_STATES)
                  (\<lambda>i. i\<lparr>et_status := TCancelled, et_finished_at := Some now\<rparr>) s)))
      else case fold_res (ready_step S now) (s, False) (map et_id (se_items s)) of
         Inl e \<Rightarrow> Inl e
       | Inr (s1, changed) \<Rightarrow>
           (let s2 = refresh_execution_status now s1
            in Inr (if changed then broadcast (exec_event ''execution.updated'' s2) s2 else s2)))"

definition enqueue_ready_tasks :: "settings \<Rightarrow> time \<Rightarrow> uid \<Rightarrow> db \<Rightarrow> (db \<times> (uid \<times> json) list) res" where
  "enqueue_ready_tasks S now eid d =
     (case load_session eid d of
        None \<Rightarrow> Inl (ApiError 404 ''not_found'' ''Execution not found.'')
      | Some s \<Rightarrow> (case ready_pass S now s of Inl e \<Rightarrow> Inl e | Inr s' \<Rightarrow> Inr (commit s s', se_sent s')))"

definition finalize_execution :: "time \<Rightarrow> uid \<Rightarrow> db \<Rightarrow> db \<times> (uid \<times> json) list" where
  "finalize_execution now eid d =
     (case load_session eid d of
        None \<Rightarrow> (d, [])
      | Some s \<Rightarrow> (let s' = finalize_session now s in (commit s s', se_sent s')))"

section \<open>Starting executions\<close>

definition active_executions :: "uid \<Rightarrow> db \<Rightarrow> int" where
  "active_executions tenant d = int (length (filter (\<lambda>e. ex_tenant e = tenant \<and> ex_status e \<in> {EPending, ERunning}) (executions d)))"

definition workflow_tasks :: "uid \<Rightarrow> db \<Rightarrow> task_definition list" where
  "workflow_tasks wid d = sort_key td_created_at (filter (\<lambda>t. td_workflow t = wid) (task_defs d))"

definition document_from_tasks :: "workflow \<Rightarrow> db \<Rightarrow> wf_document" where
  "document_from_tasks w d = \<lparr>doc_name = wf_name w, doc_description = wf_description w,
     doc_revision = wf_current_revision w,
     doc_tasks = map (\<lambda>t. \<lparr>ts_name = td_name t, ts_deps = td_deps t, ts_config = td_config t\<rparr>)
       (workflow_tasks (wf_id w) d)\<rparr>"

text \<open>\<open>max(workflow.revisions, key=..)\<close>, the first of the largest.\<close>

definition latest_revision :: "wf_revision list \<Rightarrow> wf_revision option" where
  "latest_revision rs = (case rs of [] \<Rightarrow> None
     | r # rest \<Rightarrow> Some (foldl (\<lambda>b r. if rv_revision b < rv_revision r then r else b) r rest))"

definition insert_etask :: "uid \<Rightarrow> task_definition list \<Rightarrow> task_spec \<Rightarrow> db \<Rightarrow> db" where
  "insert_etask eid defs t d = (case generate_uuid d of (i, d1) \<Rightarrow>
     d1\<lparr>etasks := etasks d1 @ [\<lparr>et_id = i, et_execution = eid,
        et_task = map_option td_id (find (\<lambda>x. td_name x = ts_name t) (rev defs)),
        et_name = ts_name t, et_deps = ts_deps t, et_config = ts_config t, et_status = TPending,
        et_retries = 0, et_started_at = None, et_finished_at = None, et_error = None,
        et_worker = None, et_heartbeat_at = None\<rparr>]\<rparr>)"

definition execution_with_key :: "uid \<Rightarrow> string \<Rightarrow> db \<Rightarrow> execution option" where
  "execution_with_key tenant key d =
     find (\<lambda>e. ex_tenant e = tenant \<and> ex_idempotency_key e = Some key) (executions d)"

text \<open>
  Two unique constraints, checked at two places. The flush inserts the row of the execution, and
  violates (tenant, idempotency key) when another request has inserted that key; a missing key never
  conflicts. The rows of the tasks are inserted by the commit, which violates (execution, task
  definition) when two tasks of the document find the same definition.
\<close>

definition flush_conflicts :: "uid \<Rightarrow> string option \<Rightarrow> db \<Rightarrow> bool" where
  "flush_conflicts tenant key d \<longleftrightarrow>
     (case key of None \<Rightarrow> False | Some k \<Rightarrow> execution_with_key tenant k d \<noteq> None)"

definition spawn_conflicts :: "wf_document \<Rightarrow> task_definition list \<Rightarrow> bool" where
  "spawn_conflicts doc defs \<longleftrightarrow>
     \<not> distinct (List.map_filter (\<lambda>t. map_option td_id (find (\<lambda>x. td_name x = ts_name t) (rev defs))) (doc_tasks doc))"

type_synonym exec_result = "(execution \<times> db \<times> (uid \<times> json) list) res"

definition spawn_rows :: "time \<Rightarrow> uid \<Rightarrow> workflow \<Rightarrow> task_definition list \<Rightarrow> wf_document \<Rightarrow> uid option \<Rightarrow>
    int \<Rightarrow> string \<Rightarrow> string option \<Rightarrow> db \<Rightarrow> uid \<times> db" where
  "spawn_rows now tenant w defs doc rvid revno actor key d =
     (case generate_uuid d of (eid, d1) \<Rightarrow>
        let name = (if doc_name doc \<noteq> [] then doc_name doc else wf_name w);
            e = \<lparr>ex_id = eid, ex_tenant = tenant, ex_workflow = wf_id w, ex_workflow_revision = rvid,
                 ex_workflow_name = name, ex_revision = revno, ex_snapshot = doc, ex_status = ERunning,
                 ex_cancel_requested = False, ex_idempotency_key = key, ex_triggered_by = actor,
                 ex_created_at = now, ex_updated_at = now, ex_started_at = Some now, ex_finished_at = None\<rparr>;
            d2 = fold (insert_etask eid defs) (doc_tasks doc) (d1\<lparr>executions := executions d1 @ [e]\<rparr>);
            d3 = log_write now eid (''Execution created for workflow '' @ quoted name @ ''.'') ''INFO'' None d2
        in (eid, outbox_write now tenant ''execution.started'' (Some eid)
              (JObj [(''executionId'', JStr eid), (''workflowId'', JStr (wf_id w)), (''status'', JStr ''running'')]) d3))"

text \<open>The flush is outside the \<open>try\<close>, so what it raises leaves the method; the handler is for the commit.\<close>

definition spawn :: "settings \<Rightarrow> time \<Rightarrow> uid \<Rightarrow> workflow \<Rightarrow> wf_document \<Rightarrow> uid option \<Rightarrow>
    int \<Rightarrow> string \<Rightarrow> string option \<Rightarrow> db \<Rightarrow> exec_result" where
  "spawn S now tenant w doc rvid revno actor key d =
     (let defs = workflow_tasks (wf_id w) d in
      if flush_conflicts tenant key d then Inl IntegrityError
      else if spawn_conflicts doc defs then
        (case (case key of None \<Rightarrow> None | Some k \<Rightarrow> if k = [] then None else execution_with_key tenant k d) of
           Some e \<Rightarrow> Inr (e, d, [])
         | None \<Rightarrow> Inl (ApiError 409 ''conflict'' ''Workflow execution conflict.''))
      else case spawn_rows now tenant w defs doc rvid revno actor key d of (eid, d1) \<Rightarrow>
        (case load_session eid d1 of
           None \<Rightarrow> Inl (ApiError 404 ''not_found'' ''Execution not found.'')
         | Some s \<Rightarrow>
             (case ready_pass S now s of
                Inl e \<Rightarrow> Inl e
              | Inr s1 \<Rightarrow> (let s2 = broadcast (exec_event ''execution.started'' s1) s1
                  in Inr (se_exec s2, commit s s2, se_sent s2)))))"

definition trigger_workflow :: "settings \<Rightarrow> time \<Rightarrow> uid \<Rightarrow> uid \<Rightarrow> string \<Rightarrow> string option \<Rightarrow> db \<Rightarrow> exec_result" where
  "trigger_workflow S now tenant wid actor key d =
     (case (case key of None \<Rightarrow> None | Some k \<Rightarrow> if k = [] then None else execution_with_key tenant k d) of
        Some e \<Rightarrow> Inr (e, d, [])
      | None \<Rightarrow>
          (case find (\<lambda>w. wf_id w = wid \<and> wf_tenant w = tenant \<and> \<not> wf_is_archived w) (workflows d) of
             None \<Rightarrow> Inl (ApiError 404 ''not_found'' ''Workflow not found.'')
           | Some w \<Rightarrow>
               if max_concurrent_executions_per_tenant S \<le> active_executions tenant d
                 then Inl (ApiError 429 ''quota_exceeded'' ''Concurrent execution quota reached for this tenant.'')
               else (case latest_revision (sort_key rv_revision (filter (\<lambda>r. rv_workflow r = wid) (revisions d))) of
                   Some r \<Rightarrow> spawn S now tenant w (rv_document r) (Some (rv_id r)) (rv_revision r) actor key d
                 | None \<Rightarrow> spawn S now tenant w (document_from_tasks w d) None (wf_current_revision w) actor key d)))"

definition retry_execution :: "settings \<Rightarrow> time \<Rightarrow> uid \<Rightarrow> uid \<Rightarrow> string \<Rightarrow> db \<Rightarrow> exec_result" where
  "retry_execution S now tenant eid actor d =
     (case get_execution tenant eid d of
        Inl e \<Rightarrow> Inl e
      | Inr s \<Rightarrow>
          if ex_status (se_exec s) \<notin> TERMINAL_EXECUTION_STATES
            then Inl (ApiError 409 ''conflict'' ''Only finished executions can be retried.'')
          else (case find (\<lambda>w. wf_id w = ex_workflow (se_exec s)) (workflows d) of
              None \<Rightarrow> Inl (ApiError 404 ''not_found'' ''Workflow no longer exists.'')
            | Some w \<Rightarrow>
                (case spawn S now tenant w (ex_snapshot (se_exec s)) None (ex_revision (se_exec s)) actor None d of
                   Inl e \<Rightarrow> Inl e
                 | Inr (e, d1, sent) \<Rightarrow>
                     Inr (e, log_write now (ex_id e) (''Execution retried from '' @ eid @ ''.'') ''INFO'' None d1, sent))))"

section \<open>Failing what is downstream\<close>

text \<open>Some task whose name is among the dependencies has failed.\<close>

definition failed_upstream :: "etask list \<Rightarrow> etask \<Rightarrow> bool" where
  "failed_upstream items item \<longleftrightarrow>
     TFailed \<in> set (map et_status (filter (\<lambda>c. et_name c \<in> set (et_deps item)) items))"

definition fail_step :: "time \<Rightarrow> uid \<Rightarrow> session \<times> bool \<Rightarrow> session \<times> bool" where
  "fail_step now iid sc = (case sc of (s, changed) \<Rightarrow>
     case find (\<lambda>i. et_id i = iid) (se_items s) of
       None \<Rightarrow> (s, changed)
     | Some item \<Rightarrow>
         if et_status item \<noteq> TPending then (s, changed)
         else if failed_upstream (se_items s) item
           then (write_log now (''Task '' @ quoted (et_name item) @ '' blocked after upstream failure.'') ''ERROR'' (Some iid)
                   (set_exec (\<lambda>e. e\<lparr>ex_updated_at := now\<rparr>)
                     (finish_item now iid TFailed (Some ''Blocked by failed dependency.'') s)), True)
         else (s, changed))"

definition fail_sweep :: "time \<Rightarrow> session \<Rightarrow> session \<times> bool" where
  "fail_sweep now s = fold (fail_step now) (map et_id (se_items s)) (s, False)"

definition pending_count :: "session \<Rightarrow> nat" where
  "pending_count s = length (filter (\<lambda>i. et_status i = TPending) (se_items s))"

lemma session_ops [simp]:
  "se_items (write_log n m l t s) = se_items s" "se_exec (write_log n m l t s) = se_exec s"
  "se_items (set_exec f s) = se_items s" "se_exec (set_exec f s) = f (se_exec s)"
  "se_items (set_item P g s) = upd_where P g (se_items s)" "se_exec (set_item P g s) = se_exec s"
  "se_items (on_db h s) = se_items s" "se_exec (on_db h s) = se_exec s"
  "se_items (broadcast p s) = se_items s" "se_exec (broadcast p s) = se_exec s"
  "se_db (set_exec f s) = se_db s" "se_db (set_item P g s) = se_db s" "se_db (on_db h s) = h (se_db s)"
  "se_db (broadcast p s) = se_db s"
  by (simp_all add: write_log_def set_exec_def set_item_def on_db_def broadcast_def)

lemma pending_upd_less:
  assumes "x \<in> set items" and "P x" and "et_status x = TPending" and "\<And>i. et_status (f i) \<noteq> TPending"
  shows "length (filter (\<lambda>i. et_status i = TPending) (upd_where P f items)) <
     length (filter (\<lambda>i. et_status i = TPending) items)"
  using assms(1)
proof (induction items)
  case (Cons a items)
  have le: "length (filter (\<lambda>i. et_status i = TPending) (upd_where P f items)) \<le>
      length (filter (\<lambda>i. et_status i = TPending) items)"
    using assms(4) by (intro length_filter_upd_le) simp
  with Cons assms(2-4) show ?case by auto
qed simp

lemma fail_step_pending:
  assumes "fail_step now iid (s, c) = (s', c')"
  shows "pending_count s' \<le> pending_count s \<and> (c' \<noteq> c \<longrightarrow> pending_count s' < pending_count s)"
proof (cases "find (\<lambda>i. et_id i = iid) (se_items s)")
  case None
  with assms show ?thesis by (simp add: fail_step_def)
next
  case (Some item)
  note in_items = find_SomeD [OF Some]
  show ?thesis
  proof (cases "et_status item = TPending \<and> failed_upstream (se_items s) item")
    case True
    with assms Some have "se_items s' = upd_where (\<lambda>i. et_id i = iid)
        (\<lambda>i. i\<lparr>et_status := TFailed, et_finished_at := Some now,
           et_error := Some ''Blocked by failed dependency.''\<rparr>) (se_items s)"
      by (auto simp: fail_step_def finish_item_def)
    with in_items True have "pending_count s' < pending_count s"
      by (simp add: pending_count_def pending_upd_less [of item])
    then show ?thesis by simp
  next
    case False
    with assms Some have "s' = s \<and> c' = c" by (auto simp: fail_step_def split: if_splits)
    then show ?thesis by simp
  qed
qed

lemma fail_steps_pending:
  "fold (fail_step now) ids (s, c) = (s', c') \<Longrightarrow>
   pending_count s' \<le> pending_count s \<and> (c' \<noteq> c \<longrightarrow> pending_count s' < pending_count s)"
proof (induction ids arbitrary: s c)
  case Nil
  then show ?case by simp
next
  case (Cons i ids)
  obtain t b where t: "fail_step now i (s, c) = (t, b)" by (cases "fail_step now i (s, c)")
  with Cons.IH [of t b] Cons.prems fail_step_pending [OF t] show ?case by (cases "b = c") auto
qed

text \<open>The \<open>while changed\<close> loop: each sweep that changes something fails a pending task.\<close>

function fail_downstream :: "time \<Rightarrow> session \<Rightarrow> session" where
  "fail_downstream now s = (case fail_sweep now s of (s', changed) \<Rightarrow> if changed then fail_downstream now s' else s')"
  by pat_completeness auto
termination
  by (relation "measure (\<lambda>(now, s). pending_count s)") (auto simp: fail_sweep_def dest!: fail_steps_pending dest: sym)

declare fail_downstream.simps [simp del]

section \<open>Running a task\<close>

text \<open>
  The process state of the service: the handler tasks in flight per execution, the executions whose
  cancellation is under way, and (to name the \<open>asyncio\<close> tasks) a counter and the tasks that
  \<open>cancel()\<close> was called on.
\<close>

record exec_mem =
  inflight :: "(uid \<times> nat) list"
  cancelling :: "uid set"
  next_handler :: nat
  signalled :: "nat set"

definition init_exec_mem :: exec_mem where
  "init_exec_mem = \<lparr>inflight = [], cancelling = {}, next_handler = 0, signalled = {}\<rparr>"

definition cancel_inflight :: "uid \<Rightarrow> exec_mem \<Rightarrow> nat \<times> exec_mem" where
  "cancel_inflight eid mem =
     (let tasks = map snd (filter (\<lambda>(e, h). e = eid) (inflight mem))
      in (length tasks, mem\<lparr>cancelling := insert eid (cancelling mem), signalled := signalled mem \<union> set tasks\<rparr>))"

record running =
  rn_exec :: execution
  rn_item :: etask
  rn_job :: uid
  rn_handler :: "nat option"
  rn_early :: "string option"

datatype out_value = OutInt int | OutStr string

datatype outcome =
    Returned "(string \<times> out_value) list option"
  | TimedOut
  | Cancelled
  | HandlerFailed string
  | Crashed

definition task_types :: "string list" where
  "task_types = [''sleep'', ''echo'', ''http'', ''fail'']"

text \<open>What \<open>_run_task\<close> raises before the handler task exists.\<close>

definition early_error :: "etask \<Rightarrow> string option" where
  "early_error item =
     (if et_retries item < get_or (cf_fail_first_n (et_config item)) 0
        then Some (''Simulated failure on attempt '' @ int_str (et_retries item + 1) @ ''.'')
      else let ty = get_or (cf_type (et_config item)) ''sleep'' in
        if ty \<notin> set task_types then Some (''Unknown task type '' @ quoted ty @ ''.'') else None)"

definition task_timeout :: "settings \<Rightarrow> etask \<Rightarrow> rat" where
  "task_timeout S item = min (get_or (cf_timeout_seconds (et_config item)) 60) (of_int (max_task_timeout_seconds S))"

definition start_item :: "time \<Rightarrow> string \<Rightarrow> etask \<Rightarrow> etask" where
  "start_item now worker i = i\<lparr>et_status := TRunning,
     et_started_at := Some (case et_started_at i of None \<Rightarrow> now | Some t \<Rightarrow> t),
     et_worker := Some worker, et_heartbeat_at := Some now\<rparr>"

definition run_task_start :: "time \<Rightarrow> string \<Rightarrow> uid \<Rightarrow> etask \<Rightarrow> exec_mem \<Rightarrow> session \<Rightarrow> session \<times> exec_mem \<times> running" where
  "run_task_start now worker jid item mem s =
     (let item' = start_item now worker item;
          s1 = write_log now (''Worker '' @ worker @ '' started task '' @ quoted (et_name item) @ ''.'') ''INFO'' (Some (et_id item))
                 (set_exec (\<lambda>e. e\<lparr>ex_updated_at := now\<rparr>) (set_item (\<lambda>i. et_id i = et_id item) (start_item now worker) s));
          s2 = broadcast (task_event ''task.running'' item s1) s1;
          early = early_error item'
      in (s2,
          (if early = None then mem\<lparr>inflight := inflight mem @ [(ex_id (se_exec s), next_handler mem)],
              next_handler := Suc (next_handler mem)\<rparr> else mem),
          \<lparr>rn_exec = se_exec s2, rn_item = item', rn_job = jid,
           rn_handler = (if early = None then Some (next_handler mem) else None), rn_early = early\<rparr>))"

text \<open>
  \<open>execute_task\<close> up to the point where the handler runs. \<open>None\<close> means the job is done with. The
  cancellation branch reads \<open>execution.execution_tasks\<close>, which this session has not loaded: the read
  raises, and the session's writes (the task's state and the acknowledgement) are rolled back.
\<close>

definition execute_task :: "time \<Rightarrow> uid \<Rightarrow> string \<Rightarrow> uid \<Rightarrow> exec_mem \<Rightarrow> db \<Rightarrow>
    (db \<times> exec_mem \<times> running option \<times> (uid \<times> json) list) res" where
  "execute_task now etid worker jid mem d =
     (case find (\<lambda>i. et_id i = etid) (etasks d) of
        None \<Rightarrow> Inr (d\<lparr>jobs := acknowledge now jid (jobs d)\<rparr>, mem, None, [])
      | Some item \<Rightarrow>
          if et_status item \<in> {TSuccess, TFailed, TCancelled, TSkipped}
            then Inr (d\<lparr>jobs := acknowledge now jid (jobs d)\<rparr>, mem, None, [])
          else (case load_session (et_execution item) d of
              None \<Rightarrow> Inl (TypeError ''item.execution is None'')
            | Some s \<Rightarrow>
                if ex_cancel_requested (se_exec s) then Inl MissingGreenlet
                else (case run_task_start now worker jid item mem s of (s1, mem1, r) \<Rightarrow>
                        Inr (commit s s1, mem1, Some r, se_sent s1))))"

text \<open>The worker's session when the handler is done: its own two rows as loaded, the rest fresh.\<close>

definition resume_session :: "running \<Rightarrow> db \<Rightarrow> session" where
  "resume_session r d = \<lparr>se_exec = rn_exec r,
     se_items = map (\<lambda>i. if et_id i = et_id (rn_item r) then rn_item r else i)
       (filter (\<lambda>i. et_execution i = ex_id (rn_exec r)) (etasks d)),
     se_db = d, se_sent = []\<rparr>"

definition ack_job :: "time \<Rightarrow> uid \<Rightarrow> session \<Rightarrow> session" where
  "ack_job now jid = on_db (\<lambda>d. d\<lparr>jobs := acknowledge now jid (jobs d)\<rparr>)"

definition touch_exec :: "time \<Rightarrow> session \<Rightarrow> session" where
  "touch_exec now = set_exec (\<lambda>e. e\<lparr>ex_updated_at := now\<rparr>)"

text \<open>\<open>_handle_failure\<close>: the failure is allowed, is retried, or is final.\<close>

definition tolerate_failure :: "settings \<Rightarrow> time \<Rightarrow> etask \<Rightarrow> uid \<Rightarrow> string \<Rightarrow> session \<Rightarrow> session res" where
  "tolerate_failure S now item jid message s =
     (case ready_pass S now (ack_job now jid
         (write_log now (''Task '' @ quoted (et_name item) @ '' failed but allow_failure is set: '' @ message)
            ''WARNING'' (Some (et_id item))
         (touch_exec now (finish_item now (et_id item) TSuccess (Some (take 2000 message)) s)))) of
        Inl e \<Rightarrow> Inl e
      | Inr s1 \<Rightarrow> Inr (finalize_session now s1))"

definition note_failure :: "time \<Rightarrow> etask \<Rightarrow> string \<Rightarrow> session \<Rightarrow> session" where
  "note_failure now item message s =
     touch_exec now (set_item (\<lambda>i. et_id i = et_id item)
       (\<lambda>i. i\<lparr>et_retries := et_retries item + 1, et_error := Some (take 2000 message), et_heartbeat_at := Some now\<rparr>) s)"

definition set_status :: "etask \<Rightarrow> task_state \<Rightarrow> session \<Rightarrow> session" where
  "set_status item st = set_item (\<lambda>i. et_id i = et_id item) (\<lambda>i. i\<lparr>et_status := st\<rparr>)"

definition schedule_retry :: "settings \<Rightarrow> time \<Rightarrow> etask \<Rightarrow> uid \<Rightarrow> string \<Rightarrow> session \<Rightarrow> session res" where
  "schedule_retry S now item jid message s =
     (let retries = et_retries item + 1;
          backoff = get_or (cf_backoff_seconds (et_config item)) 1
      in case queue_item S now (now + timedelta_s (backoff * 2 ^ nat (retries - 1))) (item\<lparr>et_retries := retries\<rparr>)
           (set_status item TQueued (ack_job now jid
             (write_log now (''Task '' @ quoted (et_name item) @ '' failed on attempt '' @ int_str retries @
                '': '' @ message @ '' Scheduling retry.'') ''WARNING'' (Some (et_id item))
             (set_status item TRetrying s)))) of
           Inl e \<Rightarrow> Inl e
         | Inr s1 \<Rightarrow> Inr (broadcast (task_event ''task.retrying'' item s1) s1))"

definition exhaust_task :: "time \<Rightarrow> etask \<Rightarrow> uid \<Rightarrow> string \<Rightarrow> session \<Rightarrow> session" where
  "exhaust_task now item jid message s =
     (let s1 = finalize_session now (fail_downstream now (ack_job now jid
            (write_log now (''Task '' @ quoted (et_name item) @ '' exhausted retries: '' @ message) ''ERROR'' (Some (et_id item))
            (set_item (\<lambda>i. et_id i = et_id item) (\<lambda>i. i\<lparr>et_status := TFailed, et_finished_at := Some now\<rparr>) s))))
      in broadcast (task_event ''task.failed'' item s1) s1)"

definition handle_failure :: "settings \<Rightarrow> time \<Rightarrow> etask \<Rightarrow> uid \<Rightarrow> string \<Rightarrow> session \<Rightarrow> session res" where
  "handle_failure S now item jid message s =
     (if cf_allow_failure (et_config item) then tolerate_failure S now item jid message s
      else let s1 = note_failure now item message s in
        if et_retries item + 1 \<le> get_or (cf_max_retries (et_config item)) 0
          then schedule_retry S now item jid message s1
        else Inr (exhaust_task now item jid message s1))"

definition cancel_running :: "time \<Rightarrow> etask \<Rightarrow> uid \<Rightarrow> string \<Rightarrow> session \<Rightarrow> session" where
  "cancel_running now item jid message s =
     (let s1 = finalize_session now (ack_job now jid (write_log now message ''WARNING'' (Some (et_id item))
           (set_item (\<lambda>i. et_id i = et_id item)
             (\<lambda>i. i\<lparr>et_status := TCancelled, et_finished_at := Some now, et_heartbeat_at := Some now\<rparr>) s)))
      in broadcast (task_event ''task.cancelled'' item s1) s1)"

fun py_str :: "out_value \<Rightarrow> string" where
  "py_str (OutInt n) = int_str n"
| "py_str (OutStr s) = s"

fun join :: "string \<Rightarrow> string list \<Rightarrow> string" where
  "join sep [] = []"
| "join sep [x] = x"
| "join sep (x # y # rest) = x @ sep @ join sep (y # rest)"

definition summarize :: "(string \<times> out_value) list option \<Rightarrow> string" where
  "summarize output = (case output of None \<Rightarrow> [] | Some [] \<Rightarrow> []
     | Some kvs \<Rightarrow> '' Output: '' @ take 500 (join '', '' (map (\<lambda>(k, v). k @ ''='' @ py_str v) kvs)) @ ''.'')"

definition complete_task :: "settings \<Rightarrow> time \<Rightarrow> etask \<Rightarrow> uid \<Rightarrow> (string \<times> out_value) list option \<Rightarrow> session \<Rightarrow> session res" where
  "complete_task S now item jid output s =
     (let s1 = ack_job now jid (write_log now (''Task '' @ quoted (et_name item) @ '' completed successfully.'' @ summarize output)
           ''INFO'' (Some (et_id item)) (touch_exec now (set_item (\<lambda>i. et_id i = et_id item)
             (\<lambda>i. i\<lparr>et_status := TSuccess, et_finished_at := Some now, et_error := None, et_heartbeat_at := Some now\<rparr>) s)))
      in case ready_pass S now s1 of
           Inl e \<Rightarrow> Inl e
         | Inr s2 \<Rightarrow> (let s3 = finalize_session now s2 in Inr (broadcast (task_event ''task.success'' item s3) s3)))"

text \<open>The body of \<open>_run_task\<close> from the handler's end on: the session after it, or what it raises.\<close>

definition run_task_finish :: "settings \<Rightarrow> time \<Rightarrow> running \<Rightarrow> outcome \<Rightarrow> exec_mem \<Rightarrow> session \<Rightarrow> session res \<times> exec_mem" where
  "run_task_finish S now r out mem s =
     (let item = rn_item r; jid = rn_job r; eid = ex_id (rn_exec r) in
      case (case rn_early r of Some m \<Rightarrow> HandlerFailed m | None \<Rightarrow> out) of
        TimedOut \<Rightarrow> (handle_failure S now item jid
            (''Task timed out after '' @ int_str (py_round (task_timeout S item)) @ '' seconds.'') s, mem)
      | Cancelled \<Rightarrow>
          if eid \<notin> cancelling mem then (Inl CancelledError, mem)
          else (Inr (cancel_running now item jid (''Task '' @ quoted (et_name item) @ '' cancelled while running.'') s),
                mem\<lparr>cancelling := cancelling mem - {eid}\<rparr>)
      | HandlerFailed m \<Rightarrow> (handle_failure S now item jid m s, mem)
      | Crashed \<Rightarrow> (handle_failure S now item jid ''Task handler raised an unexpected error.'' s, mem)
      | Returned output \<Rightarrow>
          if ex_cancel_requested (se_exec s)
            then (Inr (cancel_running now item jid (''Task '' @ quoted (et_name item) @ '' cancelled.'') s), mem)
          else (complete_task S now item jid output s, mem))"

definition drop_handler :: "running \<Rightarrow> exec_mem \<Rightarrow> exec_mem" where
  "drop_handler r mem = (case rn_handler r of None \<Rightarrow> mem
     | Some h \<Rightarrow> mem\<lparr>inflight := filter (\<lambda>p. p \<noteq> (ex_id (rn_exec r), h)) (inflight mem)\<rparr>)"

definition finish_task :: "settings \<Rightarrow> time \<Rightarrow> running \<Rightarrow> outcome \<Rightarrow> exec_mem \<Rightarrow> db \<Rightarrow>
    (db \<times> (uid \<times> json) list) res \<times> exec_mem" where
  "finish_task S now r out mem d =
     (let s = resume_session r d in
      case run_task_finish S now r out mem s of (res, mem1) \<Rightarrow>
        (case res of Inl e \<Rightarrow> Inl e | Inr s1 \<Rightarrow> Inr (commit s s1, se_sent s1), drop_handler r mem1))"

definition dead_letter_session :: "time \<Rightarrow> dead_letter \<Rightarrow> etask \<Rightarrow> session \<Rightarrow> session" where
  "dead_letter_session now dl item s =
     (let s1 = finalize_session now (fail_downstream now
            (write_log now (''Task '' @ quoted (et_name item) @ '' dead-lettered after '' @ int_str (dl_attempts dl) @
                '' attempts: '' @ dl_error dl) ''ERROR'' (Some (et_id item))
              (finish_item now (et_id item) TFailed (Some (dl_error dl)) s)))
      in broadcast (task_event ''task.failed'' item s1) s1)"

definition handle_dead_letter :: "time \<Rightarrow> dead_letter \<Rightarrow> db \<Rightarrow> db \<times> (uid \<times> json) list" where
  "handle_dead_letter now dl d =
     (case find (\<lambda>i. et_id i = dl_etask dl) (etasks d) of
        None \<Rightarrow> (d, [])
      | Some item \<Rightarrow>
          if et_status item \<in> {TSuccess, TFailed, TSkipped} then (d, [])
          else (case load_session (et_execution item) d of
              None \<Rightarrow> (d, [])
            | Some s \<Rightarrow> (let s1 = dead_letter_session now dl item s in (commit s s1, se_sent s1))))"

section \<open>What users do to an execution\<close>

definition cancel_mark :: "time \<Rightarrow> string \<Rightarrow> session \<Rightarrow> session" where
  "cancel_mark now actor s =
     refresh_execution_status now
       (write_log now (''Execution cancellation requested by '' @ actor @ ''.'') ''WARNING'' None
       (on_db (\<lambda>d. d\<lparr>jobs := cancel_execution_jobs now (ex_id (se_exec s)) (jobs d)\<rparr>)
       (set_item (\<lambda>i. et_status i \<in> {TPending, TQueued, TRetrying})
          (\<lambda>i. i\<lparr>et_status := TCancelled, et_finished_at := Some now\<rparr>)
       (set_exec (\<lambda>e. e\<lparr>ex_cancel_requested := True, ex_updated_at := now\<rparr>) s))))"

text \<open>\<open>others\<close> is what the rest of the system does during the 50 ms in which cancelled handlers wind up.\<close>

definition cancel_execution :: "time \<Rightarrow> (exec_mem \<times> db \<Rightarrow> exec_mem \<times> db) \<Rightarrow> uid \<Rightarrow> uid \<Rightarrow> string \<Rightarrow> exec_mem \<Rightarrow> db \<Rightarrow>
    exec_result \<times> exec_mem" where
  "cancel_execution now others tenant eid actor mem d =
     (case get_execution tenant eid d of
        Inl e \<Rightarrow> (Inl e, mem)
      | Inr s \<Rightarrow>
          if ex_status (se_exec s) \<in> TERMINAL_EXECUTION_STATES then (Inr (se_exec s, d, []), mem)
          else
            (let s1 = cancel_mark now actor s; d1 = commit s s1
             in case cancel_inflight eid mem of (n, mem1) \<Rightarrow>
               if 0 < n then
                 (case others (mem1, d1) of (mem2, d2) \<Rightarrow>
                    (case get_execution tenant eid d2 of
                       Inl e \<Rightarrow> (Inl e, mem2)
                     | Inr s2 \<Rightarrow> (Inr (se_exec s2, d2, [(eid, status_event s2)]), mem2)))
               else (Inr (se_exec s1, d1, [(eid, status_event s1)]),
                     mem1\<lparr>cancelling := cancelling mem1 - {eid}\<rparr>)))"

definition find_task :: "string \<Rightarrow> etask list \<Rightarrow> etask res" where
  "find_task ident items = (case find (\<lambda>i. et_id i = ident \<or> et_name i = ident) items of
     None \<Rightarrow> Inl (ApiError 404 ''not_found'' ''Task not found in this execution.'')
   | Some i \<Rightarrow> Inr i)"

text \<open>\<open>children\<close>, with its lists in the order and with the repetitions the loop produces.\<close>

definition children_of :: "etask list \<Rightarrow> string \<Rightarrow> string list" where
  "children_of items n = concat (map (\<lambda>i. map (\<lambda>_. et_name i) (filter (\<lambda>dep. dep = n) (et_deps i))) items)"

lemma children_of_names: "set (children_of items n) \<subseteq> et_name ` set items"
  by (auto simp: children_of_def)

lemma downstream_measure_seen:
  "card (N \<union> set stack - found) \<le> card (N \<union> set (c # stack) - found)" if "finite N" and "c \<in> found"
proof -
  have "N \<union> set (c # stack) - found = N \<union> set stack - found" using that(2) by auto
  then show ?thesis by simp
qed

lemma downstream_measure_new:
  assumes "finite N" and "set cs \<subseteq> N" and "c \<notin> found"
  shows "card (N \<union> set (cs @ stack) - insert c found) < card (N \<union> set (c # stack) - found)"
proof (rule psubset_card_mono)
  show "finite (N \<union> set (c # stack) - found)" using assms(1) by simp
  show "N \<union> set (cs @ stack) - insert c found \<subset> N \<union> set (c # stack) - found" using assms by auto
qed

text \<open>The stack is kept with its top first: \<open>stack.extend(xs)\<close> puts the reverse of \<open>xs\<close> in front.\<close>

function downstream_loop :: "etask list \<Rightarrow> string list \<Rightarrow> string set \<Rightarrow> string set" where
  "downstream_loop items [] found = found"
| "downstream_loop items (current # stack) found =
     (if current \<in> found then downstream_loop items stack found
      else downstream_loop items (rev (children_of items current) @ stack) (insert current found))"
  by pat_completeness auto

termination
proof (relation "measures [\<lambda>(items, stack, found). card (et_name ` set items \<union> set stack - found),
    \<lambda>(items, stack, found). length stack]", goal_cases)
  case 1
  then show ?case by simp
next
  case (2 items current stack found)
  then show ?case using downstream_measure_seen [of "et_name ` set items" current found stack] by auto
next
  case (3 items current stack found)
  then show ?case
    using downstream_measure_new [of "et_name ` set items" "rev (children_of items current)" current found stack]
      children_of_names [of items current] by simp
qed

definition downstream_names :: "etask list \<Rightarrow> string \<Rightarrow> string set" where
  "downstream_names items n = downstream_loop items (rev (children_of items n)) {}"

definition reset_item :: "etask \<Rightarrow> etask" where
  "reset_item i = i\<lparr>et_status := TPending, et_retries := 0, et_error := None, et_started_at := None,
     et_finished_at := None, et_worker := None\<rparr>"

definition retry_task_session :: "settings \<Rightarrow> time \<Rightarrow> string \<Rightarrow> etask \<Rightarrow> session \<Rightarrow> session res" where
  "retry_task_session S now actor item s =
     (let names = insert (et_name item) (downstream_names (se_items s) (et_name item))
      in ready_pass S now
           (write_log now (''Task '' @ quoted (et_name item) @ '' manually retried by '' @ actor @ ''.'')
              ''INFO'' (Some (et_id item))
           (set_exec (\<lambda>e. e\<lparr>ex_cancel_requested := False, ex_status := ERunning,
               ex_finished_at := None, ex_updated_at := now\<rparr>)
           (set_item (\<lambda>i. et_name i \<in> names \<and> et_status i \<in> {TFailed, TCancelled, TSkipped, TPending})
              reset_item s))))"

definition retry_task :: "settings \<Rightarrow> time \<Rightarrow> uid \<Rightarrow> uid \<Rightarrow> string \<Rightarrow> string \<Rightarrow> db \<Rightarrow> exec_result" where
  "retry_task S now tenant eid ident actor d =
     (case get_execution tenant eid d of
        Inl e \<Rightarrow> Inl e
      | Inr s \<Rightarrow>
          (case find_task ident (se_items s) of
             Inl e \<Rightarrow> Inl e
           | Inr item \<Rightarrow>
               if et_status item \<in> {TSuccess, TSkipped}
                 then Inl (ApiError 409 ''conflict'' ''Only failed, cancelled, or pending tasks can be retried.'')
               else if et_status item = TRunning
                 then Inl (ApiError 409 ''conflict'' ''A running task cannot be retried.'')
               else (case retry_task_session S now actor item s of
                   Inl e \<Rightarrow> Inl e
                 | Inr s1 \<Rightarrow> Inr (se_exec s1, commit s s1, se_sent s1))))"

definition skip_task_session :: "settings \<Rightarrow> time \<Rightarrow> string \<Rightarrow> etask \<Rightarrow> session \<Rightarrow> session res" where
  "skip_task_session S now actor item s =
     (case ready_pass S now
             (write_log now (''Task '' @ quoted (et_name item) @ '' skipped by '' @ actor @ ''.'')
                ''WARNING'' (Some (et_id item))
             (on_db (\<lambda>d. d\<lparr>jobs := cancel_task_jobs now (et_id item) (jobs d)\<rparr>)
             (finish_item now (et_id item) TSkipped None s))) of
        Inl e \<Rightarrow> Inl e
      | Inr s1 \<Rightarrow> Inr (finalize_session now s1))"

definition skip_task :: "settings \<Rightarrow> time \<Rightarrow> uid \<Rightarrow> uid \<Rightarrow> string \<Rightarrow> string \<Rightarrow> db \<Rightarrow> exec_result" where
  "skip_task S now tenant eid ident actor d =
     (case get_execution tenant eid d of
        Inl e \<Rightarrow> Inl e
      | Inr s \<Rightarrow>
          (case find_task ident (se_items s) of
             Inl e \<Rightarrow> Inl e
           | Inr item \<Rightarrow>
               if et_status item = TRunning
                 then Inl (ApiError 409 ''conflict'' ''A running task cannot be skipped.'')
               else if et_status item \<in> {TSuccess, TSkipped}
                 then Inl (ApiError 409 ''conflict'' ''Task is already complete.'')
               else (case skip_task_session S now actor item s of
                   Inl e \<Rightarrow> Inl e
                 | Inr s1 \<Rightarrow> Inr (se_exec s1, commit s s1, se_sent s1))))"

end
