(* ===== verification/Scheduling.thy ===== *)
theory Scheduling
  imports Execution
begin

text \<open>
  What a pass of \<open>enqueue_ready_tasks\<close>, the downstream-failure loop and the status refresh do to the
  tasks of an execution. The pass is first reduced to its effect on the task list (\<open>advance\<close>).
\<close>

section \<open>Task lists that grow\<close>

text \<open>
  Between two task lists of one execution the static columns agree, and a task that has left
  \<open>pending\<close> is not touched again: what one pass does.
\<close>

definition same_static :: "etask \<Rightarrow> etask \<Rightarrow> bool" where
  "same_static i i' \<longleftrightarrow> et_id i' = et_id i \<and> et_execution i' = et_execution i \<and> et_task i' = et_task i \<and>
     et_name i' = et_name i \<and> et_deps i' = et_deps i \<and> et_config i' = et_config i \<and> et_retries i' = et_retries i"

definition grown :: "etask \<Rightarrow> etask \<Rightarrow> bool" where
  "grown i i' \<longleftrightarrow> same_static i i' \<and> (et_status i \<noteq> TPending \<longrightarrow> i' = i)"

abbreviation all_grown :: "etask list \<Rightarrow> etask list \<Rightarrow> bool" where
  "all_grown \<equiv> list_all2 grown"

lemma grown_refl [simp]: "grown i i"
  by (simp add: grown_def same_static_def)

lemma grown_trans: "grown i j \<Longrightarrow> grown j k \<Longrightarrow> grown i k"
  by (auto simp: grown_def same_static_def)

lemma all_grown_refl [simp]: "all_grown items items"
  by (simp add: list_all2_refl)

lemma all_grown_trans: "all_grown xs ys \<Longrightarrow> all_grown ys zs \<Longrightarrow> all_grown xs zs"
  by (rule list_all2_trans [where ?P1.0 = grown and ?P2.0 = grown]) (rule grown_trans)

lemma list_all2_find:
  assumes "list_all2 R xs ys" and "\<And>x y. R x y \<Longrightarrow> P x = Q y"
  shows "rel_option R (find P xs) (find Q ys)"
  using assms(1) by (induction rule: list_all2_induct) (auto simp: assms(2))

lemma all_grown_upd:
  assumes "\<And>i. i \<in> set items \<Longrightarrow> P i \<Longrightarrow> grown i (f i)"
  shows "all_grown items (upd_where P f items)"
  using assms by (induction items) auto

lemma all_grown_find:
  "all_grown xs ys \<Longrightarrow> rel_option grown (find (\<lambda>i. et_id i = k) xs) (find (\<lambda>i. et_id i = k) ys)"
  by (rule list_all2_find) (auto simp: grown_def same_static_def)

definition dep_status :: "etask list \<Rightarrow> string \<Rightarrow> task_state option" where
  "dep_status items n = map_option et_status (item_named items n)"

lemma all_grown_named: "all_grown xs ys \<Longrightarrow> rel_option grown (item_named xs n) (item_named ys n)"
  unfolding item_named_def by (rule list_all2_find) (auto simp: grown_def same_static_def list_all2_rev)

lemma dep_status_grown:
  assumes "all_grown xs ys"
  shows "dep_status ys n = None \<longleftrightarrow> dep_status xs n = None"
    and "dep_status xs n = Some st \<Longrightarrow> st \<noteq> TPending \<Longrightarrow> dep_status ys n = Some st"
    and "dep_status ys n = Some TPending \<Longrightarrow> dep_status xs n = Some TPending"
  using all_grown_named [OF assms, of n]
  by (auto simp: dep_status_def grown_def option_rel_Some1 option_rel_Some2 rel_option_iff split: option.splits)

text \<open>\<open>readiness_of\<close> reads the dependencies only through \<open>dep_status\<close>.\<close>

lemma readiness_of_alt:
  "readiness_of items item =
     (if et_status item \<noteq> TPending then NotPending
      else if \<exists>n \<in> set (et_deps item). dep_status items n = None then MissingDep
      else if \<exists>n \<in> set (et_deps item). dep_status items n = Some TFailed then FailedDep
      else if \<exists>n \<in> set (et_deps item). dep_status items n = Some TCancelled then CancelledDep
      else if \<forall>n \<in> set (et_deps item). dep_status items n \<in> Some ` SATISFIED_STATES then Ready
      else Waiting)"
proof -
  have in_map: "x \<in> set (map f xs) \<longleftrightarrow> (\<exists>n \<in> set xs. f n = x)" for x :: 'b and f :: "string \<Rightarrow> 'b" and xs by auto
  have eq: "map (map_option et_status) (map (item_named items) deps) = map (dep_status items) deps" for deps
    by (simp add: dep_status_def)
  have none: "None \<in> set (map (item_named items) deps) \<longleftrightarrow> (\<exists>n \<in> set deps. dep_status items n = None)" for deps
    unfolding in_map by (simp add: dep_status_def)
  have all: "(\<forall>s \<in> set (map (dep_status items) deps). s \<in> A) \<longleftrightarrow> (\<forall>n \<in> set deps. dep_status items n \<in> A)" for deps A
    by simp
  show ?thesis unfolding readiness_of_def Let_def none eq all in_map by (simp add: dep_status_def)
qed

section \<open>One pass over the task list\<close>

fun advance_item :: "time \<Rightarrow> readiness \<Rightarrow> etask \<Rightarrow> etask" where
  "advance_item now MissingDep i = i\<lparr>et_status := TFailed, et_finished_at := Some now,
     et_error := Some ''Dependency definition is missing.''\<rparr>"
| "advance_item now FailedDep i = i\<lparr>et_status := TFailed, et_finished_at := Some now,
     et_error := Some ''Blocked by failed dependency.''\<rparr>"
| "advance_item now CancelledDep i = i\<lparr>et_status := TCancelled, et_finished_at := Some now,
     et_error := Some ''Blocked by cancelled dependency.''\<rparr>"
| "advance_item now Ready i = i\<lparr>et_status := TQueued, et_heartbeat_at := Some now\<rparr>"
| "advance_item now _ i = i"

fun pass :: "time \<Rightarrow> etask list \<Rightarrow> etask list \<Rightarrow> etask list" where
  "pass now seen [] = seen"
| "pass now seen (x # todo) =
     pass now (seen @ [advance_item now (readiness_of (seen @ x # todo) x) x]) todo"

fun ready_items :: "time \<Rightarrow> etask list \<Rightarrow> etask list \<Rightarrow> etask list" where
  "ready_items now seen [] = []"
| "ready_items now seen (x # todo) = (let r = readiness_of (seen @ x # todo) x in
     (if r = Ready then [x] else []) @ ready_items now (seen @ [advance_item now r x]) todo)"

lemma advance_item_static [simp]:
  "et_id (advance_item now r i) = et_id i" "et_name (advance_item now r i) = et_name i"
  "et_deps (advance_item now r i) = et_deps i" "et_execution (advance_item now r i) = et_execution i"
  "et_config (advance_item now r i) = et_config i" "et_retries (advance_item now r i) = et_retries i"
  "et_task (advance_item now r i) = et_task i"
  by (cases r; simp)+

lemma readiness_NotPending: "readiness_of items i = NotPending \<longleftrightarrow> et_status i \<noteq> TPending"
  by (simp add: readiness_of_def Let_def)

lemma advance_item_grown: "grown x (advance_item now (readiness_of items x) x)"
  using readiness_NotPending [of items x]
  by (auto simp: grown_def same_static_def)

text \<open>The turn of each task: what it became, from the list as it stood then.\<close>

lemma pass_turns:
  "\<exists>todo'. pass now seen todo = seen @ todo' \<and> length todo' = length todo \<and>
     (\<forall>k < length todo. todo' ! k =
        advance_item now (readiness_of (seen @ take k todo' @ drop k todo) (todo ! k)) (todo ! k))"
proof (induction todo arbitrary: seen)
  case Nil
  then show ?case by simp
next
  case (Cons x todo)
  let ?x = "advance_item now (readiness_of (seen @ x # todo) x) x"
  from Cons.IH [of "seen @ [?x]"] obtain todo' where t: "pass now (seen @ [?x]) todo = (seen @ [?x]) @ todo'"
      "length todo' = length todo"
      "\<forall>k < length todo. todo' ! k = advance_item now (readiness_of ((seen @ [?x]) @ take k todo' @ drop k todo) (todo ! k)) (todo ! k)"
    by blast
  show ?case
  proof (intro exI [of _ "?x # todo'"] conjI allI impI)
    show "pass now seen (x # todo) = seen @ ?x # todo'" using t(1) by simp
    show "length (?x # todo') = length (x # todo)" using t(2) by simp
    fix k
    assume "k < length (x # todo)"
    then show "(?x # todo') ! k = advance_item now (readiness_of (seen @ take k (?x # todo') @ drop k (x # todo)) ((x # todo) ! k)) ((x # todo) ! k)"
      using t(3) by (cases k) auto
  qed
qed

lemma pass_nth:
  assumes "k < length items"
  shows "pass now [] items ! k =
    advance_item now (readiness_of (take k (pass now [] items) @ drop k items) (items ! k)) (items ! k)"
  using pass_turns [of now "[]" items] assms by auto

lemma length_pass [simp]: "length (pass now [] items) = length items"
  using pass_turns [of now "[]" items] by auto

lemma pass_grown: "all_grown items (pass now [] items)"
  unfolding list_all2_conv_all_nth by (simp add: pass_nth advance_item_grown)

lemma turn_grown:
  assumes "k \<le> length items"
  shows "all_grown items (take k (pass now [] items) @ drop k items)"
    and "all_grown (take k (pass now [] items) @ drop k items) (pass now [] items)"
proof -
  have g: "all_grown (take k items) (take k (pass now [] items))" "all_grown (drop k items) (drop k (pass now [] items))"
    using pass_grown [of items now] by (auto simp: list_all2_takeI list_all2_dropI)
  have "all_grown (take k items @ drop k items) (take k (pass now [] items) @ drop k items)"
    by (rule list_all2_appendI [OF g(1)]) simp
  then show "all_grown items (take k (pass now [] items) @ drop k items)" by simp
  have "all_grown (take k (pass now [] items) @ drop k items) (take k (pass now [] items) @ drop k (pass now [] items))"
    by (rule list_all2_appendI [OF _ g(2)]) simp
  then show "all_grown (take k (pass now [] items) @ drop k items) (pass now [] items)" by simp
qed

section \<open>From sessions to task lists\<close>

text \<open>What a pass leaves alone: everything but the tasks, \<open>updated_at\<close>, the new jobs, logs and identifiers.\<close>

definition exec_touched :: "execution \<Rightarrow> execution \<Rightarrow> bool" where
  "exec_touched e e' \<longleftrightarrow> (\<exists>u. e' = e\<lparr>ex_updated_at := u\<rparr>)"

definition db_frame :: "db \<Rightarrow> db \<Rightarrow> bool" where
  "db_frame d d' \<longleftrightarrow> executions d' = executions d \<and> etasks d' = etasks d \<and> workflows d' = workflows d \<and>
     revisions d' = revisions d \<and> task_defs d' = task_defs d \<and> uuid_supply d' = uuid_supply d \<and>
     uuid_draws d \<le> uuid_draws d' \<and> outer_tables d' = outer_tables d"

lemma exec_touched_simps [simp]:
  "exec_touched e e" "exec_touched e (e\<lparr>ex_updated_at := u\<rparr>)"
  by (auto simp: exec_touched_def intro: exI [of _ "ex_updated_at e"])

lemma exec_touched_trans: "exec_touched e f \<Longrightarrow> exec_touched f g \<Longrightarrow> exec_touched e g"
  by (auto simp: exec_touched_def)

lemma exec_touched_fields:
  "exec_touched e e' \<Longrightarrow> ex_id e' = ex_id e \<and> ex_tenant e' = ex_tenant e \<and> ex_workflow e' = ex_workflow e \<and>
     ex_status e' = ex_status e \<and> ex_cancel_requested e' = ex_cancel_requested e \<and> ex_finished_at e' = ex_finished_at e"
  by (auto simp: exec_touched_def)

lemma db_frame_trans: "db_frame a b \<Longrightarrow> db_frame b c \<Longrightarrow> db_frame a c"
  by (auto simp: db_frame_def)

lemma db_frame_writes [simp]:
  "db_frame d d" "db_frame d (log_write n e m l t d)" "db_frame d (outbox_write n te y x p d)"
  "db_frame d (d\<lparr>jobs := js\<rparr>)"
  "db_frame d (log_write n e m l t (d\<lparr>uuid_draws := Suc (uuid_draws d), jobs := js\<rparr>))"
  by (simp_all add: db_frame_def)

definition job_for :: "settings \<Rightarrow> time \<Rightarrow> execution \<Rightarrow> etask \<Rightarrow> job \<Rightarrow> bool" where
  "job_for S now e i r \<longleftrightarrow> qj_etask r = et_id i \<and> qj_execution r = ex_id e \<and> qj_tenant r = ex_tenant e \<and>
     qj_workflow r = ex_workflow e \<and> qj_state r = QQueued \<and> qj_attempts r = 0 \<and>
     qj_max_attempts r = queue_poison_max_attempts S \<and> qj_retry_count r = et_retries i \<and>
     qj_priority r = get_or (cf_priority (et_config i)) 0 \<and>
     qj_available_at r = now + timedelta_s (get_or (cf_delay_seconds (et_config i)) 0) \<and> \<not> qj_dead_lettered r"

text \<open>Writing one task of a list whose identifiers are distinct.\<close>

lemma upd_one:
  assumes "distinct (map et_id (xs @ x # ys))"
  shows "upd_where (\<lambda>i. et_id i = et_id x) f (xs @ x # ys) = xs @ f x # ys"
proof -
  have "et_id x \<notin> et_id ` set xs" "et_id x \<notin> et_id ` set ys" using assms by auto
  then have "\<forall>r \<in> set xs. et_id r \<noteq> et_id x" "\<forall>r \<in> set ys. et_id r \<noteq> et_id x" by (metis imageI)+
  then have "upd_where (\<lambda>i. et_id i = et_id x) f xs = xs" "upd_where (\<lambda>i. et_id i = et_id x) f ys = ys"
    by simp_all
  then show ?thesis by simp
qed

lemma find_one:
  assumes "distinct (map et_id (xs @ x # ys))"
  shows "find (\<lambda>i. et_id i = et_id x) (xs @ x # ys) = Some x"
  by (rule find_key_unique [OF assms]) simp

lemma ex_bool_id [simp]: "\<exists>c. c"
  by blast

lemma ready_step_turn:
  assumes "distinct (map et_id (xs @ x # ys))" and "se_items s = xs @ x # ys" and "ex_tenant (se_exec s) \<noteq> []"
  shows "\<exists>s' c' new. ready_step S now (s, c) (et_id x) = Inr (s', c') \<and>
    se_items s' = xs @ advance_item now (readiness_of (se_items s) x) x # ys \<and>
    exec_touched (se_exec s) (se_exec s') \<and> db_frame (se_db s) (se_db s') \<and> se_sent s' = se_sent s \<and>
    outbox (se_db s') = outbox (se_db s) \<and>
    jobs (se_db s') = jobs (se_db s) @ new \<and>
    list_all2 (job_for S now (se_exec s)) (if readiness_of (se_items s) x = Ready then [x] else []) new"
proof -
  have f: "find (\<lambda>i. et_id i = et_id x) (se_items s) = Some x"
    unfolding assms(2) by (rule find_one [OF assms(1)])
  have u: "upd_where (\<lambda>i. et_id i = et_id x) g (se_items s) = xs @ g x # ys" for g
    unfolding assms(2) by (rule upd_one [OF assms(1)])
  show ?thesis
  proof (cases "readiness_of (se_items s) x")
    case Ready
    with assms(3) show ?thesis
      by (simp add: ready_step_def f u queue_item_def generate_uuid_def enqueue_def job_for_def
          write_log_def on_db_def set_exec_def set_item_def)
  qed (simp_all add: ready_step_def f u finish_item_def assms(2) [symmetric] write_log_def on_db_def set_exec_def set_item_def)
qed

lemma ready_steps_pass:
  assumes "distinct (map et_id (seen @ todo))" and "se_items s = seen @ todo" and "ex_tenant (se_exec s) \<noteq> []"
  shows "\<exists>s' c' new. fold_res (ready_step S now) (s, c) (map et_id todo) = Inr (s', c') \<and>
    se_items s' = pass now seen todo \<and>
    exec_touched (se_exec s) (se_exec s') \<and> db_frame (se_db s) (se_db s') \<and> se_sent s' = se_sent s \<and>
    outbox (se_db s') = outbox (se_db s) \<and>
    jobs (se_db s') = jobs (se_db s) @ new \<and> list_all2 (job_for S now (se_exec s)) (ready_items now seen todo) new"
  using assms
proof (induction todo arbitrary: seen s c)
  case Nil
  then show ?case by simp
next
  case (Cons x todo)
  let ?x = "advance_item now (readiness_of (se_items s) x) x"
  from ready_step_turn [OF Cons.prems, of S now c] obtain s1 c1 new1 where
    1: "ready_step S now (s, c) (et_id x) = Inr (s1, c1)" "se_items s1 = seen @ ?x # todo"
      "exec_touched (se_exec s) (se_exec s1)" "db_frame (se_db s) (se_db s1)" "se_sent s1 = se_sent s"
      "outbox (se_db s1) = outbox (se_db s)" "jobs (se_db s1) = jobs (se_db s) @ new1"
      "list_all2 (job_for S now (se_exec s)) (if readiness_of (se_items s) x = Ready then [x] else []) new1"
    by blast
  have d: "distinct (map et_id ((seen @ [?x]) @ todo))" using Cons.prems(1) by simp
  have i: "se_items s1 = (seen @ [?x]) @ todo" using 1(2) by simp
  have t: "ex_tenant (se_exec s1) \<noteq> []" using Cons.prems(3) exec_touched_fields [OF 1(3)] by simp
  from Cons.IH [OF d i t, of c1] obtain s2 c2 new2 where
    2: "fold_res (ready_step S now) (s1, c1) (map et_id todo) = Inr (s2, c2)"
      "se_items s2 = pass now (seen @ [?x]) todo"
      "exec_touched (se_exec s1) (se_exec s2)" "db_frame (se_db s1) (se_db s2)" "se_sent s2 = se_sent s1"
      "outbox (se_db s2) = outbox (se_db s1)" "jobs (se_db s2) = jobs (se_db s1) @ new2"
      "list_all2 (job_for S now (se_exec s1)) (ready_items now (seen @ [?x]) todo) new2"
    by blast
  have j: "job_for S now (se_exec s1) = job_for S now (se_exec s)"
    using exec_touched_fields [OF 1(3)] by (simp add: job_for_def [abs_def])
  have new: "list_all2 (job_for S now (se_exec s)) (ready_items now seen (x # todo)) (new1 @ new2)"
    using list_all2_appendI [OF 1(8) 2(8) [unfolded j]] Cons.prems(2) by (simp add: Let_def)
  show ?case
    using 1 2 Cons.prems(2) exec_touched_trans [OF 1(3) 2(3)] db_frame_trans [OF 1(4) 2(4)] new
    by (intro exI [of _ s2] exI [of _ c2] exI [of _ "new1 @ new2"]) (simp del: ready_items.simps)
qed

lemma advance_item_queued:
  "et_status x = TPending \<and> et_status (advance_item now (readiness_of items x) x) = TQueued \<longleftrightarrow>
     readiness_of items x = Ready"
  using readiness_NotPending [of items x] by (cases "readiness_of items x") auto

lemma ready_items_queued:
  "ready_items now seen todo =
     map fst (filter (\<lambda>(i, i'). et_status i = TPending \<and> et_status i' = TQueued)
       (zip todo (drop (length seen) (pass now seen todo))))"
proof (induction todo arbitrary: seen)
  case Nil
  then show ?case by simp
next
  case (Cons x todo)
  let ?r = "readiness_of (seen @ x # todo) x"
  let ?x = "advance_item now ?r x"
  from pass_turns [of now "seen @ [?x]" todo] obtain todo' where
    t: "pass now (seen @ [?x]) todo = seen @ ?x # todo'" by auto
  have "ready_items now (seen @ [?x]) todo = map fst (filter (\<lambda>(i, i'). et_status i = TPending \<and> et_status i' = TQueued) (zip todo todo'))"
    using Cons.IH [of "seen @ [?x]"] unfolding t by simp
  then show ?case
    using advance_item_queued [of x now "seen @ x # todo"] by (simp add: t Let_def)
qed

definition pass_ok :: "session \<Rightarrow> bool" where
  "pass_ok s \<longleftrightarrow> distinct (map et_id (se_items s)) \<and> ex_tenant (se_exec s) \<noteq> []"

lemma refresh_frame [simp]:
  "se_items (refresh_execution_status now s) = se_items s"
  "jobs (se_db (refresh_execution_status now s)) = jobs (se_db s)"
  "db_frame (se_db s) (se_db (refresh_execution_status now s))"
  "se_sent (refresh_execution_status now s) = se_sent s"
  "ex_cancel_requested (se_exec (refresh_execution_status now s)) = ex_cancel_requested (se_exec s)"
  "ex_id (se_exec (refresh_execution_status now s)) = ex_id (se_exec s)"
  "ex_tenant (se_exec (refresh_execution_status now s)) = ex_tenant (se_exec s)"
  by (simp_all add: refresh_execution_status_def Let_def set_exec_def on_db_def)

lemma ready_pass_items:
  assumes "pass_ok s" and "\<not> ex_cancel_requested (se_exec s)"
  shows "\<exists>s' new. ready_pass S now s = Inr s' \<and> se_items s' = pass now [] (se_items s) \<and>
    jobs (se_db s') = jobs (se_db s) @ new \<and>
    list_all2 (job_for S now (se_exec s)) (ready_items now [] (se_items s)) new \<and>
    db_frame (se_db s) (se_db s') \<and> ex_id (se_exec s') = ex_id (se_exec s)"
proof -
  from ready_steps_pass [of "[]" "se_items s" s S now False] assms obtain s1 c1 new where
    1: "fold_res (ready_step S now) (s, False) (map et_id (se_items s)) = Inr (s1, c1)"
      "se_items s1 = pass now [] (se_items s)" "exec_touched (se_exec s) (se_exec s1)"
      "db_frame (se_db s) (se_db s1)" "jobs (se_db s1) = jobs (se_db s) @ new"
      "list_all2 (job_for S now (se_exec s)) (ready_items now [] (se_items s)) new"
    by (auto simp: pass_ok_def)
  have "db_frame (se_db s) (se_db (refresh_execution_status now s1))"
    by (rule db_frame_trans [OF 1(4)]) simp
  with 1 assms(2) exec_touched_fields [OF 1(3)] show ?thesis
    by (cases c1) (auto simp: ready_pass_def Let_def)
qed

section \<open>Properties of a ready pass\<close>

text \<open>C4. A pass over an execution that is not being cancelled queues only tasks whose dependencies have
  all succeeded or been skipped, adds exactly one job for each task it queues (in task order, for this
  execution and tenant, available after the task's delay), and touches no task that is not pending.\<close>

theorem ready_pass_queues_ready:
  assumes "pass_ok s" and "\<not> ex_cancel_requested (se_exec s)"
  shows "\<exists>s' new. ready_pass S now s = Inr s' \<and> jobs (se_db s') = jobs (se_db s) @ new \<and>
    list_all2 (job_for S now (se_exec s))
      (map fst (filter (\<lambda>(i, i'). et_status i = TPending \<and> et_status i' = TQueued) (zip (se_items s) (se_items s')))) new \<and>
    list_all2 (\<lambda>i i'. et_id i' = et_id i \<and> (et_status i \<noteq> TPending \<longrightarrow> i' = i) \<and>
       (et_status i = TPending \<and> et_status i' = TQueued \<longrightarrow>
          (\<forall>n \<in> set (et_deps i). \<exists>c \<in> set (se_items s'). et_name c = n \<and> et_status c \<in> {TSuccess, TSkipped})))
      (se_items s) (se_items s')"
proof -
  from ready_pass_items [OF assms] obtain s' new where
    1: "ready_pass S now s = Inr s'" "se_items s' = pass now [] (se_items s)"
      "jobs (se_db s') = jobs (se_db s) @ new"
      "list_all2 (job_for S now (se_exec s)) (ready_items now [] (se_items s)) new" by blast
  let ?items = "se_items s" and ?final = "pass now [] (se_items s)"
  have deps: "\<exists>c \<in> set ?final. et_name c = n \<and> et_status c \<in> {TSuccess, TSkipped}"
    if k: "k < length ?items" and q: "et_status (?items ! k) = TPending" "et_status (?final ! k) = TQueued"
      and n: "n \<in> set (et_deps (?items ! k))" for k n
  proof -
    let ?mid = "take k ?final @ drop k ?items"
    have "readiness_of ?mid (?items ! k) = Ready"
      using advance_item_queued [of "?items ! k" now ?mid] q pass_nth [OF k, of now] by simp
    then have "dep_status ?mid n \<in> Some ` SATISFIED_STATES"
      using n by (simp add: readiness_of_alt split: if_splits)
    then obtain st where st: "dep_status ?mid n = Some st" "st \<in> SATISFIED_STATES" by auto
    then have "dep_status ?final n = Some st"
      using dep_status_grown(2) [OF turn_grown(2) [of k ?items now]] k by (auto simp: SATISFIED_STATES_def)
    with st(2) show ?thesis
      by (auto simp: dep_status_def item_named_def SATISFIED_STATES_def dest!: find_SomeD)
  qed
  have "list_all2 (\<lambda>i i'. et_id i' = et_id i \<and> (et_status i \<noteq> TPending \<longrightarrow> i' = i) \<and>
       (et_status i = TPending \<and> et_status i' = TQueued \<longrightarrow>
          (\<forall>n \<in> set (et_deps i). \<exists>c \<in> set ?final. et_name c = n \<and> et_status c \<in> {TSuccess, TSkipped})))
      ?items ?final"
    using pass_grown [of ?items now] deps
    by (simp add: list_all2_conv_all_nth grown_def same_static_def)
  with 1 show ?thesis by (auto simp: ready_items_queued)
qed

text \<open>A task list in which every dependency stands before the tasks that need it.\<close>

definition listed_topologically :: "etask list \<Rightarrow> bool" where
  "listed_topologically items \<longleftrightarrow> distinct (map et_name items) \<and>
     (\<forall>k < length items. \<forall>n \<in> set (et_deps (items ! k)). n \<in> et_name ` set (take k items))"

lemma item_named_member:
  assumes "distinct (map et_name items)" and "i \<in> set items"
  shows "item_named items (et_name i) = Some i"
  unfolding item_named_def using assms
  by (intro find_key_unique [where key = et_name and rows = "rev items"]) (simp_all add: rev_map [symmetric])

lemma item_named_SomeD: "item_named items n = Some i \<Longrightarrow> i \<in> set items \<and> et_name i = n"
  by (auto simp: item_named_def dest: find_SomeD)

lemma map_name_pass [simp]: "map et_name (pass now [] items) = map et_name items"
  by (rule nth_equalityI) (auto simp: pass_nth)

lemma names_turn [simp]: "k \<le> length items \<Longrightarrow>
    map et_name (take k (pass now [] items) @ drop k items) = map et_name items"
  by (simp add: take_map [symmetric] drop_map [symmetric])

lemma advance_item_pending:
  assumes "et_status (advance_item now r x) = TPending"
  shows "r = NotPending \<or> r = Waiting" and "advance_item now r x = x"
  using assms by (cases r; simp)+

lemma pass_still_pending:
  assumes k: "k < length items" and "et_status (pass now [] items ! k) = TPending"
  shows "pass now [] items ! k = items ! k" and "et_status (items ! k) = TPending"
    and "readiness_of (take k (pass now [] items) @ drop k items) (items ! k) = Waiting"
proof -
  let ?mid = "take k (pass now [] items) @ drop k items"
  note p = advance_item_pending [OF assms(2) [unfolded pass_nth [OF k]]]
  show same: "pass now [] items ! k = items ! k" unfolding pass_nth [OF k] by (rule p(2))
  with assms(2) show st: "et_status (items ! k) = TPending" by simp
  then show "readiness_of ?mid (items ! k) = Waiting"
    using p(1) readiness_NotPending [of ?mid "items ! k"] by blast
qed

lemma pass_from_pending:
  assumes "k < length items" and "et_status (items ! k) = TPending"
  shows "et_status (pass now [] items ! k) \<in> {TPending, TQueued, TFailed, TCancelled}"
  unfolding pass_nth [OF assms(1)]
  using assms(2) by (cases "readiness_of (take k (pass now [] items) @ drop k items) (items ! k)") auto

lemma readiness_cong:
  assumes "\<And>n. n \<in> set (et_deps i) \<Longrightarrow> dep_status items n = dep_status items' n"
  shows "readiness_of items i = readiness_of items' i"
proof -
  have ex: "(\<exists>n \<in> set (et_deps i). dep_status items n = x) = (\<exists>n \<in> set (et_deps i). dep_status items' n = x)" for x
    using assms by simp
  have all: "(\<forall>n \<in> set (et_deps i). dep_status items n \<in> A) = (\<forall>n \<in> set (et_deps i). dep_status items' n \<in> A)" for A
    using assms by simp
  show ?thesis unfolding readiness_of_alt ex all ..
qed

lemma pass_settles:
  assumes "listed_topologically items" and "i \<in> set (pass now [] items)" and "et_status i = TPending"
  shows "readiness_of (pass now [] items) i = Waiting"
proof -
  let ?final = "pass now [] items"
  from assms(2) obtain k where k: "k < length items" and i: "i = ?final ! k" by (auto simp: in_set_conv_nth)
  let ?mid = "take k ?final @ drop k items"
  note p = pass_still_pending [OF k, of now] assms(3)
  have same: "dep_status ?mid n = dep_status ?final n" if "n \<in> set (et_deps i)" for n
  proof -
    have dist: "distinct (map et_name items)" using assms(1) by (simp add: listed_topologically_def)
    have dist': "distinct (map et_name ?mid)" "distinct (map et_name ?final)"
      using dist k by (simp_all del: map_append)
    have "n \<in> et_name ` set (take k items)"
      using assms(1) k p i that by (simp add: listed_topologically_def)
    also have "et_name ` set (take k items) = et_name ` set (take k ?final)"
    proof -
      have "map et_name (take k ?final) = map et_name (take k items)" by (simp add: take_map [symmetric])
      then show ?thesis by (metis set_map)
    qed
    finally obtain c where c: "c \<in> set (take k ?final)" "et_name c = n" by auto
    then have "c \<in> set ?mid" "c \<in> set ?final" by (auto dest: in_set_takeD)
    with dist' c(2) show ?thesis by (auto simp: dep_status_def item_named_member)
  qed
  have "readiness_of ?mid i = Waiting" using p i by simp
  then show ?thesis using readiness_cong [of i ?mid ?final] same by simp
qed

text \<open>When the tasks are listed with dependencies first, one pass settles the execution: every task
  that is still pending waits for a dependency that exists, has not failed, was not cancelled and is
  not finished; nothing that could be queued, failed or cancelled is left for a later pass.\<close>

theorem ready_pass_settles:
  assumes "pass_ok s" and "\<not> ex_cancel_requested (se_exec s)" and "listed_topologically (se_items s)"
    and "ready_pass S now s = Inr s'" and "i \<in> set (se_items s')" and "et_status i = TPending"
  shows "(\<forall>n \<in> set (et_deps i). \<exists>c \<in> set (se_items s'). et_name c = n \<and> et_status c \<notin> {TFailed, TCancelled}) \<and>
    (\<exists>n \<in> set (et_deps i). \<exists>c \<in> set (se_items s'). et_name c = n \<and> et_status c \<in> ACTIVE_STATES)"
proof -
  have final: "se_items s' = pass now [] (se_items s)"
    using ready_pass_items [OF assms(1,2), of S now] assms(4) by auto
  have r: "readiness_of (se_items s') i = Waiting"
    using pass_settles [OF assms(3), of i now] assms(5,6) final by simp
  have "\<exists>c \<in> set (se_items s'). et_name c = n \<and> et_status c \<notin> {TFailed, TCancelled}"
    if "n \<in> set (et_deps i)" for n
  proof (cases "item_named (se_items s') n")
    case None
    with r that show ?thesis by (auto simp: readiness_of_alt dep_status_def split: if_splits)
  next
    case (Some c)
    with r that item_named_SomeD [OF Some] show ?thesis
      by (auto simp: readiness_of_alt dep_status_def split: if_splits intro!: bexI [of _ c])
  qed
  moreover have "\<exists>n \<in> set (et_deps i). \<exists>c \<in> set (se_items s'). et_name c = n \<and> et_status c \<in> ACTIVE_STATES"
  proof -
    from r obtain n where n: "n \<in> set (et_deps i)" "dep_status (se_items s') n \<notin> Some ` SATISFIED_STATES"
      "dep_status (se_items s') n \<noteq> None" "dep_status (se_items s') n \<noteq> Some TFailed"
      "dep_status (se_items s') n \<noteq> Some TCancelled" by (auto simp: readiness_of_alt split: if_splits)
    then obtain c where "item_named (se_items s') n = Some c" by (auto simp: dep_status_def)
    with n item_named_SomeD [OF this] show ?thesis
      by (cases "et_status c")
        (auto simp: dep_status_def SATISFIED_STATES_def ACTIVE_STATES_def intro!: bexI [of _ n] bexI [of _ c])
  qed
  ultimately show ?thesis by blast
qed

text \<open>The dependency relation between the task names of an execution.\<close>

definition dep_rel :: "etask list \<Rightarrow> (string \<times> string) set" where
  "dep_rel items = {(n, et_name i) |n i. i \<in> set items \<and> n \<in> set (et_deps i)}"

lemma dep_rel_list: "dep_rel items = set (concat (map (\<lambda>i. map (\<lambda>n. (n, et_name i)) (et_deps i)) items))"
  by (auto simp: dep_rel_def)

lemma finite_dep_rel: "finite (dep_rel items)"
  by (simp add: dep_rel_list)

lemma first_pending:
  assumes "acyclic (dep_rel items)" and "i \<in> set items" and "et_status i = TPending"
  shows "\<exists>j \<in> set items. et_status j = TPending \<and> (\<forall>c \<in> set items. et_name c \<in> set (et_deps j) \<longrightarrow> et_status c \<noteq> TPending)"
proof -
  define Q where "Q = et_name ` {j \<in> set items. et_status j = TPending}"
  have wf: "wf (dep_rel items)" using assms(1) finite_dep_rel by (simp add: wf_iff_acyclic_if_finite)
  have "et_name i \<in> Q" using assms(2,3) by (simp add: Q_def)
  with wf have "\<exists>z \<in> Q. \<forall>y. (y, z) \<in> dep_rel items \<longrightarrow> y \<notin> Q" unfolding wf_eq_minimal by blast
  then obtain z where z: "z \<in> Q" "\<forall>y. (y, z) \<in> dep_rel items \<longrightarrow> y \<notin> Q" ..
  then obtain j where j: "j \<in> set items" "et_status j = TPending" "z = et_name j" by (auto simp: Q_def)
  have "et_status c \<noteq> TPending" if "c \<in> set items" "et_name c \<in> set (et_deps j)" for c
  proof
    assume "et_status c = TPending"
    with that have "et_name c \<in> Q" by (simp add: Q_def)
    moreover have "(et_name c, z) \<in> dep_rel items" using that j by (auto simp: dep_rel_def)
    ultimately show False using z(2) by blast
  qed
  with j show ?thesis by blast
qed

lemma pass_progress:
  assumes names: "distinct (map et_name items)" and "acyclic (dep_rel items)"
    and clean: "\<forall>c \<in> set (pass now [] items). et_status c \<notin> {TFailed, TCancelled}"
    and p: "i \<in> set (pass now [] items)" "et_status i = TPending"
  shows "\<exists>c \<in> set (pass now [] items). et_status c \<in> {TQueued, TRunning, TRetrying}"
proof -
  let ?final = "pass now [] items"
  have "dep_rel ?final = dep_rel items"
  proof -
    have "(\<lambda>i. (et_name i, et_deps i)) ` set ?final = (\<lambda>i. (et_name i, et_deps i)) ` set items"
    proof -
      have "map (\<lambda>i. (et_name i, et_deps i)) ?final = map (\<lambda>i. (et_name i, et_deps i)) items"
        by (rule nth_equalityI) (auto simp: pass_nth)
      from arg_cong [OF this, of set] show ?thesis by simp
    qed
    moreover have "dep_rel xs = (\<Union>(m, ds) \<in> (\<lambda>i. (et_name i, et_deps i)) ` set xs. (\<lambda>n. (n, m)) ` set ds)" for xs
      by (auto simp: dep_rel_def)
    ultimately show ?thesis by (simp only:)
  qed
  with first_pending [of ?final i] assms(2) p obtain j where
    j: "j \<in> set ?final" "et_status j = TPending"
      "\<forall>c \<in> set ?final. et_name c \<in> set (et_deps j) \<longrightarrow> et_status c \<noteq> TPending" by auto
  from j(1) obtain k where k: "k < length items" and jk: "j = ?final ! k" by (auto simp: in_set_conv_nth)
  let ?mid = "take k ?final @ drop k items"
  have "readiness_of ?mid j = Waiting"
    using pass_still_pending [OF k, of now] j(2) jk by simp
  then obtain n where n: "n \<in> set (et_deps j)" "dep_status ?mid n \<notin> Some ` SATISFIED_STATES" "dep_status ?mid n \<noteq> None"
    by (auto simp: readiness_of_alt split: if_splits)
  have g: "all_grown ?mid ?final" using turn_grown(2) [of k items now] k by simp
  from n(3) dep_status_grown(1) [OF g] obtain c where c: "item_named ?final n = Some c"
    by (cases "item_named ?final n") (auto simp: dep_status_def)
  note cm = item_named_SomeD [OF c]
  have 1: "et_status c \<noteq> TPending" using j(3) cm n(1) by auto
  have 2: "et_status c \<notin> {TFailed, TCancelled}" using clean cm by blast
  have "et_status c \<in> {TQueued, TRunning, TRetrying}"
  proof (cases "dep_status ?mid n = Some TPending")
    case True
    then have "dep_status items n = Some TPending" using dep_status_grown(3) turn_grown(1) [of k items now] k by simp
    then obtain b where b: "item_named items n = Some b" "et_status b = TPending" by (auto simp: dep_status_def)
    from cm obtain l where l: "l < length items" "c = ?final ! l" by (auto simp: in_set_conv_nth)
    then have "et_name (items ! l) = n" using cm by (auto simp: pass_nth)
    with b item_named_member [OF names, of "items ! l"] l have "b = items ! l" by simp
    with 1 2 b(2) l pass_from_pending [OF l(1), of now] show ?thesis by auto
  next
    case False
    with n(2,3) obtain st where st: "dep_status ?mid n = Some st" "st \<notin> SATISFIED_STATES" "st \<noteq> TPending"
      by (cases "dep_status ?mid n") auto
    with dep_status_grown(2) [OF g st(1)] c have "et_status c = st" by (simp add: dep_status_def)
    with st 2 show ?thesis by (cases st) (auto simp: SATISFIED_STATES_def)
  qed
  with cm show ?thesis by blast
qed

text \<open>C22. An execution does not get stuck in a ready pass: if its dependencies are acyclic and no task has
  failed or been cancelled, then after the pass either every task is finished or some task is queued,
  running or retrying, in whatever order the tasks are listed.\<close>

theorem ready_pass_progress:
  assumes "pass_ok s" and "\<not> ex_cancel_requested (se_exec s)" and "distinct (map et_name (se_items s))"
    and "acyclic {(n, et_name i) |n i. i \<in> set (se_items s) \<and> n \<in> set (et_deps i)}"
    and "ready_pass S now s = Inr s'" and "\<forall>c \<in> set (se_items s'). et_status c \<notin> {TFailed, TCancelled}"
  shows "(\<forall>c \<in> set (se_items s'). et_status c \<in> SATISFIED_STATES) \<or>
    (\<exists>c \<in> set (se_items s'). et_status c \<in> {TQueued, TRunning, TRetrying})"
proof -
  have final: "se_items s' = pass now [] (se_items s)"
    using ready_pass_items [OF assms(1,2), of S now] assms(5) by auto
  have acy: "acyclic (dep_rel (se_items s))" using assms(4) by (simp add: dep_rel_def)
  show ?thesis
  proof (cases "\<exists>i \<in> set (se_items s'). et_status i = TPending")
    case True
    then obtain i where i: "i \<in> set (pass now [] (se_items s))" "et_status i = TPending" by (auto simp: final)
    from pass_progress [OF assms(3) acy assms(6) [unfolded final] i] show ?thesis unfolding final by blast
  next
    case False
    have "et_status c \<in> SATISFIED_STATES \<or> et_status c \<in> {TQueued, TRunning, TRetrying}" if "c \<in> set (se_items s')" for c
      using False assms(6) that by (cases "et_status c") (auto simp: SATISFIED_STATES_def)
    then show ?thesis by blast
  qed
qed

section \<open>The status of an execution\<close>

lemma status_of_states_cases:
  "status_of_states cancel states \<in> {EFailed, ECancelled, ESuccess, ERunning}"
  by (simp add: status_of_states_def)

lemma running_needs_active:
  assumes "states \<noteq> {}" and "status_of_states c states = ERunning"
  shows "states \<inter> ACTIVE_STATES \<noteq> {}"
proof
  assume none: "states \<inter> ACTIVE_STATES = {}"
  have "x \<in> {TSuccess, TFailed, TCancelled, TSkipped}" if "x \<in> states" for x
    using none that by (cases x) (auto simp: ACTIVE_STATES_def)
  then have sub: "states \<subseteq> {TSuccess, TFailed, TCancelled, TSkipped}" by blast
  show False
  proof (cases "TFailed \<in> states \<or> TCancelled \<in> states")
    case True
    with assms(2) none sub show ?thesis
      unfolding status_of_states_def ACTIVE_STATES_def by (auto split: if_splits)
  next
    case False
    with sub have "states \<subseteq> SATISFIED_STATES" unfolding SATISFIED_STATES_def by blast
    with False assms(2) show ?thesis unfolding status_of_states_def by (auto split: if_splits)
  qed
qed

lemma status_of_states_spec:
  assumes "states \<noteq> {}"
  shows "status_of_states c states = EFailed \<longleftrightarrow> TFailed \<in> states"
    and "status_of_states c states = ESuccess \<longleftrightarrow> states \<subseteq> {TSuccess, TSkipped} \<and> \<not> c"
    and "status_of_states c states = ECancelled \<Longrightarrow> states \<inter> {TPending, TQueued, TRunning, TFailed} = {}"
    and "states \<inter> {TPending, TQueued, TRunning} \<noteq> {} \<and> TFailed \<notin> states \<Longrightarrow> status_of_states c states = ERunning"
    and "status_of_states c states \<noteq> EPending"
  using assms unfolding status_of_states_def SATISFIED_STATES_def by (auto split: if_splits)

text \<open>The status an execution gets from its tasks: failed exactly when a task failed, success exactly
  when every task succeeded or was skipped and no cancellation was requested, cancelled only with no
  task left to run, and running whenever a task is pending, queued or running and none has failed.\<close>

theorem status_reflects_tasks:
  assumes "se_items s \<noteq> []"
  shows "let st = ex_status (se_exec (refresh_execution_status now s)); states = et_status ` set (se_items s) in
    (st = EFailed \<longleftrightarrow> TFailed \<in> states) \<and>
    (st = ESuccess \<longleftrightarrow> states \<subseteq> {TSuccess, TSkipped} \<and> \<not> ex_cancel_requested (se_exec s)) \<and>
    (st = ECancelled \<longrightarrow> states \<inter> {TPending, TQueued, TRunning, TFailed} = {}) \<and>
    (st = ERunning \<longrightarrow> states \<inter> ACTIVE_STATES \<noteq> {}) \<and>
    (states \<inter> {TPending, TQueued, TRunning} \<noteq> {} \<and> TFailed \<notin> states \<longrightarrow> st = ERunning) \<and> st \<noteq> EPending"
proof -
  let ?states = "et_status ` set (se_items s)"
  have st: "ex_status (se_exec (refresh_execution_status now s)) = status_of_states (ex_cancel_requested (se_exec s)) ?states"
    using assms by (simp add: refresh_execution_status_def Let_def)
  have ne: "?states \<noteq> {}" using assms by simp
  note running = running_needs_active [OF ne]
  show ?thesis
    unfolding st Let_def using running status_of_states_spec [OF ne] by blast
qed

text \<open>Refreshing is idempotent and announces an ending once: the refreshed execution has a finish time
  exactly when its status is final, one outbox event is written exactly when the status changed to a
  final one, and refreshing again later changes neither status nor finish time and writes no event.\<close>

theorem refresh_announces_once:
  assumes "se_items s \<noteq> []"
  shows "let s1 = refresh_execution_status now s; s2 = refresh_execution_status now' s1; e = se_exec s; e1 = se_exec s1 in
    (ex_finished_at e1 \<noteq> None \<longleftrightarrow> ex_status e1 \<in> TERMINAL_EXECUTION_STATES) \<and>
    length (outbox (se_db s1)) = length (outbox (se_db s)) +
      (if ex_status e1 \<noteq> ex_status e \<and> ex_status e1 \<in> TERMINAL_EXECUTION_STATES then 1 else 0) \<and>
    (ex_status e1 \<noteq> ex_status e \<and> ex_status e1 \<in> TERMINAL_EXECUTION_STATES \<longrightarrow>
       ob_event_type (last (outbox (se_db s1))) = ''execution.'' @ execution_status_value (ex_status e1) \<and>
       ob_execution (last (outbox (se_db s1))) = Some (ex_id e)) \<and>
    ex_status (se_exec s2) = ex_status e1 \<and> ex_finished_at (se_exec s2) = ex_finished_at e1 \<and>
    outbox (se_db s2) = outbox (se_db s1)"
  using assms status_of_states_cases [of "ex_cancel_requested (se_exec s)" "set (map et_status (se_items s))"]
  by (auto simp: refresh_execution_status_def Let_def TERMINAL_EXECUTION_STATES_def
      set_exec_def on_db_def outbox_write_def generate_uuid_def)

section \<open>Failure spreads downstream\<close>

text \<open>The pending tasks below a failed task, as a least set: the specification of \<open>_fail_downstream\<close>.\<close>

inductive_set doomed :: "etask list \<Rightarrow> etask set" for items where
  below_failed: "i \<in> set items \<Longrightarrow> et_status i = TPending \<Longrightarrow> c \<in> set items \<Longrightarrow> et_name c \<in> set (et_deps i) \<Longrightarrow>
     et_status c = TFailed \<Longrightarrow> i \<in> doomed items"
| below_doomed: "i \<in> set items \<Longrightarrow> et_status i = TPending \<Longrightarrow> c \<in> doomed items \<Longrightarrow>
     et_name c \<in> set (et_deps i) \<Longrightarrow> i \<in> doomed items"

definition blocked_row :: "time \<Rightarrow> etask \<Rightarrow> etask" where
  "blocked_row now i = i\<lparr>et_status := TFailed, et_finished_at := Some now,
     et_error := Some ''Blocked by failed dependency.''\<rparr>"

lemma doomed_member: "i \<in> doomed items \<Longrightarrow> i \<in> set items \<and> et_status i = TPending"
  by (induction rule: doomed.induct) auto

lemma failed_upstream_iff:
  "failed_upstream items i \<longleftrightarrow> (\<exists>c \<in> set items. et_name c \<in> set (et_deps i) \<and> et_status c = TFailed)"
  by (force simp: failed_upstream_def)

text \<open>What the loop has done so far: some doomed tasks are failed, the rest is as it was.\<close>

definition partly_failed :: "time \<Rightarrow> etask list \<Rightarrow> etask set \<Rightarrow> etask list \<Rightarrow> bool" where
  "partly_failed now items F cur \<longleftrightarrow> F \<subseteq> doomed items \<and> cur = upd_where (\<lambda>i. i \<in> F) (blocked_row now) items"

lemma blocked_row_simps [simp]:
  "et_id (blocked_row now i) = et_id i" "et_name (blocked_row now i) = et_name i"
  "et_deps (blocked_row now i) = et_deps i" "et_status (blocked_row now i) = TFailed"
  by (simp_all add: blocked_row_def)

lemma partly_failed_upstream:
  assumes "partly_failed now items F cur" and "i \<in> set items" and "et_status i = TPending" and "failed_upstream cur i"
  shows "i \<in> doomed items"
proof -
  from assms(1,4) obtain c where c: "c \<in> set items" "et_name c \<in> set (et_deps i)"
    "c \<in> F \<or> et_status c = TFailed" by (auto simp: partly_failed_def failed_upstream_iff set_upd_where)
  with assms show ?thesis by (auto simp: partly_failed_def intro: doomed.intros)
qed

lemma partly_failed_step:
  assumes ids: "distinct (map et_id items)" and pf: "partly_failed now items F (se_items s)"
    and "fail_step now iid (s, c) = (s', c')"
  shows "(\<exists>F'. partly_failed now items F' (se_items s')) \<and>
    (c' \<or> (\<not> c \<and> s' = s \<and> (\<forall>i \<in> set (se_items s). et_id i = iid \<longrightarrow>
        \<not> (et_status i = TPending \<and> failed_upstream (se_items s) i))))"
proof (cases "find (\<lambda>i. et_id i = iid) (se_items s)")
  case None
  with assms(2,3) show ?thesis by (auto simp: fail_step_def find_None_iff)
next
  case (Some item)
  note m = find_SomeD [OF Some]
  have cur: "se_items s = upd_where (\<lambda>i. i \<in> F) (blocked_row now) items" and sub: "F \<subseteq> doomed items"
    using pf by (auto simp: partly_failed_def)
  have ids': "distinct (map et_id (se_items s))" using ids by (simp add: cur map_upd_where)
  have uniq: "i = item" if "i \<in> set (se_items s)" "et_id i = iid" for i
    using ids' that m by (auto simp: distinct_map inj_on_def)
  show ?thesis
  proof (cases "et_status item = TPending \<and> failed_upstream (se_items s) item")
    case True
    have item: "item \<in> set items" "item \<notin> F" using m True by (auto simp: cur set_upd_where)
    have idF: "et_id i \<noteq> iid" if "i \<in> F" for i
    proof
      assume "et_id i = iid"
      moreover have "i \<in> set items" using sub that doomed_member by blast
      ultimately have "i = item" using ids item m by (auto simp: distinct_map inj_on_def)
      with that item(2) show False by simp
    qed
    have "se_items s' = upd_where (\<lambda>i. et_id i = iid) (blocked_row now) (se_items s)"
      using assms(3) Some True by (auto simp: fail_step_def finish_item_def blocked_row_def [abs_def])
    also have "\<dots> = upd_where (\<lambda>i. i \<in> insert item F) (blocked_row now) items"
      unfolding cur upd_where_def map_map
    proof (rule map_cong [OF refl])
      fix i
      assume "i \<in> set items"
      then have "et_id i = iid \<longleftrightarrow> i = item" using ids item m by (auto simp: distinct_map inj_on_def)
      then show "((\<lambda>r. if et_id r = iid then blocked_row now r else r) \<circ> (\<lambda>r. if r \<in> F then blocked_row now r else r)) i =
          (if i \<in> insert item F then blocked_row now i else i)"
        using idF item(2) by auto
    qed
    finally have "partly_failed now items (insert item F) (se_items s')"
      using partly_failed_upstream [OF pf item(1)] True sub by (simp add: partly_failed_def)
    moreover have "c'" using assms(3) Some True by (auto simp: fail_step_def)
    ultimately show ?thesis by blast
  next
    case False
    with assms(3) Some have "s' = s \<and> c' = c" by (auto simp: fail_step_def split: if_splits)
    with False pf uniq show ?thesis by blast
  qed
qed

lemma partly_failed_steps:
  assumes ids: "distinct (map et_id items)"
  shows "partly_failed now items F (se_items s) \<Longrightarrow> fold (fail_step now) iids (s, c) = (s', c') \<Longrightarrow>
    (\<exists>F'. partly_failed now items F' (se_items s')) \<and>
    (c' \<or> (\<not> c \<and> s' = s \<and> (\<forall>i \<in> set (se_items s). et_id i \<in> set iids \<longrightarrow>
        \<not> (et_status i = TPending \<and> failed_upstream (se_items s) i))))"
proof (induction iids arbitrary: s c F)
  case Nil
  then show ?case by auto
next
  case (Cons iid iids)
  obtain t b where t: "fail_step now iid (s, c) = (t, b)" by (cases "fail_step now iid (s, c)")
  from partly_failed_step [OF ids Cons.prems(1) t] obtain F1 where
    1: "partly_failed now items F1 (se_items t)"
      "b \<or> (\<not> c \<and> t = s \<and> (\<forall>i \<in> set (se_items s). et_id i = iid \<longrightarrow> \<not> (et_status i = TPending \<and> failed_upstream (se_items s) i)))"
    by blast
  from Cons.prems(2) t have "fold (fail_step now) iids (t, b) = (s', c')" by simp
  from Cons.IH [OF 1(1) this] 1(2) show ?case by auto
qed

lemma fail_downstream_rows:
  assumes ids: "distinct (map et_id items)"
  shows "partly_failed now items F (se_items s) \<Longrightarrow>
    \<exists>F'. partly_failed now items F' (se_items (fail_downstream now s)) \<and>
      (\<forall>i \<in> set (se_items (fail_downstream now s)).
         \<not> (et_status i = TPending \<and> failed_upstream (se_items (fail_downstream now s)) i))"
proof (induction now s arbitrary: F rule: fail_downstream.induct)
  case (1 now s)
  obtain s' c' where sw: "fail_sweep now s = (s', c')" by (cases "fail_sweep now s")
  from partly_failed_steps [OF ids 1(2), of "map et_id (se_items s)" False s' c'] sw obtain F' where
    2: "partly_failed now items F' (se_items s')"
      "c' \<or> (s' = s \<and> (\<forall>i \<in> set (se_items s). \<not> (et_status i = TPending \<and> failed_upstream (se_items s) i)))"
    by (auto simp: fail_sweep_def)
  show ?case
  proof (cases c')
    case True
    have "fail_downstream now s = fail_downstream now s'" using sw True by (simp add: fail_downstream.simps [of now s])
    with 1(1) [OF sw [symmetric] True 2(1)] show ?thesis by simp
  next
    case False
    then have "fail_downstream now s = s'" using sw by (simp add: fail_downstream.simps [of now s])
    with 2 False show ?thesis by auto
  qed
qed

lemma fail_downstream_items:
  assumes "distinct (map et_id (se_items s))"
  shows "se_items (fail_downstream now s) =
    map (\<lambda>i. if i \<in> doomed (se_items s) then i\<lparr>et_status := TFailed, et_finished_at := Some now,
        et_error := Some ''Blocked by failed dependency.''\<rparr> else i) (se_items s)"
proof -
  let ?items = "se_items s" and ?final = "se_items (fail_downstream now s)"
  have "partly_failed now ?items {} ?items" by (simp add: partly_failed_def)
  from fail_downstream_rows [OF assms this] obtain F where
    F: "F \<subseteq> doomed ?items" "?final = upd_where (\<lambda>i. i \<in> F) (blocked_row now) ?items"
    and fix': "\<forall>i \<in> set ?final. \<not> (et_status i = TPending \<and> failed_upstream ?final i)"
    by (auto simp: partly_failed_def)
  have "i \<in> F" if "i \<in> doomed ?items" for i
    using that
  proof (induction rule: doomed.induct)
    case (below_failed i c)
    then have "et_status c \<noteq> TPending" by simp
    then have "c \<in> set ?final \<or> blocked_row now c \<in> set ?final" using below_failed(3) by (auto simp: F(2) set_upd_where)
    then obtain c' where "c' \<in> set ?final" "et_name c' = et_name c" "et_status c' = TFailed" using below_failed by force
    then have up: "failed_upstream ?final i" using below_failed(4) unfolding failed_upstream_iff
      by (intro bexI [of _ c']) simp_all
    show ?case
    proof (rule ccontr)
      assume "i \<notin> F"
      with below_failed(1) have "i \<in> set ?final" by (simp add: F(2) in_upd_where)
      with fix' up below_failed(2) show False by blast
    qed
  next
    case (below_doomed i c)
    then have "blocked_row now c \<in> set ?final" using doomed_member by (auto simp: F(2) set_upd_where)
    with below_doomed(4) have up: "failed_upstream ?final i"
      unfolding failed_upstream_iff by (intro bexI [of _ "blocked_row now c"]) simp_all
    show ?case
    proof (rule ccontr)
      assume "i \<notin> F"
      with below_doomed(1) have "i \<in> set ?final" by (simp add: F(2) in_upd_where)
      with fix' up below_doomed(2) show False by blast
    qed
  qed
  with F(1) have "F = doomed ?items" by blast
  with F(2) show ?thesis by (simp add: upd_where_def blocked_row_def)
qed

text \<open>C8. The downstream-failure loop fails exactly the pending tasks that a failed task reaches along
  dependencies through pending tasks, marks them as blocked, and changes no other task, in whatever
  order the tasks are listed.\<close>

theorem fail_downstream_exact:
  assumes "distinct (map et_id (se_items s))"
  shows "se_items (fail_downstream now s) =
    map (\<lambda>i. if i \<in> doomed (se_items s) then i\<lparr>et_status := TFailed, et_finished_at := Some now,
        et_error := Some ''Blocked by failed dependency.''\<rparr> else i) (se_items s)"
  by (rule fail_downstream_items [OF assms])

section \<open>What is downstream of a task\<close>

lemma set_children_of: "set (children_of items n) = {m. (n, m) \<in> dep_rel items}"
  by (auto simp: children_of_def dep_rel_def)

text \<open>
  The loop's invariant: what was found is closed except for what is still on the stack, and
  everything seen is reachable.
\<close>

lemma downstream_loop_spec:
  assumes "found \<subseteq> R" and "set stack \<subseteq> R" and "\<And>x y. x \<in> R \<Longrightarrow> (x, y) \<in> dep_rel items \<Longrightarrow> y \<in> R"
    and "\<forall>x \<in> found. \<forall>y. (x, y) \<in> dep_rel items \<longrightarrow> y \<in> found \<union> set stack"
  shows "found \<union> set stack \<subseteq> downstream_loop items stack found \<and> downstream_loop items stack found \<subseteq> R \<and>
    (\<forall>x \<in> downstream_loop items stack found. \<forall>y. (x, y) \<in> dep_rel items \<longrightarrow> y \<in> downstream_loop items stack found)"
  using assms
proof (induction items stack found rule: downstream_loop.induct)
  case (1 items found)
  then show ?case by simp
next
  case (2 items current stack found)
  show ?case
  proof (cases "current \<in> found")
    case True
    have "found \<union> set stack \<subseteq> downstream_loop items stack found \<and> downstream_loop items stack found \<subseteq> R \<and>
      (\<forall>x \<in> downstream_loop items stack found. \<forall>y. (x, y) \<in> dep_rel items \<longrightarrow> y \<in> downstream_loop items stack found)"
      by (rule 2(1) [OF True 2(3) _ 2(5)]) (use 2(4,6) True in auto)
    with True show ?thesis by auto
  next
    case False
    let ?stack = "rev (children_of items current) @ stack" and ?found = "insert current found"
    have "?found \<union> set ?stack \<subseteq> downstream_loop items ?stack ?found \<and> downstream_loop items ?stack ?found \<subseteq> R \<and>
      (\<forall>x \<in> downstream_loop items ?stack ?found. \<forall>y. (x, y) \<in> dep_rel items \<longrightarrow> y \<in> downstream_loop items ?stack ?found)"
    proof (rule 2(2) [OF False _ _ 2(5)])
      show "?found \<subseteq> R" using 2(3,4) by auto
      show "set ?stack \<subseteq> R" using 2(4,5) by (auto simp: set_children_of)
      show "\<forall>x \<in> ?found. \<forall>y. (x, y) \<in> dep_rel items \<longrightarrow> y \<in> ?found \<union> set ?stack"
        using 2(6) by (auto simp: set_children_of)
    qed
    with False show ?thesis by auto
  qed
qed

text \<open>C23. \<open>_downstream_names\<close> returns exactly the tasks that depend on the given one, directly or through
  other tasks: the transitive closure of the dependency relation, cyclic or not.\<close>

theorem downstream_names_trancl:
  "downstream_names items n = {m. (n, m) \<in> {(d, et_name i) |d i. i \<in> set items \<and> d \<in> set (et_deps i)}\<^sup>+}"
proof -
  let ?R = "{m. (n, m) \<in> (dep_rel items)\<^sup>+}"
  have spec: "set (rev (children_of items n)) \<subseteq> downstream_names items n \<and> downstream_names items n \<subseteq> ?R \<and>
    (\<forall>x \<in> downstream_names items n. \<forall>y. (x, y) \<in> dep_rel items \<longrightarrow> y \<in> downstream_names items n)"
    using downstream_loop_spec [of "{}" ?R "rev (children_of items n)" items]
    by (auto simp: downstream_names_def set_children_of intro: trancl_into_trancl)
  have "m \<in> downstream_names items n" if "(n, m) \<in> (dep_rel items)\<^sup>+" for m
    using that
  proof (induction rule: trancl_induct)
    case (base y)
    then show ?case using spec by (auto simp: set_children_of)
  next
    case (step y z)
    then show ?case using spec by blast
  qed
  with spec show ?thesis by (auto simp: dep_rel_def)
qed

section \<open>Instances\<close>

definition demo_supply :: "nat \<Rightarrow> uid" where
  "demo_supply n = ''u'' @ int_str (int n)"

definition demo_task :: "string \<Rightarrow> string list \<Rightarrow> task_state \<Rightarrow> etask" where
  "demo_task n deps st = \<lparr>et_id = ''et-'' @ n, et_execution = ''ex1'', et_task = None, et_name = n, et_deps = deps,
     et_config = empty_config, et_status = st, et_retries = 0, et_started_at = None, et_finished_at = None,
     et_error = None, et_worker = None, et_heartbeat_at = None\<rparr>"

definition demo_document :: wf_document where
  "demo_document = \<lparr>doc_name = ''demo'', doc_description = None, doc_revision = 1, doc_tasks = []\<rparr>"

definition demo_execution :: execution where
  "demo_execution = \<lparr>ex_id = ''ex1'', ex_tenant = ''acme'', ex_workflow = ''wf1'', ex_workflow_revision = None,
     ex_workflow_name = ''demo'', ex_revision = 1, ex_snapshot = demo_document, ex_status = ERunning,
     ex_cancel_requested = False, ex_idempotency_key = None, ex_triggered_by = ''ops'', ex_created_at = 0,
     ex_updated_at = 0, ex_started_at = Some 0, ex_finished_at = None\<rparr>"

definition demo_db :: "etask list \<Rightarrow> db" where
  "demo_db items = (empty_db demo_supply)\<lparr>executions := [demo_execution], etasks := items\<rparr>"

definition demo_session :: "etask list \<Rightarrow> session" where
  "demo_session items = \<lparr>se_exec = demo_execution, se_items = items, se_db = demo_db items, se_sent = []\<rparr>"

text \<open>A diamond: a, then b and c, then d; a is done, b runs.\<close>

definition demo_diamond :: "etask list" where
  "demo_diamond = [demo_task ''a'' [] TSuccess, demo_task ''b'' [''a''] TRunning, demo_task ''c'' [''a''] TPending,
     demo_task ''d'' [''b'', ''c''] TPending]"

lemma demo_diamond_pass:
  "map (\<lambda>i. (et_id i, et_status i)) (pass 5 [] demo_diamond) =
     [(''et-a'', TSuccess), (''et-b'', TRunning), (''et-c'', TQueued), (''et-d'', TPending)]"
  by code_simp

lemma demo_diamond_ok: "pass_ok (demo_session demo_diamond)" "\<not> ex_cancel_requested (se_exec (demo_session demo_diamond))"
  by (simp_all add: pass_ok_def demo_session_def demo_diamond_def demo_task_def demo_execution_def)

lemma demo_diamond_listed: "listed_topologically demo_diamond"
  by (simp add: listed_topologically_def demo_diamond_def demo_task_def All_less_Suc2 numeral_nat)

lemma demo_diamond_rel: "dep_rel demo_diamond = {(''a'', ''b''), (''a'', ''c''), (''b'', ''d''), (''c'', ''d'')}"
  by (auto simp: dep_rel_list demo_diamond_def demo_task_def)

lemma demo_diamond_acyclic: "acyclic (dep_rel demo_diamond)"
proof (rule acyclicI_order)
  show "(a :: string, b) \<in> dep_rel demo_diamond \<Longrightarrow>
      (\<lambda>n. if n = ''a'' then 2 else if n = ''d'' then (0::nat) else 1) b < (\<lambda>n. if n = ''a'' then 2 else if n = ''d'' then 0 else 1) a" for a b
    by (auto simp: demo_diamond_rel)
qed

lemma ready_pass_queues_ready_witness:
  "\<exists>s' new. ready_pass default_settings 5 (demo_session demo_diamond) = Inr s' \<and>
    jobs (se_db s') = jobs (se_db (demo_session demo_diamond)) @ new \<and>
    list_all2 (job_for default_settings 5 (se_exec (demo_session demo_diamond)))
      (map fst (filter (\<lambda>(i, i'). et_status i = TPending \<and> et_status i' = TQueued)
         (zip (se_items (demo_session demo_diamond)) (se_items s')))) new"
  using ready_pass_queues_ready [OF demo_diamond_ok, of default_settings 5] by blast

lemma ready_pass_settles_witness:
  "\<exists>s' i. ready_pass default_settings 5 (demo_session demo_diamond) = Inr s' \<and> i \<in> set (se_items s') \<and>
    et_status i = TPending \<and>
    (\<exists>n \<in> set (et_deps i). \<exists>c \<in> set (se_items s'). et_name c = n \<and> et_status c \<in> ACTIVE_STATES)"
proof -
  from ready_pass_items [OF demo_diamond_ok, of default_settings 5] obtain s' where
    s': "ready_pass default_settings 5 (demo_session demo_diamond) = Inr s'" "se_items s' = pass 5 [] demo_diamond"
    by (auto simp: demo_session_def)
  have "(''et-d'', TPending) \<in> set (map (\<lambda>i. (et_id i, et_status i)) (pass 5 [] demo_diamond))"
    unfolding demo_diamond_pass by simp
  then obtain i where i: "i \<in> set (se_items s')" "et_status i = TPending" by (auto simp: s'(2))
  have "listed_topologically (se_items (demo_session demo_diamond))"
    using demo_diamond_listed by (simp add: demo_session_def)
  from ready_pass_settles [OF demo_diamond_ok this s'(1) i] s'(1) i show ?thesis by blast
qed

lemma ready_pass_progress_witness:
  "\<exists>s'. ready_pass default_settings 5 (demo_session demo_diamond) = Inr s' \<and>
    (\<exists>c \<in> set (se_items s'). et_status c \<in> {TQueued, TRunning, TRetrying})"
proof -
  from ready_pass_items [OF demo_diamond_ok, of default_settings 5] obtain s' where
    s': "ready_pass default_settings 5 (demo_session demo_diamond) = Inr s'" "se_items s' = pass 5 [] demo_diamond"
    by (auto simp: demo_session_def)
  have st: "map et_status (se_items s') = [TSuccess, TRunning, TQueued, TPending]"
    using arg_cong [OF demo_diamond_pass, of "map snd"] by (simp add: s'(2) comp_def)
  have "set (map et_status (se_items s')) = {TSuccess, TRunning, TQueued, TPending}" unfolding st by simp
  then have sts: "et_status ` set (se_items s') = {TSuccess, TRunning, TQueued, TPending}" by simp
  have clean: "\<forall>c \<in> set (se_items s'). et_status c \<notin> {TFailed, TCancelled}"
    using sts by (metis (no_types, lifting) imageI insertE emptyE task_state.distinct)
  have "distinct (map et_name (se_items (demo_session demo_diamond)))"
    by (simp add: demo_session_def demo_diamond_def demo_task_def)
  moreover have "acyclic {(n, et_name i) |n i. i \<in> set (se_items (demo_session demo_diamond)) \<and> n \<in> set (et_deps i)}"
    using demo_diamond_acyclic by (simp add: demo_session_def dep_rel_def)
  ultimately have "(\<forall>c \<in> set (se_items s'). et_status c \<in> SATISFIED_STATES) \<or>
    (\<exists>c \<in> set (se_items s'). et_status c \<in> {TQueued, TRunning, TRetrying})"
    by (rule ready_pass_progress [OF demo_diamond_ok _ _ s'(1) clean])
  moreover have "\<exists>c \<in> set (se_items s'). et_status c = TQueued" using sts by (metis (no_types, lifting) imageE insertI1 insertI2)
  ultimately show ?thesis using s'(1) by blast
qed

lemma status_reflects_tasks_witness:
  "ex_status (se_exec (refresh_execution_status 9 (demo_session demo_diamond))) = ERunning"
  using status_reflects_tasks [of "demo_session demo_diamond" 9]
  by (simp add: demo_session_def demo_diamond_def demo_task_def Let_def)

lemma refresh_announces_once_witness:
  "length (outbox (se_db (refresh_execution_status 9 (demo_session [demo_task ''a'' [] TSuccess])))) = 1 \<and>
   outbox (se_db (refresh_execution_status 12 (refresh_execution_status 9 (demo_session [demo_task ''a'' [] TSuccess])))) =
   outbox (se_db (refresh_execution_status 9 (demo_session [demo_task ''a'' [] TSuccess])))"
proof -
  have "ex_status (se_exec (refresh_execution_status 9 (demo_session [demo_task ''a'' [] TSuccess]))) = ESuccess"
    by code_simp
  then show ?thesis
    using refresh_announces_once [of "demo_session [demo_task ''a'' [] TSuccess]" 9 12]
    by (simp add: Let_def TERMINAL_EXECUTION_STATES_def)
      (simp add: demo_session_def demo_db_def empty_db_def demo_execution_def)
qed

definition demo_chain :: "etask list" where
  "demo_chain = [demo_task ''c'' [''b''] TPending, demo_task ''b'' [''a''] TPending, demo_task ''a'' [] TFailed]"

lemma fail_downstream_exact_witness:
  "map et_status (se_items (fail_downstream 7 (demo_session demo_chain))) = [TFailed, TFailed, TFailed]"
proof -
  have d: "distinct (map et_id (se_items (demo_session demo_chain)))"
    by (simp add: demo_session_def demo_chain_def demo_task_def)
  have b: "demo_task ''b'' [''a''] TPending \<in> doomed demo_chain"
    by (rule doomed.below_failed [where c = "demo_task ''a'' [] TFailed"]) (simp_all add: demo_chain_def demo_task_def)
  have c: "demo_task ''c'' [''b''] TPending \<in> doomed demo_chain"
    by (rule doomed.below_doomed [OF _ _ b]) (simp_all add: demo_chain_def demo_task_def)
  have "se_items (demo_session demo_chain) = demo_chain" by (simp add: demo_session_def)
  with b c show ?thesis
    using fail_downstream_exact [OF d, of 7] by (simp add: demo_chain_def) (simp add: demo_task_def)
qed

text \<open>A single pass is not enough when a task is listed before what it depends on: here b waits for
  a, a waits for the cancelled c. The pass looks at b first and leaves it pending, then cancels a. The
  execution stays running with nothing queued or running, and only a further pass would cancel b.\<close>

theorem ready_pass_order_dependent:
  "let s = demo_session [demo_task ''b'' [''a''] TPending, demo_task ''a'' [''c''] TPending, demo_task ''c'' [] TCancelled] in
   (case ready_pass default_settings 5 s of
      Inl _ \<Rightarrow> False
    | Inr s1 \<Rightarrow> map et_status (se_items s1) = [TPending, TCancelled, TCancelled] \<and>
        ex_status (se_exec s1) = ERunning \<and> jobs (se_db s1) = [] \<and>
        (case ready_pass default_settings 6 s1 of
           Inl _ \<Rightarrow> False
         | Inr s2 \<Rightarrow> map et_status (se_items s2) = [TCancelled, TCancelled, TCancelled] \<and>
             ex_status (se_exec s2) = ECancelled))"
  by code_simp

end
