(* ===== verification/Execution_Life.thy ===== *)
theory Execution_Life
  imports Scheduling
begin

text \<open>
  From sessions back to the database. Every method of the execution service runs a program on the
  session of one execution and commits it. The contract of such a program (\<open>session_program\<close>) is
  that it keeps the static columns and the identities of the rows it loaded; from it follow, once,
  what the commit writes and that no other execution is touched. The theory interprets it for each
  method and proves the properties of cancellation, retries, dead letters and task completion.
\<close>

section \<open>What a session may change\<close>

definition exec_keeps :: "execution \<Rightarrow> execution \<Rightarrow> bool" where
  "exec_keeps e e' \<longleftrightarrow> ex_id e' = ex_id e \<and> ex_tenant e' = ex_tenant e \<and> ex_workflow e' = ex_workflow e \<and>
     ex_workflow_revision e' = ex_workflow_revision e \<and> ex_workflow_name e' = ex_workflow_name e \<and>
     ex_revision e' = ex_revision e \<and> ex_snapshot e' = ex_snapshot e \<and>
     ex_idempotency_key e' = ex_idempotency_key e \<and> ex_triggered_by e' = ex_triggered_by e \<and>
     ex_created_at e' = ex_created_at e"

definition item_keeps :: "etask \<Rightarrow> etask \<Rightarrow> bool" where
  "item_keeps i i' \<longleftrightarrow> et_id i' = et_id i \<and> et_execution i' = et_execution i \<and> et_task i' = et_task i \<and>
     et_name i' = et_name i \<and> et_deps i' = et_deps i \<and> et_config i' = et_config i"

definition evolves :: "session \<Rightarrow> session \<Rightarrow> bool" where
  "evolves s s' \<longleftrightarrow> exec_keeps (se_exec s) (se_exec s') \<and> list_all2 item_keeps (se_items s) (se_items s') \<and>
     db_frame (se_db s) (se_db s')"

lemma exec_keeps_refl [simp]: "exec_keeps e e"
  by (simp add: exec_keeps_def)

lemma item_keeps_refl [simp]: "item_keeps i i"
  by (simp add: item_keeps_def)

lemma evolves_refl [simp]: "evolves s s"
  by (simp add: evolves_def list_all2_refl)

lemma evolves_trans:
  assumes "evolves a b" and "evolves b c"
  shows "evolves a c"
proof -
  have "list_all2 item_keeps (se_items a) (se_items c)"
    by (rule list_all2_trans [of item_keeps item_keeps item_keeps _ "se_items b"])
      (use assms in \<open>auto simp: evolves_def item_keeps_def\<close>)
  with assms db_frame_trans show ?thesis by (auto simp: evolves_def exec_keeps_def)
qed

lemma list_all2_keeps_upd:
  "(\<And>i. P i \<Longrightarrow> item_keeps i (f i)) \<Longrightarrow> list_all2 item_keeps items (upd_where P f items)"
  by (induction items) auto

section \<open>Invariants of sessions\<close>

text \<open>
  An invariant that the primitive session operations keep is kept by every method of the service.
  The primitives are the ones the code has: writing tasks and the execution, a log line, an outbox
  event, a broadcast, a new job, and the three bulk updates of jobs.
\<close>

locale session_frame =
  fixes I :: "session \<Rightarrow> bool"
  assumes set_item_I: "I s \<Longrightarrow> (\<And>i. P i \<Longrightarrow> item_keeps i (f i)) \<Longrightarrow> I (set_item P f s)"
    and set_exec_I: "I s \<Longrightarrow> (\<And>e. exec_keeps e (g e)) \<Longrightarrow> I (set_exec g s)"
    and log_I: "I s \<Longrightarrow> I (on_db (log_write n (ex_id (se_exec s)) m l tid) s)"
    and outbox_I: "I s \<Longrightarrow> I (on_db (outbox_write n (ex_tenant (se_exec s)) ty (Some (ex_id (se_exec s))) p) s)"
    and broadcast_I: "I s \<Longrightarrow> I (broadcast p s)"
begin

lemma write_log_I: "I s \<Longrightarrow> I (write_log n m l t s)"
  unfolding write_log_def by (rule log_I)

lemma touch_I: "I s \<Longrightarrow> I (touch_exec n s)"
  unfolding touch_exec_def by (erule set_exec_I) (simp add: exec_keeps_def)

lemma finish_item_I: "I s \<Longrightarrow> I (finish_item n i st err s)"
  unfolding finish_item_def by (erule set_item_I) (simp add: item_keeps_def)

lemma refresh_I:
  assumes "I s"
  shows "I (refresh_execution_status n s)"
proof -
  have "I (on_db (outbox_write n (ex_tenant (se_exec s)) ty (Some (ex_id (se_exec s))) p) (set_exec g s))"
    if "\<And>e. exec_keeps e (g e)" for ty p g
    using outbox_I [OF set_exec_I [OF assms that]] that [of "se_exec s"] by (simp add: exec_keeps_def)
  then show ?thesis unfolding refresh_execution_status_def Let_def
    by (auto simp: exec_keeps_def assms intro!: set_exec_I)
qed

lemma finalize_I: "I s \<Longrightarrow> I (finalize_session n s)"
  unfolding finalize_session_def Let_def by (intro broadcast_I refresh_I)

lemma fail_step_I: "I s \<Longrightarrow> fail_step n i (s, c) = (u, b) \<Longrightarrow> I u"
  using touch_I [OF finish_item_I]
  by (auto simp: fail_step_def touch_exec_def split: option.splits if_splits intro!: write_log_I)

lemma fail_steps_I: "I s \<Longrightarrow> fold (fail_step n) ids (s, c) = (u, b) \<Longrightarrow> I u"
proof (induction ids arbitrary: s c)
  case Nil
  then show ?case by simp
next
  case (Cons i ids)
  obtain v b' where v: "fail_step n i (s, c) = (v, b')" by (cases "fail_step n i (s, c)")
  with Cons fail_step_I [OF Cons.prems(1) v] show ?case by simp
qed

lemma fail_downstream_I: "I s \<Longrightarrow> I (fail_downstream n s)"
proof (induction n s rule: fail_downstream.induct)
  case (1 n s)
  obtain u b where u: "fail_sweep n s = (u, b)" by (cases "fail_sweep n s")
  then have "I u" using fail_steps_I [OF 1(2)] by (auto simp: fail_sweep_def)
  with 1(1) [OF u [symmetric]] u show ?case by (simp add: fail_downstream.simps [of n s])
qed

lemma dead_letter_I: "I s \<Longrightarrow> I (dead_letter_session n dl item s)"
  unfolding dead_letter_session_def Let_def
  by (intro broadcast_I finalize_I fail_downstream_I write_log_I finish_item_I)

lemma run_task_start_I: "I s \<Longrightarrow> I (fst (run_task_start n w j item mem s))"
  unfolding run_task_start_def Let_def fst_conv
  by (intro broadcast_I write_log_I set_exec_I set_item_I) (simp_all add: item_keeps_def exec_keeps_def start_item_def)

lemma set_status_I: "I s \<Longrightarrow> I (set_status item st s)"
  unfolding set_status_def by (erule set_item_I) (simp add: item_keeps_def)

lemma note_failure_I: "I s \<Longrightarrow> I (note_failure n item message s)"
  unfolding note_failure_def by (intro touch_I set_item_I) (simp_all add: item_keeps_def)

end

text \<open>
  The primitives that write jobs come on top; \<open>S\<close> are the settings new jobs are made with. First those that stay with the
  tasks and jobs of the session's execution.
\<close>

lemma upd_where_ids: "(\<And>i. et_id (f i) = et_id i) \<Longrightarrow> et_id ` set (upd_where P f items) = et_id ` set items"
  by (induction items) auto

locale session_queue = session_frame I for I :: "session \<Rightarrow> bool" +
  fixes S :: settings
  assumes queue_own_I: "I s \<Longrightarrow> et_id i \<in> et_id ` set (se_items s) \<Longrightarrow> queue_item S n a i s = Inr s' \<Longrightarrow> I s'"
    and cancel_jobs_I: "I s \<Longrightarrow> I (on_db (\<lambda>d. d\<lparr>jobs := cancel_execution_jobs n (ex_id (se_exec s)) (jobs d)\<rparr>) s)"
begin

lemma ready_step_I:
  assumes "I s" and "ready_step S n (s, c) i = Inr (u, b)"
  shows "I u"
proof (cases "find (\<lambda>x. et_id x = i) (se_items s)")
  case None
  with assms show ?thesis by (simp add: ready_step_def)
next
  case (Some item)
  let ?t = "set_exec (\<lambda>e. e\<lparr>ex_updated_at := n\<rparr>) (set_item (\<lambda>x. et_id x = i) (\<lambda>x. x\<lparr>et_status := TQueued, et_heartbeat_at := Some n\<rparr>) s)"
  have t: "I ?t" using assms(1) by (intro set_exec_I set_item_I) (simp_all add: item_keeps_def exec_keeps_def)
  have f: "I (set_exec (\<lambda>e. e\<lparr>ex_updated_at := n\<rparr>) (finish_item n i st err s))" for st err
    using touch_I [OF finish_item_I [OF assms(1)]] by (simp add: touch_exec_def)
  show ?thesis
  proof (cases "readiness_of (se_items s) item")
    case Ready
    with assms(2) Some obtain v where v: "queue_item S n (n + timedelta_s (get_or (cf_delay_seconds (et_config item)) 0)) item ?t = Inr v"
      and u: "\<exists>m. u = write_log n m ''INFO'' (Some i) v" by (auto simp: ready_step_def split: sum.splits)
    have "et_id ` set (se_items ?t) = et_id ` set (se_items s)" by (simp add: upd_where_ids)
    then have "et_id item \<in> et_id ` set (se_items ?t)" using find_SomeD [OF Some] by blast
    from u write_log_I [OF queue_own_I [OF t this v]] show ?thesis by auto
  qed (use assms Some f in \<open>auto simp: ready_step_def intro: write_log_I finish_item_I\<close>)
qed

lemma ready_steps_I: "I s \<Longrightarrow> fold_res (ready_step S n) (s, c) ids = Inr (u, b) \<Longrightarrow> I u"
proof (induction ids arbitrary: s c)
  case Nil
  then show ?case by simp
next
  case (Cons i ids)
  then obtain v b' where "ready_step S n (s, c) i = Inr (v, b')" "fold_res (ready_step S n) (v, b') ids = Inr (u, b)"
    by (auto split: sum.splits)
  with Cons ready_step_I show ?case by blast
qed

lemma ready_pass_I:
  assumes "I s" and "ready_pass S n s = Inr u"
  shows "I u"
proof (cases "ex_cancel_requested (se_exec s)")
  case True
  with assms(2) have u: "u = refresh_execution_status n (touch_exec n
      (set_item (\<lambda>i. et_status i \<in> ACTIVE_STATES) (\<lambda>i. i\<lparr>et_status := TCancelled, et_finished_at := Some n\<rparr>) s))"
    by (simp add: ready_pass_def touch_exec_def)
  show ?thesis unfolding u by (intro refresh_I touch_I set_item_I assms(1)) (simp add: item_keeps_def)
next
  case False
  with assms(2) obtain v b where v: "fold_res (ready_step S n) (s, False) (map et_id (se_items s)) = Inr (v, b)"
    and u: "u = (if b then broadcast (exec_event ''execution.updated'' (refresh_execution_status n v)) (refresh_execution_status n v)
      else refresh_execution_status n v)"
    by (auto simp: ready_pass_def Let_def split: sum.splits)
  from ready_steps_I [OF assms(1) v] show ?thesis
    unfolding u by (auto intro: refresh_I broadcast_I)
qed

lemma cancel_mark_I:
  assumes "I s"
  shows "I (cancel_mark n actor s)"
proof -
  let ?t = "set_item (\<lambda>i. et_status i \<in> {TPending, TQueued, TRetrying}) (\<lambda>i. i\<lparr>et_status := TCancelled, et_finished_at := Some n\<rparr>)
    (set_exec (\<lambda>e. e\<lparr>ex_cancel_requested := True, ex_updated_at := n\<rparr>) s)"
  have "I ?t" by (intro set_item_I set_exec_I assms) (simp_all add: item_keeps_def exec_keeps_def)
  from cancel_jobs_I [OF this, of n] have "I (on_db (\<lambda>d. d\<lparr>jobs := cancel_execution_jobs n (ex_id (se_exec s)) (jobs d)\<rparr>) ?t)" by simp
  then show ?thesis unfolding cancel_mark_def by (intro refresh_I write_log_I)
qed

lemma retry_task_I: "I s \<Longrightarrow> retry_task_session S n actor item s = Inr s' \<Longrightarrow> I s'"
  unfolding retry_task_session_def Let_def
  by (erule ready_pass_I [rotated], intro write_log_I set_exec_I set_item_I)
    (simp_all add: item_keeps_def exec_keeps_def reset_item_def)

end

text \<open>Then all of them, the ones that are given a job or a task included.\<close>

locale session_invariant = session_frame I for I :: "session \<Rightarrow> bool" +
  fixes S :: settings
  assumes queue_I: "I s \<Longrightarrow> queue_item S n a i s = Inr s' \<Longrightarrow> I s'"
    and cancel_execution_jobs_I: "I s \<Longrightarrow> I (on_db (\<lambda>d. d\<lparr>jobs := cancel_execution_jobs n (ex_id (se_exec s)) (jobs d)\<rparr>) s)"
    and ack_I: "I s \<Longrightarrow> I (ack_job n jid s)"
    and cancel_task_jobs_I: "I s \<Longrightarrow> I (on_db (\<lambda>d. d\<lparr>jobs := cancel_task_jobs n jid (jobs d)\<rparr>) s)"
begin
end

sublocale session_invariant \<subseteq> session_queue
  by unfold_locales (rule queue_I, assumption+, rule cancel_execution_jobs_I)

context session_invariant begin

lemma skip_task_I:
  assumes "I s" and "skip_task_session S n actor item s = Inr s'"
  shows "I s'"
proof -
  from assms(2) obtain t where t: "ready_pass S n (write_log n (''Task '' @ quoted (et_name item) @ '' skipped by '' @ actor @ ''.'')
      ''WARNING'' (Some (et_id item)) (on_db (\<lambda>d. d\<lparr>jobs := cancel_task_jobs n (et_id item) (jobs d)\<rparr>)
      (finish_item n (et_id item) TSkipped None s))) = Inr t" and s': "s' = finalize_session n t"
    by (auto simp: skip_task_session_def split: sum.splits)
  have "I t" by (rule ready_pass_I [OF _ t]) (intro write_log_I cancel_task_jobs_I finish_item_I assms(1))
  then show ?thesis unfolding s' by (rule finalize_I)
qed

lemma tolerate_failure_I:
  assumes "I s" and "tolerate_failure S n item jid message s = Inr s'"
  shows "I s'"
proof -
  have t: "I (ack_job n jid (write_log n m ''WARNING'' (Some (et_id item)) (touch_exec n
      (finish_item n (et_id item) TSuccess (Some (take 2000 message)) s))))" for m
    by (intro ack_I write_log_I touch_I finish_item_I assms(1))
  from assms(2) show ?thesis
    by (auto simp: tolerate_failure_def split: sum.splits intro!: finalize_I intro: ready_pass_I [OF t])
qed

lemma schedule_retry_I:
  assumes "I s" and "schedule_retry S n item jid message s = Inr s'"
  shows "I s'"
proof -
  have t: "I (set_status item TQueued (ack_job n jid (write_log n m ''WARNING'' (Some (et_id item)) (set_status item TRetrying s))))" for m
    by (intro set_status_I ack_I write_log_I assms(1))
  from assms(2) show ?thesis
    by (auto simp: schedule_retry_def Let_def split: sum.splits intro!: broadcast_I intro: queue_I [OF t])
qed

lemma exhaust_task_I: "I s \<Longrightarrow> I (exhaust_task n item jid message s)"
  unfolding exhaust_task_def Let_def
  by (intro broadcast_I finalize_I fail_downstream_I ack_I write_log_I set_item_I) (simp_all add: item_keeps_def)

lemma handle_failure_I: "I s \<Longrightarrow> handle_failure S n item jid message s = Inr s' \<Longrightarrow> I s'"
  by (auto simp: handle_failure_def Let_def split: if_splits
      intro: tolerate_failure_I schedule_retry_I exhaust_task_I note_failure_I)

lemma cancel_running_I: "I s \<Longrightarrow> I (cancel_running n item jid message s)"
  unfolding cancel_running_def Let_def
  by (intro broadcast_I finalize_I ack_I write_log_I set_item_I) (simp_all add: item_keeps_def)

lemma complete_task_I:
  assumes "I s" and "complete_task S n item jid output s = Inr s'"
  shows "I s'"
proof -
  have t: "I (ack_job n jid (write_log n m ''INFO'' (Some (et_id item)) (touch_exec n (set_item (\<lambda>i. et_id i = et_id item)
      (\<lambda>i. i\<lparr>et_status := TSuccess, et_finished_at := Some n, et_error := None, et_heartbeat_at := Some n\<rparr>) s))))" for m
    by (intro ack_I write_log_I touch_I set_item_I assms(1)) (simp add: item_keeps_def)
  from assms(2) obtain m u where
    "ready_pass S n (ack_job n jid (write_log n m ''INFO'' (Some (et_id item)) (touch_exec n (set_item (\<lambda>i. et_id i = et_id item)
      (\<lambda>i. i\<lparr>et_status := TSuccess, et_finished_at := Some n, et_error := None, et_heartbeat_at := Some n\<rparr>) s)))) = Inr u"
    and s': "s' = (let s3 = finalize_session n u in broadcast (task_event ''task.success'' item s3) s3)"
    by (auto simp: complete_task_def Let_def split: sum.splits)
  from ready_pass_I [OF t this(1)] show ?thesis unfolding s' Let_def by (intro broadcast_I finalize_I)
qed

lemma run_task_finish_I:
  assumes "I s" and "run_task_finish S n r out mem s = (Inr s', mem')"
  shows "I s'"
  using assms
  by (auto simp: run_task_finish_def Let_def split: outcome.splits option.splits if_splits
      intro: handle_failure_I complete_task_I cancel_running_I)

end

lemma evolves_to_set_item: "(\<And>i. P i \<Longrightarrow> item_keeps i (f i)) \<Longrightarrow> evolves t (set_item P f t)"
  by (simp add: evolves_def list_all2_keeps_upd)

lemma evolves_same_rows:
  "se_exec u = se_exec t \<Longrightarrow> se_items u = se_items t \<Longrightarrow> db_frame (se_db t) (se_db u) \<Longrightarrow> evolves t u"
  by (simp add: evolves_def list_all2_refl)

lemma queue_item_InrD:
  assumes "queue_item S n a i t = Inr u"
  shows "\<exists>r. u = t\<lparr>se_db := (se_db t)\<lparr>uuid_draws := Suc (uuid_draws (se_db t)), jobs := jobs (se_db t) @ [r]\<rparr>\<rparr> \<and>
    qj_id r = uuid_supply (se_db t) (uuid_draws (se_db t)) \<and> qj_state r = QQueued \<and> qj_attempts r = 0 \<and>
    qj_max_attempts r = queue_poison_max_attempts S \<and> \<not> qj_dead_lettered r \<and> qj_lease_expires_at r = None \<and>
    qj_etask r = et_id i \<and> qj_execution r = ex_id (se_exec t) \<and> qj_available_at r = a \<and> qj_retry_count r = et_retries i"
  using assms by (auto simp: queue_item_def generate_uuid_def enqueue_def split: sum.splits if_splits)

lemma evolves_on_db: "evolves s0 t \<Longrightarrow> db_frame (se_db t) (h (se_db t)) \<Longrightarrow> evolves s0 (on_db h t)"
  by (erule evolves_trans) (rule evolves_same_rows, simp_all)

interpretation ev: session_invariant "evolves s0" S for s0 S
proof unfold_locales
  fix s s' i n a
  assume "evolves s0 s" and "queue_item S n a i s = Inr s'"
  then show "evolves s0 s'"
    by (auto dest!: queue_item_InrD elim!: evolves_trans intro!: evolves_same_rows simp: db_frame_def)
next
  fix s P and f :: "etask \<Rightarrow> etask"
  assume "evolves s0 s" and "\<And>i. P i \<Longrightarrow> item_keeps i (f i)"
  then show "evolves s0 (set_item P f s)" by (rule evolves_trans [OF _ evolves_to_set_item])
next
  fix s and g :: "execution \<Rightarrow> execution"
  assume ev: "evolves s0 s" and g: "\<And>e. exec_keeps e (g e)"
  have "evolves s (set_exec g s)" by (simp add: evolves_def list_all2_refl g)
  with ev show "evolves s0 (set_exec g s)" by (rule evolves_trans)
next
  fix s p
  assume "evolves s0 s"
  then show "evolves s0 (broadcast p s)" by (rule evolves_trans) (rule evolves_same_rows, simp_all)
qed (simp_all add: ack_job_def evolves_on_db)

section \<open>The contract of a session program\<close>

definition rows_ok :: "db \<Rightarrow> bool" where
  "rows_ok d \<longleftrightarrow> distinct (map ex_id (executions d)) \<and> distinct (map et_id (etasks d))"

lemma load_session_SomeD:
  assumes "load_session eid d = Some s"
  shows "find (\<lambda>e. ex_id e = eid) (executions d) = Some (se_exec s)" and "ex_id (se_exec s) = eid"
    and "se_exec s \<in> set (executions d)"
    and "se_items s = filter (\<lambda>i. et_execution i = eid) (etasks d)" and "se_db s = d" and "se_sent s = []"
  using assms by (auto simp: load_session_def dest: find_SomeD split: option.splits)

lemma merge_execution_base: "exec_keeps b c \<Longrightarrow> merge_execution b c b = c"
  by (auto simp: merge_execution_def merge3_def exec_keeps_def)

lemma merge_etask_base: "item_keeps b c \<Longrightarrow> merge_etask b c b = c"
  by (auto simp: merge_etask_def merge3_def item_keeps_def)

lemma list_all2_find_id:
  assumes "list_all2 item_keeps xs ys"
  shows "rel_option item_keeps (find (\<lambda>i. et_id i = k) xs) (find (\<lambda>i. et_id i = k) ys)"
  using assms by (rule list_all2_find) (auto simp: item_keeps_def)

text \<open>A committed row: the session's version of it when the session had loaded it.\<close>

lemma write_item_other:
  assumes "r \<notin> set base" and "distinct (map et_id rows)" and "r \<in> set rows" and "set base \<subseteq> set rows"
  shows "write_item base cur r = r"
proof -
  have "find (\<lambda>i. et_id i = et_id r) base = None"
    unfolding find_None_iff using assms by (auto simp: distinct_map inj_on_def)
  then show ?thesis by (simp add: write_item_def)
qed

lemma write_items:
  assumes "distinct (map et_id base)" and "list_all2 item_keeps base cur"
  shows "map (write_item base cur) base = cur"
proof (rule nth_equalityI)
  show len: "length (map (write_item base cur) base) = length cur" using assms(2) by (simp add: list_all2_lengthD)
  fix k
  assume "k < length (map (write_item base cur) base)"
  then have k: "k < length base" "k < length cur" using len by simp_all
  have keeps: "item_keeps (base ! k) (cur ! k)" using assms(2) k by (simp add: list_all2_conv_all_nth)
  have ids: "map et_id cur = map et_id base"
    using assms(2) by (intro nth_equalityI) (auto simp: list_all2_conv_all_nth item_keeps_def)
  have 1: "find (\<lambda>i. et_id i = et_id (base ! k)) base = Some (base ! k)"
    using assms(1) k by (intro find_key_unique) simp_all
  have "find (\<lambda>i. et_id i = et_id (cur ! k)) cur = Some (cur ! k)"
    using assms(1) k ids by (intro find_key_unique) simp_all
  then have 2: "find (\<lambda>i. et_id i = et_id (base ! k)) cur = Some (cur ! k)"
    using keeps by (simp add: item_keeps_def)
  show "map (write_item base cur) base ! k = cur ! k"
    using k 1 2 keeps by (simp add: write_item_def merge_etask_base)
qed

lemma write_item_static [simp]:
  "et_id (write_item base cur r) = et_id r" "et_execution (write_item base cur r) = et_execution r"
  "et_name (write_item base cur r) = et_name r" "et_deps (write_item base cur r) = et_deps r"
  by (auto simp: write_item_def merge_etask_def split: option.splits)

lemma merge_execution_static [simp]:
  "ex_id (merge_execution b c r) = ex_id r" "ex_tenant (merge_execution b c r) = ex_tenant r"
  by (simp_all add: merge_execution_def)

locale session_program =
  fixes run :: "session \<Rightarrow> session res"
  assumes run_evolves: "run s = Inr s' \<Longrightarrow> evolves s s'"
begin

lemma after_commit:
  assumes ok: "rows_ok d" and load: "load_session eid d = Some s" and run: "run s = Inr s'"
  shows "load_session eid (commit s s') = Some (s'\<lparr>se_db := commit s s', se_sent := []\<rparr>)"
    and "eid' \<noteq> eid \<Longrightarrow> load_session eid' (commit s s') = map_option (\<lambda>x. x\<lparr>se_db := commit s s'\<rparr>) (load_session eid' d)"
    and "rows_ok (commit s s')"
proof -
  note ev = run_evolves [OF run]
  note l = load_session_SomeD [OF load]
  have keeps: "exec_keeps (se_exec s) (se_exec s')" "list_all2 item_keeps (se_items s) (se_items s')"
    and frame: "executions (se_db s') = executions d" "etasks (se_db s') = etasks d"
    using ev l(5) by (auto simp: evolves_def db_frame_def)
  have eid: "ex_id (se_exec s') = eid" using keeps(1) l(2) by (simp add: exec_keeps_def)
  have execs: "executions (commit s s') = upd_where (\<lambda>r. ex_id r = eid) (merge_execution (se_exec s) (se_exec s')) (executions d)"
    and tasks: "etasks (commit s s') = map (write_item (se_items s) (se_items s')) (etasks d)"
    by (simp_all add: commit_def Let_def eid frame)
  have own: "filter (\<lambda>i. et_execution i = eid) (etasks (commit s s')) = se_items s'"
  proof -
    have "distinct (map et_id (se_items s))" using ok by (auto simp: rows_ok_def l(4) distinct_map inj_on_def)
    from write_items [OF this keeps(2)] show ?thesis by (simp add: tasks filter_map comp_def l(4))
  qed
  have other: "filter (\<lambda>i. et_execution i = eid') (etasks (commit s s')) = filter (\<lambda>i. et_execution i = eid') (etasks d)"
    if "eid' \<noteq> eid" for eid'
  proof -
    have "write_item (se_items s) (se_items s') r = r" if "r \<in> set (etasks d)" "et_execution r = eid'" for r
      by (rule write_item_other [of _ _ "etasks d"]) (use ok that \<open>eid' \<noteq> eid\<close> in \<open>auto simp: l(4) rows_ok_def\<close>)
    then show ?thesis by (simp add: tasks filter_map comp_def) (auto intro!: map_idI)
  qed
  have "find (\<lambda>e. ex_id e = eid) (executions (commit s s')) = Some (se_exec s')"
    using l(1,2) keeps(1) by (simp add: execs find_upd_where merge_execution_base)
  then show "load_session eid (commit s s') = Some (s'\<lparr>se_db := commit s s', se_sent := []\<rparr>)"
    by (simp add: load_session_def own)
  show "load_session eid' (commit s s') = map_option (\<lambda>x. x\<lparr>se_db := commit s s'\<rparr>) (load_session eid' d)" if "eid' \<noteq> eid"
  proof -
    have "find (\<lambda>e. ex_id e = eid') (executions (commit s s')) = find (\<lambda>e. ex_id e = eid') (executions d)"
      using that by (auto simp: execs find_upd_where split: option.splits dest!: find_SomeD
          intro!: option.map_ident_strong [THEN trans])
    then show ?thesis using other [OF that] by (simp add: load_session_def split: option.splits)
  qed
  show "rows_ok (commit s s')" using ok by (simp add: rows_ok_def execs tasks map_upd_where comp_def)
qed

end

lemma commit_tables [simp]:
  "jobs (commit s s') = jobs (se_db s')" "outbox (commit s s') = outbox (se_db s')"
  "workflows (commit s s') = workflows (se_db s')" "uuid_supply (commit s s') = uuid_supply (se_db s')"
  "uuid_draws (commit s s') = uuid_draws (se_db s')" "revisions (commit s s') = revisions (se_db s')"
  "task_defs (commit s s') = task_defs (se_db s')"
  by (simp_all add: commit_def Let_def)

interpretation cancel_prog: session_program "\<lambda>s. Inr (cancel_mark now actor s)" for now actor
  by unfold_locales (auto intro: ev.cancel_mark_I)

interpretation dead_letter_prog: session_program "\<lambda>s. Inr (dead_letter_session now dl item s)" for now dl item
  by unfold_locales (auto intro: ev.dead_letter_I)

interpretation pass_prog: session_program "ready_pass S now" for S now
  by unfold_locales (rule ev.ready_pass_I [OF evolves_refl])

interpretation finalize_prog: session_program "\<lambda>s. Inr (finalize_session now s)" for now
  by unfold_locales (auto intro: ev.finalize_I)

interpretation start_prog: session_program "\<lambda>s. Inr (fst (run_task_start now w j item mem s))" for now w j item mem
  by unfold_locales (auto intro: ev.run_task_start_I)

interpretation retry_prog: session_program "retry_task_session S now actor item" for S now actor item
  by unfold_locales (rule ev.retry_task_I [OF evolves_refl])

interpretation skip_prog: session_program "skip_task_session S now actor item" for S now actor item
  by unfold_locales (rule ev.skip_task_I [OF evolves_refl])

section \<open>Requests touch one execution of one tenant\<close>

text \<open>The rows of an execution as the database has them: the execution and its tasks.\<close>

definition rows_of :: "uid \<Rightarrow> db \<Rightarrow> (execution \<times> etask list) option" where
  "rows_of eid d = map_option (\<lambda>s. (se_exec s, se_items s)) (load_session eid d)"

lemma get_execution_InrD:
  assumes "get_execution tenant eid d = Inr s"
  shows "load_session eid d = Some s" and "ex_tenant (se_exec s) = tenant" and "ex_id (se_exec s) = eid"
  using assms by (auto simp: get_execution_def load_session_def split: option.splits if_splits dest: find_SomeD)

lemma get_execution_foreign:
  "rows_of eid d = Some (e, items) \<Longrightarrow> ex_tenant e \<noteq> tenant \<Longrightarrow>
   get_execution tenant eid d = Inl (ApiError 404 ''not_found'' ''Execution not found.'')"
  by (auto simp: get_execution_def rows_of_def split: option.splits)

context session_program
begin

lemma rows_after:
  assumes "rows_ok d" and "load_session eid d = Some s" and "run s = Inr s'"
  shows "rows_of eid (commit s s') = Some (se_exec s', se_items s')"
    and "eid' \<noteq> eid \<Longrightarrow> rows_of eid' (commit s s') = rows_of eid' d"
  using after_commit [OF assms]
  by (simp_all add: rows_of_def option.map_comp comp_def)

end

lemma retry_task_InrD:
  assumes "retry_task S now tenant eid ident actor d = Inr (e, d', sent)"
  shows "\<exists>s item s1. get_execution tenant eid d = Inr s \<and> find_task ident (se_items s) = Inr item \<and>
    et_status item \<notin> {TSuccess, TSkipped, TRunning} \<and> retry_task_session S now actor item s = Inr s1 \<and>
    e = se_exec s1 \<and> d' = commit s s1 \<and> sent = se_sent s1"
  using assms by (auto simp: retry_task_def split: sum.splits if_splits)

lemma skip_task_InrD:
  assumes "skip_task S now tenant eid ident actor d = Inr (e, d', sent)"
  shows "\<exists>s item s1. get_execution tenant eid d = Inr s \<and> find_task ident (se_items s) = Inr item \<and>
    et_status item \<notin> {TSuccess, TSkipped, TRunning} \<and> skip_task_session S now actor item s = Inr s1 \<and>
    e = se_exec s1 \<and> d' = commit s s1 \<and> sent = se_sent s1"
  using assms by (auto simp: skip_task_def split: sum.splits if_splits)

lemma program_isolated:
  assumes "evolves s s1" and "get_execution tenant eid d = Inr s" and "rows_ok d"
  shows "ex_tenant (se_exec s1) = tenant \<and> ex_id (se_exec s1) = eid"
  using assms(1) get_execution_InrD [OF assms(2)] by (simp add: evolves_def exec_keeps_def)

text \<open>A request to retry a task, skip a task or cancel an execution acts on an execution of the caller's
  tenant only, answers with that execution, and leaves the rows of every other execution as they were.\<close>

theorem requests_stay_in_execution:
  assumes "rows_ok d"
  shows "(\<forall>e d' sent. retry_task S now tenant eid ident actor d = Inr (e, d', sent) \<longrightarrow>
      ex_tenant e = tenant \<and> ex_id e = eid \<and> (\<forall>eid'. eid' \<noteq> eid \<longrightarrow> rows_of eid' d' = rows_of eid' d)) \<and>
    (\<forall>e d' sent. skip_task S now tenant eid ident actor d = Inr (e, d', sent) \<longrightarrow>
      ex_tenant e = tenant \<and> ex_id e = eid \<and> (\<forall>eid'. eid' \<noteq> eid \<longrightarrow> rows_of eid' d' = rows_of eid' d)) \<and>
    (\<forall>e d' sent mem'. cancel_execution now (\<lambda>x. x) tenant eid actor mem d = (Inr (e, d', sent), mem') \<longrightarrow>
      ex_tenant e = tenant \<and> ex_id e = eid \<and> (\<forall>eid'. eid' \<noteq> eid \<longrightarrow> rows_of eid' d' = rows_of eid' d))"
proof (intro conjI allI impI)
  fix e d' sent
  assume "retry_task S now tenant eid ident actor d = Inr (e, d', sent)"
  from retry_task_InrD [OF this] obtain s item s1 where
    s: "get_execution tenant eid d = Inr s" and run: "retry_task_session S now actor item s = Inr s1"
    and e: "e = se_exec s1" "d' = commit s s1" by blast
  note load = get_execution_InrD(1) [OF s]
  show "ex_tenant e = tenant" "ex_id e = eid"
    using program_isolated [OF retry_prog.run_evolves [OF run] s assms] e by simp_all
  show "rows_of eid' d' = rows_of eid' d" if "eid' \<noteq> eid" for eid'
    using retry_prog.rows_after(2) [OF assms load run that] e by simp
next
  fix e d' sent
  assume "skip_task S now tenant eid ident actor d = Inr (e, d', sent)"
  from skip_task_InrD [OF this] obtain s item s1 where
    s: "get_execution tenant eid d = Inr s" and run: "skip_task_session S now actor item s = Inr s1"
    and e: "e = se_exec s1" "d' = commit s s1" by blast
  note load = get_execution_InrD(1) [OF s]
  show "ex_tenant e = tenant" "ex_id e = eid"
    using program_isolated [OF skip_prog.run_evolves [OF run] s assms] e by simp_all
  show "rows_of eid' d' = rows_of eid' d" if "eid' \<noteq> eid" for eid'
    using skip_prog.rows_after(2) [OF assms load run that] e by simp
next
  fix e d' sent mem'
  assume c: "cancel_execution now (\<lambda>x. x) tenant eid actor mem d = (Inr (e, d', sent), mem')"
  from c obtain s where s: "get_execution tenant eid d = Inr s"
    by (auto simp: cancel_execution_def split: sum.splits)
  note load = get_execution_InrD(1) [OF s]
  let ?s1 = "cancel_mark now actor s"
  have run: "Inr ?s1 = Inr ?s1" ..
  note after = cancel_prog.after_commit(1) [OF assms load run] and iso = program_isolated [OF cancel_prog.run_evolves [OF run] s assms]
  have "get_execution tenant eid (commit s ?s1) = Inr (?s1\<lparr>se_db := commit s ?s1, se_sent := []\<rparr>)"
    using iso by (simp add: get_execution_def after)
  with c s iso get_execution_InrD [OF s] have ed: "(e = se_exec s \<and> d' = d) \<or> (e = se_exec ?s1 \<and> d' = commit s ?s1)"
    by (auto simp: cancel_execution_def Let_def split: if_splits prod.splits)
  then show "ex_tenant e = tenant" "ex_id e = eid" using iso get_execution_InrD [OF s] by auto
  show "rows_of eid' d' = rows_of eid' d" if "eid' \<noteq> eid" for eid'
    using cancel_prog.rows_after(2) [OF assms load run that] ed by auto
qed

text \<open>Nobody can touch or see another tenant's execution through these requests: each answers 404.\<close>

theorem foreign_execution_not_found:
  assumes "rows_of eid d = Some (e, items)" and "ex_tenant e \<noteq> tenant"
  shows "let nf = ApiError 404 ''not_found'' ''Execution not found.'' in
    retry_execution S now tenant eid actor d = Inl nf \<and> retry_task S now tenant eid ident actor d = Inl nf \<and>
    skip_task S now tenant eid ident actor d = Inl nf \<and>
    cancel_execution now others tenant eid actor mem d = (Inl nf, mem)"
  using get_execution_foreign [OF assms]
  by (simp add: retry_execution_def retry_task_def skip_task_def cancel_execution_def Let_def)

section \<open>Cancellation\<close>

lemma cancel_mark_items:
  "se_items (cancel_mark now actor s) = upd_where (\<lambda>i. et_status i \<in> {TPending, TQueued, TRetrying})
     (\<lambda>i. i\<lparr>et_status := TCancelled, et_finished_at := Some now\<rparr>) (se_items s)"
  by (simp add: cancel_mark_def)

lemma cancel_mark_jobs:
  "jobs (se_db (cancel_mark now actor s)) = cancel_execution_jobs now (ex_id (se_exec s)) (jobs (se_db s))"
  by (simp add: cancel_mark_def write_log_def)

lemma filter_upd_other:
  assumes "\<And>r. P r \<Longrightarrow> \<not> Q r \<and> \<not> Q (f r)"
  shows "filter Q (upd_where P f rows) = filter Q rows"
  using assms by (induction rows) auto

lemma cancel_inflight_signals:
  assumes "cancel_inflight eid mem = (n, mem1)" and "(eid, h) \<in> set (inflight mem)"
  shows "h \<in> signalled mem1"
  using assms by (force simp: cancel_inflight_def Let_def)

text \<open>C13. Cancelling an unfinished execution leaves no task of it pending, queued or retrying and no job of
  it queued or leased, remembers the request, keeps running and finished tasks and every other
  execution's jobs as they were, and signals every handler in flight; the execution is finished
  unless a task is still running.\<close>

theorem cancel_stops_execution:
  assumes "rows_ok d" and "get_execution tenant eid d = Inr s" and "ex_status (se_exec s) \<notin> TERMINAL_EXECUTION_STATES"
    and "se_items s \<noteq> []"
    and "cancel_execution now (\<lambda>x. x) tenant eid actor mem d = (Inr (e, d', sent), mem')"
  shows "\<exists>items. rows_of eid d' = Some (e, items) \<and> ex_cancel_requested e \<and>
    (\<forall>i \<in> set items. et_status i \<notin> {TPending, TQueued, TRetrying}) \<and>
    items = map (\<lambda>i. if et_status i \<in> {TPending, TQueued, TRetrying}
       then i\<lparr>et_status := TCancelled, et_finished_at := Some now\<rparr> else i) (se_items s) \<and>
    (\<forall>j \<in> set (jobs d'). qj_execution j = eid \<longrightarrow> qj_state j \<notin> {QQueued, QLeased}) \<and>
    filter (\<lambda>j. qj_execution j \<noteq> eid) (jobs d') = filter (\<lambda>j. qj_execution j \<noteq> eid) (jobs d) \<and>
    (\<forall>h. (eid, h) \<in> set (inflight mem) \<longrightarrow> h \<in> signalled mem') \<and>
    (ex_status e \<in> TERMINAL_EXECUTION_STATES \<or> TRunning \<in> et_status ` set items)"
proof -
  note g = get_execution_InrD [OF assms(2)]
  note l = load_session_SomeD [OF g(1)]
  let ?s1 = "cancel_mark now actor s"
  have run: "Inr ?s1 = Inr ?s1" ..
  note rows = cancel_prog.rows_after(1) [OF assms(1) g(1) run]
  note iso = program_isolated [OF cancel_prog.run_evolves [OF run] assms(2) assms(1)]
  have get: "get_execution tenant eid (commit s ?s1) = Inr (?s1\<lparr>se_db := commit s ?s1, se_sent := []\<rparr>)"
    using iso cancel_prog.after_commit(1) [OF assms(1) g(1) run] by (simp add: get_execution_def)
  obtain n mem1 where ci: "cancel_inflight eid mem = (n, mem1)" by (cases "cancel_inflight eid mem")
  from assms(2,3,5) get ci have d': "d' = commit s ?s1" and e: "e = se_exec ?s1"
    and mem': "signalled mem' = signalled mem1"
    by (auto simp: cancel_execution_def Let_def split: if_splits)
  from cancel_inflight_signals [OF ci] have sig: "\<forall>h. (eid, h) \<in> set (inflight mem) \<longrightarrow> h \<in> signalled mem'"
    by (simp add: mem')
  let ?items = "se_items ?s1"
  have no_active: "\<forall>i \<in> set ?items. et_status i \<notin> {TPending, TQueued, TRetrying}"
    unfolding cancel_mark_items by (rule upd_whereI) auto
  have jobs: "jobs d' = cancel_execution_jobs now eid (jobs d)" by (simp add: d' cancel_mark_jobs g(3) l(5))
  have stopped: "\<forall>j \<in> set (jobs d'). qj_execution j = eid \<longrightarrow> qj_state j \<notin> {QQueued, QLeased}"
    unfolding jobs cancel_execution_jobs_def by (rule upd_whereI) auto
  have others: "filter (\<lambda>j. qj_execution j \<noteq> eid) (jobs d') = filter (\<lambda>j. qj_execution j \<noteq> eid) (jobs d)"
    unfolding jobs cancel_execution_jobs_def by (rule filter_upd_other) simp
  have req: "ex_cancel_requested e" by (simp add: e cancel_mark_def)
  have "ex_status e \<in> TERMINAL_EXECUTION_STATES \<or> TRunning \<in> et_status ` set ?items"
  proof (rule ccontr)
    assume no: "\<not> ?thesis"
    obtain t where t: "?s1 = refresh_execution_status now t" by (simp add: cancel_mark_def)
    have items: "?items = se_items t" unfolding t by simp
    have "?items \<noteq> []" using assms(4) by (simp add: cancel_mark_items upd_where_def)
    then have st: "ex_status e = status_of_states (ex_cancel_requested (se_exec t)) (et_status ` set ?items)"
      unfolding items unfolding e t by (simp add: refresh_execution_status_def Let_def)
    have ne: "et_status ` set ?items \<noteq> {}" using \<open>?items \<noteq> []\<close> by simp
    have "ex_status e = ERunning"
      using no status_of_states_cases [of "ex_cancel_requested (se_exec t)" "et_status ` set ?items"]
      unfolding st [symmetric] TERMINAL_EXECUTION_STATES_def by blast
    from running_needs_active [OF ne this [unfolded st]]
    obtain i where i: "i \<in> set ?items" "et_status i \<in> ACTIVE_STATES" by blast
    with no_active have "et_status i = TRunning" unfolding ACTIVE_STATES_def by blast
    with i(1) no show False by (metis imageI)
  qed
  moreover have "rows_of eid d' = Some (e, ?items)" unfolding d' e by (rule rows)
  moreover have "?items = map (\<lambda>i. if et_status i \<in> {TPending, TQueued, TRetrying}
       then i\<lparr>et_status := TCancelled, et_finished_at := Some now\<rparr> else i) (se_items s)"
    unfolding cancel_mark_items upd_where_def ..
  ultimately show ?thesis using no_active stopped others req sig by blast
qed

section \<open>The queue as the execution service leaves it\<close>

text \<open>\<open>jid\<close> will not be drawn again; and: the job \<open>jid\<close> is done with.\<close>

definition drawn :: "uid \<Rightarrow> db \<Rightarrow> bool" where
  "drawn jid d \<longleftrightarrow> (\<forall>n \<ge> uuid_draws d. uuid_supply d n \<noteq> jid)"

definition released :: "uid \<Rightarrow> job list \<Rightarrow> bool" where
  "released jid rows \<longleftrightarrow> (\<forall>j \<in> set rows. qj_id j = jid \<longrightarrow> qj_state j = QCompleted \<or> qj_state j = QCancelled)"

definition acked :: "uid \<Rightarrow> session \<Rightarrow> bool" where
  "acked jid s \<longleftrightarrow> drawn jid (se_db s) \<and> released jid (jobs (se_db s))"

lemma drawn_later: "drawn jid d \<Longrightarrow> db_frame d d' \<Longrightarrow> drawn jid d'"
  by (auto simp: drawn_def db_frame_def)

lemma released_ack: "released jid (acknowledge n jid rows)"
  unfolding released_def acknowledge_def by (rule upd_whereI) auto

lemma released_keep:
  assumes "released jid rows" and "\<And>r. P r \<Longrightarrow> qj_id (f r) = qj_id r"
    and "\<And>r. P r \<Longrightarrow> qj_state (f r) = QCompleted \<or> qj_state (f r) = QCancelled"
  shows "released jid (upd_where P f rows)"
  unfolding released_def
proof (rule upd_whereI)
  fix r
  assume "r \<in> set rows" "\<not> P r"
  then show "qj_id r = jid \<longrightarrow> qj_state r = QCompleted \<or> qj_state r = QCancelled"
    using assms(1) by (simp add: released_def)
qed (use assms(3) in blast)

lemma released_writes:
  "released jid rows \<Longrightarrow> released jid (acknowledge n i rows)"
  "released jid rows \<Longrightarrow> released jid (cancel_execution_jobs n i rows)"
  "released jid rows \<Longrightarrow> released jid (cancel_task_jobs n i rows)"
  unfolding acknowledge_def cancel_execution_jobs_def cancel_task_jobs_def by (erule released_keep; simp)+

lemma acked_same_jobs:
  "acked jid s \<Longrightarrow> db_frame (se_db s) (se_db t) \<Longrightarrow> jobs (se_db t) = jobs (se_db s) \<Longrightarrow> acked jid t"
  unfolding acked_def by (auto intro: drawn_later)

lemma ack_job_acked: "drawn jid (se_db s) \<Longrightarrow> acked jid (ack_job n jid s)"
  by (simp add: acked_def ack_job_def released_ack drawn_def)

lemma queue_item_frame:
  assumes "queue_item S n a i s = Inr s'"
  shows "\<exists>r. jobs (se_db s') = jobs (se_db s) @ [r] \<and> qj_id r = uuid_supply (se_db s) (uuid_draws (se_db s)) \<and>
    db_frame (se_db s) (se_db s')"
  using queue_item_InrD [OF assms] by (auto simp: db_frame_def)

interpretation ack: session_invariant "acked jid" S for jid S
proof unfold_locales
  fix s s' n a i
  assume ok: "acked jid s" and q: "queue_item S n a i s = Inr s'"
  from queue_item_frame [OF q] obtain r where r: "jobs (se_db s') = jobs (se_db s) @ [r]"
    "qj_id r = uuid_supply (se_db s) (uuid_draws (se_db s))" and fr: "db_frame (se_db s) (se_db s')" by blast
  from r(2) ok have "qj_id r \<noteq> jid" by (auto simp: acked_def drawn_def)
  with ok r(1) drawn_later [OF _ fr] show "acked jid s'" by (auto simp: acked_def released_def)
qed (auto simp: acked_def ack_job_def released_writes drawn_def write_log_def on_db_def broadcast_def
      set_item_def set_exec_def log_write_def outbox_write_def generate_uuid_def)

text \<open>What is said of a session's identifiers survives every operation: a second instance.\<close>

interpretation drawn: session_invariant "\<lambda>s. drawn jid (se_db s)" S for jid S
proof unfold_locales
  fix s s' n a i
  assume "drawn jid (se_db s)" and "queue_item S n a i s = Inr s'"
  then show "drawn jid (se_db s')" using queue_item_frame drawn_later by blast
qed (auto simp: ack_job_def drawn_def on_db_def broadcast_def
      set_item_def set_exec_def log_write_def outbox_write_def generate_uuid_def)

lemma handle_failure_acks:
  assumes "drawn jid (se_db s)" and "handle_failure S n item jid message s = Inr s'"
  shows "acked jid s'"
proof -
  have tol: "acked jid (ack_job n jid (write_log n m l t (touch_exec n (finish_item n i st e s))))" for m l t i st e
    by (intro ack_job_acked drawn.write_log_I drawn.touch_I drawn.finish_item_I assms(1))
  have s1: "drawn jid (se_db (note_failure n item message s))" by (intro drawn.note_failure_I assms(1))
  have ret: "acked jid (set_status item st (ack_job n jid (write_log n m l t (set_status item st' (note_failure n item message s)))))" for m l t st st'
    by (intro ack.set_status_I ack_job_acked drawn.write_log_I drawn.set_status_I s1)
  have exh: "acked jid (exhaust_task n item jid message (note_failure n item message s))"
    unfolding exhaust_task_def Let_def
    by (intro ack.broadcast_I ack.finalize_I ack.fail_downstream_I ack_job_acked drawn.write_log_I drawn.set_item_I s1)
      (simp_all add: item_keeps_def)
  from assms(2) show ?thesis
    by (auto simp: handle_failure_def tolerate_failure_def schedule_retry_def Let_def split: sum.splits if_splits
        intro!: ack.finalize_I ack.broadcast_I intro: ack.ready_pass_I [OF tol] ack.queue_I [OF ret] exh)
qed

lemma run_task_finish_acks:
  assumes "drawn (rn_job r) (se_db s)" and "run_task_finish S n r out mem s = (Inr s', mem')"
  shows "acked (rn_job r) s'"
proof -
  have canc: "acked (rn_job r) (cancel_running n item (rn_job r) m s)" for item m
    unfolding cancel_running_def Let_def
    by (intro ack.broadcast_I ack.finalize_I ack_job_acked drawn.write_log_I drawn.set_item_I assms(1))
      (simp_all add: item_keeps_def)
  have succ: "acked (rn_job r) (ack_job n (rn_job r) (write_log n m l t (touch_exec n (set_item P f s))))"
    if "\<And>i. P i \<Longrightarrow> item_keeps i (f i)" for m l t P f
    by (intro ack_job_acked drawn.write_log_I drawn.touch_I drawn.set_item_I assms(1) that)
  have comp: "acked (rn_job r) u" if "complete_task S n (rn_item r) (rn_job r) outp s = Inr u" for outp u
    using that
    by (auto simp: complete_task_def Let_def item_keeps_def split: sum.splits
        intro!: ack.broadcast_I ack.finalize_I elim!: ack.ready_pass_I [rotated] intro: succ)
  from assms show ?thesis
    by (auto simp: run_task_finish_def Let_def split: outcome.splits option.splits if_splits
        intro: canc comp handle_failure_acks)
qed

text \<open>C21. However a task ends (result, failure, time-out, crash or cancellation), the job that carried it is
  done with: when \<open>_run_task\<close> returns, that job is completed or was cancelled, so no worker gets it again.\<close>

theorem finished_task_releases_job:
  assumes "finish_task S now r out mem d = (Inr (d', sent), mem')" and "\<forall>n \<ge> uuid_draws d. uuid_supply d n \<noteq> rn_job r"
  shows "\<forall>j \<in> set (jobs d'). qj_id j = rn_job r \<longrightarrow> qj_state j = QCompleted \<or> qj_state j = QCancelled"
proof -
  from assms(1) obtain s' m where s': "run_task_finish S now r out mem (resume_session r d) = (Inr s', m)"
    and d': "d' = commit (resume_session r d) s'"
    by (auto simp: finish_task_def Let_def split: prod.splits sum.splits)
  have "drawn (rn_job r) (se_db (resume_session r d))" using assms(2) by (simp add: resume_session_def drawn_def)
  from run_task_finish_acks [OF this s'] show ?thesis by (simp add: d' acked_def released_def)
qed

text \<open>What writes no job leaves the jobs.\<close>

interpretation same_jobs: session_frame "\<lambda>s. jobs (se_db s) = js" for js
  by unfold_locales
    (auto simp: broadcast_def set_item_def set_exec_def on_db_def log_write_def outbox_write_def generate_uuid_def)

interpretation same_owner: session_invariant "\<lambda>s. ex_id (se_exec s) = eid \<and> ex_tenant (se_exec s) = ten" S for eid ten S
proof unfold_locales
  fix s s' n a i
  assume "ex_id (se_exec s) = eid \<and> ex_tenant (se_exec s) = ten" and "queue_item S n a i s = Inr s'"
  then show "ex_id (se_exec s') = eid \<and> ex_tenant (se_exec s') = ten" by (auto dest!: queue_item_InrD)
qed (auto simp: ack_job_def exec_keeps_def)

section \<open>The retry policy\<close>

lemma fail_downstream_finished:
  assumes "distinct (map et_id (se_items s))" and "i \<in> set (se_items s)" and "et_status i \<noteq> TPending"
  shows "i \<in> set (se_items (fail_downstream n s))"
proof -
  have "i \<notin> doomed (se_items s)" using doomed_member [of i "se_items s"] assms(3) by blast
  with assms(2) show ?thesis by (auto simp: fail_downstream_items [OF assms(1)])
qed

lemma upd_where_mem: "x \<in> set xs \<Longrightarrow> P x \<Longrightarrow> f x \<in> set (upd_where P f xs)"
  by (auto simp: set_upd_where)

lemma queue_item_total: "ex_tenant (se_exec s) \<noteq> [] \<Longrightarrow> \<exists>s'. queue_item S n a i s = Inr s'"
  by (simp add: queue_item_def generate_uuid_def enqueue_def)

lemma note_failure_item:
  assumes "item \<in> set (se_items s)"
  shows "item\<lparr>et_retries := et_retries item + 1, et_error := Some (take 2000 m), et_heartbeat_at := Some n\<rparr> \<in>
    set (se_items (note_failure n item m s))"
  using upd_where_mem [OF assms, of "\<lambda>i. et_id i = et_id item"
      "\<lambda>i. i\<lparr>et_retries := et_retries item + 1, et_error := Some (take 2000 m), et_heartbeat_at := Some n\<rparr>"]
  by (simp add: note_failure_def touch_exec_def)

lemma set_status_item:
  assumes "i \<in> set (se_items s)" and "et_id i = et_id item"
  shows "i\<lparr>et_status := st\<rparr> \<in> set (se_items (set_status item st s))"
  using upd_where_mem [OF assms(1), of "\<lambda>i. et_id i = et_id item" "\<lambda>i. i\<lparr>et_status := st\<rparr>"] assms(2)
  by (simp add: set_status_def)

lemma ack_job_fields [simp]:
  "se_items (ack_job n jid s) = se_items s" "se_exec (ack_job n jid s) = se_exec s"
  "jobs (se_db (ack_job n jid s)) = acknowledge n jid (jobs (se_db s))"
  by (simp_all add: ack_job_def)

lemma schedule_retry_spec:
  assumes "i \<in> set (se_items s)" and "et_id i = et_id item" and "ex_tenant (se_exec s) \<noteq> []"
  shows "\<exists>s' j. schedule_retry S n item jid m s = Inr s' \<and> i\<lparr>et_status := TQueued\<rparr> \<in> set (se_items s') \<and>
    jobs (se_db s') = acknowledge n jid (jobs (se_db s)) @ [j] \<and> qj_etask j = et_id item \<and> qj_state j = QQueued \<and>
    qj_retry_count j = et_retries item + 1 \<and>
    qj_available_at j = n + timedelta_s (get_or (cf_backoff_seconds (et_config item)) 1 * 2 ^ nat (et_retries item))"
proof -
  define t where "t = set_status item TQueued (ack_job n jid (write_log n (''Task '' @ quoted (et_name item) @ '' failed on attempt '' @
      int_str (et_retries item + 1) @ '': '' @ m @ '' Scheduling retry.'') ''WARNING'' (Some (et_id item)) (set_status item TRetrying s)))"
  have "i\<lparr>et_status := TRetrying\<rparr> \<in> set (se_items (set_status item TRetrying s))" using assms(1,2) by (rule set_status_item)
  then have "i\<lparr>et_status := TRetrying, et_status := TQueued\<rparr> \<in> set (se_items t)"
    unfolding t_def by (intro set_status_item) (simp_all add: assms(2))
  then have it: "i\<lparr>et_status := TQueued\<rparr> \<in> set (se_items t)" by simp
  have ten: "ex_tenant (se_exec t) \<noteq> []" using assms(3) by (simp add: t_def set_status_def)
  have js: "jobs (se_db t) = acknowledge n jid (jobs (se_db s))"
    by (simp add: t_def set_status_def write_log_def)
  from queue_item_total [OF ten] obtain u where u: "queue_item S n
      (n + timedelta_s (get_or (cf_backoff_seconds (et_config item)) 1 * 2 ^ nat (et_retries item + 1 - 1)))
      (item\<lparr>et_retries := et_retries item + 1\<rparr>) t = Inr u" by blast
  from queue_item_InrD [OF this] obtain r where r: "u = t\<lparr>se_db := (se_db t)\<lparr>uuid_draws := Suc (uuid_draws (se_db t)), jobs := jobs (se_db t) @ [r]\<rparr>\<rparr>"
    "qj_state r = QQueued" "qj_etask r = et_id item" "qj_retry_count r = et_retries item + 1"
    "qj_available_at r = n + timedelta_s (get_or (cf_backoff_seconds (et_config item)) 1 * 2 ^ nat (et_retries item))"
    by auto
  have "schedule_retry S n item jid m s = Inr (broadcast (task_event ''task.retrying'' item u) u)"
    using u by (simp add: schedule_retry_def Let_def t_def)
  with it js r show ?thesis by auto
qed

lemma exhaust_task_spec:
  assumes "distinct (map et_id (se_items s))" and "i \<in> set (se_items s)" and "et_id i = et_id item"
  shows "i\<lparr>et_status := TFailed, et_finished_at := Some n\<rparr> \<in> set (se_items (exhaust_task n item jid m s)) \<and>
    jobs (se_db (exhaust_task n item jid m s)) = acknowledge n jid (jobs (se_db s))"
proof -
  define t where "t = ack_job n jid (write_log n (''Task '' @ quoted (et_name item) @ '' exhausted retries: '' @ m) ''ERROR'' (Some (et_id item))
            (set_item (\<lambda>i. et_id i = et_id item) (\<lambda>i. i\<lparr>et_status := TFailed, et_finished_at := Some n\<rparr>) s))"
  have ids: "distinct (map et_id (se_items t))" using assms(1) by (simp add: t_def map_upd_where)
  have it: "i\<lparr>et_status := TFailed, et_finished_at := Some n\<rparr> \<in> set (se_items t)"
    using upd_where_mem [OF assms(2), of "\<lambda>i. et_id i = et_id item" "\<lambda>i. i\<lparr>et_status := TFailed, et_finished_at := Some n\<rparr>"] assms(3)
    by (simp add: t_def)
  have js: "jobs (se_db t) = acknowledge n jid (jobs (se_db s))" by (simp add: t_def write_log_def)
  have e: "exhaust_task n item jid m s = (let s1 = finalize_session n (fail_downstream n t) in broadcast (task_event ''task.failed'' item s1) s1)"
    by (simp add: exhaust_task_def t_def)
  have "jobs (se_db (exhaust_task n item jid m s)) = acknowledge n jid (jobs (se_db s))"
    unfolding e Let_def by (intro same_jobs.broadcast_I same_jobs.finalize_I same_jobs.fail_downstream_I js)
  moreover have "se_items (exhaust_task n item jid m s) = se_items (fail_downstream n t)"
    by (simp add: e Let_def finalize_session_def)
  ultimately show ?thesis using fail_downstream_finished [OF ids it] by simp
qed

lemma pass_keeps_settled:
  assumes "i \<in> set items" and "et_status i \<noteq> TPending"
  shows "i \<in> set (pass now [] items)"
proof -
  obtain k where k: "k < length items" "items ! k = i" using assms(1) by (auto simp: in_set_conv_nth)
  have "readiness_of (take k (pass now [] items) @ drop k items) i = NotPending" using assms(2) by (simp add: readiness_NotPending)
  then have "pass now [] items ! k = i" using pass_nth [OF k(1), of now] by (simp add: k(2))
  with k(1) show ?thesis by (auto simp: in_set_conv_nth)
qed

lemma ready_items_pending: "x \<in> set (ready_items now [] items) \<Longrightarrow> x \<in> set items \<and> et_status x = TPending"
  by (auto simp: ready_items_queued dest: set_zip_leftD)

lemma jobs_from: "list_all2 (job_for S n e) xs new \<Longrightarrow> j \<in> set new \<Longrightarrow> \<exists>x \<in> set xs. qj_etask j = et_id x"
  by (induction rule: list_all2_induct) (auto simp: job_for_def)

lemma tolerate_failure_spec:
  assumes "distinct (map et_id (se_items s))" and "item \<in> set (se_items s)" and "ex_tenant (se_exec s) \<noteq> []"
  shows "\<exists>s' new. tolerate_failure S n item jid m s = Inr s' \<and>
    item\<lparr>et_status := TSuccess, et_finished_at := Some n, et_error := Some (take 2000 m)\<rparr> \<in> set (se_items s') \<and>
    jobs (se_db s') = acknowledge n jid (jobs (se_db s)) @ new \<and> (\<forall>j \<in> set new. qj_etask j \<noteq> et_id item)"
proof -
  let ?i = "item\<lparr>et_status := TSuccess, et_finished_at := Some n, et_error := Some (take 2000 m)\<rparr>"
  define t where "t = ack_job n jid (write_log n (''Task '' @ quoted (et_name item) @ '' failed but allow_failure is set: '' @ m)
      ''WARNING'' (Some (et_id item)) (touch_exec n (finish_item n (et_id item) TSuccess (Some (take 2000 m)) s)))"
  have e: "tolerate_failure S n item jid m s = (case ready_pass S n t of Inl e \<Rightarrow> Inl e | Inr s1 \<Rightarrow> Inr (finalize_session n s1))"
    by (simp only: tolerate_failure_def t_def)
  have js: "jobs (se_db t) = acknowledge n jid (jobs (se_db s))" by (simp add: t_def write_log_def touch_exec_def finish_item_def)
  have it: "?i \<in> set (se_items t)"
    using upd_where_mem [OF assms(2), of "\<lambda>i. et_id i = et_id item" "\<lambda>i. i\<lparr>et_status := TSuccess, et_finished_at := Some n, et_error := Some (take 2000 m)\<rparr>"]
    by (simp add: t_def touch_exec_def finish_item_def)
  have ok: "pass_ok t" using assms(1,3) by (simp add: pass_ok_def t_def touch_exec_def finish_item_def map_upd_where)
  have "\<exists>u new. ready_pass S n t = Inr u \<and> ?i \<in> set (se_items u) \<and> jobs (se_db u) = jobs (se_db t) @ new \<and>
      (\<forall>j \<in> set new. qj_etask j \<noteq> et_id item)"
  proof (cases "ex_cancel_requested (se_exec t)")
    case True
    with it show ?thesis
      by (auto simp: ready_pass_def ACTIVE_STATES_def intro!: in_upd_where exI [of _ "[]"])
  next
    case False
    from ready_pass_items [OF ok False, of S n] obtain u new where u: "ready_pass S n t = Inr u"
      "se_items u = pass n [] (se_items t)" "jobs (se_db u) = jobs (se_db t) @ new"
      "list_all2 (job_for S n (se_exec t)) (ready_items n [] (se_items t)) new" by blast
    have "qj_etask j \<noteq> et_id item" if j: "j \<in> set new" for j
    proof -
      obtain x where x: "x \<in> set (ready_items n [] (se_items t))" "qj_etask j = et_id x"
        using jobs_from [OF u(4) j] by blast
      from ready_items_pending [OF x(1)] have "x \<noteq> ?i" "x \<in> set (se_items t)" by auto
      with it ok have "et_id x \<noteq> et_id ?i" by (auto simp: pass_ok_def distinct_map inj_on_def)
      with x(2) show ?thesis by simp
    qed
    with u pass_keeps_settled [OF it] show ?thesis by auto
  qed
  then obtain u new where "ready_pass S n t = Inr u" "?i \<in> set (se_items u)" "jobs (se_db u) = jobs (se_db t) @ new"
      "\<forall>j \<in> set new. qj_etask j \<noteq> et_id item" by blast
  then show ?thesis
    by (intro exI [of _ "finalize_session n u"] exI [of _ new])
      (simp add: e js finalize_session_def Let_def)
qed

text \<open>C15. What becomes of a failed attempt. With \<open>allow_failure\<close> the task counts as a success at once, whatever attempts
  are left: it keeps the first 2000 characters of the error, its retries are not counted, and no new job
  of it is added. Otherwise the attempt counts, keeps the first 2000 characters of its error, and
  completes its job; while attempts are left the task goes back to the queue as one new job,
  available after the backoff doubled for each earlier retry, and after \<open>max_retries\<close> retries the
  task has failed for good and no job is added.\<close>

theorem retry_policy:
  assumes "distinct (map et_id (se_items s))" and "item \<in> set (se_items s)" and "ex_tenant (se_exec s) \<noteq> []"
  shows "\<exists>s' i. handle_failure S now item jid message s = Inr s' \<and> i \<in> set (se_items s') \<and> et_id i = et_id item \<and>
    et_error i = Some (take 2000 message) \<and>
    (if cf_allow_failure (et_config item)
     then et_status i = TSuccess \<and> et_finished_at i = Some now \<and> et_retries i = et_retries item \<and>
       (\<exists>new. jobs (se_db s') = acknowledge now jid (jobs (se_db s)) @ new \<and> (\<forall>j \<in> set new. qj_etask j \<noteq> et_id item))
     else et_retries i = et_retries item + 1 \<and>
      (if et_retries item < get_or (cf_max_retries (et_config item)) 0
       then et_status i = TQueued \<and>
         (\<exists>j. jobs (se_db s') = acknowledge now jid (jobs (se_db s)) @ [j] \<and> qj_etask j = et_id item \<and>
            qj_state j = QQueued \<and> qj_retry_count j = et_retries item + 1 \<and>
            qj_available_at j = now + timedelta_s (get_or (cf_backoff_seconds (et_config item)) 1 * 2 ^ nat (et_retries item)))
       else et_status i = TFailed \<and> et_finished_at i = Some now \<and>
         jobs (se_db s') = acknowledge now jid (jobs (se_db s))))"
proof (cases "cf_allow_failure (et_config item)")
  case True
  from tolerate_failure_spec [OF assms, of S now jid message] obtain s' new where
    "tolerate_failure S now item jid message s = Inr s'"
    "item\<lparr>et_status := TSuccess, et_finished_at := Some now, et_error := Some (take 2000 message)\<rparr> \<in> set (se_items s')"
    "jobs (se_db s') = acknowledge now jid (jobs (se_db s)) @ new" "\<forall>j \<in> set new. qj_etask j \<noteq> et_id item" by blast
  with True show ?thesis
    by (intro exI [of _ s'] exI [of _ "item\<lparr>et_status := TSuccess, et_finished_at := Some now, et_error := Some (take 2000 message)\<rparr>"])
      (simp add: handle_failure_def)
next
  case no: False
  let ?s1 = "note_failure now item message s"
  let ?i = "item\<lparr>et_retries := et_retries item + 1, et_error := Some (take 2000 message), et_heartbeat_at := Some now\<rparr>"
  have i: "?i \<in> set (se_items ?s1)" using assms(2) by (rule note_failure_item)
  have id: "et_id ?i = et_id item" by simp
  have js: "jobs (se_db ?s1) = jobs (se_db s)" by (rule same_jobs.note_failure_I) simp
  have ten: "ex_tenant (se_exec ?s1) \<noteq> []" using assms(3) by (simp add: note_failure_def touch_exec_def)
  have ids: "distinct (map et_id (se_items ?s1))"
    using assms(1) by (simp add: note_failure_def touch_exec_def map_upd_where)
  show ?thesis
  proof (cases "et_retries item < get_or (cf_max_retries (et_config item)) 0")
    case True
    from schedule_retry_spec [OF i id ten, of S now jid message] obtain s' j where
      "schedule_retry S now item jid message ?s1 = Inr s'" "?i\<lparr>et_status := TQueued\<rparr> \<in> set (se_items s')"
      "jobs (se_db s') = acknowledge now jid (jobs (se_db s)) @ [j]" "qj_etask j = et_id item" "qj_state j = QQueued"
      "qj_retry_count j = et_retries item + 1"
      "qj_available_at j = now + timedelta_s (get_or (cf_backoff_seconds (et_config item)) 1 * 2 ^ nat (et_retries item))"
      unfolding js by blast
    with True no show ?thesis
      by (intro exI [of _ s'] exI [of _ "?i\<lparr>et_status := TQueued\<rparr>"]) (simp add: handle_failure_def Let_def)
  next
    case False
    from exhaust_task_spec [OF ids i id, of now jid message] False no show ?thesis
      by (intro exI [of _ "exhaust_task now item jid message ?s1"] exI [of _ "?i\<lparr>et_status := TFailed, et_finished_at := Some now\<rparr>"])
        (simp add: handle_failure_def Let_def js)
  qed
qed


section \<open>The invariant of the service's tables\<close>

definition drawn_ids :: "db \<Rightarrow> uid set" where
  "drawn_ids d = uuid_supply d ` {..<uuid_draws d}"

definition jobs_good :: "settings \<Rightarrow> db \<Rightarrow> bool" where
  "jobs_good S d \<longleftrightarrow> inj (uuid_supply d) \<and> 1 \<le> queue_poison_max_attempts S \<and> queue_ok (jobs d) \<and>
     qj_id ` set (jobs d) \<subseteq> drawn_ids d"

definition service_ok :: "settings \<Rightarrow> db \<Rightarrow> bool" where
  "service_ok S d \<longleftrightarrow> rows_ok d \<and> jobs_good S d \<and> ex_id ` set (executions d) \<subseteq> drawn_ids d \<and>
     et_id ` set (etasks d) \<subseteq> drawn_ids d \<and> et_execution ` set (etasks d) \<subseteq> ex_id ` set (executions d) \<and>
     (\<forall>e \<in> set (executions d). ex_tenant e \<noteq> [])"

lemma drawn_ids_mono: "db_frame d d' \<Longrightarrow> drawn_ids d \<subseteq> drawn_ids d'"
  by (auto simp: drawn_ids_def db_frame_def)

lemma next_id_fresh: "inj (uuid_supply d) \<Longrightarrow> uuid_supply d (uuid_draws d) \<notin> drawn_ids d"
  by (auto simp: drawn_ids_def dest: injD)

lemma drawn_ids_step: "drawn_ids (d\<lparr>uuid_draws := Suc (uuid_draws d)\<rparr>) = insert (uuid_supply d (uuid_draws d)) (drawn_ids d)"
  by (auto simp: drawn_ids_def lessThan_Suc)

lemma jobs_good_step:
  assumes "jobs_good S d" and "db_frame d d'" and "jobs d' = queue_step S (n, oper) (jobs d)"
    and "\<And>j. oper \<noteq> OEnqueue j" and "qj_id ` set (jobs d') \<subseteq> qj_id ` set (jobs d)"
  shows "jobs_good S d'"
proof -
  have "op_allowed (n, oper) (jobs d)" using assms(4) by (cases oper) auto
  then have "queue_ok (jobs d')" using assms(1,3) queue_step_ok by (simp add: jobs_good_def)
  moreover have "inj (uuid_supply d')" using assms(1,2) by (simp add: jobs_good_def db_frame_def)
  moreover have "qj_id ` set (jobs d') \<subseteq> drawn_ids d'"
    using assms(1,5) drawn_ids_mono [OF assms(2)] unfolding jobs_good_def by blast
  ultimately show ?thesis using assms(1) by (simp add: jobs_good_def)
qed

lemma jobs_good_same: "jobs_good S d \<Longrightarrow> db_frame d d' \<Longrightarrow> jobs d' = jobs d \<Longrightarrow> jobs_good S d'"
  using drawn_ids_mono [of d d'] by (auto simp: jobs_good_def db_frame_def)

lemma jobs_good_queue:
  assumes "jobs_good S (se_db s)" and "queue_item S n a i s = Inr s'"
  shows "jobs_good S (se_db s')"
proof -
  from queue_item_InrD [OF assms(2)] obtain r where r: "jobs (se_db s') = jobs (se_db s) @ [r]"
    "qj_id r = uuid_supply (se_db s) (uuid_draws (se_db s))" "qj_state r = QQueued" "qj_attempts r = 0"
    "qj_max_attempts r = queue_poison_max_attempts S" "\<not> qj_dead_lettered r" "qj_lease_expires_at r = None"
    and d: "uuid_supply (se_db s') = uuid_supply (se_db s)" "drawn_ids (se_db s') = insert (qj_id r) (drawn_ids (se_db s))"
    by (auto simp: drawn_ids_def lessThan_Suc)
  have "qj_id r \<notin> qj_id ` set (jobs (se_db s))"
    using assms(1) next_id_fresh [of "se_db s"] r(2) by (auto simp: jobs_good_def)
  with assms(1) r d show ?thesis by (auto simp: jobs_good_def queue_ok_def job_ok_def)
qed

interpretation jobs_inv: session_invariant "\<lambda>s. jobs_good S (se_db s)" S for S
proof unfold_locales
  fix s :: session and n jid
  assume "jobs_good S (se_db s)"
  then show "jobs_good S (se_db (ack_job n jid s))"
    by (rule jobs_good_step [where n = n and oper = "OAcknowledge jid"])
      (simp_all add: ack_job_def ack_rows.keeps_key_set)
next
  fix s :: session and n eid
  assume "jobs_good S (se_db s)"
  then show "jobs_good S (se_db (on_db (\<lambda>d. d\<lparr>jobs := cancel_execution_jobs n eid (jobs d)\<rparr>) s))"
    by (rule jobs_good_step [where n = n and oper = "OCancelExecution eid"])
      (simp_all add: stopped_rows.keeps_key_set)
next
  fix s :: session and n tid
  assume "jobs_good S (se_db s)"
  then show "jobs_good S (se_db (on_db (\<lambda>d. d\<lparr>jobs := cancel_task_jobs n tid (jobs d)\<rparr>) s))"
    by (rule jobs_good_step [where n = n and oper = "OCancelTask tid"])
      (simp_all add: skipped_rows.keeps_key_set)
next
  fix s s' :: session and n a i
  assume "jobs_good S (se_db s)" and "queue_item S n a i s = Inr s'"
  then show "jobs_good S (se_db s')" by (rule jobs_good_queue)
qed (erule jobs_good_same, simp, simp)+

text \<open>A commit keeps the invariant, whatever base the session was loaded from.\<close>

lemma service_ok_commit:
  assumes ok: "service_ok S d" and fr: "db_frame d (se_db s')" and jg: "jobs_good S (se_db s')"
  shows "service_ok S (commit s s')"
proof -
  have d: "executions (se_db s') = executions d" "etasks (se_db s') = etasks d" using fr by (simp_all add: db_frame_def)
  have ids: "map ex_id (executions (commit s s')) = map ex_id (executions d)"
    "map ex_tenant (executions (commit s s')) = map ex_tenant (executions d)"
    "map et_id (etasks (commit s s')) = map et_id (etasks d)"
    "map et_execution (etasks (commit s s')) = map et_execution (etasks d)"
    by (simp_all add: commit_def Let_def d map_upd_where comp_def)
  then have imgs: "ex_id ` set (executions (commit s s')) = ex_id ` set (executions d)"
    "ex_tenant ` set (executions (commit s s')) = ex_tenant ` set (executions d)"
    "et_id ` set (etasks (commit s s')) = et_id ` set (etasks d)"
    "et_execution ` set (etasks (commit s s')) = et_execution ` set (etasks d)"
    by (metis set_map)+
  have dr: "drawn_ids (commit s s') = drawn_ids (se_db s')" by (simp add: drawn_ids_def)
  have jg': "jobs_good S (commit s s')" using jg by (simp add: jobs_good_def dr)
  have ten: "\<forall>e \<in> set (executions (commit s s')). ex_tenant e \<noteq> []"
  proof
    fix e
    assume "e \<in> set (executions (commit s s'))"
    then have "ex_tenant e \<in> ex_tenant ` set (executions d)" using imgs(2) by blast
    with ok show "ex_tenant e \<noteq> []" by (auto simp: service_ok_def)
  qed
  from ok drawn_ids_mono [OF fr] have "ex_id ` set (executions d) \<subseteq> drawn_ids (se_db s')"
    "et_id ` set (etasks d) \<subseteq> drawn_ids (se_db s')" unfolding service_ok_def by blast+
  with ok jg' ten show ?thesis by (simp add: service_ok_def rows_ok_def ids imgs dr)
qed

section \<open>Instances\<close>

definition demo_other :: execution where
  "demo_other = demo_execution\<lparr>ex_id := ''ex2'', ex_tenant := ''globex''\<rparr>"

text \<open>Two executions of two tenants: a diamond whose b is queued (job j1) and c failed, and a queued x.\<close>

definition demo_two :: db where
  "demo_two = (empty_db demo_supply)\<lparr>executions := [demo_execution, demo_other],
     etasks := [demo_task ''a'' [] TSuccess, demo_task ''b'' [''a''] TQueued, demo_task ''c'' [''a''] TFailed,
        demo_task ''d'' [''b'', ''c''] TFailed, (demo_task ''x'' [] TQueued)\<lparr>et_execution := ''ex2''\<rparr>],
     jobs := queue_run default_settings [(0, OEnqueue (demo_job ''j1'' 0)),
        (0, OEnqueue ((demo_job ''j2'' 0)\<lparr>jb_execution := ''ex2''\<rparr>))] []\<rparr>"

definition demo_actor :: string where
  "demo_actor = ''ops''"

lemma demo_two_rows: "rows_ok demo_two"
  by (simp add: rows_ok_def demo_two_def demo_execution_def demo_other_def demo_task_def)

lemma requests_stay_in_execution_witness:
  "case retry_task default_settings 9 ''acme'' ''ex1'' ''c'' demo_actor demo_two of
     Inl _ \<Rightarrow> False
   | Inr (e, d', _) \<Rightarrow> ex_tenant e = ''acme'' \<and> ex_id e = ''ex1'' \<and> rows_of ''ex2'' d' = rows_of ''ex2'' demo_two"
proof -
  have r: "case retry_task default_settings 9 ''acme'' ''ex1'' ''c'' demo_actor demo_two of Inl _ \<Rightarrow> False | Inr _ \<Rightarrow> True"
    by code_simp
  then obtain e d' sent where t: "retry_task default_settings 9 ''acme'' ''ex1'' ''c'' demo_actor demo_two = Inr (e, d', sent)"
    by (auto split: sum.splits)
  have "\<forall>e d' sent. retry_task default_settings 9 ''acme'' ''ex1'' ''c'' demo_actor demo_two = Inr (e, d', sent) \<longrightarrow>
      ex_tenant e = ''acme'' \<and> ex_id e = ''ex1'' \<and> (\<forall>eid'. eid' \<noteq> ''ex1'' \<longrightarrow> rows_of eid' d' = rows_of eid' demo_two)"
    by (rule conjunct1 [OF requests_stay_in_execution [OF demo_two_rows]])
  with t have "ex_tenant e = ''acme'' \<and> ex_id e = ''ex1'' \<and> (\<forall>eid'. eid' \<noteq> ''ex1'' \<longrightarrow> rows_of eid' d' = rows_of eid' demo_two)"
    by blast
  then show ?thesis unfolding t by simp
qed

lemma demo_two_foreign: "rows_of ''ex2'' demo_two = Some (demo_other, [(demo_task ''x'' [] TQueued)\<lparr>et_execution := ''ex2''\<rparr>])"
  by (simp add: rows_of_def load_session_def demo_two_def demo_other_def demo_execution_def demo_task_def)

lemma foreign_execution_not_found_witness:
  "retry_task default_settings 9 ''acme'' ''ex2'' ''x'' demo_actor demo_two =
     Inl (ApiError 404 ''not_found'' ''Execution not found.'')"
  using foreign_execution_not_found [OF demo_two_foreign, of "''acme''" default_settings 9 demo_actor "''x''" "\<lambda>x. x" init_exec_mem]
  by (simp add: demo_other_def Let_def)

definition demo_mem :: exec_mem where
  "demo_mem = \<lparr>inflight = [(''ex1'', 0)], cancelling = {}, next_handler = 1, signalled = {}\<rparr>"

lemma demo_two_get: "get_execution ''acme'' ''ex1'' demo_two =
    Inr \<lparr>se_exec = demo_execution, se_items = [demo_task ''a'' [] TSuccess, demo_task ''b'' [''a''] TQueued,
      demo_task ''c'' [''a''] TFailed, demo_task ''d'' [''b'', ''c''] TFailed], se_db = demo_two, se_sent = []\<rparr>"
  by (simp add: get_execution_def load_session_def demo_two_def demo_other_def demo_execution_def demo_task_def)

lemma cancel_stops_execution_witness:
  "\<exists>e d' sent mem'. cancel_execution 9 (\<lambda>x. x) ''acme'' ''ex1'' demo_actor demo_mem demo_two = (Inr (e, d', sent), mem') \<and>
     ex_cancel_requested e \<and> 0 \<in> signalled mem' \<and>
     (\<forall>j \<in> set (jobs d'). qj_execution j = ''ex1'' \<longrightarrow> qj_state j \<notin> {QQueued, QLeased})"
proof -
  have "case cancel_execution 9 (\<lambda>x. x) ''acme'' ''ex1'' demo_actor demo_mem demo_two of (Inl _, _) \<Rightarrow> False | (Inr _, _) \<Rightarrow> True"
    by code_simp
  then obtain e d' sent mem' where c: "cancel_execution 9 (\<lambda>x. x) ''acme'' ''ex1'' demo_actor demo_mem demo_two = (Inr (e, d', sent), mem')"
    by (auto split: prod.splits sum.splits)
  have st: "ex_status demo_execution \<notin> TERMINAL_EXECUTION_STATES" by (simp add: demo_execution_def TERMINAL_EXECUTION_STATES_def)
  have h: "(''ex1'', 0) \<in> set (inflight demo_mem)" by (simp add: demo_mem_def)
  from cancel_stops_execution [OF demo_two_rows demo_two_get _ _ c] st h c show ?thesis by auto
qed

text \<open>A worker that started b, and the states from which it finishes.\<close>

definition demo_running :: running where
  "demo_running = \<lparr>rn_exec = demo_execution, rn_item = demo_task ''b'' [''a''] TRunning, rn_job = ''j1'',
     rn_handler = Some 0, rn_early = None\<rparr>"

definition demo_started :: db where
  "demo_started = demo_two\<lparr>etasks := map (\<lambda>i. if et_id i = ''et-b'' then i\<lparr>et_status := TRunning\<rparr> else i) (etasks demo_two),
     jobs := queue_step default_settings (1, OClaim [] ''w1'') (jobs demo_two)\<rparr>"

lemma demo_supply_not_j1: "demo_supply n \<noteq> ''j1''"
  by (simp add: demo_supply_def)

lemma finished_task_releases_job_witness:
  "case finish_task default_settings 20 demo_running (Returned None) demo_mem demo_started of
     (Inr (d', _), _) \<Rightarrow> \<forall>j \<in> set (jobs d'). qj_id j = ''j1'' \<longrightarrow> qj_state j = QCompleted \<or> qj_state j = QCancelled
   | (Inl _, _) \<Rightarrow> False"
proof -
  have "case finish_task default_settings 20 demo_running (Returned None) demo_mem demo_started of (Inl _, _) \<Rightarrow> False | (Inr _, _) \<Rightarrow> True"
    by code_simp
  then obtain d' sent mem' where f: "finish_task default_settings 20 demo_running (Returned None) demo_mem demo_started = (Inr (d', sent), mem')"
    by (auto split: prod.splits sum.splits)
  have "\<forall>n \<ge> uuid_draws demo_started. uuid_supply demo_started n \<noteq> rn_job demo_running"
    by (simp add: demo_started_def demo_two_def demo_running_def empty_db_def demo_supply_not_j1)
  from finished_task_releases_job [OF f this] have "\<forall>j \<in> set (jobs d'). qj_id j = rn_job demo_running \<longrightarrow>
      qj_state j = QCompleted \<or> qj_state j = QCancelled" .
  moreover have "rn_job demo_running = ''j1''" by (simp add: demo_running_def)
  ultimately show ?thesis unfolding f by simp
qed

lemma retry_policy_witness:
  "\<exists>s' i. handle_failure default_settings 30 (demo_task ''b'' [''a''] TRunning) ''j1'' ''boom''
      (demo_session [demo_task ''a'' [] TSuccess, demo_task ''b'' [''a''] TRunning]) = Inr s' \<and>
    i \<in> set (se_items s') \<and> et_retries i = 1 \<and> et_status i = TFailed \<and> et_error i = Some ''boom''"
proof -
  let ?item = "demo_task ''b'' [''a''] TRunning"
  let ?s = "demo_session [demo_task ''a'' [] TSuccess, demo_task ''b'' [''a''] TRunning]"
  have 1: "distinct (map et_id (se_items ?s))" "?item \<in> set (se_items ?s)" "ex_tenant (se_exec ?s) \<noteq> []"
    by (simp_all add: demo_session_def demo_task_def demo_execution_def)
  have 2: "\<not> cf_allow_failure (et_config ?item)" by (simp add: demo_task_def empty_config_def)
  have 3: "et_retries ?item = 0" "get_or (cf_max_retries (et_config ?item)) 0 = 0"
    by (simp_all add: demo_task_def empty_config_def get_or_def)
  from retry_policy [OF 1, of default_settings 30 "''j1''" "''boom''"] 2 show ?thesis unfolding 3 by auto
qed

end
