(* ===== verification/Service.thy ===== *)
theory Service
  imports Execution_Life
begin

text \<open>
  Starting executions, and the execution service as one state machine over the database: every
  state-changing method of the service and of the queue is a command. The lemmas show that the
  table invariant (\<open>service_ok\<close>) holds in every state the service can reach, what a trigger creates,
  and that idempotency keys and quotas do what they promise.
\<close>

section \<open>The rows a new execution starts with\<close>

fun new_tasks :: "uid \<Rightarrow> task_definition list \<Rightarrow> (nat \<Rightarrow> uid) \<Rightarrow> nat \<Rightarrow> task_spec list \<Rightarrow> etask list" where
  "new_tasks eid defs supply n [] = []"
| "new_tasks eid defs supply n (t # ts) =
     \<lparr>et_id = supply n, et_execution = eid,
        et_task = map_option td_id (find (\<lambda>x. td_name x = ts_name t) (rev defs)),
        et_name = ts_name t, et_deps = ts_deps t, et_config = ts_config t, et_status = TPending,
        et_retries = 0, et_started_at = None, et_finished_at = None, et_error = None,
        et_worker = None, et_heartbeat_at = None\<rparr> # new_tasks eid defs supply (Suc n) ts"

lemma insert_etasks:
  "fold (insert_etask eid defs) ts d =
     d\<lparr>etasks := etasks d @ new_tasks eid defs (uuid_supply d) (uuid_draws d) ts,
       uuid_draws := uuid_draws d + length ts\<rparr>"
  by (induction ts arbitrary: d) (simp_all add: insert_etask_def generate_uuid_def)

lemma new_tasks_simps [simp]:
  "length (new_tasks eid defs su n ts) = length ts"
  "map et_name (new_tasks eid defs su n ts) = map ts_name ts"
  "map et_deps (new_tasks eid defs su n ts) = map ts_deps ts"
  "map et_config (new_tasks eid defs su n ts) = map ts_config ts"
  by (induction ts arbitrary: n) simp_all

lemma new_tasks_ids: "map et_id (new_tasks eid defs su n ts) = map su [n..<n + length ts]"
proof (induction ts arbitrary: n)
  case Nil
  then show ?case by simp
next
  case (Cons t ts)
  have "[n..<n + length (t # ts)] = n # [Suc n..<Suc n + length ts]" by (simp add: upt_conv_Cons del: upt_Suc)
  with Cons show ?case by (simp del: upt_Suc)
qed

lemma new_tasks_members:
  "i \<in> set (new_tasks eid defs su n ts) \<Longrightarrow> et_execution i = eid \<and> et_status i = TPending \<and> et_retries i = 0"
  by (induction ts arbitrary: n) auto

definition new_execution :: "time \<Rightarrow> uid \<Rightarrow> workflow \<Rightarrow> wf_document \<Rightarrow> uid option \<Rightarrow> int \<Rightarrow> string \<Rightarrow> string option \<Rightarrow> uid \<Rightarrow> execution" where
  "new_execution now tenant w doc rvid revno actor key eid =
     \<lparr>ex_id = eid, ex_tenant = tenant, ex_workflow = wf_id w, ex_workflow_revision = rvid,
      ex_workflow_name = (if doc_name doc \<noteq> [] then doc_name doc else wf_name w), ex_revision = revno, ex_snapshot = doc,
      ex_status = ERunning, ex_cancel_requested = False, ex_idempotency_key = key, ex_triggered_by = actor,
      ex_created_at = now, ex_updated_at = now, ex_started_at = Some now, ex_finished_at = None\<rparr>"

lemma spawn_rows_tables:
  assumes "spawn_rows now tenant w defs doc rvid revno actor key d = (eid, d1)"
  shows "eid = uuid_supply d (uuid_draws d)"
    and "executions d1 = executions d @ [new_execution now tenant w doc rvid revno actor key eid]"
    and "etasks d1 = etasks d @ new_tasks eid defs (uuid_supply d) (Suc (uuid_draws d)) (doc_tasks doc)"
    and "jobs d1 = jobs d" and "uuid_supply d1 = uuid_supply d"
    and "uuid_draws d1 = uuid_draws d + length (doc_tasks doc) + 3"
    and "outbox d1 \<noteq> []" and "workflows d1 = workflows d"
    and "revisions d1 = revisions d" and "task_defs d1 = task_defs d"
  using assms by (auto simp: spawn_rows_def generate_uuid_def insert_etasks Let_def new_execution_def
      outbox_write_def log_write_def)

lemma drawn_ids_le: "uuid_supply d' = uuid_supply d \<Longrightarrow> uuid_draws d \<le> uuid_draws d' \<Longrightarrow> drawn_ids d \<subseteq> drawn_ids d'"
  by (auto simp: drawn_ids_def)

lemma spawn_rows_ok:
  assumes ok: "service_ok S d" and ten: "tenant \<noteq> []"
    and sp: "spawn_rows now tenant w defs doc rvid revno actor key d = (eid, d1)"
  shows "service_ok S d1" and "eid \<notin> drawn_ids d"
proof -
  note t = spawn_rows_tables [OF sp]
  have inj: "inj (uuid_supply d)" using ok by (simp add: service_ok_def jobs_good_def)
  have sub: "drawn_ids d \<subseteq> drawn_ids d1" using t(5,6) by (intro drawn_ids_le) simp_all
  show fresh: "eid \<notin> drawn_ids d" unfolding t(1) by (rule next_id_fresh [OF inj])
  have eid1: "eid \<in> drawn_ids d1" unfolding t(1) drawn_ids_def using t(5,6) by auto
  let ?new = "new_tasks eid defs (uuid_supply d) (Suc (uuid_draws d)) (doc_tasks doc)"
  have new_ids: "et_id ` set ?new = uuid_supply d ` {Suc (uuid_draws d)..<Suc (uuid_draws d) + length (doc_tasks doc)}"
    using arg_cong [OF new_tasks_ids [of eid defs "uuid_supply d" "Suc (uuid_draws d)" "doc_tasks doc"], of set]
    by (simp only: set_map set_upt)
  have new_drawn: "et_id ` set ?new \<subseteq> drawn_ids d1" unfolding new_ids drawn_ids_def t(5,6) by auto
  have new_fresh: "et_id ` set ?new \<inter> drawn_ids d = {}"
    unfolding new_ids drawn_ids_def using inj by (auto dest: injD)
  have new_dist: "distinct (map et_id ?new)"
    unfolding new_tasks_ids using inj by (simp add: distinct_map inj_on_def inj_def)
  have old: "ex_id ` set (executions d) \<subseteq> drawn_ids d" "et_id ` set (etasks d) \<subseteq> drawn_ids d"
    using ok by (simp_all add: service_ok_def)
  have "et_id ` set (etasks d) \<inter> et_id ` set ?new = {}" using new_fresh old(2) by blast
  moreover have "eid \<notin> ex_id ` set (executions d)" using fresh old(1) by blast
  ultimately have "rows_ok d1"
    using ok new_dist by (simp add: rows_ok_def service_ok_def t(2,3) new_execution_def)
  moreover have "jobs_good S d1"
    using ok sub by (auto simp: service_ok_def jobs_good_def t(4,5))
  moreover have "ex_id ` set (executions d1) \<subseteq> drawn_ids d1" using old sub eid1 by (auto simp: t(2) new_execution_def)
  moreover have "et_id ` set (etasks d1) \<subseteq> drawn_ids d1" using old sub new_drawn by (auto simp: t(3))
  moreover have "et_execution ` set (etasks d1) \<subseteq> ex_id ` set (executions d1)"
  proof -
    have "et_execution ` set ?new \<subseteq> {eid}" using new_tasks_members by (intro image_subsetI) simp
    moreover have "et_execution ` set (etasks d) \<subseteq> ex_id ` set (executions d)" using ok by (simp add: service_ok_def)
    ultimately show ?thesis by (simp add: t(2,3) image_Un new_execution_def) blast
  qed
  moreover have "\<forall>e \<in> set (executions d1). ex_tenant e \<noteq> []"
    using ok ten by (auto simp: service_ok_def t(2) new_execution_def)
  ultimately show "service_ok S d1" by (simp add: service_ok_def)
qed

lemma spawn_rows_load:
  assumes ok: "service_ok S d" and sp: "spawn_rows now tenant w defs doc rvid revno actor key d = (eid, d1)"
  shows "load_session eid d1 = Some \<lparr>se_exec = new_execution now tenant w doc rvid revno actor key eid,
      se_items = new_tasks eid defs (uuid_supply d) (Suc (uuid_draws d)) (doc_tasks doc), se_db = d1, se_sent = []\<rparr>"
    and "eid' \<noteq> eid \<Longrightarrow> rows_of eid' d1 = rows_of eid' d"
proof -
  note t = spawn_rows_tables [OF sp]
  have fresh: "eid \<notin> drawn_ids d" unfolding t(1) using ok by (intro next_id_fresh) (simp add: service_ok_def jobs_good_def)
  have noex: "eid \<notin> ex_id ` set (executions d)" using fresh ok by (auto simp: service_ok_def)
  then have nota: "\<forall>i \<in> set (etasks d). et_execution i \<noteq> eid" using ok by (auto simp: service_ok_def)
  have f: "find (\<lambda>e. ex_id e = eid) (executions d) = None" using noex by (auto simp: find_None_iff)
  show "load_session eid d1 = Some \<lparr>se_exec = new_execution now tenant w doc rvid revno actor key eid,
      se_items = new_tasks eid defs (uuid_supply d) (Suc (uuid_draws d)) (doc_tasks doc), se_db = d1, se_sent = []\<rparr>"
    using nota new_tasks_members
    by (auto simp: load_session_def t(2,3) find_append f new_execution_def filter_empty_conv intro!: filter_True)
  show "rows_of eid' d1 = rows_of eid' d" if "eid' \<noteq> eid"
  proof -
    have "filter (\<lambda>i. et_execution i = eid') (new_tasks eid defs su n ts) = []" for su n ts
      using that new_tasks_members by (auto simp: filter_empty_conv)
    then show ?thesis using that
      by (simp add: rows_of_def load_session_def t(2,3) find_append new_execution_def split: option.splits)
  qed
qed

section \<open>Spawning and triggering\<close>

lemma commit_broadcast [simp]: "commit s (broadcast p s1) = commit s s1"
  by (simp add: commit_def broadcast_def)

lemma se_sent_broadcast [simp]: "se_sent (broadcast p s) = se_sent s @ [(ex_id (se_exec s), p)]"
  by (simp add: broadcast_def)

lemma spawn_cases:
  assumes "spawn S now tenant w doc rvid revno actor key d = Inr (e, d', sent)"
  obtains (created) eid d1 s s1 where "\<not> flush_conflicts tenant key d \<and> \<not> spawn_conflicts doc (workflow_tasks (wf_id w) d)"
      "spawn_rows now tenant w (workflow_tasks (wf_id w) d) doc rvid revno actor key d = (eid, d1)"
      "load_session eid d1 = Some s" "ready_pass S now s = Inr s1" "e = se_exec s1" "d' = commit s s1"
proof -
  have False: "\<not> flush_conflicts tenant key d \<and> \<not> spawn_conflicts doc (workflow_tasks (wf_id w) d)"
    using assms by (auto simp: spawn_def flush_conflicts_def Let_def split: option.splits if_splits)
  obtain eid d1 where sp: "spawn_rows now tenant w (workflow_tasks (wf_id w) d) doc rvid revno actor key d = (eid, d1)"
    by (cases "spawn_rows now tenant w (workflow_tasks (wf_id w) d) doc rvid revno actor key d")
  from assms False sp obtain s where s: "load_session eid d1 = Some s"
    by (auto simp: spawn_def Let_def split: option.splits)
  from assms False sp s obtain s1 where s1: "ready_pass S now s = Inr s1"
    by (auto simp: spawn_def Let_def split: sum.splits)
  from assms False sp s s1 have "e = se_exec s1 \<and> d' = commit s s1" by (simp add: spawn_def Let_def)
  with created [OF False sp s s1] show ?thesis by blast
qed

lemma service_ok_session:
  assumes "service_ok S d" and "load_session eid d = Some s"
  shows "pass_ok s" and "jobs_good S (se_db s)" and "ex_id (se_exec s) = eid" and "se_db s = d"
proof -
  note l = load_session_SomeD [OF assms(2)]
  have "distinct (map et_id (etasks d))" using assms(1) by (simp add: service_ok_def rows_ok_def)
  then have "distinct (map et_id (se_items s))" by (auto simp: l(4) distinct_map inj_on_def)
  moreover have "ex_tenant (se_exec s) \<noteq> []" using assms(1) l(3) by (simp add: service_ok_def)
  ultimately show "pass_ok s" by (simp add: pass_ok_def)
  show "jobs_good S (se_db s)" "ex_id (se_exec s) = eid" "se_db s = d"
    using assms(1) l(2,5) by (simp_all add: service_ok_def)
qed

lemma rows_ok_service: "service_ok S d \<Longrightarrow> rows_ok d"
  by (simp add: service_ok_def)

lemma ready_pass_keeps_ok:
  assumes "service_ok S d" and "load_session eid d = Some s" and "ready_pass S now s = Inr s1"
  shows "service_ok S (commit s s1)"
proof (rule service_ok_commit [OF assms(1)])
  note so = service_ok_session [OF assms(1,2)]
  show "db_frame d (se_db s1)" using ev.ready_pass_I [OF evolves_refl assms(3)] so(4) by (simp add: evolves_def)
  show "jobs_good S (se_db s1)" by (rule jobs_inv.ready_pass_I [OF so(2) assms(3)])
qed

lemma spawn_keeps_ok:
  assumes "service_ok S d" and "tenant \<noteq> []" and "spawn S now tenant w doc rvid revno actor key d = Inr (e, d', sent)"
  shows "service_ok S d'"
  using assms(3)
proof (cases rule: spawn_cases)
  case (created eid d1 s s1)
  from ready_pass_keeps_ok [OF spawn_rows_ok(1) [OF assms(1,2) created(2)] created(3,4)] show ?thesis
    by (simp add: created(6))
qed

text \<open>What a spawned execution is made of, and what the pass after it does.\<close>

definition mirrors :: "wf_document \<Rightarrow> etask list \<Rightarrow> bool" where
  "mirrors doc items \<longleftrightarrow> map et_name items = map ts_name (doc_tasks doc) \<and>
     map et_deps items = map ts_deps (doc_tasks doc) \<and> map et_config items = map ts_config (doc_tasks doc)"

lemma keeps_mirrors: "list_all2 item_keeps xs ys \<Longrightarrow> mirrors doc xs \<Longrightarrow> mirrors doc ys"
proof -
  assume "list_all2 item_keeps xs ys"
  then have "map et_name ys = map et_name xs" "map et_deps ys = map et_deps xs" "map et_config ys = map et_config xs"
    by (induction rule: list_all2_induct) (auto simp: item_keeps_def)
  then show "mirrors doc xs \<Longrightarrow> mirrors doc ys" by (simp add: mirrors_def)
qed

lemma pass_queues_roots:
  assumes "k < length items" and "et_status (items ! k) = TPending" and "et_deps (items ! k) = []"
  shows "et_status (pass now [] items ! k) = TQueued"
proof -
  have "readiness_of xs (items ! k) = Ready" for xs using assms(2,3) by (simp add: readiness_of_alt)
  then show ?thesis unfolding pass_nth [OF assms(1)] by simp
qed

lemma list_all2_job_exists:
  assumes "list_all2 (job_for S now e) qs new" and "i \<in> set qs"
  shows "\<exists>j \<in> set new. job_for S now e i j"
  using assms by (induction rule: list_all2_induct) auto

lemma spawned_rows:
  assumes ok: "service_ok S d" and ten: "tenant \<noteq> []"
    and sp: "spawn_rows now tenant w defs doc rvid revno actor key d = (eid, d1)"
    and load: "load_session eid d1 = Some s" and rp: "ready_pass S now s = Inr s1"
  shows "\<exists>items. rows_of eid (commit s s1) = Some (se_exec s1, items) \<and> mirrors doc items \<and>
      (\<forall>i \<in> set items. et_deps i = [] \<longrightarrow> et_status i = TQueued \<and>
         (\<exists>j \<in> set (jobs (commit s s1)). qj_etask j = et_id i \<and> qj_execution j = eid \<and> qj_state j = QQueued))"
    and "eid' \<noteq> eid \<Longrightarrow> rows_of eid' (commit s s1) = rows_of eid' d"
    and "\<exists>new. jobs (commit s s1) = jobs d @ new \<and> (\<forall>j \<in> set new. qj_execution j = eid)"
    and "exec_keeps (new_execution now tenant w doc rvid revno actor key eid) (se_exec s1)"
proof -
  note ok1 = spawn_rows_ok(1) [OF ok ten sp]
  note so = service_ok_session [OF ok1 load]
  note l = spawn_rows_load [OF ok sp]
  have s: "se_exec s = new_execution now tenant w doc rvid revno actor key eid"
    "se_items s = new_tasks eid defs (uuid_supply d) (Suc (uuid_draws d)) (doc_tasks doc)" "se_db s = d1"
    using load l(1) by auto
  have nc: "\<not> ex_cancel_requested (se_exec s)" by (simp add: s new_execution_def)
  from ready_pass_items [OF so(1) nc, of S now] rp obtain new where
    items: "se_items s1 = pass now [] (se_items s)" and jobs: "jobs (se_db s1) = jobs d1 @ new"
    and new: "list_all2 (job_for S now (se_exec s)) (ready_items now [] (se_items s)) new"
    by (auto simp: s(3))
  note rows = pass_prog.rows_after [OF rows_ok_service [OF ok1] load rp]
  have keeps: "list_all2 item_keeps (se_items s) (se_items s1)" "exec_keeps (se_exec s) (se_exec s1)"
    using ev.ready_pass_I [OF evolves_refl rp] by (simp_all add: evolves_def)
  have mir: "mirrors doc (se_items s1)" by (rule keeps_mirrors [OF keeps(1)]) (simp add: s(2) mirrors_def)
  have root: "et_status i = TQueued \<and> (\<exists>j \<in> set new. qj_etask j = et_id i \<and> qj_execution j = eid \<and> qj_state j = QQueued)"
    if i: "i \<in> set (se_items s1)" "et_deps i = []" for i
  proof -
    from i(1) obtain k where k: "k < length (se_items s)" "i = se_items s1 ! k"
      by (auto simp: in_set_conv_nth items)
    have st: "se_items s ! k \<in> set (se_items s)" using k(1) by simp
    have pend: "et_status (se_items s ! k) = TPending" using st new_tasks_members unfolding s(2) by blast
    have deps: "et_deps (se_items s ! k) = []" "et_id (se_items s ! k) = et_id i"
      using i(2) k by (simp_all add: items pass_nth)
    have q: "et_status i = TQueued" using pass_queues_roots [OF k(1) pend deps(1)] k by (simp add: items)
    have "(se_items s ! k, i) \<in> set (zip (se_items s) (se_items s1))"
      using k by (auto simp: set_zip items)
    then have "se_items s ! k \<in> set (ready_items now [] (se_items s))"
      using pend q by (force simp: ready_items_queued items)
    from list_all2_job_exists [OF new this] q deps show ?thesis
      by (auto simp: job_for_def s(1) new_execution_def)
  qed
  show "\<exists>items. rows_of eid (commit s s1) = Some (se_exec s1, items) \<and> mirrors doc items \<and>
      (\<forall>i \<in> set items. et_deps i = [] \<longrightarrow> et_status i = TQueued \<and>
         (\<exists>j \<in> set (jobs (commit s s1)). qj_etask j = et_id i \<and> qj_execution j = eid \<and> qj_state j = QQueued))"
    using rows(1) mir root jobs by (intro exI [of _ "se_items s1"]) auto
  show "rows_of eid' (commit s s1) = rows_of eid' d" if "eid' \<noteq> eid"
    using rows(2) [OF that] l(2) [OF that] by simp
  have "\<forall>j \<in> set new. qj_execution j = eid"
    using new by (auto simp: list_all2_conv_all_nth in_set_conv_nth job_for_def s(1) new_execution_def)
  then show "\<exists>new. jobs (commit s s1) = jobs d @ new \<and> (\<forall>j \<in> set new. qj_execution j = eid)"
    using jobs spawn_rows_tables(4) [OF sp] by auto
  show "exec_keeps (new_execution now tenant w doc rvid revno actor key eid) (se_exec s1)" using keeps(2) by (simp add: s(1))
qed

lemma spawn_executions:
  assumes ok: "service_ok S d" and ten: "tenant \<noteq> []"
    and sp: "spawn_rows now tenant w defs doc rvid revno actor key d = (eid, d1)"
    and load: "load_session eid d1 = Some s" and rp: "ready_pass S now s = Inr s1"
  shows "executions (commit s s1) = executions d @ [se_exec s1]" and "eid \<notin> ex_id ` set (executions d)"
    and "ex_id (se_exec s1) = eid"
proof -
  note l = spawn_rows_load [OF ok sp]
  have s: "se_exec s = new_execution now tenant w doc rvid revno actor key eid" "se_db s = d1" using load l(1) by auto
  have ev: "exec_keeps (se_exec s) (se_exec s1)" "db_frame (se_db s) (se_db s1)"
    using ev.ready_pass_I [OF evolves_refl rp] by (simp_all add: evolves_def)
  show id1: "ex_id (se_exec s1) = eid" using ev(1) by (simp add: exec_keeps_def s new_execution_def)
  show fresh: "eid \<notin> ex_id ` set (executions d)"
    using spawn_rows_ok(2) [OF ok ten sp] ok by (auto simp: service_ok_def)
  then have none: "\<forall>r \<in> set (executions d). ex_id r \<noteq> eid" by auto
  have "executions (se_db s1) = executions d @ [se_exec s]"
    using ev(2) spawn_rows_tables(2) [OF sp] by (simp add: db_frame_def s)
  moreover have "ex_id (se_exec s) = eid" by (simp add: s new_execution_def)
  ultimately show "executions (commit s s1) = executions d @ [se_exec s1]"
    using none by (simp add: commit_def Let_def id1 merge_execution_base [OF ev(1)])
qed

text \<open>What \<open>trigger_workflow\<close> takes a new execution's document from.\<close>

definition current_document :: "workflow \<Rightarrow> db \<Rightarrow> wf_document \<times> uid option \<times> int" where
  "current_document w d =
     (case latest_revision (sort_key rv_revision (filter (\<lambda>r. rv_workflow r = wf_id w) (revisions d))) of
        Some r \<Rightarrow> (rv_document r, Some (rv_id r), rv_revision r)
      | None \<Rightarrow> (document_from_tasks w d, None, wf_current_revision w))"

definition seen_key :: "uid \<Rightarrow> string option \<Rightarrow> db \<Rightarrow> execution option" where
  "seen_key tenant key d = (case key of None \<Rightarrow> None | Some k \<Rightarrow> if k = [] then None else execution_with_key tenant k d)"

lemma trigger_cases:
  assumes "trigger_workflow S now tenant wid actor key d = Inr (e, d', sent)"
  obtains (existing) "seen_key tenant key d = Some e" "d' = d" "sent = []"
  | (created) w doc rvid revno where "seen_key tenant key d = None" "w \<in> set (workflows d)" "wf_id w = wid" "wf_tenant w = tenant"
      "\<not> wf_is_archived w" "active_executions tenant d < max_concurrent_executions_per_tenant S"
      "current_document w d = (doc, rvid, revno)" "spawn S now tenant w doc rvid revno actor key d = Inr (e, d', sent)"
proof (cases "seen_key tenant key d")
  case (Some e0)
  with assms existing show ?thesis by (simp add: trigger_workflow_def seen_key_def)
next
  case None
  with assms obtain w where w: "find (\<lambda>w. wf_id w = wid \<and> wf_tenant w = tenant \<and> \<not> wf_is_archived w) (workflows d) = Some w"
    by (auto simp: trigger_workflow_def seen_key_def split: option.splits)
  note wd = find_SomeD [OF w]
  obtain doc rvid revno where cd: "current_document w d = (doc, rvid, revno)" by (cases "current_document w d") auto
  from assms None w wd cd show ?thesis
    by (intro created [of w doc rvid revno])
      (auto simp: trigger_workflow_def seen_key_def current_document_def split: option.splits if_splits)
qed

lemma map_triple: "map (\<lambda>x. (f x, g x, h x)) xs = zip (map f xs) (zip (map g xs) (map h xs))"
  by (induction xs) simp_all

text \<open>C6. A trigger that is not a repetition starts one new execution of the caller's unarchived workflow: a
  fresh identifier, the latest revision's document as its snapshot, one task per task of the document
  in the same order, every task without dependencies queued with a job, and no other execution changed.\<close>

theorem trigger_starts_execution:
  assumes "service_ok S d" and "tenant \<noteq> []" and "seen_key tenant key d = None"
    and "trigger_workflow S now tenant wid actor key d = Inr (e, d', sent)"
    and "case key of None \<Rightarrow> True | Some k \<Rightarrow> k \<noteq> []"
  shows "\<exists>w \<in> set (workflows d). \<exists>items. wf_id w = wid \<and> wf_tenant w = tenant \<and> \<not> wf_is_archived w \<and>
    ex_id e \<notin> ex_id ` set (executions d) \<and> ex_tenant e = tenant \<and> ex_workflow e = wid \<and>
    (ex_snapshot e, ex_workflow_revision e, ex_revision e) = current_document w d \<and> ex_idempotency_key e = key \<and>
    rows_of (ex_id e) d' = Some (e, items) \<and>
    map (\<lambda>i. (et_name i, et_deps i, et_config i)) items =
      map (\<lambda>t. (ts_name t, ts_deps t, ts_config t)) (doc_tasks (ex_snapshot e)) \<and>
    (\<forall>i \<in> set items. et_deps i = [] \<longrightarrow> et_status i = TQueued \<and>
       (\<exists>j \<in> set (jobs d'). qj_etask j = et_id i \<and> qj_execution j = ex_id e \<and> qj_state j = QQueued)) \<and>
    (\<forall>eid'. eid' \<noteq> ex_id e \<longrightarrow> rows_of eid' d' = rows_of eid' d)"
  using assms(4)
proof (cases rule: trigger_cases)
  case existing
  with assms(3) show ?thesis by simp
next
  case (created w doc rvid revno)
  from created(8) show ?thesis
  proof (cases rule: spawn_cases)
    case sp: (created eid d1 s s1)
    note rows = spawned_rows [OF assms(1,2) sp(2,3,4)]
    note ex = spawn_executions [OF assms(1,2) sp(2,3,4)]
    from rows(1) obtain items where items: "rows_of eid d' = Some (e, items)" "mirrors doc items"
      "\<forall>i \<in> set items. et_deps i = [] \<longrightarrow> et_status i = TQueued \<and>
         (\<exists>j \<in> set (jobs d'). qj_etask j = et_id i \<and> qj_execution j = eid \<and> qj_state j = QQueued)"
      unfolding sp(5) [symmetric] sp(6) [symmetric] by blast
    have eid: "ex_id e = eid" using ex(3) by (simp add: sp(5))
    have static: "ex_tenant e = tenant" "ex_workflow e = wid" "ex_snapshot e = doc" "ex_workflow_revision e = rvid"
      "ex_revision e = revno" "ex_idempotency_key e = key"
      using rows(4) created(3) by (simp_all add: exec_keeps_def new_execution_def sp(5))
    have "map (\<lambda>i. (et_name i, et_deps i, et_config i)) items = map (\<lambda>t. (ts_name t, ts_deps t, ts_config t)) (doc_tasks doc)"
      using items(2) unfolding mirrors_def map_triple by simp
    with created(2-5,7) items ex(2) static eid rows(2) show ?thesis
      by (intro bexI [of _ w] exI [of _ items]) (auto simp: sp(6))
  qed
qed

lemma key_after_spawn:
  assumes ok: "service_ok S d" and ten: "tenant \<noteq> []" and none: "execution_with_key tenant k d = None"
    and sp: "spawn_rows now tenant w defs doc rvid revno actor (Some k) d = (eid, d1)"
    and load: "load_session eid d1 = Some s" and rp: "ready_pass S now s = Inr s1"
  shows "execution_with_key tenant k (commit s s1) = Some (se_exec s1)"
proof -
  have "ex_tenant (se_exec s1) = tenant" "ex_idempotency_key (se_exec s1) = Some k"
    using spawned_rows(4) [OF ok ten sp load rp] by (simp_all add: exec_keeps_def new_execution_def)
  with none show ?thesis
    by (simp add: execution_with_key_def spawn_executions(1) [OF ok ten sp load rp] find_append)
qed

text \<open>C7. An idempotency key names one execution: a trigger with a new key leaves one execution of the tenant with
  that key, the answered one, and a trigger with a known key leaves those that had it; every further trigger of the tenant with that key answers with the same
  execution and changes nothing, and a request that had passed the first check before and reaches the
  flush only now creates nothing either: the flush raises the violation of the unique key, which the
  handler around the commit does not see.\<close>

theorem trigger_idempotent:
  assumes "service_ok S d" and "tenant \<noteq> []" and "k \<noteq> []"
    and "trigger_workflow S now tenant wid actor (Some k) d = Inr (e, d', sent)"
  shows "filter (\<lambda>x. ex_tenant x = tenant \<and> ex_idempotency_key x = Some k) (executions d') =
      (if execution_with_key tenant k d = None then [e]
       else filter (\<lambda>x. ex_tenant x = tenant \<and> ex_idempotency_key x = Some k) (executions d)) \<and>
    trigger_workflow S' now' tenant wid' actor' (Some k) d' = Inr (e, d', []) \<and>
    spawn S' now' tenant w' doc' rvid' revno' actor' (Some k) d' = Inl IntegrityError"
proof -
  have "execution_with_key tenant k d' = Some e \<and>
      filter (\<lambda>x. ex_tenant x = tenant \<and> ex_idempotency_key x = Some k) (executions d') =
      (if execution_with_key tenant k d = None then [e]
       else filter (\<lambda>x. ex_tenant x = tenant \<and> ex_idempotency_key x = Some k) (executions d))"
    using assms(4)
  proof (cases rule: trigger_cases)
    case existing
    with assms(3) show ?thesis by (simp add: seen_key_def)
  next
    case (created w doc rvid revno)
    have none: "execution_with_key tenant k d = None" using created(1) assms(3) by (simp add: seen_key_def)
    from created(8) show ?thesis
    proof (cases rule: spawn_cases)
      case sp: (created eid d1 s s1)
      note x = spawn_executions(1) [OF assms(1,2) sp(2,3,4)]
      have "filter (\<lambda>x. ex_tenant x = tenant \<and> ex_idempotency_key x = Some k) (executions d) = []"
        using none by (auto simp: execution_with_key_def find_None_iff filter_empty_conv)
      moreover have "ex_tenant e = tenant \<and> ex_idempotency_key e = Some k"
        using spawned_rows(4) [OF assms(1,2) sp(2,3,4)] by (simp add: exec_keeps_def new_execution_def sp(5))
      ultimately show ?thesis using key_after_spawn [OF assms(1,2) none sp(2,3,4)] none x by (simp add: sp(5,6))
    qed
  qed
  then show ?thesis using assms(3) by (simp add: trigger_workflow_def spawn_def flush_conflicts_def Let_def)
qed

text \<open>Triggering never takes a tenant beyond its quota of pending and running executions, leaves other
  tenants' counts alone, and refuses with 429 when the quota is used up.\<close>

theorem trigger_respects_quota:
  assumes "service_ok S d" and "tenant \<noteq> []"
  shows "(\<forall>e d' sent. trigger_workflow S now tenant wid actor key d = Inr (e, d', sent) \<longrightarrow>
      active_executions tenant d' \<le> max (active_executions tenant d) (max_concurrent_executions_per_tenant S) \<and>
      (\<forall>t. t \<noteq> tenant \<longrightarrow> active_executions t d' = active_executions t d)) \<and>
    (max_concurrent_executions_per_tenant S \<le> active_executions tenant d \<and> seen_key tenant key d = None \<and>
      (\<exists>w \<in> set (workflows d). wf_id w = wid \<and> wf_tenant w = tenant \<and> \<not> wf_is_archived w) \<longrightarrow>
      trigger_workflow S now tenant wid actor key d =
        Inl (ApiError 429 ''quota_exceeded'' ''Concurrent execution quota reached for this tenant.''))"
proof (intro conjI allI impI)
  fix e d' sent
  assume t: "trigger_workflow S now tenant wid actor key d = Inr (e, d', sent)"
  have "active_executions t d' = active_executions t d \<or>
     (t = tenant \<and> active_executions t d' \<le> active_executions t d + 1 \<and>
       active_executions tenant d < max_concurrent_executions_per_tenant S)" for t
    using t
  proof (cases rule: trigger_cases)
    case existing
    then show ?thesis by simp
  next
    case (created w doc rvid revno)
    from created(8) show ?thesis
    proof (cases rule: spawn_cases)
      case sp: (created eid d1 s s1)
      have "ex_tenant (se_exec s1) = tenant"
        using spawned_rows(4) [OF assms sp(2,3,4)] by (simp add: exec_keeps_def new_execution_def)
      with created(6) show ?thesis
        by (auto simp: active_executions_def sp(6) spawn_executions(1) [OF assms sp(2,3,4)])
    qed
  qed
  from this [of tenant] this show "active_executions tenant d' \<le> max (active_executions tenant d) (max_concurrent_executions_per_tenant S)"
    and "\<And>t. t \<noteq> tenant \<Longrightarrow> active_executions t d' = active_executions t d" by auto
next
  assume a: "max_concurrent_executions_per_tenant S \<le> active_executions tenant d \<and> seen_key tenant key d = None \<and>
      (\<exists>w \<in> set (workflows d). wf_id w = wid \<and> wf_tenant w = tenant \<and> \<not> wf_is_archived w)"
  then have "find (\<lambda>w. wf_id w = wid \<and> wf_tenant w = tenant \<and> \<not> wf_is_archived w) (workflows d) \<noteq> None"
    by (auto simp: find_None_iff)
  with a show "trigger_workflow S now tenant wid actor key d =
      Inl (ApiError 429 ''quota_exceeded'' ''Concurrent execution quota reached for this tenant.'')"
    by (auto simp: trigger_workflow_def seen_key_def split: option.splits)
qed

section \<open>The service as a state machine\<close>

text \<open>
  The state-changing methods as commands on the database and the process state. A method that raises
  leaves the database as it was (its transaction is rolled back). \<open>SQueue\<close> are the queue's own
  methods; jobs are enqueued only by the service.
\<close>

datatype service_op =
    STrigger uid uid string "string option"
  | SRetryExecution uid uid string
  | SCancel uid uid string
  | SRetryTask uid uid string string
  | SSkipTask uid uid string string
  | SExecute uid string uid
  | SFinish running outcome
  | SDeadLetter dead_letter
  | SEnqueueReady uid
  | SFinalize uid
  | SQueue queue_op

definition db_of :: "exec_result \<Rightarrow> db \<Rightarrow> db" where
  "db_of r d = (case r of Inl _ \<Rightarrow> d | Inr (_, d', _) \<Rightarrow> d')"

fun service_step :: "settings \<Rightarrow> time \<times> service_op \<Rightarrow> db \<times> exec_mem \<Rightarrow> db \<times> exec_mem" where
  "service_step S (now, STrigger tenant wid actor key) (d, mem) = (db_of (trigger_workflow S now tenant wid actor key d) d, mem)"
| "service_step S (now, SRetryExecution tenant eid actor) (d, mem) = (db_of (retry_execution S now tenant eid actor d) d, mem)"
| "service_step S (now, SCancel tenant eid actor) (d, mem) =
     (case cancel_execution now (\<lambda>x. x) tenant eid actor mem d of (r, mem') \<Rightarrow> (db_of r d, mem'))"
| "service_step S (now, SRetryTask tenant eid ident actor) (d, mem) = (db_of (retry_task S now tenant eid ident actor d) d, mem)"
| "service_step S (now, SSkipTask tenant eid ident actor) (d, mem) = (db_of (skip_task S now tenant eid ident actor d) d, mem)"
| "service_step S (now, SExecute etid worker jid) (d, mem) =
     (case execute_task now etid worker jid mem d of Inl _ \<Rightarrow> (d, mem) | Inr (d', mem', _, _) \<Rightarrow> (d', mem'))"
| "service_step S (now, SFinish r out) (d, mem) =
     (case finish_task S now r out mem d of (Inl _, mem') \<Rightarrow> (d, mem') | (Inr (d', _), mem') \<Rightarrow> (d', mem'))"
| "service_step S (now, SDeadLetter dl) (d, mem) = (fst (handle_dead_letter now dl d), mem)"
| "service_step S (now, SEnqueueReady eid) (d, mem) =
     (case enqueue_ready_tasks S now eid d of Inl _ \<Rightarrow> (d, mem) | Inr (d', _) \<Rightarrow> (d', mem))"
| "service_step S (now, SFinalize eid) (d, mem) = (fst (finalize_execution now eid d), mem)"
| "service_step S (now, SQueue oper) (d, mem) = (d\<lparr>jobs := queue_step S (now, oper) (jobs d)\<rparr>, mem)"

text \<open>What callers provide: a tenant identifier, and no bare enqueue.\<close>

fun service_allowed :: "time \<times> service_op \<Rightarrow> db \<times> exec_mem \<Rightarrow> bool" where
  "service_allowed (now, STrigger tenant wid actor key) st \<longleftrightarrow> tenant \<noteq> []"
| "service_allowed (now, SQueue (OEnqueue j)) st \<longleftrightarrow> False"
| "service_allowed _ st \<longleftrightarrow> True"

lemma queue_step_ids:
  assumes "\<And>j. oper \<noteq> OEnqueue j"
  shows "map qj_id (queue_step S (n, oper) rows) = map qj_id rows"
proof (cases oper)
  case (OEnqueue j)
  then show ?thesis using assms [of j] by simp
next
  case (OReplay tenant jid)
  then show ?thesis by (simp add: replay_rows map_upd_where replay_row_def)
next
  case (OResolve tenant jid)
  then show ?thesis by (simp add: resolve_rows map_upd_where resolve_row_def)
qed (simp_all add: claim_rows claim_update_rows map_upd_where renew_lease_def Let_def ack_rows.oper_keys
      stopped_rows.oper_keys skipped_rows.oper_keys reaped_rows.oper_keys split: option.splits)

lemma service_ok_same_rows:
  assumes ok: "service_ok S d" and fr: "db_frame d d'" and jg: "jobs_good S d'"
  shows "service_ok S d'"
proof -
  from ok drawn_ids_mono [OF fr] have "ex_id ` set (executions d) \<subseteq> drawn_ids d'"
    "et_id ` set (etasks d) \<subseteq> drawn_ids d'" unfolding service_ok_def by blast+
  with ok fr jg show ?thesis by (simp add: service_ok_def rows_ok_def db_frame_def)
qed

lemma service_ok_jobs:
  assumes "service_ok S d" and "\<And>j. oper \<noteq> OEnqueue j"
  shows "service_ok S (d\<lparr>jobs := queue_step S (n, oper) (jobs d)\<rparr>)"
proof (rule service_ok_same_rows [OF assms(1)])
  show "jobs_good S (d\<lparr>jobs := queue_step S (n, oper) (jobs d)\<rparr>)"
  proof (rule jobs_good_step [where d = d and n = n and oper = oper])
    show "qj_id ` set (jobs (d\<lparr>jobs := queue_step S (n, oper) (jobs d)\<rparr>)) \<subseteq> qj_id ` set (jobs d)"
      using arg_cong [OF queue_step_ids [OF assms(2), of S n "jobs d"], of set] by (simp add: image_def)
  qed (use assms in \<open>simp_all add: service_ok_def\<close>)
qed simp

text \<open>A session program that evolves its session and keeps the jobs good keeps the invariant.\<close>

lemma session_keeps_ok:
  assumes "service_ok S d" and "load_session eid d = Some s" and "evolves s s1" and "jobs_good S (se_db s1)"
  shows "service_ok S (commit s s1)"
proof (rule service_ok_commit [OF assms(1) _ assms(4)])
  show "db_frame d (se_db s1)" using assms(3) service_ok_session(4) [OF assms(1,2)] by (simp add: evolves_def)
qed

lemma trigger_keeps_ok:
  assumes "service_ok S d" and "tenant \<noteq> []" and "trigger_workflow S now tenant wid actor key d = Inr (e, d', sent)"
  shows "service_ok S d'"
  using assms(3) by (cases rule: trigger_cases) (use assms(1) spawn_keeps_ok [OF assms(1,2)] in auto)

lemma retry_execution_keeps_ok:
  assumes ok: "service_ok S d" and r: "retry_execution S now tenant eid actor d = Inr (e, d', sent)"
  shows "service_ok S d'"
proof -
  from r obtain s where g: "get_execution tenant eid d = Inr s" by (auto simp: retry_execution_def split: sum.splits)
  have ten: "tenant \<noteq> []"
    using get_execution_InrD [OF g] service_ok_session(1) [OF ok] by (auto simp: pass_ok_def)
  from r g obtain w e1 d1 m where "spawn S now tenant w (ex_snapshot (se_exec s)) None (ex_revision (se_exec s)) actor None d = Inr (e1, d1, sent)"
    and d': "d' = log_write now (ex_id e1) m ''INFO'' None d1"
    by (auto simp: retry_execution_def split: sum.splits if_splits option.splits)
  from spawn_keeps_ok [OF ok ten this(1)] have ok1: "service_ok S d1" .
  show ?thesis unfolding d'
    by (rule service_ok_same_rows [OF ok1]) (use ok1 in \<open>auto simp: service_ok_def intro: jobs_good_same\<close>)
qed

lemma service_step_ok:
  assumes ok: "service_ok S (fst st)" and al: "service_allowed c st"
  shows "service_ok S (fst (service_step S c st))"
proof -
  obtain now oper d mem where c: "c = (now, oper)" and st: "st = (d, mem)" by (cases c; cases st) auto
  from ok st have d: "service_ok S d" by simp
  note sess = service_ok_session(2) [OF d]
  show ?thesis
  proof (cases oper)
    case (STrigger tenant wid actor key)
    with al d show ?thesis
      by (auto simp: c st db_of_def split: sum.splits dest: trigger_keeps_ok)
  next
    case (SRetryExecution tenant eid actor)
    with d show ?thesis by (auto simp: c st db_of_def split: sum.splits dest: retry_execution_keeps_ok)
  next
    case (SCancel tenant eid actor)
    have "service_ok S d'" if "cancel_execution now (\<lambda>x. x) tenant eid actor mem d = (Inr (e, d', sent), mem')" for e d' sent mem'
    proof -
      from that obtain s where g: "get_execution tenant eid d = Inr s" by (auto simp: cancel_execution_def split: sum.splits)
      have "service_ok S (commit s (cancel_mark now actor s))"
        using session_keeps_ok [OF d get_execution_InrD(1) [OF g] ev.cancel_mark_I [OF evolves_refl]
            jobs_inv.cancel_mark_I [OF sess [OF get_execution_InrD(1) [OF g]]]] .
      moreover have "d' = d \<or> d' = commit s (cancel_mark now actor s)"
        using that g by (auto simp: cancel_execution_def Let_def split: if_splits prod.splits sum.splits)
      ultimately show ?thesis using d by auto
    qed
    with d SCancel show ?thesis by (auto simp: c st db_of_def split: sum.splits prod.splits)
  next
    case (SRetryTask tenant eid ident actor)
    have "service_ok S d'" if "retry_task S now tenant eid ident actor d = Inr (e, d', sent)" for e d' sent
      using retry_task_InrD [OF that] get_execution_InrD(1)
        session_keeps_ok [OF d _ ev.retry_task_I [OF evolves_refl] jobs_inv.retry_task_I [OF sess]] by blast
    with d SRetryTask show ?thesis by (auto simp: c st db_of_def split: sum.splits)
  next
    case (SSkipTask tenant eid ident actor)
    have "service_ok S d'" if "skip_task S now tenant eid ident actor d = Inr (e, d', sent)" for e d' sent
      using skip_task_InrD [OF that] get_execution_InrD(1)
        session_keeps_ok [OF d _ ev.skip_task_I [OF evolves_refl] jobs_inv.skip_task_I [OF sess]] by blast
    with d SSkipTask show ?thesis by (auto simp: c st db_of_def split: sum.splits)
  next
    case (SExecute etid worker jid)
    have ack: "service_ok S (d\<lparr>jobs := acknowledge now jid (jobs d)\<rparr>)"
      using service_ok_jobs [OF d, of "OAcknowledge jid" now] by simp
    have "service_ok S d'" if "execute_task now etid worker jid mem d = Inr (d', mem', r, sent)" for d' mem' r sent
    proof -
      have "d' = d\<lparr>jobs := acknowledge now jid (jobs d)\<rparr> \<or>
          (\<exists>s item eid. load_session eid d = Some s \<and> d' = commit s (fst (run_task_start now worker jid item mem s)))"
        using that unfolding execute_task_def
        by (auto split: option.splits if_splits prod.splits) (metis fst_conv)+
      with ack session_keeps_ok [OF d _ ev.run_task_start_I [OF evolves_refl] jobs_inv.run_task_start_I [OF sess]]
      show ?thesis by blast
    qed
    with d SExecute show ?thesis by (auto simp: c st split: sum.splits)
  next
    case (SFinish r out)
    have "service_ok S d'" if "finish_task S now r out mem d = (Inr (d', sent), mem')" for d' sent mem'
    proof -
      from that obtain s' m where s': "run_task_finish S now r out mem (resume_session r d) = (Inr s', m)"
        and d': "d' = commit (resume_session r d) s'"
        by (auto simp: finish_task_def Let_def split: prod.splits sum.splits)
      have db: "se_db (resume_session r d) = d" by (simp add: resume_session_def)
      show ?thesis unfolding d'
      proof (rule service_ok_commit [OF d])
        show "db_frame d (se_db s')" using ev.run_task_finish_I [OF evolves_refl s'] by (simp add: evolves_def db)
        show "jobs_good S (se_db s')"
          by (rule jobs_inv.run_task_finish_I [OF _ s']) (use d in \<open>simp add: db service_ok_def\<close>)
      qed
    qed
    with d SFinish show ?thesis by (auto simp: c st split: sum.splits prod.splits)
  next
    case (SDeadLetter dl)
    then show ?thesis
      using d session_keeps_ok [OF d _ ev.dead_letter_I [OF evolves_refl] jobs_inv.dead_letter_I [OF sess]]
      by (auto simp: c st handle_dead_letter_def Let_def split: option.splits)
  next
    case (SEnqueueReady eid)
    then show ?thesis
      using d ready_pass_keeps_ok [OF d] by (auto simp: c st enqueue_ready_tasks_def split: option.splits sum.splits)
  next
    case (SFinalize eid)
    then show ?thesis
      using d session_keeps_ok [OF d _ ev.finalize_I [OF evolves_refl] jobs_inv.finalize_I [OF sess]]
      by (auto simp: c st finalize_execution_def Let_def split: option.splits)
  next
    case (SQueue qop)
    with al have "\<And>j. qop \<noteq> OEnqueue j" by (auto simp: c)
    from service_ok_jobs [OF d this] SQueue show ?thesis by (simp add: c st)
  qed
qed

interpretation sv: command_machine "service_step S" "\<lambda>st. service_ok S (fst st)" service_allowed for S
  by unfold_locales (rule service_step_ok)


definition fresh_service :: "settings \<Rightarrow> db \<Rightarrow> bool" where
  "fresh_service S d \<longleftrightarrow> executions d = [] \<and> etasks d = [] \<and> jobs d = [] \<and> inj (uuid_supply d) \<and>
     1 \<le> queue_poison_max_attempts S"

lemma fresh_service_ok: "fresh_service S d \<Longrightarrow> service_ok S d"
  by (simp add: fresh_service_def service_ok_def rows_ok_def jobs_good_def queue_ok_def)

text \<open>C1. Whatever sequence of requests, task runs, watchdog reports and queue operations is made, in any order
  and at any times, starting from a service without executions: execution, task and job identifiers
  stay unique, every task belongs to an execution of a tenant, every job is in a consistent state
  (a lease exactly while leased, dead letters only failed, attempts within the limit).\<close>

theorem service_reachable_ok:
  assumes "fresh_service S d0" and "sv.reaches S (d0, init_exec_mem) (d, mem)"
  shows "distinct (map ex_id (executions d)) \<and> distinct (map et_id (etasks d)) \<and>
    distinct (map qj_id (jobs d)) \<and> (\<forall>j \<in> set (jobs d). job_ok j) \<and>
    (\<forall>i \<in> set (etasks d). \<exists>e \<in> set (executions d). ex_id e = et_execution i \<and> ex_tenant e \<noteq> [])"
proof (intro conjI)
  have "service_ok S d" using sv.reaches_good [OF assms(2)] fresh_service_ok [OF assms(1)] by simp
  then have ok: "rows_ok d" "queue_ok (jobs d)" "et_execution ` set (etasks d) \<subseteq> ex_id ` set (executions d)"
    "\<forall>e \<in> set (executions d). ex_tenant e \<noteq> []" by (simp_all add: service_ok_def jobs_good_def)
  then show "distinct (map ex_id (executions d))" "distinct (map et_id (etasks d))"
    "distinct (map qj_id (jobs d))" "\<forall>j \<in> set (jobs d). job_ok j"
    by (simp_all add: rows_ok_def queue_ok_def)
  show "\<forall>i \<in> set (etasks d). \<exists>e \<in> set (executions d). ex_id e = et_execution i \<and> ex_tenant e \<noteq> []"
  proof
    fix i
    assume "i \<in> set (etasks d)"
    then have "et_execution i \<in> ex_id ` set (executions d)" using ok(3) by blast
    with ok(4) show "\<exists>e \<in> set (executions d). ex_id e = et_execution i \<and> ex_tenant e \<noteq> []" by auto
  qed
qed


section \<open>A validated workflow makes progress\<close>

text \<open>A non-empty well-formed document has a task without dependencies.\<close>

lemma well_formed_root:
  assumes "well_formed_dag ts" and "ts \<noteq> []"
  shows "\<exists>t \<in> set ts. ts_deps t = []"
proof -
  have fin: "finite (edges ts)"
  proof (rule finite_subset)
    show "edges ts \<subseteq> (\<Union>t \<in> set ts. set (ts_deps t)) \<times> ts_name ` set ts" by (auto simp: edges_def)
  qed simp
  from assms(1) have "acyclic (edges ts)" by (simp add: well_formed_dag_def)
  with fin have "wf (edges ts)" by (rule finite_acyclic_wf)
  moreover from assms(2) have "ts_name (hd ts) \<in> ts_name ` set ts" by simp
  ultimately obtain n where n: "n \<in> ts_name ` set ts" "\<forall>m. (m, n) \<in> edges ts \<longrightarrow> m \<notin> ts_name ` set ts"
    by (meson wfE_min)
  then obtain t where t: "t \<in> set ts" "ts_name t = n" by auto
  have "d \<notin> set (ts_deps t)" for d
  proof
    assume d: "d \<in> set (ts_deps t)"
    with t have "(d, n) \<in> edges ts" by (auto simp: edges_def)
    moreover have "d \<in> ts_name ` set ts" using assms(1) t(1) d by (auto simp: well_formed_dag_def)
    ultimately show False using n(2) by blast
  qed
  then have "set (ts_deps t) = {}" using equals0I [of "set (ts_deps t)"] by metis
  then have "ts_deps t = []" by simp
  with t(1) show ?thesis by blast
qed

lemma readiness_when_open:
  assumes "et_status x = TPending" and "set (et_deps x) \<subseteq> et_name ` set items"
    and "\<forall>i \<in> set items. et_status i \<in> {TPending, TQueued}"
  shows "readiness_of items x \<in> {Ready, Waiting}"
proof -
  have "dep_status items n \<in> {Some TPending, Some TQueued}" if "n \<in> set (et_deps x)" for n
  proof -
    from assms(2) that have "n \<in> et_name ` set items" by (rule subsetD)
    then obtain i where "i \<in> set items" "et_name i = n" by (elim imageE) simp
    then have "item_named items n \<noteq> None" by (auto simp: item_named_def find_None_iff)
    then obtain i where "item_named items n = Some i" by auto
    with item_named_SomeD [OF this] assms(3) show ?thesis by (auto simp: dep_status_def)
  qed
  then have "\<forall>n \<in> set (et_deps x). dep_status items n = Some TPending \<or> dep_status items n = Some TQueued" by blast
  then have "\<not> (\<exists>n \<in> set (et_deps x). dep_status items n = None)" "\<not> (\<exists>n \<in> set (et_deps x). dep_status items n = Some TFailed)"
    "\<not> (\<exists>n \<in> set (et_deps x). dep_status items n = Some TCancelled)" by auto
  then show ?thesis using assms(1) by (simp only: readiness_of_alt if_False not_not if_cancel simp_thms) simp
qed

lemma pass_fresh:
  assumes "\<forall>i \<in> set items. et_status i = TPending" and "\<forall>i \<in> set items. set (et_deps i) \<subseteq> et_name ` set items"
  shows "\<forall>i \<in> set (pass now [] items). et_status i \<in> {TPending, TQueued}"
proof -
  have "k < length items \<Longrightarrow> et_status (pass now [] items ! k) \<in> {TPending, TQueued}" for k
  proof (induction k rule: less_induct)
    case (less k)
    let ?turn = "take k (pass now [] items) @ drop k items"
    have "map et_name ?turn = map et_name items" using names_turn less.prems by simp
    then have names: "et_name ` set ?turn = et_name ` set items" by (metis set_map)
    have open_turn: "\<forall>i \<in> set ?turn. et_status i \<in> {TPending, TQueued}"
    proof
      fix i
      assume "i \<in> set ?turn"
      then consider "i \<in> set (take k (pass now [] items))" | "i \<in> set items" by (auto dest: in_set_dropD)
      then show "et_status i \<in> {TPending, TQueued}"
      proof cases
        case 1
        then obtain m where "m < k" "m < length items" "i = pass now [] items ! m" by (auto simp: in_set_conv_nth)
        with less.IH show ?thesis by blast
      next
        case 2
        with assms(1) show ?thesis by simp
      qed
    qed
    have item: "items ! k \<in> set items" using less.prems by simp
    have "readiness_of ?turn (items ! k) \<in> {Ready, Waiting}"
      by (rule readiness_when_open [OF _ _ open_turn]) (use assms item names in auto)
    then show ?case unfolding pass_nth [OF less.prems] using assms(1) item by auto
  qed
  then show ?thesis by (metis in_set_conv_nth length_pass)
qed

lemma ready_pass_refreshes:
  assumes "ready_pass S now s = Inr s1" and "pass_ok s" and "\<not> ex_cancel_requested (se_exec s)"
    and "\<exists>i \<in> set (se_items s1). et_status i \<in> {TPending, TQueued, TRunning}"
    and "\<forall>i \<in> set (se_items s1). et_status i \<noteq> TFailed"
  shows "ex_status (se_exec s1) = ERunning"
proof -
  from assms(1,3) obtain s0 c where s0: "fold_res (ready_step S now) (s, False) (map et_id (se_items s)) = Inr (s0, c)"
    and s1: "s1 = (let s2 = refresh_execution_status now s0
            in if c then broadcast (exec_event ''execution.updated'' s2) s2 else s2)"
    by (auto simp: ready_pass_def Let_def split: sum.splits)
  have items: "se_items s1 = se_items s0" "se_exec s1 = se_exec (refresh_execution_status now s0)"
    by (simp_all add: s1 Let_def)
  let ?states = "et_status ` set (se_items s0)"
  have "?states \<inter> {TPending, TQueued, TRunning} \<noteq> {} \<and> TFailed \<notin> ?states"
  proof
    from assms(4) obtain i where i: "i \<in> set (se_items s0)" "et_status i \<in> {TPending, TQueued, TRunning}"
      unfolding items by blast
    from i(1) have "et_status i \<in> ?states" by (rule imageI)
    with i(2) show "?states \<inter> {TPending, TQueued, TRunning} \<noteq> {}" by blast
    show "TFailed \<notin> ?states" using assms(5) unfolding items by (metis imageE)
  qed
  then have "status_of_states (ex_cancel_requested (se_exec s0)) ?states = ERunning"
    by (rule status_of_states_spec(4) [rotated]) (use assms(4) in \<open>auto simp: items\<close>)
  moreover have "se_items s0 \<noteq> []" using assms(4) by (auto simp: items)
  ultimately show ?thesis by (simp add: items refresh_execution_status_def Let_def)
qed

text \<open>A workflow that passed validation never starts stuck: when the snapshot of a newly triggered
  execution is a non-empty valid DAG, the execution is running, each of its tasks is pending or queued
  (none blocked), and at least one is queued with a job a worker can claim.\<close>

theorem validated_workflow_starts:
  assumes "service_ok S d" and "tenant \<noteq> []" and "seen_key tenant key d = None"
    and "trigger_workflow S now tenant wid actor key d = Inr (e, d', sent)"
    and "case key of None \<Rightarrow> True | Some k \<Rightarrow> k \<noteq> []"
    and "validate (doc_tasks (ex_snapshot e)) = Inr ()" and "doc_tasks (ex_snapshot e) \<noteq> []"
  shows "ex_status e = ERunning \<and> (\<exists>items. rows_of (ex_id e) d' = Some (e, items) \<and>
    (\<forall>i \<in> set items. et_status i \<in> {TPending, TQueued}) \<and>
    (\<exists>i \<in> set items. et_status i = TQueued \<and>
       (\<exists>j \<in> set (jobs d'). qj_etask j = et_id i \<and> qj_execution j = ex_id e \<and> qj_state j = QQueued)))"
  using assms(4)
proof (cases rule: trigger_cases)
  case existing
  with assms(3) show ?thesis by simp
next
  case (created w doc rvid revno)
  from created(8) show ?thesis
  proof (cases rule: spawn_cases)
    case sp: (created eid d1 s s1)
    note ok1 = spawn_rows_ok(1) [OF assms(1,2) sp(2)]
    note so = service_ok_session [OF ok1 sp(3)]
    note rows = spawned_rows [OF assms(1,2) sp(2,3,4)]
    have s: "se_exec s = new_execution now tenant w doc rvid revno actor key eid"
      "se_items s = new_tasks eid (workflow_tasks (wf_id w) d) (uuid_supply d) (Suc (uuid_draws d)) (doc_tasks doc)"
      using sp(3) spawn_rows_load(1) [OF assms(1) sp(2)] by auto
    have nc: "\<not> ex_cancel_requested (se_exec s)" by (simp add: s new_execution_def)
    have doc: "ex_snapshot e = doc" using rows(4) by (simp add: exec_keeps_def new_execution_def sp(5))
    have dag: "well_formed_dag (doc_tasks doc)" using assms(6) by (simp add: validate_iff doc)
    have final: "se_items s1 = pass now [] (se_items s)"
      using ready_pass_items [OF so(1) nc, of S now] sp(4) by auto
    have names: "et_name ` set (se_items s) = ts_name ` set (doc_tasks doc)" unfolding s by (metis set_map new_tasks_simps(2))
    have deps: "set (et_deps i) \<subseteq> et_name ` set (se_items s)" if "i \<in> set (se_items s)" for i
    proof -
      from that have "et_deps i \<in> set (map ts_deps (doc_tasks doc))"
        unfolding new_tasks_simps(3) [of eid "workflow_tasks (wf_id w) d" "uuid_supply d" "Suc (uuid_draws d)", symmetric]
          s set_map by (rule imageI)
      then obtain t where "t \<in> set (doc_tasks doc)" "et_deps i = ts_deps t" by auto
      then show ?thesis using dag unfolding names well_formed_dag_def by metis
    qed
    have "\<forall>i \<in> set (pass now [] (se_items s)). et_status i \<in> {TPending, TQueued}"
    proof (rule pass_fresh)
      show "\<forall>i \<in> set (se_items s). et_status i = TPending" unfolding s using new_tasks_members by blast
    qed (use deps in blast)
    then have opened: "\<forall>i \<in> set (se_items s1). et_status i \<in> {TPending, TQueued}" by (simp add: final)
    from rows(1) obtain items where items: "rows_of eid d' = Some (e, items)" "mirrors doc items"
      "\<forall>i \<in> set items. et_deps i = [] \<longrightarrow> et_status i = TQueued \<and>
         (\<exists>j \<in> set (jobs d'). qj_etask j = et_id i \<and> qj_execution j = eid \<and> qj_state j = QQueued)"
      unfolding sp(5) [symmetric] sp(6) [symmetric] by blast
    have same: "items = se_items s1"
      using pass_prog.rows_after(1) [OF rows_ok_service [OF ok1] sp(3,4)] items(1) so(3) by (simp add: sp(6))
    from well_formed_root [OF dag] assms(7) obtain t where "t \<in> set (doc_tasks doc)" "ts_deps t = []" by (auto simp: doc)
    then have "[] \<in> set (map et_deps items)" using items(2) unfolding mirrors_def by (metis image_eqI set_map)
    then obtain i where i: "i \<in> set items" "et_deps i = []" by auto
    have "ex_status (se_exec s1) = ERunning"
      by (rule ready_pass_refreshes [OF sp(4) so(1) nc]) (use opened i(1) in \<open>auto simp: same\<close>)
    moreover have "ex_id e = eid" using spawn_executions(3) [OF assms(1,2) sp(2,3,4)] by (simp add: sp(5))
    ultimately show ?thesis using items opened i by (auto simp: sp(5) same)
  qed
qed

section \<open>Instances\<close>

text \<open>A shop with one workflow whose latest revision has the given tasks, and no execution yet.\<close>

definition shop_document :: "task_spec list \<Rightarrow> wf_document" where
  "shop_document ts = \<lparr>doc_name = ''shop'', doc_description = None, doc_revision = 1, doc_tasks = ts\<rparr>"

definition shop :: "task_spec list \<Rightarrow> db" where
  "shop ts = (empty_db demo_supply)\<lparr>
     workflows := [\<lparr>wf_id = ''wf'', wf_tenant = ''acme'', wf_name = ''shop'', wf_description = None, wf_current_revision = 1,
        wf_is_archived = False, wf_created_at = 0, wf_updated_at = 0\<rparr>],
     revisions := [\<lparr>rv_id = ''rev'', rv_workflow = ''wf'', rv_tenant = ''acme'', rv_revision = 1,
        rv_document = shop_document ts, rv_created_by = ''ops'', rv_created_at = 0\<rparr>]\<rparr>"

definition one_task :: "task_spec list" where
  "one_task = [\<lparr>ts_name = ''a'', ts_deps = [], ts_config = empty_config\<rparr>]"

definition two_tasks :: "task_spec list" where
  "two_tasks = [\<lparr>ts_name = ''b'', ts_deps = [''a''], ts_config = empty_config\<rparr>, \<lparr>ts_name = ''a'', ts_deps = [], ts_config = empty_config\<rparr>]"

lemma validate_two: "validate two_tasks = Inr ()"
  by code_simp

definition trigger_it :: "string option \<Rightarrow> time \<times> service_op" where
  "trigger_it key = (0, STrigger ''acme'' ''wf'' ''ops'' key)"

definition service_run :: "settings \<Rightarrow> (time \<times> service_op) list \<Rightarrow> db \<Rightarrow> db" where
  "service_run S cmds d = fst (foldl (\<lambda>st c. service_step S c st) (d, init_exec_mem) cmds)"

definition statuses :: "db \<Rightarrow> execution_status list \<times> task_state list \<times> queue_job_state list" where
  "statuses d = (map ex_status (executions d), map et_status (etasks d), map qj_state (jobs d))"

lemma demo_supply_inj: "inj demo_supply"
proof (rule injI)
  show "demo_supply m = demo_supply n \<Longrightarrow> m = n" for m n
    by (simp add: demo_supply_def int_str_def)
qed

lemma shop_fresh: "fresh_service default_settings (shop ts)"
  by (simp add: fresh_service_def shop_def empty_db_def demo_supply_inj default_settings_def)

lemmas shop_ok = fresh_service_ok [OF shop_fresh]

lemma acme_nonempty: "''acme'' \<noteq> []"
  by simp

lemma shop_seen: "seen_key ''acme'' key (shop ts) = None"
  by (simp add: seen_key_def execution_with_key_def shop_def empty_db_def split: option.splits)

definition triggered :: "task_spec list \<Rightarrow> string option \<Rightarrow> exec_result" where
  "triggered ts key = trigger_workflow default_settings 0 ''acme'' ''wf'' ''ops'' key (shop ts)"

lemma triggered_two:
  obtains e d sent where "trigger_workflow default_settings 0 ''acme'' ''wf'' ''ops'' None (shop two_tasks) = Inr (e, d, sent)"
    and "doc_tasks (ex_snapshot e) = two_tasks" and "ex_id e = ''u0''"
proof -
  have "case triggered two_tasks None of Inl _ \<Rightarrow> False
      | Inr (e, _, _) \<Rightarrow> doc_tasks (ex_snapshot e) = two_tasks \<and> ex_id e = ''u0''" by code_simp
  then obtain e d sent where "triggered two_tasks None = Inr (e, d, sent)" "doc_tasks (ex_snapshot e) = two_tasks" "ex_id e = ''u0''"
    by (cases "triggered two_tasks None") (simp_all only: sum.case split_paired_all prod.case HOL.simp_thms)
  then show ?thesis unfolding triggered_def by (rule that)
qed

lemma trigger_starts_execution_witness:
  "\<exists>e d sent items. trigger_workflow default_settings 0 ''acme'' ''wf'' ''ops'' None (shop two_tasks) = Inr (e, d, sent) \<and>
     rows_of (ex_id e) d = Some (e, items) \<and> map et_name items = [''b'', ''a'']"
proof -
  obtain e d sent where t: "trigger_workflow default_settings 0 ''acme'' ''wf'' ''ops'' None (shop two_tasks) = Inr (e, d, sent)"
    and doc: "doc_tasks (ex_snapshot e) = two_tasks" by (rule triggered_two)
  from trigger_starts_execution [OF shop_ok acme_nonempty shop_seen t] obtain items where
    "rows_of (ex_id e) d = Some (e, items)"
    "map (\<lambda>i. (et_name i, et_deps i, et_config i)) items = map (\<lambda>t. (ts_name t, ts_deps t, ts_config t)) two_tasks"
    unfolding doc by auto
  moreover from arg_cong [OF this(2), of "map fst"] have "map et_name items = map ts_name two_tasks" by (simp add: comp_def)
  ultimately show ?thesis using t by (auto simp: two_tasks_def)
qed

lemma trigger_idempotent_witness:
  "\<exists>e d sent. trigger_workflow default_settings 0 ''acme'' ''wf'' ''ops'' (Some ''k1'') (shop one_task) = Inr (e, d, sent) \<and>
     trigger_workflow default_settings 5 ''acme'' ''other'' ''dev'' (Some ''k1'') d = Inr (e, d, [])"
proof -
  have "case triggered one_task (Some ''k1'') of Inl _ \<Rightarrow> False | Inr _ \<Rightarrow> True" by code_simp
  then obtain r where "triggered one_task (Some ''k1'') = Inr r"
    by (cases "triggered one_task (Some ''k1'')") (simp_all only: sum.case HOL.simp_thms)
  then obtain e d sent where t: "trigger_workflow default_settings 0 ''acme'' ''wf'' ''ops'' (Some ''k1'') (shop one_task) = Inr (e, d, sent)"
    unfolding triggered_def by (cases r) simp_all
  have "''k1'' \<noteq> []" by simp
  from trigger_idempotent [OF shop_ok acme_nonempty this t] t show ?thesis by blast
qed

lemma trigger_respects_quota_witness:
  "\<exists>e d sent. trigger_workflow default_settings 0 ''acme'' ''wf'' ''ops'' None (shop two_tasks) = Inr (e, d, sent) \<and>
     active_executions ''acme'' d \<le> max_concurrent_executions_per_tenant default_settings"
proof -
  obtain e d sent where t: "trigger_workflow default_settings 0 ''acme'' ''wf'' ''ops'' None (shop two_tasks) = Inr (e, d, sent)"
    by (rule triggered_two)
  have "active_executions ''acme'' (shop two_tasks) = 0" by (simp add: active_executions_def shop_def empty_db_def)
  moreover have "0 \<le> max_concurrent_executions_per_tenant default_settings" by (simp add: default_settings_def)
  ultimately show ?thesis
    using t conjunct1 [OF trigger_respects_quota [OF shop_ok acme_nonempty]] by fastforce
qed

lemma validated_workflow_starts_witness:
  "\<exists>e d sent items. trigger_workflow default_settings 0 ''acme'' ''wf'' ''ops'' None (shop two_tasks) = Inr (e, d, sent) \<and>
     ex_status e = ERunning \<and> rows_of (ex_id e) d = Some (e, items) \<and> (\<exists>i \<in> set items. et_status i = TQueued)"
proof -
  obtain e d sent where t: "trigger_workflow default_settings 0 ''acme'' ''wf'' ''ops'' None (shop two_tasks) = Inr (e, d, sent)"
    and doc: "doc_tasks (ex_snapshot e) = two_tasks" by (rule triggered_two)
  have "two_tasks \<noteq> []" by (simp add: two_tasks_def)
  with validated_workflow_starts [OF shop_ok acme_nonempty shop_seen t] validate_two t show ?thesis
    unfolding doc by fastforce
qed

lemma service_reachable_ok_witness:
  "distinct (map et_id (etasks (service_run default_settings
     [trigger_it None, (1, SQueue (OClaim [] ''w1'')), (2, SCancel ''acme'' ''u0'' ''ops'')] (shop two_tasks))))"
proof -
  let ?S = default_settings
  let ?s0 = "(shop two_tasks, init_exec_mem)"
  let ?s1 = "service_step ?S (trigger_it None) ?s0"
  let ?s2 = "service_step ?S (1, SQueue (OClaim [] ''w1'')) ?s1"
  let ?s3 = "service_step ?S (2, SCancel ''acme'' ''u0'' ''ops'') ?s2"
  have "sv.reaches ?S ?s0 ?s1" by (rule sv.next_step [OF sv.start]) (simp add: trigger_it_def)
  then have "sv.reaches ?S ?s0 ?s2" by (rule sv.next_step) simp
  then have "sv.reaches ?S ?s0 ?s3" by (rule sv.next_step) simp
  then have "sv.reaches ?S ?s0 (fst ?s3, snd ?s3)" by (simp only: prod.collapse)
  from service_reachable_ok [OF shop_fresh this] show ?thesis by (simp only: service_run_def foldl.simps)
qed

text \<open>A cancellation made in another process (the API, while a worker runs the task) is lost: the worker's
  session still holds the execution as it was when the task started, so the task succeeds and the
  execution, cancellation requested, ends as a success.\<close>

theorem cancel_elsewhere_is_lost:
  "let d = service_run default_settings [trigger_it None, (1, SQueue (OClaim [] ''w1''))] (shop one_task);
       task = et_id (hd (etasks d)); job = qj_id (hd (jobs d)); eid = ex_id (hd (executions d)) in
   (case execute_task 2 task ''w1'' job init_exec_mem d of
      Inr (d1, mem1, Some r, _) \<Rightarrow>
        (case cancel_execution 3 (\<lambda>x. x) ''acme'' eid ''ops'' init_exec_mem d1 of
           (Inr (e, d2, _), _) \<Rightarrow> ex_cancel_requested e \<and>
             (case finish_task default_settings 4 r (Returned None) mem1 d2 of
                (Inr (d3, _), _) \<Rightarrow> map ex_cancel_requested (executions d3) = [True] \<and>
                   map ex_status (executions d3) = [ESuccess] \<and> map et_status (etasks d3) = [TSuccess]
              | _ \<Rightarrow> False)
         | _ \<Rightarrow> False)
    | _ \<Rightarrow> False)"
  by code_simp

text \<open>Retrying a finished execution is not held to the tenant's quota: with a quota of one running
  execution, a retry starts a second one where a trigger is refused.\<close>

theorem retry_execution_ignores_quota:
  "let S = default_settings\<lparr>max_concurrent_executions_per_tenant := 1\<rparr>;
       d = service_run S [trigger_it None, (1, SCancel ''acme'' ''u0'' ''ops''), (2, STrigger ''acme'' ''wf'' ''ops'' None)] (shop one_task) in
   active_executions ''acme'' d = 1 \<and>
   (case trigger_workflow S 3 ''acme'' ''wf'' ''ops'' None d of Inl (ApiError code _ _) \<Rightarrow> code = 429 | _ \<Rightarrow> False) \<and>
   (case retry_execution S 3 ''acme'' ''u0'' ''ops'' d of
      Inr (e, d', _) \<Rightarrow> active_executions ''acme'' d' = 2 | Inl _ \<Rightarrow> False)"
  by code_simp

text \<open>Replaying a dead letter of a task the watchdog has marked failed does nothing: the job is claimed
  again, \<open>execute_task\<close> finds the task in a final state and acknowledges the job, and task and
  execution stay failed.\<close>

theorem dead_letter_replay_is_futile:
  "let S = default_settings\<lparr>queue_poison_max_attempts := 1\<rparr>;
       d = service_run S [trigger_it None, (1, SQueue (OClaim [] ''w1''))] (shop one_task);
       task = et_id (hd (etasks d)); job = qj_id (hd (jobs d));
       dl = \<lparr>dl_id = job, dl_etask = task, dl_execution = ''u0'', dl_task = task, dl_tenant = ''acme'', dl_attempts = 1, dl_error = ''lease expired''\<rparr>;
       d1 = service_run S [(1000000000, SQueue OReap), (1001000000, SDeadLetter dl)] d;
       d2 = service_run S [(1002000000, SQueue (OReplay ''acme'' job)), (1003000000, SQueue (OClaim [] ''w2'')), (1004000000, SExecute task ''w2'' job)] d1 in
   statuses d1 = ([EFailed], [TFailed], [QFailed]) \<and> statuses d2 = ([EFailed], [TFailed], [QCompleted])"
  by code_simp

text \<open>A worker whose lease ran out can still finish: after the watchdog has failed the task and the
  execution, its handler's return turns both into a success.\<close>

theorem expired_worker_overturns_failure:
  "let S = default_settings\<lparr>queue_poison_max_attempts := 1\<rparr>;
       d = service_run S [trigger_it None, (1, SQueue (OClaim [] ''w1''))] (shop one_task);
       task = et_id (hd (etasks d)); job = qj_id (hd (jobs d));
       dl = \<lparr>dl_id = job, dl_etask = task, dl_execution = ''u0'', dl_task = task, dl_tenant = ''acme'', dl_attempts = 1, dl_error = ''lease expired''\<rparr> in
   (case execute_task 2 task ''w1'' job init_exec_mem d of
      Inr (d1, mem1, Some r, _) \<Rightarrow>
        (let d2 = service_run S [(1000000000, SQueue OReap), (1001000000, SDeadLetter dl)] d1 in
         statuses d2 = ([EFailed], [TFailed], [QFailed]) \<and>
         (case finish_task S 1002000000 r (Returned None) mem1 d2 of
            (Inr (d3, _), _) \<Rightarrow> statuses d3 = ([ESuccess], [TSuccess], [QCompleted])
          | _ \<Rightarrow> False))
    | _ \<Rightarrow> False)"
  by code_simp

end
