(* ===== verification/Worker.thy ===== *)
theory Worker
  imports Service "HOL-Library.List_Lexorder" "HOL-Library.Char_ord"
begin

text \<open>
  \<open>workers/runtime.py\<close>: the worker manager. One turn of a worker's loop is a function of the world
  before it and of what the environment does during it (a \<open>turn\<close>): the times the clock shows, what
  other processes do while the worker sleeps or runs a handler, and how the handler ends.
\<close>

section \<open>Snapshots and their rows\<close>

record worker_snapshot =
  sn_id :: string
  sn_state :: string
  sn_execution :: "uid option"
  sn_task :: "uid option"
  sn_processed :: int
  sn_failed :: int
  sn_last_seen_at :: "time option"
  sn_last_error :: "string option"

definition new_snapshot :: "string \<Rightarrow> time \<Rightarrow> worker_snapshot" where
  "new_snapshot wid now = \<lparr>sn_id = wid, sn_state = ''idle'', sn_execution = None, sn_task = None, sn_processed = 0,
     sn_failed = 0, sn_last_seen_at = Some now, sn_last_error = None\<rparr>"

definition row_of_snapshot :: "time \<Rightarrow> bool \<Rightarrow> worker_snapshot \<Rightarrow> worker_record" where
  "row_of_snapshot now active sn = \<lparr>wk_id = sn_id sn, wk_state = sn_state sn, wk_execution = sn_execution sn,
     wk_task = sn_task sn, wk_processed = sn_processed sn, wk_failed = sn_failed sn,
     wk_last_seen_at = sn_last_seen_at sn, wk_last_error = sn_last_error sn, wk_is_active = active, wk_updated_at = now\<rparr>"

definition put_worker_row :: "worker_record \<Rightarrow> worker_record list \<Rightarrow> worker_record list" where
  "put_worker_row r rows = (if find (\<lambda>r'. wk_id r' = wk_id r) rows = None then rows @ [r]
     else upd_where (\<lambda>r'. wk_id r' = wk_id r) (\<lambda>_. r) rows)"

type_synonym persisted = "(string \<times> time) list"

definition persist_due :: "settings \<Rightarrow> time \<Rightarrow> bool \<Rightarrow> worker_snapshot \<Rightarrow> persisted \<Rightarrow> bool" where
  "persist_due S now force sn stamps =
     (force \<or> (case map_of stamps (sn_id sn) of None \<Rightarrow> True
        | Some t \<Rightarrow> secs (worker_heartbeat_interval_seconds S) \<le> now - t))"

text \<open>\<open>up\<close>: the database answers. When it does not, the error is logged and nothing is recorded.\<close>

definition persist_snapshot :: "settings \<Rightarrow> time \<Rightarrow> bool \<Rightarrow> bool \<Rightarrow> bool \<Rightarrow> worker_snapshot \<Rightarrow> db \<times> persisted \<Rightarrow> db \<times> persisted" where
  "persist_snapshot S now up active force sn st = (case st of (d, stamps) \<Rightarrow>
     if persist_due S now force sn stamps \<and> up
       then (d\<lparr>worker_rows := put_worker_row (row_of_snapshot now active sn) (worker_rows d)\<rparr>,
             AList.update (sn_id sn) now stamps)
     else (d, stamps))"

text \<open>\<open>snapshots\<close>: what the monitor shows; the table is \<open>None\<close> when the database cannot be read.\<close>

definition snapshots :: "settings \<Rightarrow> time \<Rightarrow> worker_record list option \<Rightarrow> worker_snapshot list" where
  "snapshots S now table = (case table of None \<Rightarrow> [] | Some rows \<Rightarrow>
     map (\<lambda>r. \<lparr>sn_id = wk_id r,
         sn_state = (case wk_last_seen_at r of
            Some t \<Rightarrow> if secs (worker_heartbeat_interval_seconds S * 3) < now - t then ''offline'' else wk_state r
          | None \<Rightarrow> wk_state r),
         sn_execution = wk_execution r, sn_task = wk_task r, sn_processed = wk_processed r,
         sn_failed = wk_failed r, sn_last_seen_at = wk_last_seen_at r, sn_last_error = wk_last_error r\<rparr>)
       (sort_key wk_id (filter wk_is_active rows)))"

section \<open>Starting and stopping\<close>

text \<open>Host name, process id and six random hexadecimal digits come from outside.\<close>

definition instance_prefix :: "settings \<Rightarrow> string \<Rightarrow> nat \<Rightarrow> string \<Rightarrow> string" where
  "instance_prefix S host pid hex =
     (if worker_instance_id S \<noteq> [] then take 80 (worker_instance_id S)
      else take 24 (takeWhile (\<lambda>c. c \<noteq> CHR ''.'') host) @ ''-'' @ int_str (int pid) @ ''-'' @ take 6 hex)"

definition worker_id_of :: "string \<Rightarrow> nat \<Rightarrow> string" where
  "worker_id_of prefix index = take 120 (prefix @ ''-worker-'' @ int_str (int (index + 1)))"

text \<open>
  \<open>mg_tasks\<close> is the list \<open>_tasks\<close>, each task named by its worker. \<open>mg_live\<close> are the tasks the event loop has not
  finished, with whether their cancellation was requested; the manager itself does not see it.
\<close>

record manager =
  mg_snapshots :: "worker_snapshot list"
  mg_persisted :: persisted
  mg_running :: bool
  mg_draining :: bool
  mg_tasks :: "string list"
  mg_live :: "(string \<times> bool) list"

definition init_manager :: manager where
  "init_manager = \<lparr>mg_snapshots = [], mg_persisted = [], mg_running = False, mg_draining = False,
     mg_tasks = [], mg_live = []\<rparr>"

definition worker_total :: "settings \<Rightarrow> int option \<Rightarrow> nat" where
  "worker_total S n = nat (case n of None \<Rightarrow> worker_count S | Some c \<Rightarrow> if c = 0 then worker_count S else c)"

definition start_one :: "settings \<Rightarrow> time \<Rightarrow> bool \<Rightarrow> string \<Rightarrow> db \<times> manager \<Rightarrow> db \<times> manager" where
  "start_one S now up wid st = (case st of (d, m) \<Rightarrow>
     let sn = new_snapshot wid now in
     case persist_snapshot S now up True True sn (d, mg_persisted m) of (d', stamps) \<Rightarrow>
       (d', m\<lparr>mg_snapshots := filter (\<lambda>x. sn_id x \<noteq> wid) (mg_snapshots m) @ [sn], mg_persisted := stamps,
          mg_tasks := mg_tasks m @ [wid], mg_live := mg_live m @ [(wid, False)]\<rparr>))"

definition start :: "settings \<Rightarrow> time \<Rightarrow> bool \<Rightarrow> string \<Rightarrow> int option \<Rightarrow> db \<times> manager \<Rightarrow> db \<times> manager" where
  "start S now up prefix n st = (case st of (d, m) \<Rightarrow>
     if mg_running m then (d, m)
     else fold (\<lambda>i. start_one S now up (worker_id_of prefix i)) [0..<worker_total S n]
            (d, m\<lparr>mg_running := True, mg_draining := False\<rparr>))"

definition stopped_snapshot :: "time \<Rightarrow> worker_snapshot \<Rightarrow> worker_snapshot" where
  "stopped_snapshot now sn = sn\<lparr>sn_state := ''stopped'', sn_execution := None, sn_task := None, sn_last_seen_at := Some now\<rparr>"

text \<open>
  How a worker's task ends once the manager drains: within the grace period, or only after its cancellation;
  and with which exception, if any. The loop catches what a poll and a job raise, so an exception other than
  \<open>CancelledError\<close> comes from elsewhere, as from a driver's error that is no \<open>SQLAlchemyError\<close> in
  \<open>_persist_snapshot\<close> or out of the awaited \<open>renew_task\<close>.
\<close>

datatype worker_end = InTime "py_error option" | AfterCancel "py_error option"

fun task_error :: "worker_end \<Rightarrow> py_error option" where
  "task_error (InTime e) = e"
| "task_error (AfterCancel e) = e"

text \<open>\<open>asyncio.wait\<close> with the grace period, then the cancellation of every task that is pending.\<close>

definition wait_and_cancel :: "(string \<Rightarrow> worker_end) \<Rightarrow> string list \<Rightarrow> (string \<times> bool) list \<Rightarrow> (string \<times> bool) list" where
  "wait_and_cancel ends tasks live = List.map_filter (\<lambda>(t, c).
     if t \<notin> set tasks then Some (t, c)
     else (case ends t of InTime _ \<Rightarrow> None | AfterCancel _ \<Rightarrow> Some (t, True))) live"

text \<open>Awaiting the tasks in order: a \<open>CancelledError\<close> is passed over, anything else is raised and the rest not awaited.\<close>

fun await_tasks :: "(string \<Rightarrow> worker_end) \<Rightarrow> string list \<Rightarrow> (string \<times> bool) list \<Rightarrow> py_error option \<times> (string \<times> bool) list" where
  "await_tasks ends [] live = (None, live)"
| "await_tasks ends (t # tasks) live = (let live' = filter (\<lambda>(x, _). x \<noteq> t) live in
     case task_error (ends t) of
       None \<Rightarrow> await_tasks ends tasks live'
     | Some e \<Rightarrow> if e = CancelledError then await_tasks ends tasks live' else (Some e, live'))"

definition stop :: "settings \<Rightarrow> time \<Rightarrow> bool \<Rightarrow> (string \<Rightarrow> worker_end) \<Rightarrow> db \<times> manager \<Rightarrow> py_error option \<times> db \<times> manager" where
  "stop S now up ends st = (case st of (d, m) \<Rightarrow>
     let m1 = m\<lparr>mg_draining := True\<rparr> in
     case await_tasks ends (mg_tasks m1) (wait_and_cancel ends (mg_tasks m1) (mg_live m1)) of
       (Some e, live) \<Rightarrow> (Some e, d, m1\<lparr>mg_live := live\<rparr>)
     | (None, live) \<Rightarrow>
         (let sns = map (stopped_snapshot now) (mg_snapshots m1) in
          case fold (persist_snapshot S now up False True) sns (d, mg_persisted m1) of (d', stamps) \<Rightarrow>
            (None, d', m1\<lparr>mg_snapshots := sns, mg_persisted := stamps, mg_running := False, mg_tasks := [], mg_live := live\<rparr>)))"

text \<open>Every task that still runs is in the manager's list.\<close>

definition tasks_known :: "manager \<Rightarrow> bool" where
  "tasks_known m \<longleftrightarrow> fst ` set (mg_live m) \<subseteq> set (mg_tasks m)"

lemma start_one_fields:
  "mg_tasks (snd (start_one S now up wid (d, m))) = mg_tasks m @ [wid]"
  "mg_live (snd (start_one S now up wid (d, m))) = mg_live m @ [(wid, False)]"
  "mg_running (snd (start_one S now up wid (d, m))) = mg_running m"
  by (simp_all add: start_one_def Let_def split: prod.split)

lemma start_known: "tasks_known m \<Longrightarrow> tasks_known (snd (start S now up prefix n (d, m)))"
proof -
  assume m: "tasks_known m"
  have "tasks_known (snd (fold (\<lambda>i. start_one S now up (f i)) ks (d, m)))" if "tasks_known m" for d m f and ks :: "nat list"
    using that
  proof (induction ks arbitrary: d m)
    case (Cons i ks)
    obtain d1 m1 where s: "start_one S now up (f i) (d, m) = (d1, m1)" by fastforce
    have "tasks_known m1" using start_one_fields(1,2) [of S now up "f i" d m] Cons.prems by (auto simp: s tasks_known_def)
    with Cons.IH show ?case by (simp add: s)
  qed simp
  with m show ?thesis by (simp add: start_def tasks_known_def)
qed

lemma wait_and_cancel_left:
  "fst ` set live \<subseteq> set tasks \<Longrightarrow> (t, c) \<in> set (wait_and_cancel ends tasks live) \<Longrightarrow> c \<and> t \<in> set tasks"
  by (auto simp: wait_and_cancel_def in_map_filter split: worker_end.splits if_splits)

lemma await_tasks_left: "set (snd (await_tasks ends tasks live)) \<subseteq> set live"
proof (induction tasks arbitrary: live)
  case (Cons t tasks)
  have "set (filter (\<lambda>(x, _). x \<noteq> t) live) \<subseteq> set live" by auto
  then show ?case using Cons.IH [of "filter (\<lambda>(x, _). x \<noteq> t) live"] by (simp add: Let_def split: option.split) blast
qed simp

lemma await_tasks_all:
  "fst (await_tasks ends tasks live) = None \<Longrightarrow> fst ` set live \<subseteq> set tasks \<Longrightarrow> snd (await_tasks ends tasks live) = []"
proof (induction tasks arbitrary: live)
  case (Cons t tasks)
  have "fst ` set (filter (\<lambda>(x, _). x \<noteq> t) live) \<subseteq> set tasks" using Cons.prems(2) by auto
  with Cons show ?case by (auto simp: Let_def split: option.splits if_splits)
qed simp

lemma await_tasks_raises: "fst (await_tasks ends tasks live) = Some e \<Longrightarrow> e \<noteq> CancelledError \<and> (\<exists>t \<in> set tasks. task_error (ends t) = Some e)"
  by (induction tasks arbitrary: live) (auto simp: Let_def split: option.splits if_splits)

lemma stop_quits:
  assumes "stop S now up ends (d, m) = (None, d', m')" and "tasks_known m"
  shows "\<not> mg_running m'" and "mg_tasks m' = []" and "mg_live m' = []"
proof -
  let ?r = "await_tasks ends (mg_tasks m) (wait_and_cancel ends (mg_tasks m) (mg_live m))"
  have "fst ` set (wait_and_cancel ends (mg_tasks m) (mg_live m)) \<subseteq> set (mg_tasks m)"
    using wait_and_cancel_left assms(2) unfolding tasks_known_def by fastforce
  moreover have n: "fst ?r = None" using assms(1) by (auto simp: stop_def Let_def split: prod.splits option.splits)
  ultimately have "snd ?r = []" by (intro await_tasks_all)
  with n have "?r = (None, [])" by (simp add: prod_eq_iff)
  with assms(1) show "\<not> mg_running m'" "mg_tasks m' = []" "mg_live m' = []"
    by (auto simp: stop_def Let_def split: prod.splits)
qed

lemma stop_raises:
  assumes "stop S now up ends (d, m) = (Some e, d', m')" and "tasks_known m"
  shows "e \<noteq> CancelledError" and "\<exists>t. task_error (ends t) = Some e" and "\<forall>(t, c) \<in> set (mg_live m'). c"
    and "mg_running m' = mg_running m" and "d' = d"
proof -
  let ?l = "wait_and_cancel ends (mg_tasks m) (mg_live m)"
  obtain live where r: "await_tasks ends (mg_tasks m) ?l = (Some e, live)" and m': "m' = m\<lparr>mg_draining := True, mg_live := live\<rparr>" and d: "d' = d"
    using assms(1) by (auto simp: stop_def Let_def split: prod.splits option.splits)
  from await_tasks_raises [of ends "mg_tasks m" ?l e] r show "e \<noteq> CancelledError" "\<exists>t. task_error (ends t) = Some e" by auto
  have "set live \<subseteq> set ?l" using await_tasks_left [of ends "mg_tasks m" ?l] by (simp add: r)
  with wait_and_cancel_left assms(2) show "\<forall>(t, c) \<in> set (mg_live m'). c" unfolding tasks_known_def m' by fastforce
  show "mg_running m' = mg_running m" "d' = d" by (simp_all add: m' d)
qed

section \<open>A turn of the worker loop\<close>

record turn =
  tn_top :: time
  tn_up :: "time \<Rightarrow> bool"
  tn_poll_error :: "string option"
  tn_wall :: "time \<Rightarrow> time"
  tn_loop :: time
  tn_others :: "time \<Rightarrow> job list \<times> queue_mem \<Rightarrow> job list \<times> queue_mem"
  tn_claimed :: time
  tn_before :: "exec_mem \<times> db \<Rightarrow> exec_mem \<times> db"
  tn_start :: time
  tn_during :: "exec_mem \<times> db \<Rightarrow> exec_mem \<times> db"
  tn_outcome :: outcome
  tn_finish :: time
  tn_done :: time
  tn_text :: "py_error \<Rightarrow> string"

record world =
  wo_db :: db
  wo_queue :: queue_mem
  wo_exec :: exec_mem
  wo_snap :: worker_snapshot
  wo_persisted :: persisted

datatype turn_end = Next | Died

definition save :: "settings \<Rightarrow> turn \<Rightarrow> time \<Rightarrow> bool \<Rightarrow> (worker_snapshot \<Rightarrow> worker_snapshot) \<Rightarrow> world \<Rightarrow> world" where
  "save S tn now force f w =
     (let sn = (f (wo_snap w))\<lparr>sn_last_seen_at := Some now\<rparr> in
      case persist_snapshot S now (tn_up tn now) True force sn (wo_db w, wo_persisted w) of (d, stamps) \<Rightarrow>
        w\<lparr>wo_db := d, wo_snap := sn, wo_persisted := stamps\<rparr>)"

definition idle :: "worker_snapshot \<Rightarrow> worker_snapshot" where
  "idle sn = sn\<lparr>sn_state := ''idle'', sn_execution := None, sn_task := None\<rparr>"

definition failed_with :: "string \<Rightarrow> worker_snapshot \<Rightarrow> worker_snapshot" where
  "failed_with msg sn = sn\<lparr>sn_failed := sn_failed sn + 1, sn_last_error := Some msg, sn_state := ''error''\<rparr>"

definition processed :: "worker_snapshot \<Rightarrow> worker_snapshot" where
  "processed sn = idle (sn\<lparr>sn_processed := sn_processed sn + 1\<rparr>)"

definition taking :: "queue_job \<Rightarrow> worker_snapshot \<Rightarrow> worker_snapshot" where
  "taking j sn = sn\<lparr>sn_state := ''running'', sn_execution := Some (jb_execution j), sn_task := Some (jb_task j), sn_last_error := None\<rparr>"

definition process_dead_letters :: "time \<Rightarrow> world \<Rightarrow> world" where
  "process_dead_letters now w = (case drain_dead_letters (wo_queue w) of (dls, mem) \<Rightarrow>
     w\<lparr>wo_queue := mem, wo_db := fold (\<lambda>dl d. fst (handle_dead_letter now dl d)) dls (wo_db w)\<rparr>)"

text \<open>\<open>execute_task\<close> around its handler. \<open>None\<close>: the task was cancelled and the exception re-raised.\<close>

definition execute_job :: "settings \<Rightarrow> turn \<Rightarrow> queue_job \<Rightarrow> string \<Rightarrow> exec_mem \<times> db \<Rightarrow> unit res \<times> exec_mem \<times> db" where
  "execute_job S tn j wid st = (case st of (mem, d) \<Rightarrow>
     case execute_task (tn_start tn) (jb_etask j) wid (jb_id j) mem d of
       Inl e \<Rightarrow> (Inl e, mem, d)
     | Inr (d1, mem1, None, _) \<Rightarrow> (Inr (), mem1, d1)
     | Inr (d1, mem1, Some r, _) \<Rightarrow>
         (case tn_during tn (mem1, d1) of (mem2, d2) \<Rightarrow>
            (case finish_task S (tn_finish tn) r (tn_outcome tn) mem2 d2 of
               (Inl e, mem3) \<Rightarrow> (Inl e, mem3, d2)
             | (Inr (d3, _), mem3) \<Rightarrow> (Inr (), mem3, d3))))"

definition poll_timeout :: "settings \<Rightarrow> time" where
  "poll_timeout S = max (worker_poll_interval_ms S * 1000) 250000"

definition worker_turn :: "settings \<Rightarrow> turn \<Rightarrow> world \<Rightarrow> world \<times> turn_end" where
  "worker_turn S tn w =
     (let w2 = process_dead_letters (tn_top tn) (save S tn (tn_top tn) False id w) in
      case tn_poll_error tn of
        Some msg \<Rightarrow> (save S tn (tn_claimed tn) True (failed_with msg) w2, Next)
      | None \<Rightarrow>
          (case dequeue S (tn_wall tn) (tn_others tn) (sn_id (wo_snap w2)) (tn_loop tn + poll_timeout S) (tn_loop tn)
                  (jobs (wo_db w2), wo_queue w2) of
             (None, rows, qm) \<Rightarrow> (w2\<lparr>wo_db := (wo_db w2)\<lparr>jobs := rows\<rparr>, wo_queue := qm, wo_snap := idle (wo_snap w2)\<rparr>, Next)
           | (Some j, rows, qm) \<Rightarrow>
               (let w3 = save S tn (tn_claimed tn) True (taking j) (w2\<lparr>wo_db := (wo_db w2)\<lparr>jobs := rows\<rparr>, wo_queue := qm\<rparr>) in
                case execute_job S tn j (sn_id (wo_snap w3)) (tn_before tn (wo_exec w3, wo_db w3)) of (res, mem, d) \<Rightarrow>
                  (let w4 = w3\<lparr>wo_exec := mem, wo_db := d\<rparr> in
                   case res of
                     Inl CancelledError \<Rightarrow> (w4, Died)
                   | Inl e \<Rightarrow> (save S tn (tn_done tn) True (failed_with (tn_text tn e)) w4, Next)
                   | Inr _ \<Rightarrow> (save S tn (tn_done tn) True processed w4, Next)))))"

section \<open>Lease renewal\<close>

text \<open>The pause between renewals, in microseconds.\<close>

definition renew_interval :: "settings \<Rightarrow> time" where
  "renew_interval S = max (min (queue_lease_seconds S * 500000) (secs (worker_heartbeat_interval_seconds S))) (secs 1)"

text \<open>One iteration of \<open>_renew_lease_loop\<close> after its sleep; \<open>True\<close> when the loop goes on.\<close>

definition renew_turn :: "settings \<Rightarrow> turn \<Rightarrow> time \<Rightarrow> uid \<Rightarrow> world \<Rightarrow> bool \<times> world" where
  "renew_turn S tn now jid w =
     (case renew_lease S now jid (sn_id (wo_snap w)) (jobs (wo_db w)) of (renewed, rows) \<Rightarrow>
        let w1 = w\<lparr>wo_db := (wo_db w)\<lparr>jobs := rows\<rparr>\<rparr> in
        if renewed then (True, save S tn now False id w1) else (False, w1))"

section \<open>Renewing in time keeps the job\<close>

lemma renew_interval_short:
  assumes "settings_in_range S"
  shows "renew_interval S \<le> secs (queue_lease_seconds S) div 2" and "secs 1 \<le> renew_interval S"
  using assms by (auto simp: settings_in_range_def between_def renew_interval_def secs_def)

text \<open>Rounds of a lease: what anybody does to the queue, and then the holder's renewal.\<close>

fun lease_rounds :: "settings \<Rightarrow> string \<Rightarrow> uid \<Rightarrow> ((time \<times> queue_op) list \<times> time) list \<Rightarrow> job list \<Rightarrow> job list" where
  "lease_rounds S w jid [] rows = rows"
| "lease_rounds S w jid ((cmds, now) # rounds) rows =
     lease_rounds S w jid rounds (queue_step S (now, ORenew jid w) (queue_run S cmds rows))"

text \<open>Each round starts when the lease was last written, and its renewal comes before the lease ends.\<close>

fun rounds_in_time :: "settings \<Rightarrow> string \<Rightarrow> uid \<Rightarrow> time \<Rightarrow> ((time \<times> queue_op) list \<times> time) list \<Rightarrow> job list \<Rightarrow> bool" where
  "rounds_in_time S w jid t [] rows \<longleftrightarrow> True"
| "rounds_in_time S w jid t ((cmds, now) # rounds) rows \<longleftrightarrow>
     run_allowed S cmds rows \<and> (\<forall>(u, oper) \<in> set cmds. t \<le> u \<and> u \<le> now) \<and>
     t \<le> now \<and> now \<le> t + secs (queue_lease_seconds S) \<and>
     rounds_in_time S w jid now rounds (queue_step S (now, ORenew jid w) (queue_run S cmds rows))"

definition round_ops :: "((time \<times> queue_op) list \<times> time) list \<Rightarrow> queue_op set" where
  "round_ops rounds = (\<Union>(cmds, now) \<in> set rounds. snd ` set cmds)"

lemma lease_outcome_ended:
  assumes "lease_outcome r e ops r'" and "qj_state r = QLeased" and "qj_state r' \<noteq> QLeased"
  shows "lease_outcome r x ops r'"
proof -
  have "\<not> (\<exists>x \<ge> e. r' = r\<lparr>qj_lease_expires_at := Some x\<rparr>)"
  proof
    assume "\<exists>x \<ge> e. r' = r\<lparr>qj_lease_expires_at := Some x\<rparr>"
    then show False using assms(2,3) by (elim exE conjE) simp
  qed
  with assms(1) show ?thesis unfolding lease_outcome_def by blast
qed

lemma renewed_outcome:
  assumes "r' \<in> set rows" and "lease_outcome r e ops r'" and "qj_state r = QLeased" and "qj_leased_by r = Some w"
  shows "\<exists>r'' \<in> set (queue_step S (now, ORenew (qj_id r) w) rows). lease_outcome r (now + secs (queue_lease_seconds S)) ops r''"
proof (cases "qj_state r' = QLeased")
  case True
  then obtain x where "r' = r\<lparr>qj_lease_expires_at := Some x\<rparr>" using assms(2) by (auto simp: lease_outcome_def)
  then have "r'\<lparr>qj_lease_expires_at := Some (now + secs (queue_lease_seconds S))\<rparr> \<in> set (queue_step S (now, ORenew (qj_id r) w) rows)"
    unfolding step_writes(1) using assms by (intro in_written) auto
  moreover have "lease_outcome r (now + secs (queue_lease_seconds S)) ops (r'\<lparr>qj_lease_expires_at := Some (now + secs (queue_lease_seconds S))\<rparr>)"
    using \<open>r' = _\<close> by (auto simp: lease_outcome_def)
  ultimately show ?thesis by blast
next
  case False
  then have "r' \<in> set (queue_step S (now, ORenew (qj_id r) w) rows)"
    unfolding step_writes(1) using assms(1) by (intro in_upd_where) auto
  moreover have "lease_outcome r (now + secs (queue_lease_seconds S)) ops r'"
    by (rule lease_outcome_ended [OF assms(2,3) False])
  ultimately show ?thesis by blast
qed

lemma rounds_outcome:
  assumes "queue_ok rows" and "r' \<in> set rows" and "lease_outcome r (t + secs (queue_lease_seconds S)) ops r'"
    and "qj_state r = QLeased" and "qj_leased_by r = Some w" and "rounds_in_time S w (qj_id r) t rounds rows"
  shows "\<exists>e. \<exists>r'' \<in> set (lease_rounds S w (qj_id r) rounds rows). lease_outcome r e (ops \<union> round_ops rounds) r''"
  using assms
proof (induction rounds arbitrary: r' t ops rows)
  case Nil
  then show ?case by (auto simp: round_ops_def)
next
  case (Cons round rounds)
  obtain cmds now where rd: "round = (cmds, now)" by (cases round)
  let ?rows = "queue_run S cmds rows" and ?e = "t + secs (queue_lease_seconds S)"
  let ?rows' = "queue_step S (now, ORenew (qj_id r) w) ?rows"
  from Cons.prems(6) rd have run: "run_allowed S cmds rows" and times: "\<forall>(u, oper) \<in> set cmds. t \<le> u \<and> u \<le> now"
    "now \<le> ?e" and rest: "rounds_in_time S w (qj_id r) now rounds ?rows'" by auto
  have "\<forall>(u, oper) \<in> set cmds. ?e \<le> u + secs (queue_lease_seconds S) \<and> u \<le> ?e" using times by fastforce
  from lease_outcome_run [OF Cons.prems(1) run Cons.prems(2,3,4) this] obtain r1 where
    r1: "r1 \<in> set ?rows" "lease_outcome r ?e (ops \<union> snd ` set cmds) r1" by blast
  from renewed_outcome [OF r1 Cons.prems(4,5)] obtain r2 where
    r2: "r2 \<in> set ?rows'" "lease_outcome r (now + secs (queue_lease_seconds S)) (ops \<union> snd ` set cmds) r2" by blast
  have "queue_ok ?rows'" by (rule queue_step_ok [OF queue_run_ok [OF Cons.prems(1) run]]) simp
  from Cons.IH [OF this r2 Cons.prems(4,5) rest] show ?case by (simp add: rd round_ops_def Un_assoc)
qed

text \<open>C17. A worker that renews in time keeps its job: as long as every renewal comes before the lease written
  last runs out, whatever anybody does to the queue in between, the job stays leased to this worker with
  the same attempt; only when one of these operations acknowledged this very job (a worker that lost
  it earlier may do so, as \<open>acknowledge\<close> does not ask who holds it) or cancelled its execution can the job
  be completed or cancelled instead, and no other worker gets it. The pause between renewals is at most half the lease.\<close>

theorem renewals_keep_lease:
  assumes "settings_in_range S" and "queue_ok rows" and "r \<in> set rows" and "qj_state r = QLeased"
    and "qj_leased_by r = Some w" and "qj_lease_expires_at r = Some (t + secs (queue_lease_seconds S))"
    and "rounds_in_time S w (qj_id r) t rounds rows"
  shows "2 * renew_interval S \<le> secs (queue_lease_seconds S) \<and>
    (\<exists>r' \<in> set (lease_rounds S w (qj_id r) rounds rows). qj_id r' = qj_id r \<and>
       ((qj_state r' = QLeased \<and> qj_leased_by r' = Some w \<and> qj_attempts r' = qj_attempts r) \<or>
        (qj_state r' = QCompleted \<and> (\<exists>(cmds, now) \<in> set rounds. \<exists>u. (u, OAcknowledge (qj_id r)) \<in> set cmds)) \<or>
        (qj_state r' = QCancelled \<and> (\<exists>(cmds, now) \<in> set rounds. \<exists>u. (u, OCancelExecution (qj_execution r)) \<in> set cmds))))"
proof -
  have "lease_outcome r (t + secs (queue_lease_seconds S)) {} r" using assms(6) by (rule lease_outcome_refl)
  from rounds_outcome [OF assms(2,3) this assms(4,5,7)] obtain e r' where
    r': "r' \<in> set (lease_rounds S w (qj_id r) rounds rows)" "lease_outcome r e (round_ops rounds) r'" by auto
  have "(\<exists>x. r' = r\<lparr>qj_lease_expires_at := Some x\<rparr>) \<or>
     (qj_state r' = QCompleted \<and> (\<exists>(cmds, now) \<in> set rounds. \<exists>u. (u, OAcknowledge (qj_id r)) \<in> set cmds)) \<or>
     (qj_state r' = QCancelled \<and> (\<exists>(cmds, now) \<in> set rounds. \<exists>u. (u, OCancelExecution (qj_execution r)) \<in> set cmds))"
    using r'(2) unfolding lease_outcome_def round_ops_def by fastforce
  with r'(1) lease_outcome_id [OF r'(2)] assms(4,5) renew_interval_short(1) [OF assms(1)] show ?thesis by fastforce
qed

section \<open>What a turn does\<close>

lemma persist_snapshot_frame:
  assumes "persist_snapshot S now up active force sn (d, seen) = (d', seen')"
  shows "d' = d\<lparr>worker_rows := worker_rows d'\<rparr>"
  using assms by (auto simp: persist_snapshot_def split: if_splits)

lemma save_frame:
  "wo_db (save S tn now force f w) = (wo_db w)\<lparr>worker_rows := worker_rows (wo_db (save S tn now force f w))\<rparr>"
  "wo_queue (save S tn now force f w) = wo_queue w" "wo_exec (save S tn now force f w) = wo_exec w"
  "wo_snap (save S tn now force f w) = (f (wo_snap w))\<lparr>sn_last_seen_at := Some now\<rparr>"
  by (auto simp: save_def Let_def persist_snapshot_def split: prod.splits if_splits)

lemma service_ok_worker_rows [simp]: "service_ok S (d\<lparr>worker_rows := rows\<rparr>) = service_ok S d"
  by (simp add: service_ok_def rows_ok_def jobs_good_def drawn_ids_def)

lemma save_ok [simp]: "service_ok S (wo_db (save S' tn now force f w)) = service_ok S (wo_db w)"
  by (subst save_frame(1)) simp

lemma dead_letters_ok:
  "service_ok S d \<Longrightarrow> service_ok S (fold (\<lambda>dl d. fst (handle_dead_letter now dl d)) dls d)"
proof (induction dls arbitrary: d)
  case Nil
  then show ?case by simp
next
  case (Cons dl dls)
  have "service_ok S (fst (handle_dead_letter now dl d))"
    using service_step_ok [of S "(d, init_exec_mem)" "(now, SDeadLetter dl)"] Cons.prems by simp
  with Cons.IH show ?case by simp
qed

text \<open>The environment's own steps keep the invariant of the service.\<close>

definition turn_ok :: "settings \<Rightarrow> turn \<Rightarrow> bool" where
  "turn_ok S tn \<longleftrightarrow>
     (\<forall>mem d. service_ok S d \<longrightarrow> service_ok S (snd (tn_before tn (mem, d))) \<and> service_ok S (snd (tn_during tn (mem, d)))) \<and>
     (\<forall>u d rows qm. service_ok S (d\<lparr>jobs := rows\<rparr>) \<longrightarrow> service_ok S (d\<lparr>jobs := fst (tn_others tn u (rows, qm))\<rparr>))"

lemma jobs_step_ok:
  assumes "service_ok S (d\<lparr>jobs := rows\<rparr>)" and "\<And>j. oper \<noteq> OEnqueue j"
  shows "service_ok S (d\<lparr>jobs := queue_step S (n, oper) rows\<rparr>)"
proof -
  have "service_allowed (n, SQueue oper) (d\<lparr>jobs := rows\<rparr>, init_exec_mem)" using assms(2) by (cases oper) auto
  from service_step_ok [OF _ this, of S] assms(1) show ?thesis by simp
qed

lemma execute_job_ok:
  assumes "service_ok S d" and "turn_ok S tn" and "execute_job S tn j wid (mem, d) = (res, mem', d')"
  shows "service_ok S d'"
proof (cases "execute_task (tn_start tn) (jb_etask j) wid (jb_id j) mem d")
  case (Inl e)
  with assms(1,3) show ?thesis by (simp add: execute_job_def)
next
  case (Inr x)
  obtain d1 mem1 r sent where x: "x = (d1, mem1, r, sent)" by (cases x)
  have ok1: "service_ok S d1"
    using service_step_ok [of S "(d, mem)" "(tn_start tn, SExecute (jb_etask j) wid (jb_id j))"] assms(1) Inr x by simp
  show ?thesis
  proof (cases r)
    case None
    with assms(3) Inr x ok1 show ?thesis by (simp add: execute_job_def)
  next
    case (Some run)
    obtain mem2 d2 where env: "tn_during tn (mem1, d1) = (mem2, d2)" by (cases "tn_during tn (mem1, d1)")
    have "service_ok S (snd (tn_during tn (mem1, d1)))" using assms(2) ok1 unfolding turn_ok_def by blast
    then have ok2: "service_ok S d2" by (simp add: env)
    have ok3: "service_ok S (fst (service_step S (tn_finish tn, SFinish run (tn_outcome tn)) (d2, mem2)))"
      using service_step_ok [of S "(d2, mem2)" "(tn_finish tn, SFinish run (tn_outcome tn))"] ok2 by simp
    show ?thesis
    proof (cases "finish_task S (tn_finish tn) run (tn_outcome tn) mem2 d2")
      case (Pair fin mem3)
      with assms(3) Inr x Some env ok2 ok3 show ?thesis by (cases fin) (auto simp: execute_job_def)
    qed
  qed
qed


text \<open>An exception other than a cancellation comes out of none of the service's own steps as a \<open>CancelledError\<close>.\<close>

lemma queue_item_error: "queue_item S n a i s = Inl e \<Longrightarrow> e \<noteq> CancelledError"
  by (auto simp: queue_item_def enqueue_def generate_uuid_def Let_def split: if_splits sum.splits)

lemma ready_step_error: "ready_step S n sc iid = Inl e \<Longrightarrow> e \<noteq> CancelledError"
  by (auto simp: ready_step_def split: prod.splits option.splits readiness.splits sum.splits dest: queue_item_error)

lemma fold_res_error: "fold_res f x ys = Inl e \<Longrightarrow> (\<And>x y. f x y = Inl e \<Longrightarrow> P) \<Longrightarrow> P"
  by (induction ys arbitrary: x) (auto split: sum.splits)

lemma ready_pass_error:
  assumes "ready_pass S n s = Inl e"
  shows "e \<noteq> CancelledError"
proof -
  have "fold_res (ready_step S n) (s, False) (map et_id (se_items s)) = Inl e"
    using assms by (auto simp: ready_pass_def Let_def split: if_splits sum.splits)
  then show ?thesis by (rule fold_res_error) (erule ready_step_error)
qed

lemma handle_failure_error: "handle_failure S n item jid m s = Inl e \<Longrightarrow> e \<noteq> CancelledError"
  by (auto simp: handle_failure_def tolerate_failure_def schedule_retry_def Let_def split: if_splits sum.splits
      dest: ready_pass_error queue_item_error)

lemma finish_cancelled:
  assumes "finish_task S n r out mem d = (Inl CancelledError, mem')"
  shows "out = Cancelled"
proof -
  have "fst (run_task_finish S n r out mem (resume_session r d)) = Inl CancelledError"
    using assms by (auto simp: finish_task_def Let_def split: prod.splits sum.splits)
  then show ?thesis
    by (auto simp: run_task_finish_def complete_task_def Let_def split: option.splits outcome.splits if_splits sum.splits
        dest: handle_failure_error ready_pass_error)
qed

lemma execute_cancelled:
  assumes "execute_job S tn j wid st = (Inl CancelledError, mem, d)"
  shows "tn_outcome tn = Cancelled"
  using assms by (auto simp: execute_job_def execute_task_def Let_def dest: finish_cancelled
      split: prod.splits sum.splits option.splits if_splits)

lemma worker_turn_died: "snd (worker_turn S tn w) = Died \<Longrightarrow> tn_poll_error tn = None \<and> tn_outcome tn = Cancelled"
  by (auto simp: worker_turn_def Let_def dest: execute_cancelled split: option.splits prod.splits sum.splits py_error.splits)

lemma dequeue_ok:
  assumes "service_ok S (d\<lparr>jobs := fst st\<rparr>)" and "turn_ok S tn"
  shows "case dequeue S wall (tn_others tn) wid deadline t st of (res, rows, qm) \<Rightarrow> service_ok S (d\<lparr>jobs := rows\<rparr>)"
  using assms
proof (induction S wall "tn_others tn" wid deadline t st rule: dequeue.induct)
  case (1 S wall wid deadline t st)
  obtain rows0 mem0 where st: "st = (rows0, mem0)" by (cases st)
  obtain rows mem where due: "requeue_stale_jobs_if_due S t (wall t) st = (rows, mem)"
    by (cases "requeue_stale_jobs_if_due S t (wall t) st")
  have ok: "service_ok S (d\<lparr>jobs := rows\<rparr>)"
    using requeue_if_due_rows [of S t "wall t" rows0 mem0] jobs_step_ok [where rows = rows0 and oper = OReap and n = "wall t"] "1.prems"(1) due st by auto
  obtain res rows' where cl: "claim_next_available S (wall t) [] wid rows = (res, rows')"
    by (cases "claim_next_available S (wall t) [] wid rows")
  have ok': "service_ok S (d\<lparr>jobs := rows'\<rparr>)" using jobs_step_ok [OF ok, where oper = "OClaim [] wid" and n = "wall t"] cl by simp
  show ?case
  proof (cases res)
    case (Some j)
    with ok' show ?thesis by (subst dequeue.simps) (simp add: due cl)
  next
    case None
    show ?thesis
    proof (cases "deadline - t \<le> 0")
      case True
      with ok' None show ?thesis by (subst dequeue.simps) (simp add: due cl)
    next
      case False
      have "service_ok S (d\<lparr>jobs := fst (tn_others tn t (rows', mem))\<rparr>)"
        using "1.prems"(2) ok' unfolding turn_ok_def by blast
      with "1.hyps" [OF due [symmetric] cl [symmetric] None refl False] "1.prems"(2) show ?thesis
        using False None by (subst dequeue.simps) (simp add: due cl Let_def)
    qed
  qed
qed

lemma process_dead_letters_ok:
  "service_ok S (wo_db w) \<Longrightarrow> service_ok S (wo_db (process_dead_letters now w))"
  by (simp add: process_dead_letters_def drain_dead_letters_def dead_letters_ok)

lemma worker_turn_ok:
  assumes "service_ok S (wo_db w)" and "turn_ok S tn"
  shows "service_ok S (wo_db (fst (worker_turn S tn w)))"
proof -
  define w2 where "w2 = process_dead_letters (tn_top tn) (save S tn (tn_top tn) False id w)"
  have ok2: "service_ok S (wo_db w2)" unfolding w2_def by (rule process_dead_letters_ok) (simp add: assms(1))
  show ?thesis
  proof (cases "tn_poll_error tn")
    case (Some msg)
    with ok2 show ?thesis by (simp add: worker_turn_def w2_def [symmetric])
  next
    case None
    obtain res rows qm where dq: "dequeue S (tn_wall tn) (tn_others tn) (sn_id (wo_snap w2))
        (tn_loop tn + poll_timeout S) (tn_loop tn) (jobs (wo_db w2), wo_queue w2) = (res, rows, qm)"
      by (metis prod_cases3)
    have "service_ok S ((wo_db w2)\<lparr>jobs := fst (jobs (wo_db w2), wo_queue w2)\<rparr>)" using ok2 by simp
    from dequeue_ok [OF this assms(2), where wall = "tn_wall tn" and wid = "sn_id (wo_snap w2)" and t = "tn_loop tn"
        and deadline = "tn_loop tn + poll_timeout S"] dq
    have ok3: "service_ok S ((wo_db w2)\<lparr>jobs := rows\<rparr>)" by simp
    show ?thesis
    proof (cases res)
      case None': None
      with None dq ok3 show ?thesis by (simp add: worker_turn_def w2_def [symmetric])
    next
      case (Some j)
      define w3 where "w3 = save S tn (tn_claimed tn) True (taking j) (w2\<lparr>wo_db := (wo_db w2)\<lparr>jobs := rows\<rparr>, wo_queue := qm\<rparr>)"
      have "service_ok S (wo_db w3)" unfolding w3_def using ok3 by simp
      obtain mem0 d0 where env: "tn_before tn (wo_exec w3, wo_db w3) = (mem0, d0)" by (cases "tn_before tn (wo_exec w3, wo_db w3)")
      have "service_ok S (snd (tn_before tn (wo_exec w3, wo_db w3)))"
        using assms(2) \<open>service_ok S (wo_db w3)\<close> unfolding turn_ok_def by blast
      then have ok4: "service_ok S d0" by (simp add: env)
      obtain fin mem d where ex: "execute_job S tn j (sn_id (wo_snap w3)) (mem0, d0) = (fin, mem, d)" by (metis prod_cases3)
      have "service_ok S d" by (rule execute_job_ok [OF ok4 assms(2) ex])
      then show ?thesis
        using None dq Some ex env
        by (auto simp: worker_turn_def Let_def w2_def [symmetric] w3_def [symmetric] split: sum.split py_error.split)
    qed
  qed
qed


section \<open>Instances\<close>

text \<open>Two renewals 12 seconds apart, with another worker's claim, the reaper and a foreign renewal between.\<close>

definition demo_rounds :: "((time \<times> queue_op) list \<times> time) list" where
  "demo_rounds = [([(20, OClaim [] ''w2''), (25, OReap)], 12000000), ([(13000000, ORenew ''j2'' ''w2''), (20000000, OReap)], 24000000)]"

lemma renewals_keep_lease_witness:
  "\<exists>r' \<in> set (lease_rounds default_settings ''w1'' ''j2'' demo_rounds demo_leased). qj_id r' = ''j2'' \<and> qj_state r' = QLeased"
proof -
  let ?r = "demo_leased ! 1"
  have f: "?r \<in> set demo_leased" "qj_state ?r = QLeased" "qj_leased_by ?r = Some ''w1''" "qj_id ?r = ''j2''"
    by code_simp+
  have e: "qj_lease_expires_at ?r = Some (10 + secs (queue_lease_seconds default_settings))" by code_simp
  have a: "rounds_in_time default_settings ''w1'' (qj_id ?r) 10 demo_rounds demo_leased"
    by (simp add: demo_rounds_def default_settings_def secs_def)
  from renewals_keep_lease [OF default_settings_in_range demo_leased_ok f(1-3) e a] f(4) show ?thesis
    by (auto simp: demo_rounds_def)
qed

definition quiet_turn :: turn where
  "quiet_turn = \<lparr>tn_top = 0, tn_up = (\<lambda>_. True), tn_poll_error = None, tn_wall = id, tn_loop = 10, tn_others = (\<lambda>_ st. st),
     tn_claimed = 20, tn_before = id, tn_start = 30, tn_during = id, tn_outcome = Returned None, tn_finish = 40, tn_done = 50,
     tn_text = (\<lambda>_. [])\<rparr>"

definition demo_world :: "db \<Rightarrow> world" where
  "demo_world d = \<lparr>wo_db = d, wo_queue = init_queue_mem, wo_exec = init_exec_mem, wo_snap = new_snapshot ''w1'' 0, wo_persisted = []\<rparr>"

lemma quiet_turn_ok: "turn_ok S quiet_turn"
  by (simp add: turn_ok_def quiet_turn_def)


text \<open>On that world the turn runs the task to its end.\<close>

lemma quiet_turn_runs:
  "case worker_turn default_settings quiet_turn (demo_world (service_run default_settings [trigger_it None] (shop one_task))) of
     (w, r) \<Rightarrow> r = Next \<and> statuses (wo_db w) = ([ESuccess], [TSuccess], [QCompleted]) \<and> sn_processed (wo_snap w) = 1"
  by code_simp

end
