(* ===== verification/Watchdog.thy ===== *)
theory Watchdog
  imports Service
begin

text \<open>
  \<open>services/watchdog_service.py\<close>: one pass of the watchdog. It reaps leases and fails the tasks of the
  dead letters, tells the handlers of this process about cancellations, fails tasks without a
  heartbeat, and settles executions whose tasks are all done.
\<close>

section \<open>The pass\<close>

definition enforce_cancellations :: "db \<Rightarrow> exec_mem \<Rightarrow> exec_mem" where
  "enforce_cancellations d mem =
     fold (\<lambda>eid m. snd (cancel_inflight eid m))
       (map ex_id (filter (\<lambda>e. ex_cancel_requested e \<and> ex_status e = ERunning) (executions d))) mem"

definition hung_cutoff :: "settings \<Rightarrow> time \<Rightarrow> time" where
  "hung_cutoff S now = now - secs (max_task_timeout_seconds S + worker_heartbeat_interval_seconds S * 2)"

text \<open>The \<open>WHERE\<close> clause; a comparison with \<open>NULL\<close> does not hold.\<close>

definition hung :: "settings \<Rightarrow> time \<Rightarrow> etask \<Rightarrow> bool" where
  "hung S now i \<longleftrightarrow> et_status i = TRunning \<and>
     (case et_heartbeat_at i of
        None \<Rightarrow> (case et_started_at i of None \<Rightarrow> False | Some t \<Rightarrow> t < hung_cutoff S now)
      | Some t \<Rightarrow> t < hung_cutoff S now)"

definition hung_error :: string where
  "hung_error = ''Task heartbeat was lost; the worker likely crashed or hung.''"

definition hung_letter :: "etask \<Rightarrow> dead_letter" where
  "hung_letter i = \<lparr>dl_id = [], dl_etask = et_id i, dl_execution = et_execution i,
     dl_task = get_or (et_task i) [], dl_tenant = [], dl_attempts = 0, dl_error = hung_error\<rparr>"

definition handle_all :: "time \<Rightarrow> dead_letter list \<Rightarrow> db \<Rightarrow> db" where
  "handle_all now dls d = fold (\<lambda>dl d. fst (handle_dead_letter now dl d)) dls d"

definition reap_hung_tasks :: "settings \<Rightarrow> time \<Rightarrow> db \<Rightarrow> db" where
  "reap_hung_tasks S now d = handle_all now (map hung_letter (filter (hung S now) (etasks d))) d"

definition orphan_candidates :: "db \<Rightarrow> execution list" where
  "orphan_candidates d =
     take 200 (sort_key ex_updated_at (filter (\<lambda>e. ex_status e \<in> {ERunning, EPending}) (executions d)))"

definition tasks_of :: "uid \<Rightarrow> db \<Rightarrow> etask list" where
  "tasks_of eid d = filter (\<lambda>i. et_execution i = eid) (etasks d)"

definition settled :: "etask list \<Rightarrow> bool" where
  "settled items \<longleftrightarrow> items \<noteq> [] \<and> (\<forall>i \<in> set items. et_status i \<notin> ACTIVE_STATES)"

definition finalize_if_settled :: "time \<Rightarrow> uid \<Rightarrow> db \<Rightarrow> db" where
  "finalize_if_settled now eid d =
     (if settled (tasks_of eid d) then fst (finalize_execution now eid d) else d)"

definition finalize_orphaned_executions :: "time \<Rightarrow> db \<Rightarrow> db" where
  "finalize_orphaned_executions now d = fold (finalize_if_settled now) (map ex_id (orphan_candidates d)) d"

text \<open>\<open>run_once\<close>, at the times its steps read the clock.\<close>

definition watchdog_once :: "settings \<Rightarrow> time \<Rightarrow> time \<Rightarrow> time \<Rightarrow> time \<Rightarrow> db \<times> queue_mem \<times> exec_mem \<Rightarrow> db \<times> queue_mem \<times> exec_mem" where
  "watchdog_once S t1 t2 t3 t4 st = (case st of (d, qm, mem) \<Rightarrow>
     case requeue_stale_jobs t1 (jobs d, qm) of (dead, rows, qm1) \<Rightarrow>
       let d1 = handle_all t2 dead (d\<lparr>jobs := rows\<rparr>);
           qm2 = snd (drain_dead_letters qm1);
           mem1 = enforce_cancellations d1 mem;
           d2 = reap_hung_tasks S t3 d1
       in (finalize_orphaned_executions t4 d2, qm2, mem1))"

section \<open>The pass keeps the invariant\<close>

lemma handle_all_Cons [simp]: "handle_all now (dl # dls) d = handle_all now dls (fst (handle_dead_letter now dl d))"
  and handle_all_Nil [simp]: "handle_all now [] d = d"
  by (simp_all add: handle_all_def)

lemma handle_dead_letter_ok: "service_ok S d \<Longrightarrow> service_ok S (fst (handle_dead_letter now dl d))"
  using service_step_ok [of S "(d, init_exec_mem)" "(now, SDeadLetter dl)"] by simp

lemma handle_all_ok: "service_ok S d \<Longrightarrow> service_ok S (handle_all now dls d)"
  by (induction dls arbitrary: d) (simp_all add: handle_dead_letter_ok)

lemma finalize_if_settled_ok: "service_ok S d \<Longrightarrow> service_ok S (finalize_if_settled now eid d)"
  using service_step_ok [of S "(d, init_exec_mem)" "(now, SFinalize eid)"] by (simp add: finalize_if_settled_def)

lemma finalize_orphaned_ok: "service_ok S d \<Longrightarrow> service_ok S (finalize_orphaned_executions now d)"
proof -
  have "service_ok S d \<Longrightarrow> service_ok S (fold (finalize_if_settled now) eids d)" for eids
    by (induction eids arbitrary: d) (simp_all add: finalize_if_settled_ok)
  then show "service_ok S d \<Longrightarrow> ?thesis" by (simp add: finalize_orphaned_executions_def)
qed

lemma watchdog_keeps_ok:
  assumes "service_ok S d" and "watchdog_once S t1 t2 t3 t4 (d, qm, mem) = (d', qm', mem')"
  shows "service_ok S d'"
proof -
  have "service_ok S (d\<lparr>jobs := queue_step S (t1, OReap) (jobs d)\<rparr>)" by (rule service_ok_jobs [OF assms(1)]) simp
  moreover have "snd (requeue_stale_jobs t1 (jobs d, qm)) =
      (queue_step S (t1, OReap) (jobs d), snd (snd (requeue_stale_jobs t1 (jobs d, qm))))"
    by (simp add: requeue_stale_jobs_def Let_def)
  ultimately show ?thesis using assms(2)
    by (auto simp: watchdog_once_def Let_def reap_hung_tasks_def requeue_stale_jobs_def
        intro!: finalize_orphaned_ok handle_all_ok)
qed

section \<open>What a dead letter does to the tasks\<close>

lemma load_session_total:
  assumes "service_ok S d" and "i \<in> set (etasks d)"
  obtains s where "load_session (et_execution i) d = Some s"
proof -
  have "et_execution i \<in> ex_id ` set (executions d)" using assms unfolding service_ok_def by blast
  then have "find (\<lambda>e. ex_id e = et_execution i) (executions d) \<noteq> None" unfolding find_None_iff by auto
  with that show ?thesis by (auto simp: load_session_def)
qed

lemma rows_of_tasks:
  assumes "rows_of eid d' = rows_of eid d" and "load_session eid d = Some s"
  shows "tasks_of eid d' = tasks_of eid d"
  using assms load_session_SomeD(4) [of eid d] load_session_SomeD(4) [of eid d']
  by (auto simp: rows_of_def tasks_of_def)

lemma rows_of_subset: "rows_of eid d = Some (e, items) \<Longrightarrow> set items \<subseteq> set (etasks d)"
  by (auto simp: rows_of_def dest!: load_session_SomeD(4))

lemma handled_task:
  assumes ok: "service_ok S d" and i: "i \<in> set (etasks d)" "et_status i \<noteq> TPending"
  shows "(if et_id i = dl_etask dl \<and> et_status i \<notin> {TSuccess, TFailed, TSkipped}
     then i\<lparr>et_status := TFailed, et_finished_at := Some now, et_error := Some (dl_error dl)\<rparr> else i)
    \<in> set (etasks (fst (handle_dead_letter now dl d)))"
proof (cases "find (\<lambda>x. et_id x = dl_etask dl) (etasks d)")
  case None
  then have "et_id i \<noteq> dl_etask dl" using i(1) unfolding find_None_iff by blast
  with None i(1) show ?thesis by (simp add: handle_dead_letter_def)
next
  case (Some item)
  have it: "item \<in> set (etasks d)" "et_id item = dl_etask dl" using find_SomeD [OF Some] by simp_all
  have ids: "distinct (map et_id (etasks d))" using ok by (simp add: service_ok_def rows_ok_def)
  have same: "i = item" if "et_id i = et_id item" using that i(1) it(1) ids by (auto simp: distinct_map inj_on_def)
  show ?thesis
  proof (cases "et_status item \<in> {TSuccess, TFailed, TSkipped}")
    case True
    with i same it Some show ?thesis by (auto simp: handle_dead_letter_def)
  next
    case False
    obtain s where s: "load_session (et_execution item) d = Some s" by (rule load_session_total [OF ok it(1)])
    define s1 where "s1 = dead_letter_session now dl item s"
    have d': "fst (handle_dead_letter now dl d) = commit s s1"
      using Some False s by (simp add: handle_dead_letter_def Let_def s1_def)
    have run: "Inr (dead_letter_session now dl item s) = (Inr s1 :: session res)" by (simp add: s1_def)
    note rows = dead_letter_prog.rows_after [OF rows_ok_service [OF ok] s run]
    have mem: "x \<in> set (etasks (commit s s1))" if "x \<in> set (se_items s1)" for x
      using rows_of_subset [OF rows(1)] that by blast
    show ?thesis
    proof (cases "et_execution i = et_execution item")
      case False
      then have "rows_of (et_execution i) (commit s s1) = rows_of (et_execution i) d" by (rule rows(2))
      moreover obtain s2 where "load_session (et_execution i) d = Some s2" by (rule load_session_total [OF ok i(1)])
      ultimately have "tasks_of (et_execution i) (commit s s1) = tasks_of (et_execution i) d" by (rule rows_of_tasks)
      moreover have "i \<in> set (tasks_of (et_execution i) d)" using i(1) by (simp add: tasks_of_def)
      ultimately have "i \<in> set (tasks_of (et_execution i) (commit s s1))" by simp
      then have "i \<in> set (etasks (commit s s1))" by (simp add: tasks_of_def)
      moreover have "et_id i \<noteq> dl_etask dl" using False same it(2) by auto
      ultimately show ?thesis by (simp add: d')
    next
      case True
      let ?fin = "\<lambda>i. i\<lparr>et_status := TFailed, et_finished_at := Some now, et_error := Some (dl_error dl)\<rparr>"
      let ?t = "write_log now (''Task '' @ quoted (et_name item) @ '' dead-lettered after '' @ int_str (dl_attempts dl) @
                '' attempts: '' @ dl_error dl) ''ERROR'' (Some (et_id item)) (finish_item now (et_id item) TFailed (Some (dl_error dl)) s)"
      have items: "se_items ?t = upd_where (\<lambda>x. et_id x = et_id item) ?fin (se_items s)"
        by (simp add: finish_item_def write_log_def on_db_def set_item_def)
      have "i \<in> set (se_items s)" using i(1) True load_session_SomeD(4) [OF s] by simp
      then have "(if et_id i = et_id item then ?fin i else i) \<in> set (se_items ?t)"
        unfolding items by (auto simp: set_upd_where)
      moreover have "distinct (map et_id (se_items ?t))"
        using service_ok_session(1) [OF ok s] unfolding items by (simp add: map_upd_where pass_ok_def)
      ultimately have "(if et_id i = et_id item then ?fin i else i) \<in> set (se_items (fail_downstream now ?t))"
        using i(2) by (intro fail_downstream_finished) auto
      then have "(if et_id i = et_id item then ?fin i else i) \<in> set (se_items s1)"
        by (simp add: s1_def dead_letter_session_def Let_def finalize_session_def broadcast_def)
      from mem [OF this] show ?thesis
        using it(2) same False by (auto simp: d' split: if_splits)
    qed
  qed
qed


text \<open>A task in a final state is never touched, whatever letters come.\<close>

lemma handled_final:
  assumes "service_ok S d" and "i \<in> set (etasks d)" and "et_status i \<in> {TSuccess, TFailed, TSkipped}"
  shows "i \<in> set (etasks (handle_all now dls d))"
  using assms
proof (induction dls arbitrary: d)
  case Nil
  then show ?case by simp
next
  case (Cons dl dls)
  have "i \<in> set (etasks (fst (handle_dead_letter now dl d)))"
    using handled_task [OF Cons.prems(1,2), of dl now] Cons.prems(3) by (auto split: if_splits)
  from Cons.IH [OF handle_dead_letter_ok [OF Cons.prems(1)] this Cons.prems(3)] show ?case by simp
qed

lemma handled_tasks:
  assumes "service_ok S d" and "i \<in> set (etasks d)" and "et_status i \<noteq> TPending"
  shows "if et_id i \<in> dl_etask ` set dls \<and> et_status i \<notin> {TSuccess, TFailed, TSkipped}
     then \<exists>i' \<in> set (etasks (handle_all now dls d)). et_id i' = et_id i \<and> et_status i' = TFailed \<and>
       et_finished_at i' = Some now \<and> et_error i' \<in> (\<lambda>dl. Some (dl_error dl)) ` set dls
     else i \<in> set (etasks (handle_all now dls d))"
  using assms
proof (induction dls arbitrary: d)
  case Nil
  then show ?case by simp
next
  case (Cons dl dls)
  let ?d = "fst (handle_dead_letter now dl d)"
  let ?i = "i\<lparr>et_status := TFailed, et_finished_at := Some now, et_error := Some (dl_error dl)\<rparr>"
  note step = handled_task [OF Cons.prems, of dl now]
  have ok: "service_ok S ?d" by (rule handle_dead_letter_ok [OF Cons.prems(1)])
  show ?case
  proof (cases "et_id i = dl_etask dl \<and> et_status i \<notin> {TSuccess, TFailed, TSkipped}")
    case True
    then have now: "?i \<in> set (etasks ?d)" using step by simp
    have "i' \<in> X \<Longrightarrow> i' = ?i \<Longrightarrow> \<exists>i' \<in> X. et_id i' = et_id i \<and> et_status i' = TFailed \<and>
       et_finished_at i' = Some now \<and> et_error i' \<in> (\<lambda>dl. Some (dl_error dl)) ` set (dl # dls)" for X i'
      by (intro bexI [of _ i']) auto
    moreover have "?i \<in> set (etasks (handle_all now dls ?d))"
      by (rule handled_final [OF ok now]) simp
    ultimately show ?thesis using True by simp
  next
    case False
    then have "i \<in> set (etasks ?d)" using step by (auto split: if_splits)
    from Cons.IH [OF ok this Cons.prems(3)] False show ?thesis by (auto split: if_splits)
  qed
qed


section \<open>Hung tasks\<close>

lemma py_round_mono: "x \<le> y \<Longrightarrow> py_round x \<le> py_round y"
proof -
  assume le: "x \<le> y"
  then have f: "\<lfloor>x\<rfloor> \<le> \<lfloor>y\<rfloor>" by (rule floor_mono)
  have b: "py_round z = \<lfloor>z\<rfloor> \<or> py_round z = \<lfloor>z\<rfloor> + 1" for z by (auto simp: py_round_def Let_def)
  show ?thesis
  proof (cases "\<lfloor>x\<rfloor> = \<lfloor>y\<rfloor>")
    case True
    with le show ?thesis by (auto simp: py_round_def Let_def)
  next
    case False
    with f have "\<lfloor>x\<rfloor> + 1 \<le> \<lfloor>y\<rfloor>" by simp
    with b [of x] b [of y] show ?thesis by auto
  qed
qed

lemma timedelta_le_secs: "x \<le> of_int n \<Longrightarrow> timedelta_s x \<le> secs n"
  unfolding timedelta_s_of_int [symmetric] by (simp add: timedelta_s_def py_round_mono)

text \<open>C24. The watchdog fails a running task exactly when its heartbeat is older than the longest allowed run
  plus two heartbeat intervals: such a task becomes failed with the watchdog's message, every other task
  that has started stays as it is, and a task is never taken for hung before its own timeout is over.\<close>

theorem watchdog_reaps_hung_tasks:
  assumes "service_ok S d" and "i \<in> set (etasks d)" and "et_status i \<noteq> TPending"
  shows "(hung S now i \<longrightarrow> (\<exists>i' \<in> set (etasks (reap_hung_tasks S now d)). et_id i' = et_id i \<and>
      et_status i' = TFailed \<and> et_finished_at i' = Some now \<and> et_error i' = Some hung_error)) \<and>
    (\<not> hung S now i \<longrightarrow> i \<in> set (etasks (reap_hung_tasks S now d))) \<and>
    (settings_in_range S \<and> et_heartbeat_at i = Some h \<and> now \<le> h + timedelta_s (task_timeout S i) \<longrightarrow> \<not> hung S now i)"
proof -
  let ?dls = "map hung_letter (filter (hung S now) (etasks d))"
  have "distinct (map et_id (etasks d))" using assms(1) by (simp add: service_ok_def rows_ok_def)
  then have iff: "et_id i \<in> dl_etask ` set ?dls \<longleftrightarrow> hung S now i"
    using assms(2) by (auto simp: hung_letter_def distinct_map inj_on_def image_iff)
  have err: "x \<in> (\<lambda>dl. Some (dl_error dl)) ` set ?dls \<Longrightarrow> x = Some hung_error" for x
    by (auto simp: hung_letter_def)
  have run: "hung S now i \<Longrightarrow> et_status i = TRunning" by (simp add: hung_def)
  note h = handled_tasks [OF assms, of ?dls now, folded reap_hung_tasks_def, unfolded iff]
  have "timedelta_s (task_timeout S i) \<le> secs (max_task_timeout_seconds S)"
    by (simp add: timedelta_le_secs task_timeout_def)
  then have "\<not> hung S now i" if "settings_in_range S" "et_heartbeat_at i = Some h" "now \<le> h + timedelta_s (task_timeout S i)"
    using that by (auto simp: hung_def hung_cutoff_def settings_in_range_def between_def secs_def)
  with h run err show ?thesis by (auto split: if_splits)
qed

section \<open>Orphaned executions\<close>

lemma rows_ofE:
  assumes "rows_of eid d = Some (e, items)"
  obtains s where "load_session eid d = Some s" and "se_exec s = e" and "se_items s = items"
  using assms by (auto simp: rows_of_def)

lemma settled_status:
  assumes "settled (se_items s)"
  shows "ex_status (se_exec (finalize_session now s)) \<in> TERMINAL_EXECUTION_STATES"
proof -
  let ?states = "et_status ` set (se_items s)"
  have ne: "?states \<noteq> {}" and none: "?states \<inter> ACTIVE_STATES = {}" using assms by (auto simp: settled_def)
  have "ex_status (se_exec (finalize_session now s)) = status_of_states (ex_cancel_requested (se_exec s)) ?states"
    using ne by (simp add: finalize_session_def Let_def broadcast_def refresh_execution_status_def)
  moreover have "status_of_states c ?states \<noteq> ERunning" for c using running_needs_active [OF ne] none by blast
  moreover have "status_of_states c ?states \<noteq> EPending" for c by (rule status_of_states_spec(5) [OF ne])
  ultimately have "ex_status (se_exec (finalize_session now s)) \<notin> {ERunning, EPending}" by simp
  then show ?thesis
    by (cases "ex_status (se_exec (finalize_session now s))") (simp_all add: TERMINAL_EXECUTION_STATES_def)
qed

lemma finalize_if_settled_rows:
  assumes ok: "service_ok S d" and r: "rows_of eid d = Some (e, items)"
  shows "\<exists>e'. rows_of eid (finalize_if_settled now eid0 d) = Some (e', items) \<and>
    (if eid0 = eid \<and> settled items then ex_status e' \<in> TERMINAL_EXECUTION_STATES else e' = e)"
proof (cases "settled (tasks_of eid0 d)")
  case False
  moreover have "tasks_of eid d = items" using r load_session_SomeD(4) by (auto elim!: rows_ofE simp: tasks_of_def)
  ultimately show ?thesis using r by (auto simp: finalize_if_settled_def)
next
  case True
  have tasks: "tasks_of eid d = items" using r load_session_SomeD(4) by (auto elim!: rows_ofE simp: tasks_of_def)
  show ?thesis
  proof (cases "load_session eid0 d")
    case None
    with r True have "eid0 \<noteq> eid" by (auto simp: rows_of_def)
    with None r True show ?thesis by (simp add: finalize_if_settled_def finalize_execution_def)
  next
    case (Some s)
    define s1 where "s1 = finalize_session now s"
    have d': "finalize_if_settled now eid0 d = commit s s1"
      using True Some by (simp add: finalize_if_settled_def finalize_execution_def Let_def s1_def)
    have run: "Inr (finalize_session now s) = (Inr s1 :: session res)" by (simp add: s1_def)
    note rows = finalize_prog.rows_after [OF rows_ok_service [OF ok] Some run]
    show ?thesis
    proof (cases "eid0 = eid")
      case False
      with rows(2) [of eid] r show ?thesis by (simp add: d')
    next
      case same: True
      have items: "se_items s = items" using load_session_SomeD(4) [OF Some] tasks same by (simp add: tasks_of_def)
      have "se_items s1 = se_items s" by (simp add: s1_def finalize_session_def Let_def broadcast_def)
      moreover have "ex_status (se_exec s1) \<in> TERMINAL_EXECUTION_STATES"
        unfolding s1_def by (rule settled_status) (use True tasks same items in simp)
      ultimately show ?thesis using rows(1) same True tasks items unfolding d' by simp
    qed
  qed
qed

lemma finalize_fold_rows:
  assumes "service_ok S d" and "rows_of eid d = Some (e, items)"
  shows "\<exists>e'. rows_of eid (fold (finalize_if_settled now) eids d) = Some (e', items) \<and>
    (if eid \<in> set eids \<and> settled items then ex_status e' \<in> TERMINAL_EXECUTION_STATES else e' = e)"
  using assms
proof (induction eids arbitrary: d e)
  case Nil
  then show ?case by simp
next
  case (Cons eid0 eids)
  from finalize_if_settled_rows [OF Cons.prems, of now eid0] obtain e1 where
    e1: "rows_of eid (finalize_if_settled now eid0 d) = Some (e1, items)"
      "if eid0 = eid \<and> settled items then ex_status e1 \<in> TERMINAL_EXECUTION_STATES else e1 = e" by blast
  from Cons.IH [OF finalize_if_settled_ok [OF Cons.prems(1)] e1(1)] e1(2) show ?case by (auto split: if_splits)
qed

text \<open>C25. Orphaned executions do not stay open: as long as at most 200 executions are open, every execution all
  of whose tasks are done has a final status after the watchdog's pass, its tasks unchanged; an
  execution that still has a task to run is not touched.\<close>

theorem watchdog_settles_orphans:
  assumes "service_ok S d" and "length (filter (\<lambda>e. ex_status e \<in> {ERunning, EPending}) (executions d)) \<le> 200"
    and "rows_of eid d = Some (e, items)"
  shows "\<exists>e'. rows_of eid (finalize_orphaned_executions now d) = Some (e', items) \<and>
    (settled items \<longrightarrow> ex_status e' \<in> TERMINAL_EXECUTION_STATES) \<and> (\<not> settled items \<longrightarrow> e' = e)"
proof -
  let ?open = "filter (\<lambda>e. ex_status e \<in> {ERunning, EPending}) (executions d)"
  have cand: "set (orphan_candidates d) = set ?open" using assms(2) by (simp add: orphan_candidates_def)
  have e: "e \<in> set (executions d)" "ex_id e = eid"
    using assms(3) load_session_SomeD(2,3) by (auto elim!: rows_ofE)
  from finalize_fold_rows [OF assms(1,3), of now "map ex_id (orphan_candidates d)"] obtain e' where
    e': "rows_of eid (finalize_orphaned_executions now d) = Some (e', items)"
      "if eid \<in> ex_id ` set (orphan_candidates d) \<and> settled items then ex_status e' \<in> TERMINAL_EXECUTION_STATES else e' = e"
    by (auto simp: finalize_orphaned_executions_def)
  show ?thesis
  proof (cases "ex_status e \<in> {ERunning, EPending}")
    case True
    with e have "eid \<in> ex_id ` set (orphan_candidates d)" unfolding cand by force
    with e' show ?thesis by auto
  next
    case False
    then have "ex_status e \<in> TERMINAL_EXECUTION_STATES" by (cases "ex_status e") (auto simp: TERMINAL_EXECUTION_STATES_def)
    with e' show ?thesis by (auto split: if_splits)
  qed
qed


section \<open>Dead letters in the buffer\<close>

text \<open>
  The watchdog drains the buffer that the workers of the same process read, without looking at it:
  what a worker's own reaper has put there is dropped, and its task stays running until it is hung.
\<close>

lemma watchdog_drops_buffer:
  "watchdog_once S t1 t2 t3 t4 (d, qm, mem) =
     (case watchdog_once S t1 t2 t3 t4 (d, qm\<lparr>dead_letter_buffer := []\<rparr>, mem) of (d', qm', mem') \<Rightarrow> (d', qm', mem'))"
  by (simp add: watchdog_once_def requeue_stale_jobs_def drain_dead_letters_def Let_def split: prod.splits)

section \<open>Instances\<close>

definition hung_demo :: db where
  "hung_demo = service_run default_settings [trigger_it None, (1, SQueue (OClaim [] ''w1'')), (2, SExecute ''u1'' ''w1'' ''u5'')] (shop one_task)"

lemma hung_demo_ok: "service_ok default_settings hung_demo"
proof -
  let ?c2 = "(1, SQueue (OClaim [] ''w1'')) :: time \<times> service_op"
  have "service_ok default_settings (fst (service_step default_settings (trigger_it None) (shop one_task, init_exec_mem)))"
    by (rule service_step_ok) (simp_all add: shop_ok trigger_it_def)
  then have "service_ok default_settings (fst (service_step default_settings ?c2
      (service_step default_settings (trigger_it None) (shop one_task, init_exec_mem))))"
    by (rule service_step_ok) simp
  then have "service_ok default_settings (fst (service_step default_settings (2, SExecute ''u1'' ''w1'' ''u5'')
      (service_step default_settings ?c2 (service_step default_settings (trigger_it None) (shop one_task, init_exec_mem)))))"
    by (rule service_step_ok) simp
  then show ?thesis by (simp only: hung_demo_def service_run_def foldl.simps)
qed

lemma hung_demo_states: "statuses hung_demo = ([ERunning], [TRunning], [QLeased])"
  by code_simp

text \<open>Long after the worker was last heard of, the task is hung and the watchdog fails it.\<close>

lemma watchdog_reaps_hung_tasks_witness:
  "\<exists>i' \<in> set (etasks (reap_hung_tasks default_settings 1000000000000 hung_demo)). et_status i' = TFailed \<and> et_error i' = Some hung_error"
proof -
  let ?i = "hd (etasks hung_demo)"
  have i: "?i \<in> set (etasks hung_demo)" "et_status ?i \<noteq> TPending" and h: "hung default_settings 1000000000000 ?i"
    by code_simp+
  from watchdog_reaps_hung_tasks [OF hung_demo_ok i] h show ?thesis by blast
qed

definition orphan_demo :: db where
  "orphan_demo = hung_demo\<lparr>etasks := map (\<lambda>i. i\<lparr>et_status := TSuccess\<rparr>) (etasks hung_demo)\<rparr>"

lemma orphan_demo_ok: "service_ok default_settings orphan_demo"
  using hung_demo_ok by (simp add: orphan_demo_def service_ok_def rows_ok_def jobs_good_def drawn_ids_def comp_def image_image)

lemma watchdog_settles_orphans_witness:
  "\<exists>e' items. rows_of ''u0'' (finalize_orphaned_executions 5 orphan_demo) = Some (e', items) \<and> ex_status e' \<in> TERMINAL_EXECUTION_STATES"
proof -
  have "case rows_of ''u0'' orphan_demo of None \<Rightarrow> False | Some (e, items) \<Rightarrow> settled items" by code_simp
  then obtain e items where r: "rows_of ''u0'' orphan_demo = Some (e, items)" and st: "settled items"
    by (auto split: option.splits)
  have "length (filter (\<lambda>e. ex_status e \<in> {ERunning, EPending}) (executions orphan_demo)) \<le> 200" by code_simp
  from watchdog_settles_orphans [OF orphan_demo_ok this r, of 5] st show ?thesis by blast
qed

end
