(* ===== verification/Security.thy ===== *)
theory Security
  imports Service
begin

text \<open>
  \<open>core/security.py\<close> and \<open>services/audit_service.py\<close>: the caller of a request, the order of the
  roles, and the audit trail. Hashing, signatures and random keys are parameters where they are used.
\<close>

record principal =
  pr_tenant :: uid
  pr_tenant_name :: string
  pr_key :: uid
  pr_key_name :: string
  pr_role :: string

definition ROLE_LEVELS :: "string \<Rightarrow> int option" where
  "ROLE_LEVELS = map_of [(''viewer'', 1), (''operator'', 2), (''admin'', 3)]"

definition level :: "principal \<Rightarrow> int" where
  "level p = get_or (ROLE_LEVELS (pr_role p)) 0"

text \<open>\<open>Principal.require\<close>; \<open>ROLE_LEVELS[minimum]\<close> raises \<open>KeyError\<close> for an unknown role.\<close>

definition require :: "string \<Rightarrow> principal \<Rightarrow> unit res" where
  "require minimum p = (case ROLE_LEVELS minimum of
     None \<Rightarrow> Inl (KeyError minimum)
   | Some needed \<Rightarrow> if level p < needed
       then Inl (ApiError 403 ''forbidden'' (''This action requires the '' @ quoted minimum @ '' role.'')) else Inr ())"

lemma require_roles [simp]:
  "require ''viewer'' p = Inr () \<longleftrightarrow> pr_role p \<in> {''viewer'', ''operator'', ''admin''}"
  "require ''operator'' p = Inr () \<longleftrightarrow> pr_role p \<in> {''operator'', ''admin''}"
  "require ''admin'' p = Inr () \<longleftrightarrow> pr_role p = ''admin''"
  by (auto simp: require_def level_def ROLE_LEVELS_def get_or_def)

text \<open>A caller who passes a check passes every weaker one.\<close>

lemma require_monotone:
  assumes "require r p = Inr ()" and "ROLE_LEVELS m = Some a" and "ROLE_LEVELS r = Some b" and "a \<le> b"
  shows "require m p = Inr ()"
  using assms by (auto simp: require_def split: if_splits)

definition actor_label :: "principal \<Rightarrow> string" where
  "actor_label p = pr_key_name p @ '' ('' @ pr_role p @ '')''"

definition audit_write :: "time \<Rightarrow> principal option \<Rightarrow> string \<Rightarrow> string \<Rightarrow> string \<Rightarrow> json \<Rightarrow> uid option \<Rightarrow> db \<Rightarrow> db" where
  "audit_write now p action rtype rid details tenant d = (case generate_uuid d of (i, d') \<Rightarrow>
     d'\<lparr>audits := audits d' @ [\<lparr>au_id = i,
        au_tenant = (case p of Some q \<Rightarrow> pr_tenant q | None \<Rightarrow> get_or tenant []),
        au_actor_key = map_option pr_key p,
        au_actor_label = (case p of Some q \<Rightarrow> actor_label q | None \<Rightarrow> ''system''),
        au_action = action, au_resource_type = rtype, au_resource_id = rid, au_details = details,
        au_created_at = now\<rparr>]\<rparr>)"

lemma audit_write_frame [simp, frame_simps]:
  "tenants (audit_write n p a r i x t d) = tenants d"
  "api_keys (audit_write n p a r i x t d) = api_keys d"
  "executions (audit_write n p a r i x t d) = executions d"
  "etasks (audit_write n p a r i x t d) = etasks d"
  "elogs (audit_write n p a r i x t d) = elogs d"
  "jobs (audit_write n p a r i x t d) = jobs d"
  "workflows (audit_write n p a r i x t d) = workflows d"
  "revisions (audit_write n p a r i x t d) = revisions d"
  "task_defs (audit_write n p a r i x t d) = task_defs d"
  "secrets (audit_write n p a r i x t d) = secrets d"
  "endpoints (audit_write n p a r i x t d) = endpoints d"
  "deliveries (audit_write n p a r i x t d) = deliveries d"
  "schedules (audit_write n p a r i x t d) = schedules d"
  "outbox (audit_write n p a r i x t d) = outbox d"
  "uuid_supply (audit_write n p a r i x t d) = uuid_supply d"
  "uuid_draws (audit_write n p a r i x t d) = Suc (uuid_draws d)"
  "outer_tables (audit_write n p a r i x t d) = outer_tables d"
  by (simp_all add: audit_write_def generate_uuid_def)

text \<open>What the service invariant depends on: its tables and the drawn identifiers.\<close>

lemma service_ok_frame:
  assumes "service_ok S d" and "executions d' = executions d" and "jobs d' = jobs d"
    and "map (\<lambda>i. (et_id i, et_execution i)) (etasks d') = map (\<lambda>i. (et_id i, et_execution i)) (etasks d)"
    and "uuid_supply d' = uuid_supply d" and "uuid_draws d \<le> uuid_draws d'"
  shows "service_ok S d'"
proof -
  have sub: "drawn_ids d \<subseteq> drawn_ids d'" using assms(5,6) by (auto simp: drawn_ids_def)
  from arg_cong [OF assms(4), of "map fst"] have ids: "map et_id (etasks d') = map et_id (etasks d)" by (simp add: comp_def)
  from arg_cong [OF assms(4), of "map snd"] have ex: "map et_execution (etasks d') = map et_execution (etasks d)" by (simp add: comp_def)
  have "et_id ` set (etasks d') = et_id ` set (etasks d)" "et_execution ` set (etasks d') = et_execution ` set (etasks d)"
    using ids ex by (metis set_map)+
  with assms ids sub show ?thesis unfolding service_ok_def rows_ok_def jobs_good_def by (auto; blast)
qed

end
