(* ===== verification/Schemas.thy ===== *)
theory Schemas
  imports Service
begin

text \<open>
  \<open>schemas/workflow.py\<close>: what pydantic and the validators accept, and the normal form of what they
  accept. A payload is modelled after JSON decoding, with an absent key as \<open>None\<close>; \<open>None\<close> as a
  result is a \<open>ValidationError\<close>, which the API answers with status 422.
\<close>

section \<open>Task configurations\<close>

text \<open>The keys of a configuration that are not fields, for \<open>extra = "forbid"\<close>.\<close>

record raw_task = task_spec +
  rt_extra :: "string list"

definition fill_config :: "task_config \<Rightarrow> task_config" where
  "fill_config c = c\<lparr>
     cf_type := Some (get_or (cf_type c) ''sleep''), cf_duration_ms := Some (get_or (cf_duration_ms c) 800),
     cf_max_retries := Some (get_or (cf_max_retries c) 0), cf_fail_first_n := Some (get_or (cf_fail_first_n c) 0),
     cf_backoff_seconds := Some (get_or (cf_backoff_seconds c) 1), cf_delay_seconds := Some (get_or (cf_delay_seconds c) 0),
     cf_priority := Some (get_or (cf_priority c) 0), cf_timeout_seconds := Some (get_or (cf_timeout_seconds c) 60),
     cf_method := Some (get_or (cf_method c) ''GET'')\<rparr>"

definition opt_all :: "('a \<Rightarrow> bool) \<Rightarrow> 'a option \<Rightarrow> bool" where
  "opt_all P x = (case x of None \<Rightarrow> True | Some a \<Rightarrow> P a)"

lemma opt_all_simps [simp]: "opt_all P None" "opt_all P (Some a) \<longleftrightarrow> P a"
  by (simp_all add: opt_all_def)

text \<open>The \<open>Field\<close> constraints and literals, on the filled configuration.\<close>

definition config_fields_ok :: "task_config \<Rightarrow> bool" where
  "config_fields_ok c \<longleftrightarrow>
     opt_all (\<lambda>t. t \<in> {''sleep'', ''http'', ''echo''}) (cf_type c) \<and>
     opt_all (between 100 300000) (cf_duration_ms c) \<and> opt_all (between 0 10) (cf_max_retries c) \<and>
     opt_all (between 0 10) (cf_fail_first_n c) \<and> opt_all (between 0 3600) (cf_backoff_seconds c) \<and>
     opt_all (between 0 3600) (cf_delay_seconds c) \<and> opt_all (between 0 100) (cf_priority c) \<and>
     opt_all (\<lambda>t. between 1 86400 t \<and> t = of_int \<lfloor>t\<rfloor>) (cf_timeout_seconds c) \<and>
     opt_all (\<lambda>m. m \<in> {''GET'', ''POST'', ''PUT'', ''PATCH'', ''DELETE''}) (cf_method c) \<and>
     opt_all (\<lambda>u. length u \<le> 2048) (cf_url c) \<and> opt_all (\<lambda>b. length b \<le> 20000) (cf_body c) \<and>
     opt_all (between 100 599) (cf_expected_status c) \<and> opt_all (\<lambda>m. length m \<le> 2000) (cf_message c)"

definition has_newline :: "string \<Rightarrow> bool" where
  "has_newline s \<longleftrightarrow> CHR 0x0D \<in> set s \<or> CHR 0x0A \<in> set s"

definition validate_headers :: "(string \<times> string) list \<Rightarrow> unit res" where
  "validate_headers hs = (if \<exists>(n, v) \<in> set hs. has_newline (n @ v)
     then Inl (ValueError ''Header names and values cannot contain newlines.'') else Inr ())"

definition validate_retry_bounds :: "task_config \<Rightarrow> unit res" where
  "validate_retry_bounds c =
     (if get_or (cf_max_retries c) 0 + 1 < get_or (cf_fail_first_n c) 0
        then Inl (ValueError ''fail_first_n cannot exceed max_retries + 1.'')
      else if get_or (cf_type c) ''sleep'' = ''http'' \<and> get_or (cf_url c) [] = []
        then Inl (ValueError ''HTTP tasks require a url.'')
      else if 20 < length (cf_headers c) then Inl (ValueError ''A task can define at most 20 headers.'')
      else Inr ())"

definition make_config :: "string list \<Rightarrow> task_config \<Rightarrow> task_config option" where
  "make_config extra raw = (let c = fill_config raw in
     if extra = [] \<and> config_fields_ok c \<and> validate_headers (cf_headers c) = Inr () \<and> validate_retry_bounds c = Inr ()
       then Some c else None)"

section \<open>Tasks and workflows\<close>

definition normalize_name :: "string \<Rightarrow> string option" where
  "normalize_name value = (let normalized = py_strip value in if normalized = [] then None else Some normalized)"

text \<open>\<open>Field(min_length=1, max_length=255)\<close> is checked before the validator strips.\<close>

definition make_name :: "string \<Rightarrow> string option" where
  "make_name value = (if 1 \<le> length value \<and> length value \<le> 255 then normalize_name value else None)"

fun normalize_loop :: "string list \<Rightarrow> string list \<Rightarrow> string list" where
  "normalize_loop cleaned [] = cleaned"
| "normalize_loop cleaned (item # items) = (let dependency = py_strip item in
     if dependency = [] then normalize_loop cleaned items
     else if dependency \<notin> set cleaned then normalize_loop (cleaned @ [dependency]) items
     else normalize_loop cleaned items)"

definition normalize_dependencies :: "string list \<Rightarrow> string list" where
  "normalize_dependencies items = normalize_loop [] items"

definition make_task :: "raw_task \<Rightarrow> task_spec option" where
  "make_task raw =
     (case (make_name (ts_name raw), make_config (rt_extra raw) (ts_config raw)) of
        (Some n, Some c) \<Rightarrow>
          if length (ts_deps raw) \<le> 100
            then Some \<lparr>ts_name = n, ts_deps = normalize_dependencies (ts_deps raw), ts_config = c\<rparr> else None
      | _ \<Rightarrow> None)"

fun all_some :: "('a \<Rightarrow> 'b option) \<Rightarrow> 'a list \<Rightarrow> 'b list option" where
  "all_some f [] = Some []"
| "all_some f (x # xs) = (case (f x, all_some f xs) of (Some y, Some ys) \<Rightarrow> Some (y # ys) | _ \<Rightarrow> None)"

definition make_tasks :: "raw_task list \<Rightarrow> task_spec list option" where
  "make_tasks raws = (if length raws \<le> 200 \<and> raws \<noteq> [] then all_some make_task raws else None)"

record workflow_create =
  wc_name :: string
  wc_description :: "string option"
  wc_tasks :: "task_spec list"

record workflow_update =
  wu_name :: "string option"
  wu_description :: "string option"
  wu_tasks :: "task_spec list option"

definition make_create :: "string \<Rightarrow> string option \<Rightarrow> raw_task list \<Rightarrow> workflow_create option" where
  "make_create name desc raws =
     (case (make_name name, make_tasks raws) of
        (Some n, Some ts) \<Rightarrow> if opt_all (\<lambda>s. length s \<le> 2000) desc
          then Some \<lparr>wc_name = n, wc_description = desc, wc_tasks = ts\<rparr> else None
      | _ \<Rightarrow> None)"

definition make_update :: "string option \<Rightarrow> string option \<Rightarrow> raw_task list option \<Rightarrow> workflow_update option" where
  "make_update name desc raws =
     (let n = (case name of None \<Rightarrow> Some None | Some v \<Rightarrow> map_option Some (make_name v));
          ts = (case raws of None \<Rightarrow> Some None | Some rs \<Rightarrow> map_option Some (make_tasks rs))
      in case (n, ts) of
        (Some n', Some ts') \<Rightarrow> if opt_all (\<lambda>s. length s \<le> 2000) desc
          then Some \<lparr>wu_name = n', wu_description = desc, wu_tasks = ts'\<rparr> else None
      | _ \<Rightarrow> None)"

text \<open>\<open>WorkflowCloneRequest\<close>: the name is not stripped here.\<close>

definition clone_request_ok :: "string option \<Rightarrow> bool" where
  "clone_request_ok name \<longleftrightarrow> opt_all (\<lambda>s. 1 \<le> length s \<and> length s \<le> 255) name"

text \<open>\<open>ScheduleCreate\<close>; \<open>cron_valid\<close> is \<open>croniter.is_valid\<close>.\<close>

definition validate_trigger :: "(string \<Rightarrow> bool) \<Rightarrow> string option \<Rightarrow> int option \<Rightarrow> unit res" where
  "validate_trigger cron_valid cron interval =
     (if get_or cron [] = [] \<and> get_or interval 0 = 0 then Inl (ValueError ''Provide either a cron expression or an interval.'')
      else if get_or cron [] \<noteq> [] \<and> \<not> cron_valid (get_or cron []) then Inl (ValueError ''Invalid cron expression.'')
      else Inr ())"

definition schedule_request_ok :: "(string \<Rightarrow> bool) \<Rightarrow> string option \<Rightarrow> int option \<Rightarrow> bool" where
  "schedule_request_ok cron_valid cron interval \<longleftrightarrow> opt_all (\<lambda>c. length c \<le> 120) cron \<and>
     opt_all (between 10 31536000) interval \<and> validate_trigger cron_valid cron interval = Inr ()"

section \<open>What a parsed payload is\<close>

definition normal_name :: "string \<Rightarrow> bool" where
  "normal_name s \<longleftrightarrow> s \<noteq> [] \<and> length s \<le> 255 \<and> py_strip s = s"

definition normal_deps :: "string list \<Rightarrow> bool" where
  "normal_deps ds \<longleftrightarrow> distinct ds \<and> length ds \<le> 100 \<and> (\<forall>d \<in> set ds. d \<noteq> [] \<and> py_strip d = d)"

definition complete_config :: "task_config \<Rightarrow> bool" where
  "complete_config c \<longleftrightarrow> cf_type c \<noteq> None \<and> cf_duration_ms c \<noteq> None \<and> cf_max_retries c \<noteq> None \<and>
     cf_fail_first_n c \<noteq> None \<and> cf_backoff_seconds c \<noteq> None \<and> cf_delay_seconds c \<noteq> None \<and> cf_priority c \<noteq> None \<and>
     cf_timeout_seconds c \<noteq> None \<and> cf_method c \<noteq> None \<and> config_fields_ok c \<and>
     validate_headers (cf_headers c) = Inr () \<and> validate_retry_bounds c = Inr ()"

definition normal_task :: "task_spec \<Rightarrow> bool" where
  "normal_task t \<longleftrightarrow> normal_name (ts_name t) \<and> normal_deps (ts_deps t) \<and> complete_config (ts_config t)"

lemma get_or_simps [simp]: "get_or None y = y" "get_or (Some x) y = x"
  by (simp_all add: get_or_def)

lemma py_strip_length: "length (py_strip s) \<le> length s"
  by (simp add: py_strip_def) (metis length_dropWhile_le length_rev order_trans)

lemma make_name_normal: "make_name s = Some n \<Longrightarrow> normal_name n"
  using py_strip_length [of s] by (auto simp: make_name_def normalize_name_def normal_name_def Let_def split: if_splits)

lemma make_name_id: "normal_name n \<Longrightarrow> make_name n = Some n"
  by (cases n) (auto simp: make_name_def normalize_name_def normal_name_def Let_def)

definition clean :: "string list \<Rightarrow> bool" where
  "clean ds \<longleftrightarrow> distinct ds \<and> (\<forall>d \<in> set ds. d \<noteq> [] \<and> py_strip d = d)"

lemma clean_snoc: "clean ds \<Longrightarrow> py_strip x \<noteq> [] \<Longrightarrow> py_strip x \<notin> set ds \<Longrightarrow> clean (ds @ [py_strip x])"
  by (auto simp: clean_def)

lemma normalize_loop_spec:
  "clean cleaned \<Longrightarrow> clean (normalize_loop cleaned items) \<and>
     length (normalize_loop cleaned items) \<le> length cleaned + length items"
proof (induction items arbitrary: cleaned)
  case Nil
  then show ?case by simp
next
  case (Cons item items)
  show ?case
  proof (cases "py_strip item = [] \<or> py_strip item \<in> set cleaned")
    case True
    then have "normalize_loop cleaned (item # items) = normalize_loop cleaned items" by (auto simp: Let_def)
    with Cons.IH [OF Cons.prems] show ?thesis by simp
  next
    case False
    then have eq: "normalize_loop cleaned (item # items) = normalize_loop (cleaned @ [py_strip item]) items"
      by (simp add: Let_def)
    have "clean (cleaned @ [py_strip item])" using False Cons.prems by (simp add: clean_snoc)
    from Cons.IH [OF this] show ?thesis unfolding eq by simp
  qed
qed

lemma normalize_loop_id:
  "distinct (cleaned @ items) \<Longrightarrow> \<forall>d \<in> set items. d \<noteq> [] \<and> py_strip d = d \<Longrightarrow> normalize_loop cleaned items = cleaned @ items"
  by (induction items arbitrary: cleaned) (auto simp: Let_def)

lemma normalize_dependencies_normal: "length ds \<le> 100 \<Longrightarrow> normal_deps (normalize_dependencies ds)"
  using normalize_loop_spec [of "[]" ds] by (auto simp: normal_deps_def normalize_dependencies_def clean_def)

lemma normalize_dependencies_id: "normal_deps ds \<Longrightarrow> normalize_dependencies ds = ds"
  using normalize_loop_id [of "[]" ds] by (simp add: normal_deps_def normalize_dependencies_def)

lemma make_config_complete: "make_config extra raw = Some c \<Longrightarrow> complete_config c"
  by (auto simp: make_config_def Let_def complete_config_def fill_config_def split: if_splits)

lemma fill_config_id: "complete_config c \<Longrightarrow> fill_config c = c"
  by (cases c) (auto simp: complete_config_def fill_config_def)

lemma make_config_id: "complete_config c \<Longrightarrow> make_config [] c = Some c"
  by (simp add: make_config_def fill_config_id) (simp add: complete_config_def)

lemma make_task_normal: "make_task raw = Some t \<Longrightarrow> normal_task t"
  by (auto simp: make_task_def normal_task_def make_name_normal make_config_complete normalize_dependencies_normal
      split: option.splits if_splits)

definition raw_of :: "task_spec \<Rightarrow> raw_task" where
  "raw_of t = \<lparr>ts_name = ts_name t, ts_deps = ts_deps t, ts_config = ts_config t, rt_extra = []\<rparr>"

lemma make_task_id: "normal_task t \<Longrightarrow> make_task (raw_of t) = Some t"
  by (simp add: make_task_def raw_of_def normal_task_def make_name_id make_config_id normalize_dependencies_id)
    (simp add: normal_deps_def)

lemma all_some_length: "all_some f xs = Some ys \<Longrightarrow> length ys = length xs"
  by (induction xs arbitrary: ys) (auto split: option.splits)

lemma all_some_members: "all_some f xs = Some ys \<Longrightarrow> y \<in> set ys \<Longrightarrow> \<exists>x \<in> set xs. f x = Some y"
  by (induction xs arbitrary: ys) (auto split: option.splits)

lemma all_some_map: "(\<And>y. y \<in> set ys \<Longrightarrow> f (g y) = Some y) \<Longrightarrow> all_some f (map g ys) = Some ys"
  by (induction ys) auto

definition normal_tasks :: "task_spec list \<Rightarrow> bool" where
  "normal_tasks ts \<longleftrightarrow> ts \<noteq> [] \<and> length ts \<le> 200 \<and> (\<forall>t \<in> set ts. normal_task t)"

lemma make_tasks_normal: "make_tasks raws = Some ts \<Longrightarrow> normal_tasks ts"
  using all_some_length [of make_task raws ts] all_some_members [of make_task raws ts] make_task_normal
  by (auto simp: make_tasks_def normal_tasks_def split: if_splits)

lemma make_tasks_id: "normal_tasks ts \<Longrightarrow> make_tasks (map raw_of ts) = Some ts"
  by (simp add: make_tasks_def normal_tasks_def all_some_map make_task_id)

section \<open>Properties\<close>

lemma make_create_fields:
  assumes "make_create name desc raws = Some p"
  shows "normal_name (wc_name p)" and "normal_tasks (wc_tasks p)" and "wc_description p = desc"
    and "opt_all (\<lambda>s. length s \<le> 2000) desc"
  using assms make_name_normal [of name] make_tasks_normal [of raws]
  by (auto simp: make_create_def split: option.splits if_splits)

lemma make_create_id:
  assumes "normal_name n" and "normal_tasks ts" and "opt_all (\<lambda>s. length s \<le> 2000) desc"
  shows "make_create n desc (map raw_of ts) = Some \<lparr>wc_name = n, wc_description = desc, wc_tasks = ts\<rparr>"
  using assms by (simp add: make_create_def make_name_id make_tasks_id)


text \<open>Parsing is a normal form: what a payload parses to, dumped and parsed again, is itself. So a stored
  document can be exported, imported and cloned without change.\<close>

theorem reparse_identity:
  assumes "make_create name desc raws = Some p"
  shows "make_create (wc_name p) (wc_description p) (map raw_of (wc_tasks p)) = Some p"
  using make_create_id [of "wc_name p" "wc_tasks p" desc] make_create_fields [OF assms] by simp

section \<open>Instances\<close>

definition messy_payload :: "raw_task list" where
  "messy_payload = [
     \<lparr>ts_name = '' extract '', ts_deps = [], ts_config = empty_config, rt_extra = []\<rparr>,
     \<lparr>ts_name = ''load'', ts_deps = ['' extract'', ''extract'', '' ''],
       ts_config = empty_config\<lparr>cf_type := Some ''http'', cf_url := Some ''https://db'', cf_max_retries := Some 2,
         cf_fail_first_n := Some 3\<rparr>, rt_extra = []\<rparr>]"

lemma messy_payload_parses:
  "case make_create '' etl '' None messy_payload of
     Some p \<Rightarrow> wc_name p = ''etl'' \<and> map ts_deps (wc_tasks p) = [[], [''extract'']] | None \<Rightarrow> False"
  by code_simp

lemma messy_payload_some: obtains p where "make_create '' etl '' None messy_payload = Some p" "wc_name p = ''etl''"
  using messy_payload_parses by (cases "make_create '' etl '' None messy_payload") auto

lemma unknown_key_refused: "make_config [''retries''] empty_config = None"
  by code_simp


lemma reparse_identity_witness:
  "\<exists>p. make_create '' etl '' None messy_payload = Some p \<and> make_create ''etl'' None (map raw_of (wc_tasks p)) = Some p"
proof -
  obtain p where p: "make_create '' etl '' None messy_payload = Some p" "wc_name p = ''etl''" by (rule messy_payload_some)
  from reparse_identity [OF p(1)] p make_create_fields(3) [OF p(1)] show ?thesis by simp
qed

end
