(* ===== verification/Workflows.thy ===== *)
theory Workflows
  imports Security Schemas
begin

text \<open>
  \<open>services/workflow_service.py\<close>, \<open>repositories/workflow_repository.py\<close> and
  \<open>controllers/workflow_controller.py\<close>: the catalogue of workflows and their revisions.

  A service method checks first and writes later; what other sessions commit in between is the
  argument \<open>others\<close>. The database session flushes before a bulk \<open>DELETE\<close> (\<open>autoflush\<close>), so a name
  taken meanwhile surfaces there, outside the \<open>try\<close> around the commit. Identifiers are not empty.
\<close>

section \<open>The repository\<close>

definition get_workflow :: "uid \<Rightarrow> uid \<Rightarrow> bool \<Rightarrow> db \<Rightarrow> workflow option" where
  "get_workflow tenant wid include_archived d =
     find (\<lambda>w. wf_id w = wid \<and> wf_tenant w = tenant \<and> (include_archived \<or> \<not> wf_is_archived w)) (workflows d)"

definition revs_of :: "uid \<Rightarrow> db \<Rightarrow> wf_revision list" where
  "revs_of wid d = filter (\<lambda>r. rv_workflow r = wid) (revisions d)"

definition get_latest_revision :: "uid \<Rightarrow> db \<Rightarrow> wf_revision option" where
  "get_latest_revision wid d = latest_revision (revs_of wid d)"

definition list_revisions_repo :: "uid \<Rightarrow> db \<Rightarrow> wf_revision list" where
  "list_revisions_repo wid d = sort_key (\<lambda>r. - rv_revision r) (revs_of wid d)"

definition name_exists :: "uid \<Rightarrow> string \<Rightarrow> uid option \<Rightarrow> db \<Rightarrow> bool" where
  "name_exists tenant name exclude d \<longleftrightarrow>
     (\<exists>w \<in> set (workflows d). wf_tenant w = tenant \<and> wf_name w = name \<and>
        (get_or exclude [] \<noteq> [] \<longrightarrow> wf_id w \<noteq> get_or exclude []))"

definition list_workflows :: "uid \<Rightarrow> nat \<Rightarrow> nat \<Rightarrow> bool \<Rightarrow> db \<Rightarrow> workflow list \<times> int" where
  "list_workflows tenant limit offset include_archived d =
     (let ws = filter (\<lambda>w. wf_tenant w = tenant \<and> (include_archived \<or> \<not> wf_is_archived w)) (workflows d)
      in (take limit (drop offset (sort_key (\<lambda>w. - wf_created_at w) ws)), int (length ws)))"

section \<open>Writing a revision\<close>

definition insert_task_def :: "time \<Rightarrow> uid \<Rightarrow> task_spec \<Rightarrow> db \<Rightarrow> db" where
  "insert_task_def now wid t d = (case generate_uuid d of (i, d') \<Rightarrow>
     d'\<lparr>task_defs := task_defs d' @ [\<lparr>td_id = i, td_workflow = wid, td_name = ts_name t, td_deps = ts_deps t,
        td_config = ts_config t, td_created_at = now\<rparr>]\<rparr>)"

definition insert_revision :: "time \<Rightarrow> uid \<Rightarrow> uid \<Rightarrow> string \<Rightarrow> wf_document \<Rightarrow> db \<Rightarrow> db" where
  "insert_revision now wid tenant actor doc d = (case generate_uuid d of (i, d') \<Rightarrow>
     d'\<lparr>revisions := revisions d' @ [\<lparr>rv_id = i, rv_workflow = wid, rv_tenant = tenant,
        rv_revision = doc_revision doc, rv_document = doc, rv_created_by = actor, rv_created_at = now\<rparr>]\<rparr>)"

definition write_document :: "time \<Rightarrow> uid \<Rightarrow> uid \<Rightarrow> string \<Rightarrow> wf_document \<Rightarrow> db \<Rightarrow> db" where
  "write_document now wid tenant actor doc d =
     insert_revision now wid tenant actor doc (fold (insert_task_def now wid) (doc_tasks doc) d)"

text \<open>\<open>DELETE FROM tasks\<close>: the execution tasks that point to a deleted row are set to \<open>NULL\<close>.\<close>

definition delete_task_defs :: "uid \<Rightarrow> db \<Rightarrow> db" where
  "delete_task_defs wid d =
     (let gone = td_id ` set (filter (\<lambda>t. td_workflow t = wid) (task_defs d))
      in d\<lparr>task_defs := del_where (\<lambda>t. td_workflow t = wid) (task_defs d),
           etasks := upd_where (\<lambda>i. case et_task i of None \<Rightarrow> False | Some t \<Rightarrow> t \<in> gone)
             (\<lambda>i. i\<lparr>et_task := None\<rparr>) (etasks d)\<rparr>)"

section \<open>The service\<close>

type_synonym wf_result = "(workflow \<times> db) res"

definition or_string :: "string option \<Rightarrow> string \<Rightarrow> string" where
  "or_string x y = (case x of None \<Rightarrow> y | Some s \<Rightarrow> if s = [] then y else s)"

definition not_found :: "py_error" where
  "not_found = ApiError 404 ''not_found'' ''Workflow not found.''"

definition name_conflict :: "py_error" where
  "name_conflict = ApiError 409 ''conflict'' ''A workflow with this name already exists.''"

definition create_workflow :: "time \<Rightarrow> (db \<Rightarrow> db) \<Rightarrow> uid \<Rightarrow> workflow_create \<Rightarrow> string \<Rightarrow> string option \<Rightarrow> db \<Rightarrow> wf_result" where
  "create_workflow now others tenant payload actor name_override d =
     (let name = py_strip (or_string name_override (wc_name payload)) in
      case validate (wc_tasks payload) of
        Inl e \<Rightarrow> Inl e
      | Inr _ \<Rightarrow>
          if name_exists tenant name None d then Inl name_conflict
          else (let d1 = others d in
            if name_exists tenant name None d1 then Inl IntegrityError
            else (case generate_uuid d1 of (wid, d2) \<Rightarrow>
              let w = \<lparr>wf_id = wid, wf_tenant = tenant, wf_name = name, wf_description = wc_description payload,
                    wf_current_revision = 1, wf_is_archived = False, wf_created_at = now, wf_updated_at = now\<rparr>;
                  doc = \<lparr>doc_name = name, doc_description = wc_description payload, doc_revision = 1, doc_tasks = wc_tasks payload\<rparr>;
                  d3 = write_document now wid tenant actor doc (d2\<lparr>workflows := workflows d1 @ [w]\<rparr>)
              in (case get_workflow tenant wid True d3 of
                    None \<Rightarrow> Inl (ApiError 500 ''internal_error'' ''Workflow not found after creation.'')
                  | Some w' \<Rightarrow> Inr (w', d3)))))"

text \<open>Of the row, the flush writes the columns that changed.\<close>

definition update_row :: "time \<Rightarrow> workflow \<Rightarrow> string \<Rightarrow> string option \<Rightarrow> int \<Rightarrow> workflow \<Rightarrow> workflow" where
  "update_row now w name desc revno r = r\<lparr>wf_name := merge3 (wf_name w) name (wf_name r),
     wf_description := merge3 (wf_description w) desc (wf_description r),
     wf_current_revision := revno, wf_updated_at := now\<rparr>"

definition update_workflow :: "time \<Rightarrow> (db \<Rightarrow> db) \<Rightarrow> uid \<Rightarrow> uid \<Rightarrow> workflow_update \<Rightarrow> string \<Rightarrow> db \<Rightarrow> wf_result" where
  "update_workflow now others tenant wid payload actor d =
     (case get_workflow tenant wid False d of
        None \<Rightarrow> Inl not_found
      | Some w \<Rightarrow>
          (case get_latest_revision (wf_id w) d of
             None \<Rightarrow> Inl (AttributeError ''document'')
           | Some r \<Rightarrow>
               let name = or_string (wu_name payload) (wf_name w);
                   desc = (case wu_description payload of Some s \<Rightarrow> Some s | None \<Rightarrow> wf_description w);
                   tasks = get_or (wu_tasks payload) (doc_tasks (rv_document r)) in
               (case (case wu_tasks payload of Some ts \<Rightarrow> validate ts | None \<Rightarrow> Inr ()) of
                  Inl e \<Rightarrow> Inl e
                | Inr _ \<Rightarrow>
                    if name \<noteq> wf_name w \<and> name_exists tenant name (Some (wf_id w)) d then Inl name_conflict
                    else
                      let d1 = others d; revno = wf_current_revision w + 1;
                          doc = \<lparr>doc_name = name, doc_description = desc, doc_revision = revno, doc_tasks = tasks\<rparr> in
                      if name \<noteq> wf_name w \<and> name_exists tenant name (Some (wf_id w)) d1 then Inl IntegrityError
                      else if \<not> distinct (map ts_name tasks) \<or> (\<exists>r' \<in> set (revs_of (wf_id w) d1). rv_revision r' = revno)
                        then Inl (ApiError 409 ''conflict'' ''Workflow update conflicted with another change.'')
                      else
                        let d2 = d1\<lparr>workflows := upd_where (\<lambda>x. wf_id x = wf_id w) (update_row now w name desc revno) (workflows d1)\<rparr>;
                            d3 = write_document now (wf_id w) tenant actor doc (delete_task_defs (wf_id w) d2)
                        in (case get_workflow tenant (wf_id w) True d3 of
                              None \<Rightarrow> Inl (ApiError 500 ''internal_error'' ''Workflow disappeared after update.'')
                            | Some w' \<Rightarrow> Inr (w', d3)))))"

definition archive_workflow :: "time \<Rightarrow> uid \<Rightarrow> uid \<Rightarrow> db \<Rightarrow> db res" where
  "archive_workflow now tenant wid d =
     (case get_workflow tenant wid True d of
        None \<Rightarrow> Inl not_found
      | Some w \<Rightarrow> Inr (d\<lparr>workflows := upd_where (\<lambda>x. wf_id x = wf_id w)
          (\<lambda>x. x\<lparr>wf_is_archived := True, wf_updated_at := now\<rparr>) (workflows d)\<rparr>))"

text \<open>\<open>WorkflowCreate(**document)\<close>: the revision number is a key the schema ignores.\<close>

definition parse_document :: "wf_document \<Rightarrow> workflow_create option" where
  "parse_document doc = make_create (doc_name doc) (doc_description doc) (map raw_of (doc_tasks doc))"

definition clone_workflow :: "time \<Rightarrow> (db \<Rightarrow> db) \<Rightarrow> uid \<Rightarrow> uid \<Rightarrow> string option \<Rightarrow> string \<Rightarrow> db \<Rightarrow> wf_result" where
  "clone_workflow now others tenant wid name actor d =
     (case get_workflow tenant wid True d of
        None \<Rightarrow> Inl not_found
      | Some w \<Rightarrow>
          (case get_latest_revision (wf_id w) d of
             None \<Rightarrow> Inl (AttributeError ''document'')
           | Some r \<Rightarrow>
               (case parse_document (rv_document r) of
                  None \<Rightarrow> Inl ValidationError
                | Some payload \<Rightarrow>
                    create_workflow now others tenant payload actor (Some (or_string name (wf_name w @ '' copy''))) d)))"

definition export_workflow :: "uid \<Rightarrow> uid \<Rightarrow> db \<Rightarrow> wf_document res" where
  "export_workflow tenant wid d =
     (case get_workflow tenant wid True d of
        None \<Rightarrow> Inl not_found
      | Some w \<Rightarrow> (case get_latest_revision (wf_id w) d of
          None \<Rightarrow> Inl (AttributeError ''document'') | Some r \<Rightarrow> Inr (rv_document r)))"

definition list_revisions :: "uid \<Rightarrow> uid \<Rightarrow> db \<Rightarrow> wf_revision list res" where
  "list_revisions tenant wid d =
     (case get_workflow tenant wid True d of
        None \<Rightarrow> Inl not_found | Some w \<Rightarrow> Inr (list_revisions_repo (wf_id w) d))"

section \<open>The controller\<close>

definition invalid_dag :: "py_error \<Rightarrow> py_error" where
  "invalid_dag e = (case e of DagValidationError m \<Rightarrow> ApiError 400 ''invalid_dag'' m | _ \<Rightarrow> e)"

definition workflow_create_ctl :: "time \<Rightarrow> (db \<Rightarrow> db) \<Rightarrow> principal \<Rightarrow> workflow_create \<Rightarrow> db \<Rightarrow> wf_result" where
  "workflow_create_ctl now others p payload d =
     (case create_workflow now others (pr_tenant p) payload (actor_label p) None d of
        Inl e \<Rightarrow> Inl (invalid_dag e)
      | Inr (w, d') \<Rightarrow> Inr (w, audit_write now (Some p) ''workflow.created'' ''workflow'' (wf_id w)
          (JObj [(''name'', JStr (wf_name w))]) None d'))"

definition workflow_get_ctl :: "principal \<Rightarrow> uid \<Rightarrow> db \<Rightarrow> workflow res" where
  "workflow_get_ctl p wid d = (case get_workflow (pr_tenant p) wid True d of None \<Rightarrow> Inl not_found | Some w \<Rightarrow> Inr w)"

definition workflow_update_ctl :: "time \<Rightarrow> (db \<Rightarrow> db) \<Rightarrow> principal \<Rightarrow> uid \<Rightarrow> workflow_update \<Rightarrow> db \<Rightarrow> wf_result" where
  "workflow_update_ctl now others p wid payload d =
     (case update_workflow now others (pr_tenant p) wid payload (actor_label p) d of
        Inl e \<Rightarrow> Inl (invalid_dag e)
      | Inr (w, d') \<Rightarrow> Inr (w, audit_write now (Some p) ''workflow.updated'' ''workflow'' (wf_id w)
          (JObj [(''revision'', JInt (wf_current_revision w))]) None d'))"

definition workflow_delete_ctl :: "time \<Rightarrow> principal \<Rightarrow> uid \<Rightarrow> db \<Rightarrow> db res" where
  "workflow_delete_ctl now p wid d =
     (case archive_workflow now (pr_tenant p) wid d of
        Inl e \<Rightarrow> Inl e
      | Inr d' \<Rightarrow> Inr (audit_write now (Some p) ''workflow.archived'' ''workflow'' wid (JObj []) None d'))"

definition workflow_clone_ctl :: "time \<Rightarrow> (db \<Rightarrow> db) \<Rightarrow> principal \<Rightarrow> uid \<Rightarrow> string option \<Rightarrow> db \<Rightarrow> wf_result" where
  "workflow_clone_ctl now others p wid name d =
     (case clone_workflow now others (pr_tenant p) wid name (actor_label p) d of
        Inl e \<Rightarrow> Inl e
      | Inr (w, d') \<Rightarrow> Inr (w, audit_write now (Some p) ''workflow.cloned'' ''workflow'' (wf_id w)
          (JObj [(''source'', JStr wid)]) None d'))"

section \<open>What writing a revision does to the tables\<close>

definition def_spec :: "task_definition \<Rightarrow> task_spec" where
  "def_spec t = \<lparr>ts_name = td_name t, ts_deps = td_deps t, ts_config = td_config t\<rparr>"

text \<open>The tables of the running service, with a possibly longer list of drawn identifiers.\<close>

definition service_same :: "db \<Rightarrow> db \<Rightarrow> bool" where
  "service_same d d' \<longleftrightarrow> executions d' = executions d \<and> jobs d' = jobs d \<and>
     map (\<lambda>i. (et_id i, et_execution i)) (etasks d') = map (\<lambda>i. (et_id i, et_execution i)) (etasks d) \<and>
     uuid_supply d' = uuid_supply d \<and> uuid_draws d \<le> uuid_draws d'"

lemma service_same_refl [simp]: "service_same d d"
  by (simp add: service_same_def)

lemma service_same_trans: "service_same a b \<Longrightarrow> service_same b c \<Longrightarrow> service_same a c"
  by (auto simp: service_same_def)

lemma service_same_ok: "service_ok S d \<Longrightarrow> service_same d d' \<Longrightarrow> service_ok S d'"
  unfolding service_same_def by (elim conjE) (rule service_ok_frame)

lemma insert_task_defs:
  "\<exists>ys. task_defs (fold (insert_task_def now wid) ts d) = task_defs d @ ys \<and> map def_spec ys = ts \<and>
     (\<forall>y \<in> set ys. td_workflow y = wid) \<and>
     map td_id ys = map (uuid_supply d) [uuid_draws d ..< uuid_draws d + length ts] \<and>
     workflows (fold (insert_task_def now wid) ts d) = workflows d \<and>
     revisions (fold (insert_task_def now wid) ts d) = revisions d \<and>
     uuid_draws (fold (insert_task_def now wid) ts d) = uuid_draws d + length ts \<and>
     service_same d (fold (insert_task_def now wid) ts d)"
proof (induction ts arbitrary: d)
  case Nil
  then show ?case by simp
next
  case (Cons t ts)
  let ?y = "\<lparr>td_id = uuid_supply d (uuid_draws d), td_workflow = wid, td_name = ts_name t, td_deps = ts_deps t,
        td_config = ts_config t, td_created_at = now\<rparr>"
  let ?d = "d\<lparr>uuid_draws := Suc (uuid_draws d), task_defs := task_defs d @ [?y]\<rparr>"
  have step: "insert_task_def now wid t d = ?d" by (simp add: insert_task_def_def generate_uuid_def)
  from Cons.IH [of ?d] obtain ys where ys: "task_defs (fold (insert_task_def now wid) ts ?d) = task_defs ?d @ ys"
    "map def_spec ys = ts" "\<forall>y \<in> set ys. td_workflow y = wid"
    "map td_id ys = map (uuid_supply ?d) [uuid_draws ?d ..< uuid_draws ?d + length ts]"
    and same: "workflows (fold (insert_task_def now wid) ts ?d) = workflows ?d"
    "revisions (fold (insert_task_def now wid) ts ?d) = revisions ?d"
    "uuid_draws (fold (insert_task_def now wid) ts ?d) = uuid_draws ?d + length ts"
    "service_same ?d (fold (insert_task_def now wid) ts ?d)" by blast
  have "service_same d ?d" by (simp add: service_same_def)
  note ss = service_same_trans [OF this same(4)]
  have up: "[uuid_draws d ..< uuid_draws d + length (t # ts)] = uuid_draws d # [uuid_draws ?d ..< uuid_draws ?d + length ts]"
    by (subst upt_conv_Cons) simp_all
  have y: "def_spec ?y = t" by (simp add: def_spec_def)
  from ys same(1-3) show ?case
    unfolding fold_simps(2) step up by (intro exI [of _ "?y # ys"] conjI ss) (simp_all add: y del: upt_Suc)
qed

lemma write_document_tables:
  obtains ys r where "task_defs (write_document now wid tenant actor doc d) = task_defs d @ ys"
    "map def_spec ys = doc_tasks doc" "\<forall>y \<in> set ys. td_workflow y = wid"
    "map td_id ys = map (uuid_supply d) [uuid_draws d ..< uuid_draws d + length (doc_tasks doc)]"
    "revisions (write_document now wid tenant actor doc d) = revisions d @ [r]"
    "rv_workflow r = wid" "rv_tenant r = tenant" "rv_revision r = doc_revision doc" "rv_document r = doc" "rv_created_by r = actor"
    "workflows (write_document now wid tenant actor doc d) = workflows d"
    "uuid_draws (write_document now wid tenant actor doc d) = Suc (uuid_draws d + length (doc_tasks doc))"
    "service_same d (write_document now wid tenant actor doc d)"
proof -
  let ?f = "fold (insert_task_def now wid) (doc_tasks doc) d"
  from insert_task_defs [of now wid "doc_tasks doc" d] obtain ys where
    f: "task_defs ?f = task_defs d @ ys" "map def_spec ys = doc_tasks doc" "\<forall>y \<in> set ys. td_workflow y = wid"
    "map td_id ys = map (uuid_supply d) [uuid_draws d ..< uuid_draws d + length (doc_tasks doc)]"
    "workflows ?f = workflows d" "revisions ?f = revisions d" "uuid_draws ?f = uuid_draws d + length (doc_tasks doc)"
    "service_same d ?f" by blast
  have "service_same ?f (write_document now wid tenant actor doc d)"
    by (simp add: service_same_def write_document_def insert_revision_def generate_uuid_def)
  from service_same_trans [OF f(8) this] f(1-7) show ?thesis
    by (intro that) (auto simp: write_document_def insert_revision_def generate_uuid_def)
qed

section \<open>The invariant of the catalogue\<close>

definition doc_ok :: "uid \<Rightarrow> wf_revision \<Rightarrow> bool" where
  "doc_ok tenant r \<longleftrightarrow> rv_tenant r = tenant \<and> doc_revision (rv_document r) = rv_revision r \<and>
     normal_tasks (doc_tasks (rv_document r)) \<and> validate (doc_tasks (rv_document r)) = Inr ()"

definition defs_of :: "uid \<Rightarrow> db \<Rightarrow> task_definition list" where
  "defs_of wid d = filter (\<lambda>t. td_workflow t = wid) (task_defs d)"

text \<open>
  A workflow: revisions 1 to the current one, in that order, each a valid document; name, description and
  task definitions are those of the last.
\<close>

definition wf_good :: "db \<Rightarrow> workflow \<Rightarrow> bool" where
  "wf_good d w \<longleftrightarrow> 1 \<le> wf_current_revision w \<and>
     map rv_revision (revs_of (wf_id w) d) = [1..wf_current_revision w] \<and>
     (\<forall>r \<in> set (revs_of (wf_id w) d). doc_ok (wf_tenant w) r) \<and>
     doc_name (rv_document (last (revs_of (wf_id w) d))) = wf_name w \<and>
     doc_description (rv_document (last (revs_of (wf_id w) d))) = wf_description w \<and>
     map def_spec (defs_of (wf_id w) d) = doc_tasks (rv_document (last (revs_of (wf_id w) d)))"

definition workflows_ok :: "db \<Rightarrow> bool" where
  "workflows_ok d \<longleftrightarrow> inj (uuid_supply d) \<and> distinct (map wf_id (workflows d)) \<and>
     distinct (map (\<lambda>w. (wf_tenant w, wf_name w)) (workflows d)) \<and>
     distinct (map td_id (task_defs d)) \<and>
     wf_id ` set (workflows d) \<subseteq> drawn_ids d \<and> td_id ` set (task_defs d) \<subseteq> drawn_ids d \<and>
     rv_workflow ` set (revisions d) \<subseteq> wf_id ` set (workflows d) \<and>
     td_workflow ` set (task_defs d) \<subseteq> wf_id ` set (workflows d) \<and>
     (\<forall>w \<in> set (workflows d). wf_good d w)"

lemma wf_good_cong:
  "revs_of (wf_id w) d' = revs_of (wf_id w) d \<Longrightarrow> defs_of (wf_id w) d' = defs_of (wf_id w) d \<Longrightarrow> wf_good d w \<Longrightarrow> wf_good d' w"
  by (simp add: wf_good_def)

lemma wf_good_latest:
  assumes "wf_good d w"
  shows "revs_of (wf_id w) d \<noteq> []" and "get_latest_revision (wf_id w) d = Some (last (revs_of (wf_id w) d))"
    and "sort_key rv_revision (revs_of (wf_id w) d) = revs_of (wf_id w) d"
    and "rv_revision (last (revs_of (wf_id w) d)) = wf_current_revision w"
    and "doc_ok (wf_tenant w) (last (revs_of (wf_id w) d))"
proof -
  from assms have n: "1 \<le> wf_current_revision w" and m: "map rv_revision (revs_of (wf_id w) d) = [1..wf_current_revision w]"
    by (simp_all add: wf_good_def)
  from n m show ne: "revs_of (wf_id w) d \<noteq> []" by auto
  have last_upto: "last [1..k] = k" if "1 \<le> k" for k :: int using that by (simp add: upto_rec2)
  show "rv_revision (last (revs_of (wf_id w) d)) = wf_current_revision w"
    using arg_cong [OF m, of last] ne last_upto [OF n] by (simp add: last_map)
  have sorted: "sorted_wrt (<) (map rv_revision (revs_of (wf_id w) d))" unfolding m by (rule sorted_wrt_upto)
  then show "sort_key rv_revision (revs_of (wf_id w) d) = revs_of (wf_id w) d"
    by (intro sort_key_id_if_sorted) (simp add: strict_sorted_iff)
  have fold_last: "foldl (\<lambda>b r. if rv_revision b < rv_revision r then r else b) r rs = last (r # rs)"
    if "sorted_wrt (<) (map rv_revision (r # rs))" for r rs
    using that by (induction rs arbitrary: r) auto
  from ne obtain r rs where rs: "revs_of (wf_id w) d = r # rs" by (cases "revs_of (wf_id w) d") auto
  from fold_last [OF sorted [unfolded rs]] show "get_latest_revision (wf_id w) d = Some (last (revs_of (wf_id w) d))"
    unfolding get_latest_revision_def latest_revision_def rs by simp
  have "last (revs_of (wf_id w) d) \<in> set (revs_of (wf_id w) d)" using ne by simp
  with assms show "doc_ok (wf_tenant w) (last (revs_of (wf_id w) d))" unfolding wf_good_def by blast
qed

section \<open>Every operation keeps the catalogue in order\<close>

text \<open>The catalogue while the new revision of workflow \<open>w\<close> is not written yet.\<close>

definition awaiting :: "workflow \<Rightarrow> db \<Rightarrow> bool" where
  "awaiting w d \<longleftrightarrow> inj (uuid_supply d) \<and> distinct (map wf_id (workflows d)) \<and>
     distinct (map (\<lambda>w. (wf_tenant w, wf_name w)) (workflows d)) \<and> distinct (map td_id (task_defs d)) \<and>
     wf_id ` set (workflows d) \<subseteq> drawn_ids d \<and> td_id ` set (task_defs d) \<subseteq> drawn_ids d \<and>
     rv_workflow ` set (revisions d) \<subseteq> wf_id ` set (workflows d) \<and>
     td_workflow ` set (task_defs d) \<subseteq> wf_id ` set (workflows d) \<and> w \<in> set (workflows d) \<and>
     (\<forall>x \<in> set (workflows d). wf_id x \<noteq> wf_id w \<longrightarrow> wf_good d x) \<and>
     defs_of (wf_id w) d = [] \<and> 1 \<le> wf_current_revision w \<and>
     map rv_revision (revs_of (wf_id w) d) = [1..wf_current_revision w - 1] \<and>
     (\<forall>r \<in> set (revs_of (wf_id w) d). doc_ok (wf_tenant w) r)"

lemma fresh_td_ids:
  assumes "inj (uuid_supply d)" and "distinct (map td_id xs)" and "td_id ` set xs \<subseteq> drawn_ids d"
    and "map td_id ys = map (uuid_supply d) [uuid_draws d ..< uuid_draws d + n]"
  shows "distinct (map td_id (xs @ ys))"
proof -
  have "distinct (map td_id ys)" unfolding assms(4) using assms(1) by (simp add: distinct_map inj_on_def inj_def)
  moreover have "td_id ` set ys = uuid_supply d ` {uuid_draws d ..< uuid_draws d + n}"
    using arg_cong [OF assms(4), of set] by simp
  then have "td_id ` set ys \<inter> drawn_ids d = {}"
    by (auto simp: drawn_ids_def inj_eq [OF assms(1)])
  ultimately show ?thesis using assms(2,3) by auto
qed

lemma write_document_ok:
  assumes a: "awaiting w d" and doc: "doc_revision doc = wf_current_revision w" "doc_name doc = wf_name w"
    "doc_description doc = wf_description w" "normal_tasks (doc_tasks doc)" "validate (doc_tasks doc) = Inr ()"
  shows "workflows_ok (write_document now (wf_id w) (wf_tenant w) actor doc d)" (is "workflows_ok ?d")
    and "wf_good (write_document now (wf_id w) (wf_tenant w) actor doc d) w"
    and "rv_document (last (revs_of (wf_id w) (write_document now (wf_id w) (wf_tenant w) actor doc d))) = doc"
proof -
  from write_document_tables [of now "wf_id w" "wf_tenant w" actor doc d] obtain ys r where
    ys: "task_defs ?d = task_defs d @ ys" "map def_spec ys = doc_tasks doc" "\<forall>y \<in> set ys. td_workflow y = wf_id w"
    "map td_id ys = map (uuid_supply d) [uuid_draws d ..< uuid_draws d + length (doc_tasks doc)]"
    and r: "revisions ?d = revisions d @ [r]" "rv_workflow r = wf_id w" "rv_tenant r = wf_tenant w"
      "rv_revision r = doc_revision doc" "rv_document r = doc"
    and d: "workflows ?d = workflows d" "uuid_draws ?d = Suc (uuid_draws d + length (doc_tasks doc))" "service_same d ?d"
    by metis
  have sup: "uuid_supply ?d = uuid_supply d" using d(3) by (simp add: service_same_def)
  have revs: "revs_of (wf_id w) ?d = revs_of (wf_id w) d @ [r]" by (simp add: revs_of_def r)
  have "defs_of (wf_id w) ?d = defs_of (wf_id w) d @ ys" using ys(3) by (simp add: defs_of_def ys(1))
  then have defs: "defs_of (wf_id w) ?d = ys" using a by (simp add: awaiting_def)
  have dr: "doc_ok (wf_tenant w) r" using doc r by (simp add: doc_ok_def)
  have up: "[1..wf_current_revision w - 1] @ [wf_current_revision w] = [1..wf_current_revision w]"
    using a by (simp add: awaiting_def upto_rec2 [of 1 "wf_current_revision w"])
  show good: "wf_good ?d w" unfolding wf_good_def revs defs
    using a doc r dr up ys(2) by (simp add: awaiting_def)
  show "rv_document (last (revs_of (wf_id w) ?d)) = doc" by (simp add: revs r)
  have other: "wf_good ?d x" if x: "x \<in> set (workflows d)" "wf_id x \<noteq> wf_id w" for x
  proof (rule wf_good_cong)
    show "wf_good d x" using a x by (simp add: awaiting_def)
    show "revs_of (wf_id x) ?d = revs_of (wf_id x) d" using x(2) by (simp add: revs_of_def r(1,2))
    show "defs_of (wf_id x) ?d = defs_of (wf_id x) d" using x(2) ys(3) by (auto simp: defs_of_def ys(1) filter_empty_conv)
  qed
  have same: "x = w" if "x \<in> set (workflows d)" "wf_id x = wf_id w" for x
    using a that by (auto simp: awaiting_def distinct_map inj_on_def)
  have drawn: "drawn_ids d \<subseteq> drawn_ids ?d" by (auto simp: drawn_ids_def sup d(2))
  have new: "td_id ` set ys \<subseteq> drawn_ids ?d"
    using arg_cong [OF ys(4), of set] by (auto simp: drawn_ids_def sup d(2) image_image)
  have "distinct (map td_id (task_defs d @ ys))"
    by (rule fresh_td_ids [OF _ _ _ ys(4)]) (use a in \<open>auto simp: awaiting_def\<close>)
  moreover have "wf_id w \<in> wf_id ` set (workflows d)" using a by (simp add: awaiting_def)
  moreover have "td_workflow ` set ys \<subseteq> {wf_id w}" using ys(3) by blast
  moreover have "\<forall>x \<in> set (workflows d). wf_good ?d x" using good other same by blast
  ultimately show "workflows_ok ?d"
    using a drawn new unfolding workflows_ok_def awaiting_def d(1) sup ys(1) r(1) by (auto simp: r(2))
qed

lemma get_workflow_SomeD:
  "get_workflow tenant wid arch d = Some w \<Longrightarrow> w \<in> set (workflows d) \<and> wf_id w = wid \<and> wf_tenant w = tenant \<and>
     (arch \<or> \<not> wf_is_archived w)"
  by (auto simp: get_workflow_def dest: find_SomeD)

lemma get_workflow_unique:
  assumes "distinct (map wf_id (workflows d))" and "w \<in> set (workflows d)"
  shows "get_workflow (wf_tenant w) (wf_id w) True d = Some w"
proof -
  have "x = w" if "x \<in> set (workflows d)" "wf_id x = wf_id w" for x
    using assms that by (auto simp: distinct_map inj_on_def)
  moreover have "\<exists>x. get_workflow (wf_tenant w) (wf_id w) True d = Some x"
    using assms(2) by (auto simp: get_workflow_def find_None_iff not_None_eq [symmetric])
  ultimately show ?thesis using get_workflow_SomeD by metis
qed

text \<open>What other sessions do between a check and a write.\<close>

definition wf_grows :: "db \<Rightarrow> db \<Rightarrow> bool" where
  "wf_grows d d' \<longleftrightarrow> uuid_supply d' = uuid_supply d \<and> uuid_draws d \<le> uuid_draws d' \<and>
     (\<exists>rs. revisions d' = revisions d @ rs) \<and>
     (\<forall>w \<in> set (workflows d). \<exists>w' \<in> set (workflows d'). wf_id w' = wf_id w \<and> wf_tenant w' = wf_tenant w)"

definition lawful :: "settings \<Rightarrow> (db \<Rightarrow> db) \<Rightarrow> bool" where
  "lawful S f \<longleftrightarrow> (\<forall>d. service_ok S d \<and> workflows_ok d \<longrightarrow> service_ok S (f d) \<and> workflows_ok (f d) \<and> wf_grows d (f d))"

lemma wf_grows_refl [simp]: "wf_grows d d"
  by (auto simp: wf_grows_def)

lemma wf_grows_trans: "wf_grows a b \<Longrightarrow> wf_grows b c \<Longrightarrow> wf_grows a c"
  unfolding wf_grows_def by (elim conjE exE) (auto; metis)

lemma lawful_comp: "lawful S f \<Longrightarrow> lawful S g \<Longrightarrow> lawful S (\<lambda>d. g (f d))"
  unfolding lawful_def by (meson wf_grows_trans)

lemma write_document_grows: "wf_grows d (write_document now wid tenant actor doc d)"
proof -
  from write_document_tables [of now wid tenant actor doc d] obtain r where
    "revisions (write_document now wid tenant actor doc d) = revisions d @ [r]"
    "workflows (write_document now wid tenant actor doc d) = workflows d"
    "service_same d (write_document now wid tenant actor doc d)" by metis
  then show ?thesis by (auto simp: wf_grows_def service_same_def)
qed

text \<open>Outcomes of \<open>create_workflow\<close>: the checks in their order, then the new workflow.\<close>

definition create_name :: "workflow_create \<Rightarrow> string option \<Rightarrow> string" where
  "create_name payload name_override = py_strip (or_string name_override (wc_name payload))"

definition create_document :: "workflow_create \<Rightarrow> string option \<Rightarrow> wf_document" where
  "create_document payload name_override = \<lparr>doc_name = create_name payload name_override,
     doc_description = wc_description payload, doc_revision = 1, doc_tasks = wc_tasks payload\<rparr>"

definition created_row :: "time \<Rightarrow> uid \<Rightarrow> workflow_create \<Rightarrow> string option \<Rightarrow> uid \<Rightarrow> workflow" where
  "created_row now tenant payload name_override wid = \<lparr>wf_id = wid, wf_tenant = tenant,
     wf_name = create_name payload name_override, wf_description = wc_description payload,
     wf_current_revision = 1, wf_is_archived = False, wf_created_at = now, wf_updated_at = now\<rparr>"

lemma create_steps:
  "create_workflow now others tenant payload actor ov d =
     (case validate (wc_tasks payload) of
        Inl e \<Rightarrow> Inl e
      | Inr _ \<Rightarrow>
          if name_exists tenant (create_name payload ov) None d then Inl name_conflict
          else if name_exists tenant (create_name payload ov) None (others d) then Inl IntegrityError
          else (let wid = uuid_supply (others d) (uuid_draws (others d));
                    w = created_row now tenant payload ov wid;
                    d2 = (others d)\<lparr>uuid_draws := Suc (uuid_draws (others d)), workflows := workflows (others d) @ [w]\<rparr>;
                    d3 = write_document now wid tenant actor (create_document payload ov) d2
                in (case get_workflow tenant wid True d3 of
                    None \<Rightarrow> Inl (ApiError 500 ''internal_error'' ''Workflow not found after creation.'')
                  | Some w' \<Rightarrow> Inr (w', d3))))"
  by (simp add: create_workflow_def create_name_def create_document_def created_row_def generate_uuid_def Let_def split: sum.splits)

lemma created_awaiting:
  assumes ok: "workflows_ok d" and free: "\<not> name_exists tenant (create_name payload ov) None d"
    and wid: "wid = uuid_supply d (uuid_draws d)"
  shows "awaiting (created_row now tenant payload ov wid)
    (d\<lparr>uuid_draws := Suc (uuid_draws d), workflows := workflows d @ [created_row now tenant payload ov wid]\<rparr>)"
    and "wid \<notin> wf_id ` set (workflows d)"
proof -
  let ?w = "created_row now tenant payload ov wid"
  let ?d = "d\<lparr>uuid_draws := Suc (uuid_draws d), workflows := workflows d @ [?w]\<rparr>"
  from ok have o: "inj (uuid_supply d)" "distinct (map wf_id (workflows d))"
    "distinct (map (\<lambda>w. (wf_tenant w, wf_name w)) (workflows d))" "distinct (map td_id (task_defs d))"
    "wf_id ` set (workflows d) \<subseteq> drawn_ids d" "td_id ` set (task_defs d) \<subseteq> drawn_ids d"
    "rv_workflow ` set (revisions d) \<subseteq> wf_id ` set (workflows d)"
    "td_workflow ` set (task_defs d) \<subseteq> wf_id ` set (workflows d)"
    by (simp_all add: workflows_ok_def)
  have fresh: "wid \<notin> drawn_ids d" using next_id_fresh [of d] ok by (simp add: workflows_ok_def wid)
  have ids: "drawn_ids ?d = insert wid (drawn_ids d)"
    using drawn_ids_step [of d] by (simp add: drawn_ids_def wid)
  show new: "wid \<notin> wf_id ` set (workflows d)" by (rule contra_subsetD [OF o(5) fresh])
  have "rv_workflow r \<noteq> wid" if "r \<in> set (revisions d)" for r
    using new subsetD [OF o(7) imageI [OF that]] by metis
  moreover have "td_workflow t \<noteq> wid" if "t \<in> set (task_defs d)" for t
    using new subsetD [OF o(8) imageI [OF that]] by metis
  ultimately have none: "revs_of wid d = []" "defs_of wid d = []"
    by (simp_all add: revs_of_def defs_of_def filter_empty_conv)
  have row: "wf_id ?w = wid" "wf_tenant ?w = tenant" "wf_name ?w = create_name payload ov" "wf_current_revision ?w = 1"
    by (simp_all add: created_row_def)
  have names: "(tenant, create_name payload ov) \<notin> (\<lambda>w. (wf_tenant w, wf_name w)) ` set (workflows d)"
    using free by (auto simp: name_exists_def get_or_def)
  have good: "wf_good ?d x" if "x \<in> set (workflows d)" for x
    using ok that by (intro wf_good_cong [of x ?d d]) (auto simp: workflows_ok_def revs_of_def defs_of_def)
  have "distinct (map wf_id (workflows ?d))" using o(2) new by (simp add: row)
  moreover have "distinct (map (\<lambda>w. (wf_tenant w, wf_name w)) (workflows ?d))" using o(3) names by (simp add: row)
  moreover have "wf_id ` set (workflows ?d) \<subseteq> drawn_ids ?d" using o(5) unfolding ids by (simp add: row subset_insertI2)
  moreover have "td_id ` set (task_defs ?d) \<subseteq> drawn_ids ?d" using o(6) unfolding ids by (simp add: subset_insertI2)
  moreover have "rv_workflow ` set (revisions ?d) \<subseteq> wf_id ` set (workflows ?d)"
    "td_workflow ` set (task_defs ?d) \<subseteq> wf_id ` set (workflows ?d)" using o(7,8) by (simp_all add: subset_insertI2)
  moreover have "revs_of (wf_id ?w) ?d = []" "defs_of (wf_id ?w) ?d = []"
    using none by (simp_all add: row revs_of_def defs_of_def)
  moreover have "\<forall>x \<in> set (workflows ?d). wf_id x \<noteq> wf_id ?w \<longrightarrow> wf_good ?d x" using good by simp
  ultimately show "awaiting ?w ?d" using o(1,4) unfolding awaiting_def by (simp add: row)
qed

lemma created:
  assumes law: "lawful S others" and ok: "service_ok S d" "workflows_ok d" and tasks: "normal_tasks (wc_tasks payload)"
    and c: "create_workflow now others tenant payload actor ov d = Inr (w, d')"
  shows "service_ok S d'" and "workflows_ok d'" and "wf_grows d d'" and "w \<in> set (workflows d')"
    and "w = created_row now tenant payload ov (wf_id w)" and "wf_id w \<notin> wf_id ` set (workflows d)"
    and "get_workflow tenant (wf_id w) True d' = Some w"
    and "rv_document (last (revs_of (wf_id w) d')) = create_document payload ov"
    and "\<not> name_exists tenant (wf_name w) None d" and "validate (wc_tasks payload) = Inr ()"
proof -
  let ?d1 = "others d"
  let ?wid = "uuid_supply ?d1 (uuid_draws ?d1)"
  let ?w = "created_row now tenant payload ov ?wid"
  let ?d2 = "?d1\<lparr>uuid_draws := Suc (uuid_draws ?d1), workflows := workflows ?d1 @ [?w]\<rparr>"
  let ?d3 = "write_document now ?wid tenant actor (create_document payload ov) ?d2"
  from c show valid: "validate (wc_tasks payload) = Inr ()" by (auto simp: create_steps split: sum.splits)
  from c have free: "\<not> name_exists tenant (create_name payload ov) None d" "\<not> name_exists tenant (create_name payload ov) None ?d1"
    and g: "get_workflow tenant ?wid True ?d3 = Some w" and d': "d' = ?d3"
    by (auto simp: create_steps Let_def split: sum.splits if_splits option.splits)
  from law ok have ok1: "service_ok S ?d1" "workflows_ok ?d1" and gr: "wf_grows d ?d1" by (auto simp: lawful_def)
  note aw = created_awaiting(1) [OF ok1(2) free(2) refl, of now] created_awaiting(2) [OF ok1(2) free(2) refl]
  have row: "wf_id ?w = ?wid" "wf_tenant ?w = tenant" by (simp_all add: created_row_def)
  note wd = write_document_ok [OF aw(1), of "create_document payload ov" now actor, unfolded row]
  have doc: "doc_revision (create_document payload ov) = wf_current_revision ?w" "doc_name (create_document payload ov) = wf_name ?w"
    "doc_description (create_document payload ov) = wf_description ?w"
    "normal_tasks (doc_tasks (create_document payload ov))" "validate (doc_tasks (create_document payload ov)) = Inr ()"
    using tasks valid by (simp_all add: create_document_def created_row_def)
  show ok': "workflows_ok d'" unfolding d' by (rule wd(1) [OF doc])
  from write_document_tables [of now ?wid tenant actor "create_document payload ov" ?d2]
  have wfs: "workflows ?d3 = workflows ?d2" and same: "service_same ?d2 ?d3" by metis+
  have "?w \<in> set (workflows ?d3)" by (simp add: wfs)
  with ok' have "get_workflow tenant ?wid True ?d3 = Some ?w"
    using get_workflow_unique [of ?d3 ?w] by (simp add: row workflows_ok_def d')
  with g have w: "w = ?w" by simp
  then have wid: "wf_id w = ?wid" by (simp add: row)
  show "w = created_row now tenant payload ov (wf_id w)" unfolding wid by (rule w)
  show "w \<in> set (workflows d')" unfolding d' w by fact
  show "get_workflow tenant (wf_id w) True d' = Some w" unfolding d' wid using g .
  show "rv_document (last (revs_of (wf_id w) d')) = create_document payload ov" unfolding d' wid by (rule wd(3) [OF doc])
  show "\<not> name_exists tenant (wf_name w) None d" using free(1) by (simp add: w created_row_def)
  have "service_same ?d1 ?d2" by (simp add: service_same_def)
  from service_same_trans [OF this same] show "service_ok S d'" unfolding d' by (rule service_same_ok [OF ok1(1)])
  have "wf_grows ?d1 ?d2" by (auto simp: wf_grows_def)
  from wf_grows_trans [OF wf_grows_trans [OF gr this] write_document_grows] show "wf_grows d d'" unfolding d' .
  show "wf_id w \<notin> wf_id ` set (workflows d)"
  proof
    assume "wf_id w \<in> wf_id ` set (workflows d)"
    then obtain x where "x \<in> set (workflows d)" "wf_id x = wf_id w" by auto
    with gr obtain x' where "x' \<in> set (workflows ?d1)" "wf_id x' = wf_id w" unfolding wf_grows_def by metis
    then have "wf_id w \<in> wf_id ` set (workflows ?d1)" using imageI [of x' "set (workflows ?d1)" wf_id] by simp
    then show False using aw(2) by (simp add: wid)
  qed
qed

lemma upd_where_split:
  assumes "distinct (map key (xs @ r # ys))"
  shows "upd_where (\<lambda>x. key x = key r) f (xs @ r # ys) = xs @ f r # ys"
proof -
  have "upd_where (\<lambda>x. key x = key r) f zs = zs" if "key r \<notin> key ` set zs" for zs
  proof (rule upd_where_none)
    fix x assume "x \<in> set zs"
    with that show "key x \<noteq> key r" using imageI [of x "set zs" key] by metis
  qed
  with assms show ?thesis by simp
qed

lemma wf_good_row:
  "wf_id w' = wf_id w \<Longrightarrow> wf_tenant w' = wf_tenant w \<Longrightarrow> wf_name w' = wf_name w \<Longrightarrow> wf_description w' = wf_description w \<Longrightarrow>
   wf_current_revision w' = wf_current_revision w \<Longrightarrow> wf_good d w' = wf_good d w"
  by (simp add: wf_good_def)

lemma archived:
  assumes ok: "workflows_ok d" and a: "archive_workflow now tenant wid d = Inr d'"
  shows "workflows_ok d'" and "wf_grows d d'" and "service_same d d'"
    and "\<forall>w \<in> set (workflows d'). wf_id w = wid \<longrightarrow> wf_is_archived w"
    and "map wf_id (workflows d') = map wf_id (workflows d)"
proof -
  from a obtain w where g: "get_workflow tenant wid True d = Some w"
    and d': "d' = d\<lparr>workflows := upd_where (\<lambda>x. wf_id x = wf_id w) (\<lambda>x. x\<lparr>wf_is_archived := True, wf_updated_at := now\<rparr>) (workflows d)\<rparr>"
    by (auto simp: archive_workflow_def split: option.splits)
  note w = get_workflow_SomeD [OF g]
  let ?f = "\<lambda>x. x\<lparr>wf_is_archived := True, wf_updated_at := now\<rparr>"
  from w obtain xs ys where split: "workflows d = xs @ w # ys" by (meson split_list)
  have dist: "distinct (map wf_id (xs @ w # ys))" using ok by (simp add: workflows_ok_def split)
  have rows: "workflows d' = xs @ ?f w # ys" unfolding d' using upd_where_split [OF dist, of ?f] by (simp add: split)
  have same: "map wf_id (workflows d') = map wf_id (workflows d)"
    "map (\<lambda>w. (wf_tenant w, wf_name w)) (workflows d') = map (\<lambda>w. (wf_tenant w, wf_name w)) (workflows d)"
    by (simp_all add: rows split)
  show "map wf_id (workflows d') = map wf_id (workflows d)" by (rule same(1))
  have ids: "wf_id ` set (workflows d') = wf_id ` set (workflows d)" using same(1) by (metis set_map)
  have "wf_good d' x" if "x \<in> set (workflows d')" for x
  proof -
    from that consider "x = ?f w" | "x \<in> set (workflows d)" by (auto simp: rows split)
    then have "wf_good d x"
    proof cases
      case 1
      have "wf_good d w" using ok w by (simp add: workflows_ok_def)
      then show ?thesis unfolding 1 by (subst wf_good_row) simp_all
    next
      case 2
      then show ?thesis using ok by (simp add: workflows_ok_def)
    qed
    then show ?thesis by (rule wf_good_cong [rotated 2]) (simp_all add: d' revs_of_def defs_of_def)
  qed
  then have good: "\<forall>x \<in> set (workflows d'). wf_good d' x" by blast
  have "drawn_ids d' = drawn_ids d" by (simp add: drawn_ids_def d')
  then show "workflows_ok d'" using ok good same ids unfolding workflows_ok_def by (simp add: d')
  show "service_same d d'" by (simp add: service_same_def d')
  have "\<exists>x' \<in> set (workflows d'). wf_id x' = wf_id x \<and> wf_tenant x' = wf_tenant x" if "x \<in> set (workflows d)" for x
    using that by (auto simp: rows split)
  then show "wf_grows d d'" by (simp add: wf_grows_def d')
  show "\<forall>x \<in> set (workflows d'). wf_id x = wid \<longrightarrow> wf_is_archived x"
  proof (intro ballI impI)
    fix x assume "x \<in> set (workflows d')" "wf_id x = wid"
    moreover have "x \<notin> set (xs @ ys)"
    proof
      assume "x \<in> set (xs @ ys)"
      then have "wf_id w \<in> wf_id ` set (xs @ ys)" using imageI [of x "set (xs @ ys)" wf_id] \<open>wf_id x = wid\<close> w by simp
      with dist show False by (simp add: image_Un)
    qed
    ultimately show "wf_is_archived x" unfolding rows by auto
  qed
qed

text \<open>
  No conflict at the commit means that no other update of this workflow came in between: the revisions
  in the database are those the request saw.
\<close>

lemma unseen_revisions:
  assumes ok: "workflows_ok d" "workflows_ok d1" and gr: "wf_grows d d1" and w: "w \<in> set (workflows d)"
    and none: "\<forall>r' \<in> set (revs_of (wf_id w) d1). rv_revision r' \<noteq> wf_current_revision w + 1"
  obtains w1 where "w1 \<in> set (workflows d1)" "wf_id w1 = wf_id w" "wf_tenant w1 = wf_tenant w" "wf_name w1 = wf_name w"
    "wf_description w1 = wf_description w" "wf_current_revision w1 = wf_current_revision w" "revs_of (wf_id w) d1 = revs_of (wf_id w) d"
proof -
  from gr w obtain w1 where w1: "w1 \<in> set (workflows d1)" "wf_id w1 = wf_id w" "wf_tenant w1 = wf_tenant w"
    unfolding wf_grows_def by metis
  have good: "wf_good d w" "wf_good d1 w1" using ok w w1(1) by (simp_all add: workflows_ok_def)
  from gr obtain rs where "revisions d1 = revisions d @ rs" by (auto simp: wf_grows_def)
  then obtain rs' where ext: "revs_of (wf_id w) d1 = revs_of (wf_id w) d @ rs'" by (simp add: revs_of_def)
  have n: "map rv_revision (revs_of (wf_id w) d) = [1..wf_current_revision w]"
    "map rv_revision (revs_of (wf_id w) d1) = [1..wf_current_revision w1]"
    using good w1(2) by (simp_all add: wf_good_def)
  have "wf_current_revision w + 1 \<notin> set (map rv_revision (revs_of (wf_id w) d1))"
    using none by (metis imageE set_map)
  then have le: "wf_current_revision w1 \<le> wf_current_revision w"
    using good(1) unfolding n(2) by (simp add: wf_good_def)
  have len: "length (revs_of (wf_id w) d) = nat (wf_current_revision w)" "length (revs_of (wf_id w) d1) = nat (wf_current_revision w1)"
    using arg_cong [OF n(1), of length] arg_cong [OF n(2), of length] by simp_all
  moreover have "nat (wf_current_revision w1) \<le> nat (wf_current_revision w)" using le by simp
  ultimately have "length rs' = 0" unfolding ext length_append by linarith
  then have revs: "revs_of (wf_id w) d1 = revs_of (wf_id w) d" by (simp add: ext)
  have "1 \<le> wf_current_revision w" "1 \<le> wf_current_revision w1" using good by (simp_all add: wf_good_def)
  with len have "wf_current_revision w1 = wf_current_revision w" by (simp add: revs)
  moreover have "wf_name w1 = wf_name w" "wf_description w1 = wf_description w"
    using good w1(2) revs by (simp_all add: wf_good_def)
  ultimately show ?thesis using that w1 revs by blast
qed

lemma names_after_update:
  assumes "distinct (map (\<lambda>w. (wf_tenant w, wf_name w)) (xs @ w1 # ys))" and "wf_tenant u = wf_tenant w1"
    and "wf_name u = wf_name w1 \<or> (\<forall>w \<in> set (xs @ ys). wf_tenant w = wf_tenant w1 \<longrightarrow> wf_name w \<noteq> wf_name u)"
  shows "distinct (map (\<lambda>w. (wf_tenant w, wf_name w)) (xs @ u # ys))"
  using assms by auto

lemma deleted_defs:
  "defs_of wid (delete_task_defs wid d) = []"
  "wid' \<noteq> wid \<Longrightarrow> defs_of wid' (delete_task_defs wid d) = defs_of wid' d"
  "service_same d (delete_task_defs wid d)" "workflows (delete_task_defs wid d) = workflows d"
  "revisions (delete_task_defs wid d) = revisions d" "revs_of wid' (delete_task_defs wid d) = revs_of wid' d"
  "uuid_draws (delete_task_defs wid d) = uuid_draws d" "uuid_supply (delete_task_defs wid d) = uuid_supply d"
  "set (task_defs (delete_task_defs wid d)) \<subseteq> set (task_defs d)"
  "distinct (map td_id (task_defs d)) \<Longrightarrow> distinct (map td_id (task_defs (delete_task_defs wid d)))"
proof -
  show "wid' \<noteq> wid \<Longrightarrow> defs_of wid' (delete_task_defs wid d) = defs_of wid' d"
    unfolding defs_of_def delete_task_defs_def Let_def del_where_def by (simp add: filter_filter) (rule filter_cong, auto)
qed (auto simp: defs_of_def delete_task_defs_def Let_def del_where_def revs_of_def service_same_def filter_filter map_upd_where
    distinct_map_filter)

lemma update_row_fields:
  assumes "wf_name r = wf_name w" and "wf_description r = wf_description w"
  shows "wf_id (update_row now w name desc n r) = wf_id r" "wf_tenant (update_row now w name desc n r) = wf_tenant r"
    "wf_name (update_row now w name desc n r) = name" "wf_description (update_row now w name desc n r) = desc"
    "wf_current_revision (update_row now w name desc n r) = n"
  using assms by (simp_all add: update_row_def merge3_def)

definition updating :: "time \<Rightarrow> workflow \<Rightarrow> string \<Rightarrow> string option \<Rightarrow> db \<Rightarrow> db" where
  "updating now w name desc d = delete_task_defs (wf_id w) (d\<lparr>workflows := upd_where (\<lambda>x. wf_id x = wf_id w)
     (update_row now w name desc (wf_current_revision w + 1)) (workflows d)\<rparr>)"

lemma updating_tables:
  "uuid_supply (updating now w name desc d) = uuid_supply d" "uuid_draws (updating now w name desc d) = uuid_draws d"
  "drawn_ids (updating now w name desc d) = drawn_ids d" "revisions (updating now w name desc d) = revisions d"
  "revs_of wid (updating now w name desc d) = revs_of wid d" "service_same d (updating now w name desc d)"
  "defs_of (wf_id w) (updating now w name desc d) = []"
  "wid \<noteq> wf_id w \<Longrightarrow> defs_of wid (updating now w name desc d) = defs_of wid d"
  "set (task_defs (updating now w name desc d)) \<subseteq> set (task_defs d)"
  "distinct (map td_id (task_defs d)) \<Longrightarrow> distinct (map td_id (task_defs (updating now w name desc d)))"
proof -
  let ?d = "d\<lparr>workflows := upd_where (\<lambda>x. wf_id x = wf_id w) (update_row now w name desc (wf_current_revision w + 1)) (workflows d)\<rparr>"
  have same: "service_same d ?d" by (simp add: service_same_def)
  show "service_same d (updating now w name desc d)" unfolding updating_def by (rule service_same_trans [OF same deleted_defs(3)])
  show "wid \<noteq> wf_id w \<Longrightarrow> defs_of wid (updating now w name desc d) = defs_of wid d"
    unfolding updating_def by (simp add: deleted_defs(2)) (simp add: defs_of_def)
  show "set (task_defs (updating now w name desc d)) \<subseteq> set (task_defs d)"
    using deleted_defs(9) [of "wf_id w" ?d] by (simp add: updating_def)
  show "distinct (map td_id (task_defs (updating now w name desc d)))" if "distinct (map td_id (task_defs d))"
    unfolding updating_def by (rule deleted_defs(10)) (use that in simp)
qed (simp_all add: updating_def deleted_defs drawn_ids_def revs_of_def)

lemma updating_rows:
  assumes "distinct (map wf_id (workflows d))" and "w1 \<in> set (workflows d)" and "wf_id w1 = wf_id w"
  obtains xs ys where "workflows d = xs @ w1 # ys"
    "workflows (updating now w name desc d) = xs @ update_row now w name desc (wf_current_revision w + 1) w1 # ys"
    "\<forall>x \<in> set (xs @ ys). wf_id x \<noteq> wf_id w"
proof -
  from assms(2) obtain xs ys where split: "workflows d = xs @ w1 # ys" by (meson split_list)
  have dist: "distinct (map wf_id (xs @ w1 # ys))" using assms(1) by (simp add: split)
  have "\<forall>x \<in> set (xs @ ys). wf_id x \<noteq> wf_id w"
  proof
    fix x assume "x \<in> set (xs @ ys)"
    from imageI [OF this, of wf_id] dist show "wf_id x \<noteq> wf_id w" by (auto simp: assms(3))
  qed
  moreover have "workflows (updating now w name desc d) = xs @ update_row now w name desc (wf_current_revision w + 1) w1 # ys"
    using upd_where_split [OF dist] by (simp add: updating_def deleted_defs split assms(3))
  ultimately show ?thesis using that split by blast
qed

lemma updating_awaits:
  assumes ok: "workflows_ok d" and w1: "w1 \<in> set (workflows d)" "wf_id w1 = wf_id w" "wf_name w1 = wf_name w"
      "wf_description w1 = wf_description w" "wf_current_revision w1 = wf_current_revision w"
    and free: "name = wf_name w \<or> \<not> name_exists (wf_tenant w1) name (Some (wf_id w)) d"
  shows "awaiting (update_row now w name desc (wf_current_revision w + 1) w1) (updating now w name desc d)"
    and "\<forall>x \<in> set (workflows d). \<exists>x' \<in> set (workflows (updating now w name desc d)). wf_id x' = wf_id x \<and> wf_tenant x' = wf_tenant x"
proof -
  let ?u = "update_row now w name desc (wf_current_revision w + 1) w1" and ?d = "updating now w name desc d"
  note u = update_row_fields [OF w1(3,4), of now name desc "wf_current_revision w + 1"]
  from ok have dist: "distinct (map wf_id (workflows d))" by (simp add: workflows_ok_def)
  obtain xs ys where split: "workflows d = xs @ w1 # ys" and rows: "workflows ?d = xs @ ?u # ys"
    and others: "\<forall>x \<in> set (xs @ ys). wf_id x \<noteq> wf_id w" by (rule updating_rows [OF dist w1(1,2)])
  note o = ok [unfolded workflows_ok_def split]
  have good: "wf_good d w1" using ok w1(1) by (simp add: workflows_ok_def)
  have ids: "map wf_id (workflows ?d) = map wf_id (workflows d)" by (simp add: rows split u)
  then have idset: "wf_id ` set (workflows ?d) = wf_id ` set (workflows d)" by (metis set_map)
  have "distinct (map (\<lambda>w. (wf_tenant w, wf_name w)) (workflows ?d))" unfolding rows
  proof (rule names_after_update [OF _ u(2)])
    show "distinct (map (\<lambda>w. (wf_tenant w, wf_name w)) (xs @ w1 # ys))" using o by simp
    show "wf_name ?u = wf_name w1 \<or> (\<forall>x \<in> set (xs @ ys). wf_tenant x = wf_tenant w1 \<longrightarrow> wf_name x \<noteq> wf_name ?u)"
      using free others unfolding u(3) w1(3) name_exists_def split get_or_def by auto
  qed
  moreover have "wf_good ?d x" if "x \<in> set (xs @ ys)" for x
  proof (rule wf_good_cong)
    show "wf_good d x" using ok that by (simp add: workflows_ok_def split)
  qed (use that others in \<open>simp_all add: updating_tables\<close>)
  then have "\<forall>x \<in> set (workflows ?d). wf_id x \<noteq> wf_id ?u \<longrightarrow> wf_good ?d x" by (simp add: rows)
  moreover have "td_id ` set (task_defs ?d) \<subseteq> drawn_ids d" "td_workflow ` set (task_defs ?d) \<subseteq> wf_id ` set (workflows d)"
    using ok image_mono [OF updating_tables(9)] unfolding workflows_ok_def by (meson order_trans)+
  ultimately show "awaiting ?u ?d"
    using ok good unfolding awaiting_def workflows_ok_def idset ids
    by (simp add: u w1(2,5) updating_tables wf_good_def) (simp add: rows)
  show "\<forall>x \<in> set (workflows d). \<exists>x' \<in> set (workflows ?d). wf_id x' = wf_id x \<and> wf_tenant x' = wf_tenant x"
    by (auto simp: rows split u)
qed

text \<open>The rows that \<open>update_workflow\<close> leaves when it has nobody to conflict with.\<close>

lemma update_succeeds:
  assumes "update_workflow now others tenant wid payload actor d = Inr (w', d')"
  obtains w r name desc tasks d1 where "get_workflow tenant wid False d = Some w" "get_latest_revision (wf_id w) d = Some r"
    "name = or_string (wu_name payload) (wf_name w)"
    "desc = (case wu_description payload of Some s \<Rightarrow> Some s | None \<Rightarrow> wf_description w)"
    "tasks = get_or (wu_tasks payload) (doc_tasks (rv_document r))"
    "wu_tasks payload = None \<or> validate tasks = Inr ()" "d1 = others d"
    "name = wf_name w \<or> \<not> name_exists tenant name (Some (wf_id w)) d1"
    "name = wf_name w \<or> \<not> name_exists tenant name (Some (wf_id w)) d"
    "\<forall>r' \<in> set (revs_of (wf_id w) d1). rv_revision r' \<noteq> wf_current_revision w + 1"
    "d' = write_document now (wf_id w) tenant actor
       \<lparr>doc_name = name, doc_description = desc, doc_revision = wf_current_revision w + 1, doc_tasks = tasks\<rparr>
       (updating now w name desc d1)"
    "get_workflow tenant (wf_id w) True d' = Some w'"
proof -
  from assms obtain w r where g: "get_workflow tenant wid False d = Some w" "get_latest_revision (wf_id w) d = Some r"
    by (auto simp: update_workflow_def split: option.splits)
  show ?thesis
  proof (cases "wu_tasks payload")
    case None
    then show ?thesis using assms g
      by (intro that [OF g refl refl refl _ refl]) (auto simp: update_workflow_def updating_def Let_def get_or_def split: if_splits option.splits)
  next
    case (Some ts)
    then show ?thesis using assms g
      by (intro that [OF g refl refl refl _ refl]) (auto simp: update_workflow_def updating_def Let_def get_or_def split: if_splits option.splits sum.splits)
  qed
qed

definition update_document :: "workflow_update \<Rightarrow> workflow \<Rightarrow> wf_document \<Rightarrow> wf_document" where
  "update_document payload w old = \<lparr>doc_name = or_string (wu_name payload) (wf_name w),
     doc_description = (case wu_description payload of Some s \<Rightarrow> Some s | None \<Rightarrow> wf_description w),
     doc_revision = wf_current_revision w + 1, doc_tasks = get_or (wu_tasks payload) (doc_tasks old)\<rparr>"

lemma updated:
  assumes law: "lawful S others" and ok: "service_ok S d" "workflows_ok d"
    and tasks: "case wu_tasks payload of None \<Rightarrow> True | Some ts \<Rightarrow> normal_tasks ts"
    and u: "update_workflow now others tenant wid payload actor d = Inr (w', d')"
  obtains w where "get_workflow tenant wid False d = Some w" "service_ok S d'" "workflows_ok d'" "wf_grows d d'"
    "w' \<in> set (workflows d')" "wf_id w' = wid" "wf_tenant w' = tenant" "wf_current_revision w' = wf_current_revision w + 1"
    "rv_document (last (revs_of wid d')) = update_document payload w (rv_document (last (revs_of wid d)))"
proof -
  obtain w r name desc ts d1 where g: "get_workflow tenant wid False d = Some w"
    and r: "get_latest_revision (wf_id w) d = Some r"
    and name: "name = or_string (wu_name payload) (wf_name w)"
    and desc: "desc = (case wu_description payload of Some s \<Rightarrow> Some s | None \<Rightarrow> wf_description w)"
    and ts: "ts = get_or (wu_tasks payload) (doc_tasks (rv_document r))" "wu_tasks payload = None \<or> validate ts = Inr ()"
    and d1: "d1 = others d" and free: "name = wf_name w \<or> \<not> name_exists tenant name (Some (wf_id w)) d1"
    and "name = wf_name w \<or> \<not> name_exists tenant name (Some (wf_id w)) d"
    and none: "\<forall>r' \<in> set (revs_of (wf_id w) d1). rv_revision r' \<noteq> wf_current_revision w + 1"
    and d': "d' = write_document now (wf_id w) tenant actor
       \<lparr>doc_name = name, doc_description = desc, doc_revision = wf_current_revision w + 1, doc_tasks = ts\<rparr> (updating now w name desc d1)"
    and g': "get_workflow tenant (wf_id w) True d' = Some w'" by (rule update_succeeds [OF u])
  define doc where "doc = \<lparr>doc_name = name, doc_description = desc, doc_revision = wf_current_revision w + 1, doc_tasks = ts\<rparr>"
  note w = get_workflow_SomeD [OF g]
  then have wid: "w \<in> set (workflows d)" "wf_id w = wid" "wf_tenant w = tenant" by simp_all
  have ok1: "service_ok S d1" "workflows_ok d1" and gr: "wf_grows d d1" using law ok by (auto simp: lawful_def d1)
  from unseen_revisions [OF ok(2) ok1(2) gr wid(1) none] obtain w1 where
    w1: "w1 \<in> set (workflows d1)" "wf_id w1 = wf_id w" "wf_name w1 = wf_name w" "wf_description w1 = wf_description w"
      "wf_current_revision w1 = wf_current_revision w" and ten: "wf_tenant w1 = tenant" unfolding wid(3) by metis
  have good: "wf_good d w" using ok(2) wid(1) by (simp add: workflows_ok_def)
  have rl: "r = last (revs_of (wf_id w) d)" using r wf_good_latest(2) [OF good] by simp
  have "doc_ok (wf_tenant w) r" unfolding rl by (rule wf_good_latest(5) [OF good])
  then have valid: "normal_tasks (doc_tasks doc)" "validate (doc_tasks doc) = Inr ()"
    using ts tasks by (auto simp: doc_ok_def get_or_def doc_def split: option.splits)
  let ?u = "update_row now w name desc (wf_current_revision w + 1) w1" and ?d2 = "updating now w name desc d1"
  note u_row = update_row_fields [OF w1(3,4), of now name desc "wf_current_revision w + 1"]
  have row: "wf_id ?u = wid" "wf_tenant ?u = tenant" using u_row w1(2) wid(2) ten by simp_all
  note aw = updating_awaits [OF ok1(2) w1 free [folded ten], of now desc]
  have fields: "doc_revision doc = wf_current_revision ?u" "doc_name doc = wf_name ?u" "doc_description doc = wf_description ?u"
    by (simp_all add: doc_def u_row)
  note wd = write_document_ok [OF aw(1) fields valid, of now actor, unfolded row]
  have d'': "d' = write_document now wid tenant actor doc ?d2" by (simp add: d' doc_def wid(2))
  have "?u \<in> set (workflows ?d2)" using aw(1) by (simp add: awaiting_def)
  then have uin: "?u \<in> set (workflows d')"
    using write_document_tables [of now wid tenant actor doc ?d2] unfolding d'' by metis
  have ok': "workflows_ok d'" unfolding d'' by (rule wd(1))
  then have "get_workflow tenant wid True d' = Some ?u" using get_workflow_unique [of d' ?u] uin by (simp add: row workflows_ok_def)
  with g' have w': "w' = ?u" by (simp add: wid(2))
  have "service_same ?d2 d'" unfolding d'' using write_document_tables [of now wid tenant actor doc ?d2] by metis
  from service_same_trans [OF updating_tables(6) this] have sok: "service_ok S d'" by (rule service_same_ok [OF ok1(1)])
  have "wf_grows d1 ?d2" using aw(2) by (simp add: wf_grows_def updating_tables)
  from wf_grows_trans [OF gr wf_grows_trans [OF this write_document_grows]] have gr': "wf_grows d d'" unfolding d'' .
  have "rv_document (last (revs_of wid d')) = doc" unfolding d'' by (rule wd(3))
  also have "doc = update_document payload w (rv_document (last (revs_of wid d)))"
    by (simp add: doc_def update_document_def name desc ts(1) rl wid(2))
  finally show ?thesis using that [OF g sok ok' gr'] uin row u_row(5) unfolding w' by blast
qed

lemma cloned:
  assumes "clone_workflow now others tenant wid name actor d = Inr (w', d')" and "workflows_ok d"
  obtains w payload where "get_workflow tenant wid True d = Some w" "parse_document (rv_document (last (revs_of wid d))) = Some payload"
    "create_workflow now others tenant payload actor (Some (or_string name (wf_name w @ '' copy''))) d = Inr (w', d')"
    "normal_tasks (wc_tasks payload)"
proof -
  from assms(1) obtain w r payload where g: "get_workflow tenant wid True d = Some w" "get_latest_revision (wf_id w) d = Some r"
    "parse_document (rv_document r) = Some payload"
    "create_workflow now others tenant payload actor (Some (or_string name (wf_name w @ '' copy''))) d = Inr (w', d')"
    by (auto simp: clone_workflow_def split: option.splits)
  note w = get_workflow_SomeD [OF g(1)]
  then have "wf_good d w" using assms(2) by (simp add: workflows_ok_def)
  from wf_good_latest(2) [OF this] g(2) w have "r = last (revs_of wid d)" by simp
  moreover have "normal_tasks (wc_tasks payload)" using g(3) make_create_fields(2) by (auto simp: parse_document_def)
  ultimately show ?thesis using that g by simp
qed

end
