(* ===== verification/Catalogue.thy ===== *)
theory Catalogue
  imports Workflows
begin

text \<open>
  The workflow catalogue and the execution service as one state machine: requests on workflows and on
  executions in any order keep the invariants of both, every stored workflow can be started, and what
  export, import, clone and concurrent updates do to the history.
\<close>

section \<open>The service leaves the catalogue alone\<close>

definition catalogue_same :: "db \<Rightarrow> db \<Rightarrow> bool" where
  "catalogue_same d d' \<longleftrightarrow> workflows d' = workflows d \<and> revisions d' = revisions d \<and> task_defs d' = task_defs d \<and>
     uuid_supply d' = uuid_supply d \<and> uuid_draws d \<le> uuid_draws d' \<and> outer_tables d' = outer_tables d"

lemma catalogue_same_refl [simp]: "catalogue_same d d"
  by (simp add: catalogue_same_def)

lemma catalogue_same_trans: "catalogue_same a b \<Longrightarrow> catalogue_same b c \<Longrightarrow> catalogue_same a c"
  by (auto simp: catalogue_same_def)

lemma catalogue_frame: "db_frame d d' \<Longrightarrow> catalogue_same d d'"
  by (simp add: db_frame_def catalogue_same_def)

lemma catalogue_commit: "catalogue_same d (se_db s1) \<Longrightarrow> catalogue_same d (commit s s1)"
  by (simp add: catalogue_same_def commit_def Let_def)

lemma catalogue_session:
  assumes "load_session eid d = Some s" and "evolves s s1"
  shows "catalogue_same d (commit s s1)"
  using assms load_session_SomeD(5) [OF assms(1)] by (intro catalogue_commit catalogue_frame) (simp add: evolves_def)

lemma catalogue_same_keeps:
  assumes "catalogue_same d d'" and "workflows_ok d"
  shows "workflows_ok d'" and "wf_grows d d'"
proof -
  have s: "workflows d' = workflows d" "revisions d' = revisions d" "task_defs d' = task_defs d" "uuid_supply d' = uuid_supply d"
    "drawn_ids d \<subseteq> drawn_ids d'" using assms(1) by (auto simp: catalogue_same_def drawn_ids_def)
  have good: "wf_good d' w = wf_good d w" for w by (simp add: wf_good_def revs_of_def defs_of_def s)
  have "wf_id ` set (workflows d) \<subseteq> drawn_ids d'" "td_id ` set (task_defs d) \<subseteq> drawn_ids d'"
    using assms(2) s(5) unfolding workflows_ok_def by (meson order_trans)+
  with assms(2) show "workflows_ok d'" by (simp add: workflows_ok_def s(1-4) good)
  show "wf_grows d d'" using assms(1) by (auto simp: wf_grows_def catalogue_same_def)
qed

lemma catalogue_insert_etasks: "catalogue_same d (fold (insert_etask eid defs) ts d)"
proof (induction ts arbitrary: d)
  case Nil
  then show ?case by simp
next
  case (Cons t ts)
  have "catalogue_same d (insert_etask eid defs t d)" by (simp add: insert_etask_def generate_uuid_def catalogue_same_def)
  from catalogue_same_trans [OF this Cons.IH] show ?case by simp
qed

lemma catalogue_spawn_rows:
  assumes "spawn_rows now tenant w defs doc rvid revno actor key d = (eid, d1)"
  shows "catalogue_same d d1"
proof -
  obtain e where "d1 = outbox_write now tenant ''execution.started'' (Some eid)
      (JObj [(''executionId'', JStr eid), (''workflowId'', JStr (wf_id w)), (''status'', JStr ''running'')])
      (log_write now eid (''Execution created for workflow '' @ quoted (if doc_name doc \<noteq> [] then doc_name doc else wf_name w) @ ''.'')
        ''INFO'' None (fold (insert_etask eid defs) (doc_tasks doc)
          (d\<lparr>uuid_draws := Suc (uuid_draws d), executions := executions d @ [e]\<rparr>)))"
    using assms by (auto simp: spawn_rows_def generate_uuid_def Let_def)
  moreover have "catalogue_same d (d\<lparr>uuid_draws := Suc (uuid_draws d), executions := executions d @ [e]\<rparr>)"
    by (simp add: catalogue_same_def)
  from catalogue_same_trans [OF this catalogue_insert_etasks, of eid defs "doc_tasks doc"] show ?thesis
    by (auto simp: calculation catalogue_same_def)
qed

lemma catalogue_spawn:
  assumes "spawn S now tenant w doc rvid revno actor key d = Inr (e, d', sent)"
  shows "catalogue_same d d'"
  using assms
proof (cases rule: spawn_cases)
  case (created eid d1 s s1)
  then show ?thesis using catalogue_same_trans [OF catalogue_spawn_rows [OF created(2)]
      catalogue_session [OF created(3) pass_prog.run_evolves [OF created(4)]]] by simp
qed

lemma catalogue_db_of:
  "(\<And>e d' sent. r = Inr (e, d', sent) \<Longrightarrow> catalogue_same d d') \<Longrightarrow> catalogue_same d (db_of r d)"
  by (auto simp: db_of_def split: sum.splits)

lemma catalogue_trigger: "catalogue_same d (db_of (trigger_workflow S now tenant wid actor key d) d)"
  by (rule catalogue_db_of, erule trigger_cases) (auto intro: catalogue_spawn)

lemma catalogue_retry_execution: "catalogue_same d (db_of (retry_execution S now tenant eid actor d) d)"
proof (rule catalogue_db_of)
  fix e d' sent
  assume r: "retry_execution S now tenant eid actor d = Inr (e, d', sent)"
  then obtain w doc n d1 m where "spawn S now tenant w doc None n actor None d = Inr (e, d1, sent)"
    and "d' = log_write now (ex_id e) m ''INFO'' None d1"
    by (auto simp: retry_execution_def split: sum.splits if_splits option.splits)
  then show "catalogue_same d d'" using catalogue_spawn by (fastforce simp: catalogue_same_def)
qed

lemma catalogue_cancel: "catalogue_same d (db_of (fst (cancel_execution now (\<lambda>x. x) tenant eid actor mem d)) d)"
proof (rule catalogue_db_of)
  fix e d' sent
  assume c: "fst (cancel_execution now (\<lambda>x. x) tenant eid actor mem d) = Inr (e, d', sent)"
  then obtain s where g: "get_execution tenant eid d = Inr s" by (auto simp: cancel_execution_def split: sum.splits)
  have "catalogue_same d (commit s (cancel_mark now actor s))"
    by (rule catalogue_session [OF get_execution_InrD(1) [OF g] ev.cancel_mark_I [OF evolves_refl]])
  moreover have "d' = d \<or> d' = commit s (cancel_mark now actor s)"
    using c g by (auto simp: cancel_execution_def Let_def split: if_splits prod.splits sum.splits)
  ultimately show "catalogue_same d d'" by auto
qed

lemma catalogue_execute:
  assumes "execute_task now etid worker jid mem d = Inr (d', mem', r, sent)"
  shows "catalogue_same d d'"
proof -
  have "d' = d\<lparr>jobs := acknowledge now jid (jobs d)\<rparr> \<or>
      (\<exists>s item eid. load_session eid d = Some s \<and> d' = commit s (fst (run_task_start now worker jid item mem s)))"
    using assms unfolding execute_task_def
    by (auto split: option.splits if_splits prod.splits) (metis fst_conv)+
  then show ?thesis
    using catalogue_session [OF _ ev.run_task_start_I [OF evolves_refl]] by (auto simp: catalogue_same_def)
qed

lemma catalogue_finish:
  assumes "finish_task S now r out mem d = (Inr (d', sent), mem')"
  shows "catalogue_same d d'"
proof -
  from assms obtain s' m where s': "run_task_finish S now r out mem (resume_session r d) = (Inr s', m)"
    and d': "d' = commit (resume_session r d) s'"
    by (auto simp: finish_task_def Let_def split: prod.splits sum.splits)
  have "db_frame d (se_db s')"
    using ev.run_task_finish_I [OF evolves_refl s'] by (simp add: evolves_def resume_session_def)
  then show ?thesis unfolding d' by (rule catalogue_commit [OF catalogue_frame])
qed

lemma service_step_catalogue: "catalogue_same d (fst (service_step S (now, oper) (d, mem)))"
proof (cases oper)
  case (SRetryTask tenant eid ident actor)
  have "catalogue_same d (db_of (retry_task S now tenant eid ident actor d) d)"
    by (rule catalogue_db_of) (use retry_task_InrD get_execution_InrD(1) catalogue_session ev.retry_task_I [OF evolves_refl] in metis)
  with SRetryTask show ?thesis by simp
next
  case (SSkipTask tenant eid ident actor)
  have "catalogue_same d (db_of (skip_task S now tenant eid ident actor d) d)"
    by (rule catalogue_db_of) (use skip_task_InrD get_execution_InrD(1) catalogue_session ev.skip_task_I [OF evolves_refl] in metis)
  with SSkipTask show ?thesis by simp
next
  case (SCancel tenant eid actor)
  then show ?thesis using catalogue_cancel [of d now tenant eid actor mem]
    by (cases "cancel_execution now (\<lambda>x. x) tenant eid actor mem d") simp
next
  case (SDeadLetter dl)
  then show ?thesis
    using catalogue_session [OF _ ev.dead_letter_I [OF evolves_refl]]
    by (auto simp: handle_dead_letter_def Let_def split: option.splits)
next
  case (SEnqueueReady eid)
  then show ?thesis using catalogue_session [OF _ pass_prog.run_evolves]
    by (auto simp: enqueue_ready_tasks_def split: option.splits sum.splits)
next
  case (SFinalize eid)
  then show ?thesis using catalogue_session [OF _ ev.finalize_I [OF evolves_refl]]
    by (auto simp: finalize_execution_def Let_def split: option.splits)
next
  case (SQueue qop)
  then show ?thesis by (simp add: catalogue_same_def)
qed (auto simp: catalogue_trigger catalogue_retry_execution intro: catalogue_execute catalogue_finish split: sum.splits prod.splits)

section \<open>Catalogue and service together\<close>

datatype platform_op =
    PService service_op
  | PCreate "db \<Rightarrow> db" principal workflow_create
  | PUpdate "db \<Rightarrow> db" principal uid workflow_update
  | PDelete principal uid
  | PClone "db \<Rightarrow> db" principal uid "string option"

text \<open>A request that raises leaves what the others have done meanwhile, which is a step of its own.\<close>

definition wf_db_of :: "wf_result \<Rightarrow> db \<Rightarrow> db" where
  "wf_db_of r d = (case r of Inl _ \<Rightarrow> d | Inr (_, d') \<Rightarrow> d')"

fun platform_step :: "settings \<Rightarrow> time \<times> platform_op \<Rightarrow> db \<times> exec_mem \<Rightarrow> db \<times> exec_mem" where
  "platform_step S (now, PService oper) st = service_step S (now, oper) st"
| "platform_step S (now, PCreate others p payload) (d, mem) = (wf_db_of (workflow_create_ctl now others p payload d) d, mem)"
| "platform_step S (now, PUpdate others p wid payload) (d, mem) = (wf_db_of (workflow_update_ctl now others p wid payload d) d, mem)"
| "platform_step S (now, PDelete p wid) (d, mem) = (case workflow_delete_ctl now p wid d of Inl _ \<Rightarrow> d | Inr d' \<Rightarrow> d', mem)"
| "platform_step S (now, PClone others p wid name) (d, mem) = (wf_db_of (workflow_clone_ctl now others p wid name d) d, mem)"

fun platform_allowed :: "settings \<Rightarrow> time \<times> platform_op \<Rightarrow> db \<times> exec_mem \<Rightarrow> bool" where
  "platform_allowed S (now, PService oper) st \<longleftrightarrow> service_allowed (now, oper) st"
| "platform_allowed S (now, PCreate others p payload) st \<longleftrightarrow> lawful S others \<and> normal_tasks (wc_tasks payload)"
| "platform_allowed S (now, PUpdate others p wid payload) st \<longleftrightarrow>
     lawful S others \<and> (case wu_tasks payload of None \<Rightarrow> True | Some ts \<Rightarrow> normal_tasks ts)"
| "platform_allowed S (now, PDelete p wid) st \<longleftrightarrow> True"
| "platform_allowed S (now, PClone others p wid name) st \<longleftrightarrow> lawful S others"

definition platform_ok :: "settings \<Rightarrow> db \<Rightarrow> bool" where
  "platform_ok S d \<longleftrightarrow> service_ok S d \<and> workflows_ok d"

lemma audit_keeps:
  assumes "platform_ok S d"
  shows "platform_ok S (audit_write now p action rtype rid details tenant d)"
proof -
  let ?d = "audit_write now p action rtype rid details tenant d"
  have "service_same d ?d" by (simp add: service_same_def)
  moreover have "catalogue_same d ?d" by (simp add: catalogue_same_def)
  ultimately show ?thesis using assms service_same_ok catalogue_same_keeps(1) unfolding platform_ok_def by blast
qed

lemma created_keeps:
  assumes "platform_ok S d" and "lawful S others" and "normal_tasks (wc_tasks payload)"
    and "create_workflow now others tenant payload actor ov d = Inr (w, d')"
  shows "platform_ok S d'"
  using assms created(1,2) [OF assms(2) _ _ assms(3,4)] by (simp add: platform_ok_def)

lemma platform_step_ok:
  assumes ok: "platform_ok S (fst st)" and al: "platform_allowed S c st"
  shows "platform_ok S (fst (platform_step S c st))"
proof -
  obtain now oper d mem where c: "c = (now, oper)" and st: "st = (d, mem)" by (cases c; cases st) auto
  from ok st have d: "platform_ok S d" "service_ok S d" "workflows_ok d" by (simp_all add: platform_ok_def)
  show ?thesis
  proof (cases oper)
    case (PService so)
    have "service_ok S (fst (service_step S (now, so) (d, mem)))"
      by (rule service_step_ok) (use al d PService in \<open>simp_all add: c st\<close>)
    with catalogue_same_keeps(1) [OF service_step_catalogue d(3)] PService show ?thesis by (simp add: c st platform_ok_def)
  next
    case (PCreate others p payload)
    then show ?thesis using al d audit_keeps created_keeps
      by (auto simp: c st wf_db_of_def workflow_create_ctl_def split: sum.splits prod.splits)
  next
    case (PUpdate others p wid payload)
    have "platform_ok S d'" if "update_workflow now others (pr_tenant p) wid payload (actor_label p) d = Inr (w', d')" for w' d'
    proof -
      have "lawful S others" "case wu_tasks payload of None \<Rightarrow> True | Some ts \<Rightarrow> normal_tasks ts" using al PUpdate by (simp_all add: c st)
      from updated [OF this(1) d(2,3) this(2) that] show ?thesis unfolding platform_ok_def by metis
    qed
    with PUpdate d audit_keeps show ?thesis
      by (auto simp: c st wf_db_of_def workflow_update_ctl_def split: sum.splits prod.splits)
  next
    case (PDelete p wid)
    have "platform_ok S d'" if "archive_workflow now (pr_tenant p) wid d = Inr d'" for d'
      using archived(1,3) [OF d(3) that] d(2) service_same_ok unfolding platform_ok_def by blast
    with PDelete d audit_keeps show ?thesis by (auto simp: c st workflow_delete_ctl_def split: sum.splits)
  next
    case (PClone others p wid name)
    have "platform_ok S d'" if "clone_workflow now others (pr_tenant p) wid name (actor_label p) d = Inr (w', d')" for w' d'
    proof -
      have "lawful S others" using al PClone by (simp add: c st)
      then show ?thesis using cloned [OF that d(3)] created_keeps [OF d(1)] by metis
    qed
    with PClone d audit_keeps show ?thesis
      by (auto simp: c st wf_db_of_def workflow_clone_ctl_def split: sum.splits prod.splits)
  qed
qed

interpretation pf: command_machine "platform_step S" "\<lambda>st. platform_ok S (fst st)" "platform_allowed S" for S
  by unfold_locales (rule platform_step_ok)

definition fresh_platform :: "settings \<Rightarrow> db \<Rightarrow> bool" where
  "fresh_platform S d \<longleftrightarrow> fresh_service S d \<and> workflows d = [] \<and> revisions d = [] \<and> task_defs d = []"

lemma fresh_platform_ok: "fresh_platform S d \<Longrightarrow> platform_ok S d"
  by (auto simp: fresh_platform_def platform_ok_def fresh_service_ok workflows_ok_def fresh_service_def)

lemma platform_reachable: "fresh_platform S d0 \<Longrightarrow> pf.reaches S (d0, init_exec_mem) (d, mem) \<Longrightarrow> service_ok S d \<and> workflows_ok d"
  using pf.reaches_good [of S "(d0, init_exec_mem)" "(d, mem)"] fresh_platform_ok by (simp add: platform_ok_def)

text \<open>C2. The catalogue stays in order whatever requests are made, in any interleaving with each other and with the
  execution service, starting from an empty installation: a tenant has no two workflows of one name; the
  revisions of a workflow are numbered 1 to its current one without gaps; each stored document belongs to
  the workflow's tenant, carries its own number, is in normal form and a valid DAG; and name, description
  and task definitions of a workflow are those of its last revision.\<close>

theorem catalogue_stays_in_order:
  assumes "fresh_platform S d0" and "pf.reaches S (d0, init_exec_mem) (d, mem)"
  shows "distinct (map (\<lambda>w. (wf_tenant w, wf_name w)) (workflows d)) \<and>
    (\<forall>w \<in> set (workflows d). map rv_revision (revs_of (wf_id w) d) = [1..wf_current_revision w] \<and>
       (\<forall>r \<in> set (revs_of (wf_id w) d). rv_tenant r = wf_tenant w \<and> doc_revision (rv_document r) = rv_revision r \<and>
          normal_tasks (doc_tasks (rv_document r)) \<and> well_formed_dag (doc_tasks (rv_document r))) \<and>
       (\<exists>r. get_latest_revision (wf_id w) d = Some r \<and> rv_revision r = wf_current_revision w \<and>
          doc_name (rv_document r) = wf_name w \<and> doc_description (rv_document r) = wf_description w \<and>
          doc_tasks (rv_document r) = map def_spec (filter (\<lambda>t. td_workflow t = wf_id w) (task_defs d))))"
proof (intro conjI ballI)
  have ok: "workflows_ok d" using platform_reachable [OF assms] by simp
  then show "distinct (map (\<lambda>w. (wf_tenant w, wf_name w)) (workflows d))" by (simp add: workflows_ok_def)
  fix w assume "w \<in> set (workflows d)"
  with ok have good: "wf_good d w" by (simp add: workflows_ok_def)
  then show "map rv_revision (revs_of (wf_id w) d) = [1..wf_current_revision w]" by (simp add: wf_good_def)
  show "\<exists>r. get_latest_revision (wf_id w) d = Some r \<and> rv_revision r = wf_current_revision w \<and>
          doc_name (rv_document r) = wf_name w \<and> doc_description (rv_document r) = wf_description w \<and>
          doc_tasks (rv_document r) = map def_spec (filter (\<lambda>t. td_workflow t = wf_id w) (task_defs d))"
    using wf_good_latest(2,4) [OF good] good by (simp add: wf_good_def defs_of_def)
  fix r assume "r \<in> set (revs_of (wf_id w) d)"
  with good have "doc_ok (wf_tenant w) r" by (simp add: wf_good_def)
  then show "rv_tenant r = wf_tenant w" "doc_revision (rv_document r) = rv_revision r"
    "normal_tasks (doc_tasks (rv_document r))" "well_formed_dag (doc_tasks (rv_document r))"
    by (simp_all add: doc_ok_def validate_iff)
qed

section \<open>Starting what the catalogue holds\<close>

lemma current_document_latest:
  assumes "workflows_ok d" and "w \<in> set (workflows d)"
  shows "fst (current_document w d) = rv_document (last (revs_of (wf_id w) d))"
    and "snd (snd (current_document w d)) = wf_current_revision w"
proof -
  from assms have good: "wf_good d w" by (simp add: workflows_ok_def)
  note l = wf_good_latest [OF good]
  have "latest_revision (sort_key rv_revision (filter (\<lambda>r. rv_workflow r = wf_id w) (revisions d))) = Some (last (revs_of (wf_id w) d))"
    using l(2,3) by (simp add: get_latest_revision_def revs_of_def)
  then show "fst (current_document w d) = rv_document (last (revs_of (wf_id w) d))"
    "snd (snd (current_document w d)) = wf_current_revision w"
    using l(4) by (simp_all add: current_document_def)
qed

text \<open>The task definitions of a stored document do not clash when its execution tasks are inserted.\<close>

lemma found_distinct:
  assumes "distinct (map ts_name ts)" and "distinct (map td_id defs)"
  shows "distinct (List.map_filter (\<lambda>t. map_option td_id (find (\<lambda>x. td_name x = ts_name t) (rev defs))) ts)"
  using assms(1)
proof (induction ts)
  case Nil
  then show ?case by (simp add: map_filter_simps)
next
  case (Cons t ts)
  let ?f = "\<lambda>t. find (\<lambda>x. td_name x = ts_name t) (rev defs)"
  have "td_id x \<notin> set (List.map_filter (\<lambda>t. map_option td_id (?f t)) ts)" if x: "?f t = Some x" for x
  proof
    assume "td_id x \<in> set (List.map_filter (\<lambda>t. map_option td_id (?f t)) ts)"
    then obtain t' y where t': "t' \<in> set ts" "?f t' = Some y" "td_id y = td_id x" unfolding in_map_filter by auto
    note xd = find_SomeD [OF x] and yd = find_SomeD [OF t'(2)]
    have "y = x" using inj_onD [of td_id "set defs" y x] assms(2) t'(3) xd yd by (simp add: distinct_map)
    then have "ts_name t \<in> ts_name ` set ts" using xd yd t'(1) by (metis imageI)
    with Cons.prems show False by simp
  qed
  with Cons show ?case by (cases "?f t") (simp_all add: map_filter_simps)
qed

lemma stored_no_conflict:
  assumes "workflows_ok d" and "w \<in> set (workflows d)" and "seen_key tenant key d = None"
    and "case key of None \<Rightarrow> True | Some k \<Rightarrow> k \<noteq> []"
  shows "\<not> flush_conflicts tenant key d \<and> \<not> spawn_conflicts (fst (current_document w d)) (workflow_tasks (wf_id w) d)"
proof -
  from assms(1,2) have good: "wf_good d w" by (simp add: workflows_ok_def)
  from wf_good_latest(5) [OF good] have "distinct (map ts_name (doc_tasks (fst (current_document w d))))"
    by (simp add: current_document_latest(1) [OF assms(1,2)] doc_ok_def validate_iff well_formed_dag_def)
  moreover have "distinct (map td_id (filter (\<lambda>t. td_workflow t = wf_id w) (task_defs d)))"
    using assms(1) by (simp add: workflows_ok_def distinct_map_filter)
  then have "distinct (map td_id (workflow_tasks (wf_id w) d))"
    unfolding workflow_tasks_def by (simp add: distinct_map)
  ultimately have "distinct (List.map_filter (\<lambda>t. map_option td_id (find (\<lambda>x. td_name x = ts_name t)
      (rev (workflow_tasks (wf_id w) d)))) (doc_tasks (fst (current_document w d))))" by (rule found_distinct)
  with assms(3,4) show ?thesis by (auto simp: flush_conflicts_def spawn_conflicts_def seen_key_def split: option.splits if_splits)
qed

lemma spawn_total:
  assumes ok: "service_ok S d" and ten: "tenant \<noteq> []" and free: "\<not> flush_conflicts tenant key d \<and> \<not> spawn_conflicts doc (workflow_tasks (wf_id w) d)"
  shows "\<exists>e d' sent. spawn S now tenant w doc rvid revno actor key d = Inr (e, d', sent)"
proof -
  obtain eid d1 where sp: "spawn_rows now tenant w (workflow_tasks (wf_id w) d) doc rvid revno actor key d = (eid, d1)" by fastforce
  note ok1 = spawn_rows_ok(1) [OF ok ten sp]
  note load = spawn_rows_load(1) [OF ok sp]
  define s where "s = \<lparr>se_exec = new_execution now tenant w doc rvid revno actor key eid,
      se_items = new_tasks eid (workflow_tasks (wf_id w) d) (uuid_supply d) (Suc (uuid_draws d)) (doc_tasks doc), se_db = d1, se_sent = []\<rparr>"
  note load' = load [folded s_def]
  have "\<not> ex_cancel_requested (se_exec s)" by (simp add: s_def new_execution_def)
  from ready_pass_items [OF service_ok_session(1) [OF ok1 load'] this, of S now] obtain s1 where rp: "ready_pass S now s = Inr s1" by blast
  show ?thesis unfolding spawn_def Let_def using free by (simp add: sp load' rp)
qed

lemma trigger_total:
  assumes "service_ok S d" and "workflows_ok d" and "tenant \<noteq> []" and "seen_key tenant key d = None"
    and "case key of None \<Rightarrow> True | Some k \<Rightarrow> k \<noteq> []"
  shows "case get_workflow tenant wid False d of
      None \<Rightarrow> trigger_workflow S now tenant wid actor key d = Inl (ApiError 404 ''not_found'' ''Workflow not found.'')
    | Some w \<Rightarrow>
        if max_concurrent_executions_per_tenant S \<le> active_executions tenant d
        then trigger_workflow S now tenant wid actor key d =
          Inl (ApiError 429 ''quota_exceeded'' ''Concurrent execution quota reached for this tenant.'')
        else \<exists>e d' sent. trigger_workflow S now tenant wid actor key d = Inr (e, d', sent)"
proof -
  have seen: "(case key of None \<Rightarrow> None | Some k \<Rightarrow> if k = [] then None else execution_with_key tenant k d) = None"
    using assms(4) by (simp add: seen_key_def)
  have g: "find (\<lambda>w. wf_id w = wid \<and> wf_tenant w = tenant \<and> \<not> wf_is_archived w) (workflows d) = get_workflow tenant wid False d"
    by (simp add: get_workflow_def)
  have found: "\<exists>e d' sent. (case latest_revision (sort_key rv_revision (filter (\<lambda>r. rv_workflow r = wid) (revisions d))) of
       Some r \<Rightarrow> spawn S now tenant w (rv_document r) (Some (rv_id r)) (rv_revision r) actor key d
     | None \<Rightarrow> spawn S now tenant w (document_from_tasks w d) None (wf_current_revision w) actor key d) = Inr (e, d', sent)"
    if w: "get_workflow tenant wid False d = Some w" for w
  proof -
    note ws = get_workflow_SomeD [OF w]
    then have "\<not> flush_conflicts tenant key d \<and> \<not> spawn_conflicts (fst (current_document w d)) (workflow_tasks (wf_id w) d)"
      by (intro stored_no_conflict [OF assms(2) _ assms(4,5)]) simp
    from spawn_total [OF assms(1,3) this] ws show ?thesis by (auto simp: current_document_def split: option.splits)
  qed
  show ?thesis
  proof (cases "get_workflow tenant wid False d")
    case None
    then show ?thesis by (simp add: trigger_workflow_def seen g)
  next
    case (Some w)
    with found [OF Some] show ?thesis by (simp add: trigger_workflow_def seen g)
  qed
qed

text \<open>C18. What a trigger answers, in a consistent installation and when its key is new: 404 when the tenant has
  no unarchived workflow of that identifier, else 429 when the quota is used up, and otherwise the new
  execution. Nothing else can go wrong: no conflict, and no exception in the first scheduling pass.\<close>

theorem trigger_outcomes:
  assumes "service_ok S d" and "workflows_ok d" and "tenant \<noteq> []" and "seen_key tenant key d = None"
    and "case key of None \<Rightarrow> True | Some k \<Rightarrow> k \<noteq> []"
  shows "case get_workflow tenant wid False d of
      None \<Rightarrow> trigger_workflow S now tenant wid actor key d = Inl (ApiError 404 ''not_found'' ''Workflow not found.'')
    | Some w \<Rightarrow>
        if max_concurrent_executions_per_tenant S \<le> active_executions tenant d
        then trigger_workflow S now tenant wid actor key d =
          Inl (ApiError 429 ''quota_exceeded'' ''Concurrent execution quota reached for this tenant.'')
        else \<exists>e d' sent. trigger_workflow S now tenant wid actor key d = Inr (e, d', sent)"
  using assms by (rule trigger_total)

lemma triggered_snapshot:
  assumes "service_ok S d" and "tenant \<noteq> []" and "seen_key tenant key d = None"
    and "trigger_workflow S now tenant wid actor key d = Inr (e, d', sent)"
  obtains w where "w \<in> set (workflows d)" "ex_snapshot e = fst (current_document w d)"
  using assms(4)
proof (cases rule: trigger_cases)
  case existing
  with assms(3) show ?thesis by simp
next
  case (created w doc rvid revno)
  from created(8) show ?thesis
  proof (cases rule: spawn_cases)
    case sp: (created eid d1 s s1)
    have "ex_snapshot e = doc" using spawned_rows(4) [OF assms(1,2) sp(2,3,4)]
      by (simp add: exec_keeps_def new_execution_def sp(5))
    with that created(2,7) show ?thesis by simp
  qed
qed

text \<open>C14. Every workflow of the catalogue can run: a trigger that starts a new execution of it leaves it running,
  with every task pending or queued, none blocked, and a job that a worker can claim.\<close>

theorem stored_workflow_starts:
  assumes "service_ok S d" and "workflows_ok d" and "tenant \<noteq> []" and "seen_key tenant key d = None"
    and "case key of None \<Rightarrow> True | Some k \<Rightarrow> k \<noteq> []"
    and "trigger_workflow S now tenant wid actor key d = Inr (e, d', sent)"
  shows "ex_status e = ERunning \<and> (\<exists>items. rows_of (ex_id e) d' = Some (e, items) \<and>
    (\<forall>i \<in> set items. et_status i \<in> {TPending, TQueued}) \<and>
    (\<exists>i \<in> set items. et_status i = TQueued \<and>
       (\<exists>j \<in> set (jobs d'). qj_etask j = et_id i \<and> qj_execution j = ex_id e \<and> qj_state j = QQueued)))"
proof (rule validated_workflow_starts [OF assms(1,3,4,6,5)])
  obtain w where w: "w \<in> set (workflows d)" and snap: "ex_snapshot e = fst (current_document w d)"
    by (rule triggered_snapshot [OF assms(1,3,4,6)])
  have "doc_ok (wf_tenant w) (last (revs_of (wf_id w) d))"
    using wf_good_latest(5) assms(2) w by (simp add: workflows_ok_def)
  then show "validate (doc_tasks (ex_snapshot e)) = Inr ()" "doc_tasks (ex_snapshot e) \<noteq> []"
    by (simp_all add: snap current_document_latest(1) [OF assms(2) w] doc_ok_def normal_tasks_def)
qed

section \<open>Export, import and clones\<close>

lemma export_InrD:
  assumes "export_workflow tenant wid d = Inr doc" and "workflows_ok d"
  obtains w where "get_workflow tenant wid True d = Some w" "doc = rv_document (last (revs_of wid d))" "doc_ok tenant (last (revs_of wid d))"
proof -
  from assms(1) obtain w r where g: "get_workflow tenant wid True d = Some w" "get_latest_revision (wf_id w) d = Some r" "doc = rv_document r"
    by (auto simp: export_workflow_def split: option.splits)
  note w = get_workflow_SomeD [OF g(1)]
  with assms(2) have good: "wf_good d w" by (simp add: workflows_ok_def)
  with wf_good_latest(2,5) [OF good] g w that show ?thesis by simp
qed

lemma export_of_created:
  assumes "lawful S others" "service_ok S d" "workflows_ok d" "normal_tasks (wc_tasks payload)"
    and "create_workflow now others tenant payload actor ov d = Inr (w, d')"
  shows "export_workflow tenant (wf_id w) d' = Inr (create_document payload ov)"
proof -
  note c = created [OF assms]
  have "wf_good d' w" using c(2,4) by (simp add: workflows_ok_def)
  from wf_good_latest(2) [OF this] c(7,8) show ?thesis by (simp add: export_workflow_def)
qed

text \<open>C27. Export and import are inverse: the exported document of a workflow with a normal name parses, and
  creating a workflow from it in another tenant gives one whose export is the same document, as revision 1.\<close>

theorem export_import_roundtrip:
  assumes "service_ok S d" and "workflows_ok d" and "lawful S others"
    and "export_workflow tenant wid d = Inr doc" and "normal_name (doc_name doc)"
    and "case doc_description doc of None \<Rightarrow> True | Some s \<Rightarrow> length s \<le> 2000"
  shows "\<exists>payload. parse_document doc = Some payload \<and>
    (\<forall>tenant' w d'. create_workflow now others tenant' payload actor None d = Inr (w, d') \<longrightarrow>
       export_workflow tenant' (wf_id w) d' = Inr (doc\<lparr>doc_revision := 1\<rparr>))"
proof -
  obtain w where w: "doc_ok tenant (last (revs_of wid d))" "doc = rv_document (last (revs_of wid d))"
    by (rule export_InrD [OF assms(4,2)])
  let ?p = "\<lparr>wc_name = doc_name doc, wc_description = doc_description doc, wc_tasks = doc_tasks doc\<rparr>"
  have tasks: "normal_tasks (doc_tasks doc)" using w by (simp add: doc_ok_def)
  have parse: "parse_document doc = Some ?p" unfolding parse_document_def
    by (rule make_create_id [OF assms(5) tasks]) (use assms(6) in \<open>simp add: opt_all_def\<close>)
  have "create_document ?p None = doc\<lparr>doc_revision := 1\<rparr>"
    using assms(5) by (simp add: create_document_def create_name_def or_string_def normal_name_def)
  with parse tasks export_of_created [OF assms(3,1,2), of ?p] show ?thesis by (intro exI [of _ ?p]) simp
qed

section \<open>Concurrent updates\<close>

text \<open>C26. Updates are not lost. An update that succeeds was made to the latest revision: whatever other sessions
  committed since the request read it, no revision of this workflow was among it; the history gets one
  entry, by this actor, with the fields of the request over those of the latest document.\<close>

theorem update_loses_nothing:
  assumes "lawful S others" and "service_ok S d" and "workflows_ok d"
    and "case wu_tasks payload of None \<Rightarrow> True | Some ts \<Rightarrow> normal_tasks ts"
    and "update_workflow now others tenant wid payload actor d = Inr (w', d')"
  shows "\<exists>w r. get_workflow tenant wid False d = Some w \<and> revs_of wid (others d) = revs_of wid d \<and>
    revs_of wid d' = revs_of wid d @ [r] \<and> rv_created_by r = actor \<and> rv_revision r = wf_current_revision w + 1 \<and>
    rv_document r = update_document payload w (rv_document (last (revs_of wid d)))"
proof -
  obtain w where w: "get_workflow tenant wid False d = Some w" "workflows_ok d'"
    "rv_document (last (revs_of wid d')) = update_document payload w (rv_document (last (revs_of wid d)))"
    by (rule updated [OF assms])
  obtain w2 r name desc ts d1 where g: "get_workflow tenant wid False d = Some w2" and d1: "d1 = others d"
    and none: "\<forall>r' \<in> set (revs_of (wf_id w2) d1). rv_revision r' \<noteq> wf_current_revision w2 + 1"
    and d': "d' = write_document now (wf_id w2) tenant actor
       \<lparr>doc_name = name, doc_description = desc, doc_revision = wf_current_revision w2 + 1, doc_tasks = ts\<rparr> (updating now w2 name desc d1)"
    by (rule update_succeeds [OF assms(5)])
  have same: "w2 = w" using g w(1) by simp
  note ws = get_workflow_SomeD [OF w(1)]
  then have win: "w \<in> set (workflows d)" "wf_id w = wid" by simp_all
  have "workflows_ok d1" "wf_grows d d1" using assms(1-3) by (simp_all add: lawful_def d1)
  then have revs: "revs_of wid d1 = revs_of wid d"
    using unseen_revisions [OF assms(3) _ _ win(1) none [unfolded same]] win(2) by metis
  from write_document_tables [of now wid tenant actor "\<lparr>doc_name = name, doc_description = desc, doc_revision = wf_current_revision w + 1, doc_tasks = ts\<rparr>"
      "updating now w name desc d1"] obtain r where
    r: "revisions d' = revisions (updating now w name desc d1) @ [r]" "rv_workflow r = wid" "rv_created_by r = actor"
      "rv_revision r = wf_current_revision w + 1" unfolding d' same win(2) wf_document.simps by metis
  then have ext: "revs_of wid d' = revs_of wid d @ [r]" by (simp add: revs_of_def updating_tables revs [unfolded revs_of_def])
  then have "rv_document r = update_document payload w (rv_document (last (revs_of wid d)))" using w(3) by simp
  with w(1) revs ext r show ?thesis by (auto simp: d1)
qed

section \<open>Instances\<close>

definition etl_payload :: workflow_create where
  "etl_payload = get_or (make_create '' etl '' None messy_payload) \<lparr>wc_name = [], wc_description = None, wc_tasks = []\<rparr>"

text \<open>What these come to; later evaluations start here.\<close>

lemma etl_payload_eq [code]: "etl_payload = \<lparr>wc_name = ''etl'', wc_description = None,
     wc_tasks = [\<lparr>ts_name = ''extract'', ts_deps = [], ts_config = \<lparr>cf_type = Some ''sleep'', cf_duration_ms = Some 800,
       cf_max_retries = Some 0, cf_fail_first_n = Some 0, cf_backoff_seconds = Some 1, cf_delay_seconds = Some 0, cf_priority = Some
       0, cf_timeout_seconds = Some 60, cf_allow_failure = False, cf_method = Some ''GET'', cf_url = None, cf_headers = [], cf_body =
       None, cf_expected_status = None, cf_message = None\<rparr>\<rparr>, \<lparr>ts_name = ''load'', ts_deps = [''extract''],
       ts_config = \<lparr>cf_type = Some ''http'', cf_duration_ms = Some 800, cf_max_retries = Some 2, cf_fail_first_n = Some 3,
       cf_backoff_seconds = Some 1, cf_delay_seconds = Some 0, cf_priority = Some 0, cf_timeout_seconds = Some 60, cf_allow_failure =
       False, cf_method = Some ''GET'', cf_url = Some ''https://db'', cf_headers = [], cf_body = None, cf_expected_status = None,
       cf_message = None\<rparr>\<rparr>]\<rparr>"
  by code_simp

lemma etl_fields: "wc_name etl_payload = ''etl''" "normal_tasks (wc_tasks etl_payload)" "wc_description etl_payload = None"
proof -
  obtain p where p: "make_create '' etl '' None messy_payload = Some p" "wc_name p = ''etl''" by (rule messy_payload_some)
  then have e: "etl_payload = p" by (simp add: etl_payload_def)
  show "wc_name etl_payload = ''etl''" "normal_tasks (wc_tasks etl_payload)" "wc_description etl_payload = None"
    using p(2) make_create_fields [OF p(1)] by (simp_all add: e)
qed

definition installed :: db where
  "installed = wf_db_of (create_workflow 0 (\<lambda>d. d) ''acme'' etl_payload ''ops'' None (empty_db demo_supply)) (empty_db demo_supply)"

lemma installed_eq [code]: "installed = \<lparr>tenants = [], api_keys = [], workflows = [\<lparr>wf_id = ''u0'', wf_tenant = ''acme'', wf_name = ''etl'',
     wf_description = None, wf_current_revision = 1, wf_is_archived = False, wf_created_at = 0, wf_updated_at = 0\<rparr>],
     revisions = [\<lparr>rv_id = ''u3'', rv_workflow = ''u0'', rv_tenant = ''acme'', rv_revision = 1, rv_document =
     \<lparr>doc_name = ''etl'', doc_description = None, doc_revision = 1, doc_tasks = wc_tasks etl_payload\<rparr>, rv_created_by
     = ''ops'', rv_created_at = 0\<rparr>], task_defs = [\<lparr>td_id = ''u1'', td_workflow = ''u0'', td_name = ''extract'',
     td_deps = [], td_config = ts_config (wc_tasks etl_payload ! 0), td_created_at = 0\<rparr>, \<lparr>td_id = ''u2'', td_workflow
     = ''u0'', td_name = ''load'', td_deps = [''extract''], td_config = ts_config (wc_tasks etl_payload ! 1), td_created_at =
     0\<rparr>], executions = [], etasks = [], elogs = [], jobs = [], worker_rows = [], audits = [], secrets = [], endpoints = [],
     deliveries = [], schedules = [], outbox = [], uuid_supply = demo_supply, uuid_draws = 4\<rparr>"
proof -
  have "validate (wc_tasks etl_payload) = Inr ()" "[demo_supply 0, demo_supply 1, demo_supply 2, demo_supply 3] = [''u0'', ''u1'', ''u2'', ''u3'']"
    by code_simp+
  then show ?thesis
    by (simp add: installed_def create_steps wf_db_of_def empty_db_def name_exists_def write_document_def insert_revision_def
        insert_task_def_def generate_uuid_def created_row_def create_document_def create_name_def or_string_def get_workflow_def
        etl_payload_eq eval_nat_numeral Let_def py_strip_def is_space_def)
qed

lemma lawful_id [simp]: "lawful S (\<lambda>d. d)"
  by (simp add: lawful_def)

lemma empty_platform: "fresh_platform default_settings (empty_db demo_supply)"
  by (simp add: fresh_platform_def fresh_service_def empty_db_def demo_supply_inj default_settings_def)

lemma installed_ok: "service_ok default_settings installed" "workflows_ok installed"
proof -
  have "platform_ok default_settings installed"
    using fresh_platform_ok [OF empty_platform] created_keeps [OF _ lawful_id etl_fields(2)]
    by (auto simp: installed_def wf_db_of_def split: sum.splits)
  then show "service_ok default_settings installed" "workflows_ok installed" by (simp_all add: platform_ok_def)
qed

lemma installed_workflow: "map_option wf_name (get_workflow ''acme'' ''u0'' False installed) = Some ''etl''"
  by code_simp

lemma installed_export:
  "case export_workflow ''acme'' ''u0'' installed of Inr doc \<Rightarrow> doc_name doc = ''etl'' \<and> doc_description doc = None \<and>
     map ts_name (doc_tasks doc) = [''extract'', ''load''] | Inl _ \<Rightarrow> False"
  by code_simp

lemma installed_idle: "seen_key ''acme'' None installed = None" "active_executions ''acme'' installed = 0"
  by code_simp+

lemma catalogue_stays_in_order_witness:
  "\<exists>d mem. pf.reaches default_settings (empty_db demo_supply, init_exec_mem) (d, mem) \<and>
     distinct (map (\<lambda>w. (wf_tenant w, wf_name w)) (workflows d))"
proof -
  define p where "p = \<lparr>pr_tenant = ''acme'', pr_tenant_name = ''Acme'', pr_key = ''k'', pr_key_name = ''ops'', pr_role = ''operator''\<rparr>"
  have "pf.reaches default_settings (empty_db demo_supply, init_exec_mem)
      (platform_step default_settings (0, PCreate (\<lambda>d. d) p etl_payload) (empty_db demo_supply, init_exec_mem))"
    by (rule pf.next_step [OF pf.start]) (simp add: etl_fields)
  moreover obtain d mem where "platform_step default_settings (0, PCreate (\<lambda>d. d) p etl_payload) (empty_db demo_supply, init_exec_mem) = (d, mem)"
    by fastforce
  ultimately have "pf.reaches default_settings (empty_db demo_supply, init_exec_mem) (d, mem)" by simp
  from catalogue_stays_in_order [OF empty_platform this] this show ?thesis by blast
qed

lemma trigger_outcomes_witness:
  "(\<exists>e d' sent. trigger_workflow default_settings 5 ''acme'' ''u0'' ''ops'' None installed = Inr (e, d', sent)) \<and>
   trigger_workflow default_settings 5 ''evil'' ''u0'' ''ops'' None installed = Inl (ApiError 404 ''not_found'' ''Workflow not found.'')"
proof
  obtain w where w: "get_workflow ''acme'' ''u0'' False installed = Some w" using installed_workflow by auto
  show "\<exists>e d' sent. trigger_workflow default_settings 5 ''acme'' ''u0'' ''ops'' None installed = Inr (e, d', sent)"
    using trigger_outcomes [OF installed_ok acme_nonempty installed_idle(1), where wid = "''u0''" and now = 5 and actor = "''ops''"]
    by (simp add: w installed_idle(2) default_settings_def)
  have "seen_key ''evil'' None installed = None" "get_workflow ''evil'' ''u0'' False installed = None" by code_simp+
  then show "trigger_workflow default_settings 5 ''evil'' ''u0'' ''ops'' None installed = Inl (ApiError 404 ''not_found'' ''Workflow not found.'')"
    using trigger_outcomes [OF installed_ok, where tenant = "''evil''" and key = None and wid = "''u0''" and now = 5 and actor = "''ops''"] by simp
qed

lemma installed_triggered:
  obtains e d' sent where "trigger_workflow default_settings 5 ''acme'' ''u0'' ''ops'' None installed = Inr (e, d', sent)"
proof -
  obtain w where "get_workflow ''acme'' ''u0'' False installed = Some w" using installed_workflow by auto
  then show ?thesis
    using that trigger_total [OF installed_ok acme_nonempty installed_idle(1), where wid = "''u0''" and now = 5 and actor = "''ops''"]
    by (auto simp: installed_idle(2) default_settings_def)
qed

lemma stored_workflow_starts_witness:
  "\<exists>e d' sent. trigger_workflow default_settings 5 ''acme'' ''u0'' ''ops'' None installed = Inr (e, d', sent) \<and> ex_status e = ERunning"
proof -
  obtain e d' sent where t: "trigger_workflow default_settings 5 ''acme'' ''u0'' ''ops'' None installed = Inr (e, d', sent)"
    by (rule installed_triggered)
  from stored_workflow_starts [OF installed_ok acme_nonempty installed_idle(1) _ t] t show ?thesis by auto
qed

lemma export_import_roundtrip_witness:
  "\<exists>doc payload. export_workflow ''acme'' ''u0'' installed = Inr doc \<and> parse_document doc = Some payload"
proof -
  obtain doc where doc: "export_workflow ''acme'' ''u0'' installed = Inr doc" "doc_name doc = ''etl''" "doc_description doc = None"
    using installed_export by (auto split: sum.splits)
  have "normal_name (doc_name doc)" unfolding doc(2) by code_simp
  from export_import_roundtrip [OF installed_ok lawful_id doc(1) this, of 0 "[]"] doc show ?thesis by auto
qed

definition rename :: workflow_update where
  "rename = \<lparr>wu_name = Some ''nightly etl'', wu_description = None, wu_tasks = None\<rparr>"

lemma update_loses_nothing_witness:
  "\<exists>w' d' r. update_workflow 7 (\<lambda>d. d) ''acme'' ''u0'' rename ''ops'' installed = Inr (w', d') \<and>
     revs_of ''u0'' d' = revs_of ''u0'' installed @ [r] \<and> rv_created_by r = ''ops''"
proof -
  have "case update_workflow 7 (\<lambda>d. d) ''acme'' ''u0'' rename ''ops'' installed of Inr _ \<Rightarrow> True | Inl _ \<Rightarrow> False" by code_simp
  then obtain w' d' where u: "update_workflow 7 (\<lambda>d. d) ''acme'' ''u0'' rename ''ops'' installed = Inr (w', d')" by (auto split: sum.splits)
  from update_loses_nothing [OF lawful_id installed_ok _ u] u show ?thesis by (auto simp: rename_def)
qed

text \<open>
  Two requests for one name: the second passes the check, and the flush that inserts its row raises the
  database's exception outside the \<open>try\<close> that would turn it into a 409.
\<close>

lemma create_race_raises:
  "case create_workflow 0 (\<lambda>_. installed) ''acme'' etl_payload ''ops'' None (empty_db demo_supply) of
     Inl IntegrityError \<Rightarrow> True | _ \<Rightarrow> False"
  by code_simp

text \<open>
  A clone request may name the copy with blanks, which the service strips: the copy has no name, and its
  document is one that the service itself cannot parse any more.
\<close>

lemma blank_clone:
  assumes "lawful S others" and "service_ok S d" and "workflows_ok d" and "py_strip name = []" and "name \<noteq> []"
    and c: "clone_workflow now others tenant wid (Some name) actor d = Inr (w, d')"
  shows "wf_name w = [] \<and> clone_workflow now' others' tenant (wf_id w) name' actor' d' = Inl ValidationError"
proof -
  obtain src payload where p: "create_workflow now others tenant payload actor (Some name) d = Inr (w, d')" "normal_tasks (wc_tasks payload)"
    using cloned [OF c assms(3)] assms(5) by (auto simp: or_string_def)
  note cr = created [OF assms(1-3) p(2,1)]
  have blank: "create_name payload (Some name) = []" using assms(4,5) by (simp add: create_name_def or_string_def)
  have "wf_good d' w" using cr(2,4) by (simp add: workflows_ok_def)
  from wf_good_latest(2) [OF this] have "get_latest_revision (wf_id w) d' = Some (last (revs_of (wf_id w) d'))" .
  moreover have "parse_document (create_document payload (Some name)) = None"
    by (simp add: parse_document_def create_document_def blank make_create_def make_name_def)
  moreover have "wf_name w = []" by (subst cr(5)) (simp add: created_row_def blank)
  ultimately show ?thesis using cr(7,8) by (simp add: clone_workflow_def)
qed

lemma blank_clone_accepted:
  "clone_request_ok (Some ''  '')" "py_strip ''  '' = []"
  "case clone_workflow 8 (\<lambda>d. d) ''acme'' ''u0'' (Some ''  '') ''ops'' installed of Inr _ \<Rightarrow> True | Inl _ \<Rightarrow> False"
  by code_simp+

end
