(* ===== verification/Rate_Limit.thy ===== *)
theory Rate_Limit
  imports Settings
begin

text \<open>
  \<open>core/rate_limit.py\<close>: the token bucket in process memory and the one in Redis, and the bucket both
  promise. Tokens and rates are rationals (floats in the code), times are in seconds. The answer of
  \<open>consume\<close> is whether the request may pass and, if not, after how many seconds to come back.
\<close>

section \<open>The two limiters\<close>

record bucket =
  bk_tokens :: rat
  bk_updated_at :: rat

record limiter =
  lm_rate :: rat
  lm_burst :: rat
  lm_buckets :: "(string \<times> bucket) list"

definition init_limiter :: "int \<Rightarrow> int \<Rightarrow> limiter" where
  "init_limiter rate_per_minute burst = \<lparr>lm_rate = of_int rate_per_minute / 60, lm_burst = of_int burst, lm_buckets = []\<rparr>"

definition refill :: "rat \<Rightarrow> rat \<Rightarrow> bucket \<Rightarrow> rat \<Rightarrow> rat" where
  "refill rate burst b now = min burst (bk_tokens b + max 0 (now - bk_updated_at b) * rate)"

definition retry_after :: "rat \<Rightarrow> rat \<Rightarrow> rat" where
  "retry_after rate tokens = (if rate \<noteq> 0 then (1 - tokens) / rate else 60)"

text \<open>\<open>round(x, 2)\<close>.\<close>

definition round2 :: "rat \<Rightarrow> rat" where
  "round2 x = of_int (py_round (x * 100)) / 100"

text \<open>\<open>MemoryRateLimiter.consume\<close>; a refused request keeps the refilled bucket.\<close>

definition memory_consume :: "rat \<Rightarrow> string \<Rightarrow> limiter \<Rightarrow> (bool \<times> rat) \<times> limiter" where
  "memory_consume now key l =
     (let b = (case map_of (lm_buckets l) key of Some b \<Rightarrow> b | None \<Rightarrow> \<lparr>bk_tokens = lm_burst l, bk_updated_at = now\<rparr>);
          tokens = refill (lm_rate l) (lm_burst l) b now in
      if tokens < 1
        then ((False, round2 (retry_after (lm_rate l) tokens)),
              l\<lparr>lm_buckets := AList.update key \<lparr>bk_tokens = tokens, bk_updated_at = now\<rparr> (lm_buckets l)\<rparr>)
      else
        let bs = AList.update key \<lparr>bk_tokens = tokens - 1, bk_updated_at = now\<rparr> (lm_buckets l) in
        ((True, 0), l\<lparr>lm_buckets := (if 10000 < length bs
           then filter (\<lambda>(k, b). now - 600 \<le> bk_updated_at b) bs else bs)\<rparr>))"

text \<open>A Redis hash with its expiry; a refused request writes nothing.\<close>

type_synonym redis_store = "(string \<times> bucket \<times> rat) list"

definition redis_key :: "string \<Rightarrow> string" where
  "redis_key key = ''devflow:ratelimit:'' @ key"

definition hgetall :: "rat \<Rightarrow> string \<Rightarrow> redis_store \<Rightarrow> bucket option" where
  "hgetall now key store = (case map_of store key of
     Some (b, expires) \<Rightarrow> if now < expires then Some b else None | None \<Rightarrow> None)"

definition redis_consume :: "rat \<Rightarrow> rat \<Rightarrow> rat \<Rightarrow> string \<Rightarrow> redis_store \<Rightarrow> (bool \<times> rat) \<times> redis_store" where
  "redis_consume rate burst now key store =
     (let b = (case hgetall now (redis_key key) store of Some b \<Rightarrow> b | None \<Rightarrow> \<lparr>bk_tokens = burst, bk_updated_at = now\<rparr>);
          tokens = refill rate burst b now in
      if tokens < 1 then ((False, round2 (retry_after rate tokens)), store)
      else ((True, 0), AList.update (redis_key key) (\<lparr>bk_tokens = tokens - 1, bk_updated_at = now\<rparr>, now + 600) store))"

section \<open>What a token bucket promises\<close>

text \<open>The abstract bucket: what each key may spend, as of a time.\<close>

fun ideal :: "rat \<Rightarrow> rat \<Rightarrow> rat \<Rightarrow> (string \<Rightarrow> rat) \<Rightarrow> (rat \<times> string) list \<Rightarrow> (bool \<times> rat) list" where
  "ideal rate burst t L [] = []"
| "ideal rate burst t L ((now, k) # reqs) =
     (let L1 = (\<lambda>k. min burst (L k + (now - t) * rate)) in
      if L1 k < 1 then (False, round2 (retry_after rate (L1 k))) # ideal rate burst now L1 reqs
      else (True, 0) # ideal rate burst now (L1(k := L1 k - 1)) reqs)"

fun in_order :: "rat \<Rightarrow> (rat \<times> string) list \<Rightarrow> bool" where
  "in_order t [] \<longleftrightarrow> True"
| "in_order t ((now, k) # reqs) \<longleftrightarrow> t \<le> now \<and> in_order now reqs"

fun granted :: "string \<Rightarrow> (rat \<times> string) list \<Rightarrow> (bool \<times> rat) list \<Rightarrow> nat" where
  "granted key ((now, k) # reqs) ((ok, r) # as) = (if k = key \<and> ok then 1 else 0) + granted key reqs as"
| "granted key _ _ = 0"

fun answers :: "(rat \<Rightarrow> string \<Rightarrow> 's \<Rightarrow> (bool \<times> rat) \<times> 's) \<Rightarrow> (rat \<times> string) list \<Rightarrow> 's \<Rightarrow> (bool \<times> rat) list" where
  "answers consume [] s = []"
| "answers consume ((now, k) # reqs) s = (case consume now k s of (a, s') \<Rightarrow> a # answers consume reqs s')"

text \<open>
  The interface: \<open>avail s k t\<close> is what key \<open>k\<close> may spend at time \<open>t\<close>, \<open>valid t s\<close> that the state was
  last used at time \<open>t\<close> or before. Tokens flow in at the rate up to the burst; a request is served
  exactly when a token is there, and takes it; no request touches another key.
\<close>

locale token_bucket =
  fixes rate burst :: rat
    and consume :: "rat \<Rightarrow> string \<Rightarrow> 's \<Rightarrow> (bool \<times> rat) \<times> 's"
    and avail :: "'s \<Rightarrow> string \<Rightarrow> rat \<Rightarrow> rat"
    and valid :: "rat \<Rightarrow> 's \<Rightarrow> bool"
  assumes avail_flow: "valid t s \<Longrightarrow> t \<le> now \<Longrightarrow> now \<le> u \<Longrightarrow> avail s k u = min burst (avail s k now + (u - now) * rate)"
    and avail_nonneg: "valid t s \<Longrightarrow> t \<le> now \<Longrightarrow> 0 \<le> avail s k now"
    and consume_valid: "valid t s \<Longrightarrow> t \<le> now \<Longrightarrow> valid now (snd (consume now k s))"
    and consume_answer: "valid t s \<Longrightarrow> t \<le> now \<Longrightarrow> fst (consume now k s) =
      (if avail s k now < 1 then (False, round2 (retry_after rate (avail s k now))) else (True, 0))"
    and consume_avail: "valid t s \<Longrightarrow> t \<le> now \<Longrightarrow> avail (snd (consume now k s)) k' now =
      avail s k' now - (if k' = k \<and> 1 \<le> avail s k now then 1 else 0)"
begin

lemma refines_ideal:
  "valid t s \<Longrightarrow> in_order t reqs \<Longrightarrow> answers consume reqs s = ideal rate burst t (\<lambda>k. avail s k t) reqs"
proof (induction reqs arbitrary: t s)
  case Nil
  then show ?case by simp
next
  case (Cons r reqs)
  obtain now k where r: "r = (now, k)" by (cases r)
  obtain a s' where c: "consume now k s = (a, s')" by (cases "consume now k s")
  from Cons.prems r have v: "valid t s" "t \<le> now" "in_order now reqs" by simp_all
  have v': "valid now s'" using consume_valid [OF v(1,2), of k] by (simp add: c)
  have flow: "(\<lambda>k. min burst (avail s k t + (now - t) * rate)) = (\<lambda>k. avail s k now)"
    using avail_flow [OF v(1) order_refl v(2)] by (simp add: fun_eq_iff)
  have next': "(\<lambda>k'. avail s' k' now) = (if avail s k now < 1 then (\<lambda>k. avail s k now) else (\<lambda>k. avail s k now)(k := avail s k now - 1))"
    using consume_avail [OF v(1,2), of k] by (auto simp: c fun_eq_iff)
  have ans: "a = (if avail s k now < 1 then (False, round2 (retry_after rate (avail s k now))) else (True, 0))"
    using consume_answer [OF v(1,2), of k] by (simp add: c)
  show ?case using Cons.IH [OF v' v(3)] by (simp add: r c flow next' ans Let_def)
qed

text \<open>No key is served more often than its tokens and the inflow allow.\<close>

lemma granted_bound:
  "valid t s \<Longrightarrow> in_order t reqs \<Longrightarrow> \<forall>(now, k) \<in> set reqs. now \<le> u \<Longrightarrow> t \<le> u \<Longrightarrow>
   of_nat (granted key reqs (answers consume reqs s)) \<le> avail s key t + (u - t) * rate"
proof (induction reqs arbitrary: t s)
  case Nil
  from avail_flow [OF Nil(1) order_refl Nil(4), of key] have "avail s key u \<le> avail s key t + (u - t) * rate" by simp
  with avail_nonneg [OF Nil(1) Nil(4), of key] show ?case by simp
next
  case (Cons r reqs)
  obtain now k where r: "r = (now, k)" by (cases r)
  obtain a s' where c: "consume now k s = (a, s')" by (cases "consume now k s")
  from Cons.prems r have v: "valid t s" "t \<le> now" "in_order now reqs" "now \<le> u" "\<forall>(now, k) \<in> set reqs. now \<le> u" by auto
  have v': "valid now s'" using consume_valid [OF v(1,2), of k] by (simp add: c)
  have flow: "avail s key now \<le> avail s key t + (now - t) * rate"
    using avail_flow [OF v(1) order_refl v(2), of key] by simp
  have next': "avail s' key now = avail s key now - (if key = k \<and> 1 \<le> avail s k now then 1 else 0)"
    using consume_avail [OF v(1,2), of k key] by (simp add: c)
  have ans: "a = (if avail s k now < 1 then (False, round2 (retry_after rate (avail s k now))) else (True, 0))"
    using consume_answer [OF v(1,2), of k] by (simp add: c)
  have "of_nat (granted key (r # reqs) (answers consume (r # reqs) s)) =
      (if key = k \<and> 1 \<le> avail s k now then 1 else 0) + (of_nat (granted key reqs (answers consume reqs s')) :: rat)"
    by (auto simp: r c ans)
  also have "\<dots> \<le> (if key = k \<and> 1 \<le> avail s k now then 1 else 0) + (avail s' key now + (u - now) * rate)"
    using Cons.IH [OF v' v(3,5,4)] by simp
  also have "\<dots> = avail s key now + (u - now) * rate" by (simp add: next')
  also have "\<dots> \<le> avail s key t + (u - t) * rate" using flow by (simp add: algebra_simps)
  finally show ?case .
qed

text \<open>Who waits for as long as told, unrounded, is served.\<close>

lemma waiting_helps:
  assumes "valid t s" and "t \<le> now" and "avail s k now < 1" and "0 < rate" and "1 \<le> burst"
    and "now + retry_after rate (avail s k now) \<le> u"
  shows "fst (fst (consume u k (snd (consume now k s))))"
proof -
  let ?s = "snd (consume now k s)"
  have le: "0 \<le> retry_after rate (avail s k now)" using assms(3,4) by (simp add: retry_after_def)
  then have u: "now \<le> u" using assms(6) by linarith
  have v: "valid now ?s" by (rule consume_valid [OF assms(1,2)])
  have a: "avail ?s k now = avail s k now" using consume_avail [OF assms(1,2), of k k] assms(3) by simp
  have "(1 - avail s k now) = retry_after rate (avail s k now) * rate" using assms(4) by (simp add: retry_after_def)
  also have "\<dots> \<le> (u - now) * rate" using assms(4,6) by (intro mult_right_mono) linarith+
  finally have "1 \<le> avail ?s k u" using avail_flow [OF v order_refl u, of k] assms(5) by (simp add: a)
  then show ?thesis using consume_answer [OF v u, of k] by simp
qed

end

section \<open>Refilling\<close>

text \<open>A bucket refilled twice is a bucket refilled once.\<close>

lemma refill_flow:
  assumes "0 \<le> rate" and "bk_updated_at b \<le> now" and "now \<le> u"
  shows "refill rate burst b u = min burst (refill rate burst b now + (u - now) * rate)"
proof -
  have "(u - bk_updated_at b) * rate = (now - bk_updated_at b) * rate + (u - now) * rate" by (simp add: algebra_simps)
  moreover have "0 \<le> (u - now) * rate" using assms by simp
  ultimately show ?thesis using assms(2,3) by (simp add: refill_def min_def max_def)
qed

lemma refill_le: "refill rate burst b now \<le> burst"
  by (simp add: refill_def)

lemma refill_nonneg:
  assumes "0 \<le> rate" and "0 \<le> burst" and "0 \<le> bk_tokens b"
  shows "0 \<le> refill rate burst b now"
proof -
  have "0 \<le> max 0 (now - bk_updated_at b) * rate" using assms(1) by simp
  with assms show ?thesis by (simp add: refill_def)
qed

lemma refill_now: "refill rate burst \<lparr>bk_tokens = x, bk_updated_at = now\<rparr> now = min burst x"
  by (simp add: refill_def)

text \<open>Ten minutes fill every bucket, when the rate allows.\<close>

lemma refill_full:
  assumes "0 \<le> rate" and "burst \<le> 600 * rate" and "0 \<le> bk_tokens b" and "bk_updated_at b + 600 \<le> now"
  shows "refill rate burst b now = burst"
proof -
  have "600 * rate \<le> (now - bk_updated_at b) * rate" using assms(1,4) by (intro mult_right_mono) auto
  then show ?thesis using assms by (simp add: refill_def min_def max_def)
qed

definition tokens_at :: "rat \<Rightarrow> rat \<Rightarrow> bucket option \<Rightarrow> rat \<Rightarrow> rat" where
  "tokens_at rate burst b now = (case b of None \<Rightarrow> burst | Some b \<Rightarrow> refill rate burst b now)"

definition sound_params :: "rat \<Rightarrow> rat \<Rightarrow> bool" where
  "sound_params rate burst \<longleftrightarrow> 0 \<le> rate \<and> 0 \<le> burst \<and> burst \<le> 600 * rate"

definition sound_bucket :: "rat \<Rightarrow> bucket \<Rightarrow> bool" where
  "sound_bucket t b \<longleftrightarrow> 0 \<le> bk_tokens b \<and> bk_updated_at b \<le> t"

lemma level_flow:
  assumes "sound_params rate burst" and "\<And>b. x = Some b \<Longrightarrow> bk_updated_at b \<le> now" and "now \<le> u"
  shows "tokens_at rate burst x u = min burst (tokens_at rate burst x now + (u - now) * rate)"
  using assms refill_flow [of rate _ now u burst]
  by (cases x) (auto simp: tokens_at_def sound_params_def min_def)

lemma level_nonneg:
  "sound_params rate burst \<Longrightarrow> (\<And>b. x = Some b \<Longrightarrow> 0 \<le> bk_tokens b) \<Longrightarrow> 0 \<le> tokens_at rate burst x now"
  by (cases x) (auto simp: tokens_at_def sound_params_def intro: refill_nonneg)

lemma level_le: "tokens_at rate burst x now \<le> burst"
  by (cases x) (simp_all add: tokens_at_def refill_le)

lemma level_at: "tokens_at rate burst (Some \<lparr>bk_tokens = y, bk_updated_at = now\<rparr>) now = min burst y"
  by (simp add: tokens_at_def refill_now)

section \<open>The bucket in memory\<close>

definition memory_avail :: "limiter \<Rightarrow> string \<Rightarrow> rat \<Rightarrow> rat" where
  "memory_avail l k t = tokens_at (lm_rate l) (lm_burst l) (map_of (lm_buckets l) k) t"

definition memory_valid :: "rat \<Rightarrow> rat \<Rightarrow> rat \<Rightarrow> limiter \<Rightarrow> bool" where
  "memory_valid rate burst t l \<longleftrightarrow> lm_rate l = rate \<and> lm_burst l = burst \<and> sound_params rate burst \<and>
     distinct (map fst (lm_buckets l)) \<and> (\<forall>b \<in> snd ` set (lm_buckets l). sound_bucket t b)"

lemma map_of_filter_snd:
  assumes "distinct (map fst xs)"
  shows "map_of (filter (\<lambda>(k, b). P b) xs) k = (case map_of xs k of None \<Rightarrow> None | Some b \<Rightarrow> if P b then Some b else None)"
  using assms
proof (induction xs)
  case Nil
  then show ?case by simp
next
  case (Cons x xs)
  obtain k' b where x: "x = (k', b)" by (cases x)
  show ?case
  proof (cases "k' = k")
    case True
    then have "map_of xs k = None" using Cons.prems by (simp add: x map_of_eq_None_iff)
    with Cons True show ?thesis by (simp add: x)
  next
    case False
    with Cons show ?thesis by (simp add: x)
  qed
qed

lemma memory_steps:
  "memory_consume now key l =
     (let tokens = memory_avail l key now in
      if tokens < 1 then ((False, round2 (retry_after (lm_rate l) tokens)),
          l\<lparr>lm_buckets := AList.update key \<lparr>bk_tokens = tokens, bk_updated_at = now\<rparr> (lm_buckets l)\<rparr>)
      else let bs = AList.update key \<lparr>bk_tokens = tokens - 1, bk_updated_at = now\<rparr> (lm_buckets l) in
        ((True, 0), l\<lparr>lm_buckets := (if 10000 < length bs
           then filter (\<lambda>(k, b). now - 600 \<le> bk_updated_at b) bs else bs)\<rparr>))"
proof -
  have "refill (lm_rate l) (lm_burst l) (case map_of (lm_buckets l) key of Some b \<Rightarrow> b
      | None \<Rightarrow> \<lparr>bk_tokens = lm_burst l, bk_updated_at = now\<rparr>) now = memory_avail l key now"
    by (simp add: memory_avail_def tokens_at_def refill_now split: option.splits)
  then show ?thesis by (simp add: memory_consume_def Let_def)
qed

lemma sound_update:
  assumes "\<forall>b \<in> snd ` set xs. sound_bucket t b" and "t \<le> now" and "0 \<le> y"
  shows "\<forall>b \<in> snd ` set (AList.update k \<lparr>bk_tokens = y, bk_updated_at = now\<rparr> xs). sound_bucket now b"
proof
  fix b assume "b \<in> snd ` set (AList.update k \<lparr>bk_tokens = y, bk_updated_at = now\<rparr> xs)"
  then obtain k' where "(k', b) \<in> set (AList.update k \<lparr>bk_tokens = y, bk_updated_at = now\<rparr> xs)" by auto
  then have "b = \<lparr>bk_tokens = y, bk_updated_at = now\<rparr> \<or> (k', b) \<in> set xs"
    by (induction xs) (auto split: if_splits)
  with assms show "sound_bucket now b" by (force simp: sound_bucket_def)
qed

lemma map_of_sound:
  "\<forall>b \<in> snd ` set xs. sound_bucket t b \<Longrightarrow> map_of xs k = Some b \<Longrightarrow> sound_bucket t b"
  using imageI [of "(k, b)" "set xs" snd] by (auto dest: map_of_SomeD)

text \<open>Dropping buckets that nobody used for ten minutes changes nothing: they are full by then.\<close>

lemma memory_prune:
  assumes "sound_params rate burst" and "distinct (map fst xs)" and "\<forall>b \<in> snd ` set xs. sound_bucket now b" and "now \<le> u"
  shows "tokens_at rate burst (map_of (filter (\<lambda>(k, b). now - 600 \<le> bk_updated_at b) xs) k) u = tokens_at rate burst (map_of xs k) u"
proof (cases "map_of xs k")
  case None
  then show ?thesis by (simp add: map_of_filter_snd [OF assms(2)])
next
  case (Some b)
  have "sound_bucket now b" by (rule map_of_sound [OF assms(3) Some])
  with assms(1,4) refill_full [of rate burst b u] show ?thesis
    by (auto simp: map_of_filter_snd [OF assms(2)] Some tokens_at_def sound_params_def sound_bucket_def)
qed

lemma memory_after:
  fixes k :: string and now :: rat and l :: limiter
  assumes v: "memory_valid rate burst t l" and t: "t \<le> now"
  defines "a \<equiv> memory_avail l k now"
  defines "bs \<equiv> AList.update k \<lparr>bk_tokens = (if a < 1 then a else a - 1), bk_updated_at = now\<rparr> (lm_buckets l)"
  defines "l' \<equiv> snd (memory_consume now k l)"
  shows "memory_valid rate burst now l'" and "now \<le> u \<Longrightarrow> memory_avail l' k' u = tokens_at rate burst (map_of bs k') u"
proof -
  from v have r: "lm_rate l = rate" "lm_burst l = burst" "sound_params rate burst" "distinct (map fst (lm_buckets l))"
    and b: "\<forall>b \<in> snd ` set (lm_buckets l). sound_bucket t b" by (simp_all add: memory_valid_def)
  have "0 \<le> a" unfolding a_def memory_avail_def r
    by (rule level_nonneg [OF r(3)]) (use map_of_sound [OF b] in \<open>auto simp: sound_bucket_def\<close>)
  then have sb: "\<forall>b \<in> snd ` set bs. sound_bucket now b" unfolding bs_def by (intro sound_update [OF b t]) simp
  have db: "distinct (map fst bs)" unfolding bs_def by (rule distinct_update [OF r(4)])
  have l': "l' = l\<lparr>lm_buckets := bs\<rparr> \<or> l' = l\<lparr>lm_buckets := filter (\<lambda>(k, b). now - 600 \<le> bk_updated_at b) bs\<rparr>"
    unfolding l'_def bs_def a_def by (simp add: memory_steps Let_def)
  have "distinct (map fst (filter (\<lambda>(k, b). now - 600 \<le> bk_updated_at b) bs))" using db by (rule distinct_map_filter)
  moreover have "\<forall>b \<in> snd ` set (filter (\<lambda>(k, b). now - 600 \<le> bk_updated_at b) bs). sound_bucket now b" using sb by auto
  ultimately show "memory_valid rate burst now l'" using l' r db sb by (auto simp: memory_valid_def)
  show "memory_avail l' k' u = tokens_at rate burst (map_of bs k') u" if "now \<le> u"
    using l' memory_prune [OF r(3) db sb that] by (auto simp: memory_avail_def r)
qed

interpretation memory: token_bucket rate burst memory_consume memory_avail "memory_valid rate burst" for rate burst
proof unfold_locales
  fix t now u :: rat and k k' :: string and l :: limiter
  assume v: "memory_valid rate burst t l" and t: "t \<le> now"
  then have r: "lm_rate l = rate" "lm_burst l = burst" "sound_params rate burst"
    and b: "\<forall>b \<in> snd ` set (lm_buckets l). sound_bucket t b" by (simp_all add: memory_valid_def)
  have upd: "bk_updated_at b \<le> now \<and> 0 \<le> bk_tokens b" if "map_of (lm_buckets l) k = Some b" for b k
    using map_of_sound [OF b that] t by (simp add: sound_bucket_def)
  show "memory_avail l k u = min burst (memory_avail l k now + (u - now) * rate)" if "now \<le> u"
    unfolding memory_avail_def r by (rule level_flow [OF r(3) _ that]) (use upd in blast)
  show "0 \<le> memory_avail l k now"
    unfolding memory_avail_def r by (rule level_nonneg [OF r(3)]) (use upd in blast)
  show "memory_valid rate burst now (snd (memory_consume now k l))" by (rule memory_after(1) [OF v t])
  show "fst (memory_consume now k l) =
      (if memory_avail l k now < 1 then (False, round2 (retry_after rate (memory_avail l k now))) else (True, 0))"
    by (simp add: memory_steps Let_def r)
  have le: "memory_avail l k now \<le> burst" unfolding memory_avail_def r by (rule level_le)
  show "memory_avail (snd (memory_consume now k l)) k' now =
      memory_avail l k' now - (if k' = k \<and> 1 \<le> memory_avail l k now then 1 else 0)"
    unfolding memory_after(2) [OF v t order_refl]
    using le by (cases "k' = k") (auto simp: update_conv level_at, auto simp: memory_avail_def r)
qed

section \<open>The bucket in Redis\<close>

definition redis_avail :: "rat \<Rightarrow> rat \<Rightarrow> redis_store \<Rightarrow> string \<Rightarrow> rat \<Rightarrow> rat" where
  "redis_avail rate burst s k t = tokens_at rate burst (map_option fst (map_of s (redis_key k))) t"

definition redis_valid :: "rat \<Rightarrow> rat \<Rightarrow> rat \<Rightarrow> redis_store \<Rightarrow> bool" where
  "redis_valid rate burst t s \<longleftrightarrow> sound_params rate burst \<and>
     (\<forall>(b, e) \<in> snd ` set s. sound_bucket t b \<and> e = bk_updated_at b + 600)"

lemma redis_key_inj [simp]: "redis_key k = redis_key k' \<longleftrightarrow> k = k'"
  by (simp add: redis_key_def)

lemma redis_lookup:
  assumes "redis_valid rate burst t s" and "map_of s x = Some (b, e)"
  shows "sound_bucket t b" and "e = bk_updated_at b + 600"
proof -
  have "(b, e) \<in> snd ` set s" using imageI [OF map_of_SomeD [OF assms(2)], of snd] by simp
  with assms(1) show "sound_bucket t b" "e = bk_updated_at b + 600" unfolding redis_valid_def by fast+
qed

text \<open>What expires is full.\<close>

lemma redis_steps:
  assumes v: "redis_valid rate burst t s" and t: "t \<le> now"
  shows "redis_consume rate burst now key s =
    (let tokens = redis_avail rate burst s key now in
     if tokens < 1 then ((False, round2 (retry_after rate tokens)), s)
     else ((True, 0), AList.update (redis_key key) (\<lparr>bk_tokens = tokens - 1, bk_updated_at = now\<rparr>, now + 600) s))"
proof -
  have "refill rate burst (case hgetall now (redis_key key) s of Some b \<Rightarrow> b | None \<Rightarrow> \<lparr>bk_tokens = burst, bk_updated_at = now\<rparr>) now =
      redis_avail rate burst s key now"
  proof (cases "map_of s (redis_key key)")
    case None
    then show ?thesis by (simp add: redis_avail_def hgetall_def tokens_at_def refill_now)
  next
    case (Some be)
    obtain b e where be: "be = (b, e)" by (cases be)
    note sb = redis_lookup [OF v Some [unfolded be]]
    show ?thesis
    proof (cases "now < e")
      case True
      then show ?thesis by (simp add: redis_avail_def hgetall_def tokens_at_def Some be)
    next
      case False
      have "refill rate burst b now = burst"
        using v sb False by (intro refill_full) (simp_all add: redis_valid_def sound_params_def sound_bucket_def)
      with False show ?thesis by (simp add: redis_avail_def hgetall_def tokens_at_def refill_now Some be)
    qed
  qed
  then show ?thesis by (simp add: redis_consume_def Let_def)
qed

lemma redis_entries:
  assumes "(x, b, e) \<in> set (AList.update k (b', e') s)"
  shows "(b = b' \<and> e = e') \<or> (x, b, e) \<in> set s"
  using assms by (induction s) (auto split: if_splits)

lemma redis_after:
  assumes v: "redis_valid rate burst t s" and t: "t \<le> now" and y: "0 \<le> y"
  shows "redis_valid rate burst now (AList.update k (\<lparr>bk_tokens = y, bk_updated_at = now\<rparr>, now + 600) s)"
  unfolding redis_valid_def
proof (intro conjI ballI)
  show "sound_params rate burst" using v by (simp add: redis_valid_def)
  fix be assume "be \<in> snd ` set (AList.update k (\<lparr>bk_tokens = y, bk_updated_at = now\<rparr>, now + 600) s)"
  then obtain x b e where be: "be = (b, e)" and "(x, b, e) \<in> set (AList.update k (\<lparr>bk_tokens = y, bk_updated_at = now\<rparr>, now + 600) s)"
    by (cases be) auto
  then consider "b = \<lparr>bk_tokens = y, bk_updated_at = now\<rparr>" "e = now + 600" | "(x, b, e) \<in> set s" using redis_entries by metis
  then show "case be of (b, e) \<Rightarrow> sound_bucket now b \<and> e = bk_updated_at b + 600"
  proof cases
    case 1
    then show ?thesis using y by (simp add: be sound_bucket_def)
  next
    case 2
    from imageI [OF this, of snd] v t show ?thesis by (force simp: be redis_valid_def sound_bucket_def)
  qed
qed

lemma redis_later: "redis_valid rate burst t s \<Longrightarrow> t \<le> now \<Longrightarrow> redis_valid rate burst now s"
  by (force simp: redis_valid_def sound_bucket_def)

interpretation redis: token_bucket rate burst "redis_consume rate burst" "redis_avail rate burst" "redis_valid rate burst" for rate burst
proof unfold_locales
  fix t now u :: rat and k k' :: string and s :: redis_store
  assume v: "redis_valid rate burst t s" and t: "t \<le> now"
  then have sp: "sound_params rate burst" by (simp add: redis_valid_def)
  have upd: "bk_updated_at b \<le> now \<and> 0 \<le> bk_tokens b" if "map_option fst (map_of s (redis_key k)) = Some b" for b k
    using redis_lookup(1) [OF v] that t by (force simp: sound_bucket_def)
  show "redis_avail rate burst s k u = min burst (redis_avail rate burst s k now + (u - now) * rate)" if "now \<le> u"
    unfolding redis_avail_def by (rule level_flow [OF sp _ that]) (use upd in blast)
  show nn: "0 \<le> redis_avail rate burst s k now" for k
    unfolding redis_avail_def by (rule level_nonneg [OF sp]) (use upd in blast)
  note st = redis_steps [OF v t, of k]
  show "redis_valid rate burst now (snd (redis_consume rate burst now k s))"
    using redis_after [OF v t] redis_later [OF v t] by (simp add: st Let_def)
  show "fst (redis_consume rate burst now k s) =
      (if redis_avail rate burst s k now < 1 then (False, round2 (retry_after rate (redis_avail rate burst s k now))) else (True, 0))"
    by (simp add: st Let_def)
  have le: "redis_avail rate burst s k now \<le> burst" unfolding redis_avail_def by (rule level_le)
  show "redis_avail rate burst (snd (redis_consume rate burst now k s)) k' now =
      redis_avail rate burst s k' now - (if k' = k \<and> 1 \<le> redis_avail rate burst s k now then 1 else 0)"
  proof (cases "redis_avail rate burst s k now < 1")
    case True
    then show ?thesis by (simp add: st Let_def)
  next
    case False
    then show ?thesis using le
      by (cases "k' = k") (simp_all add: st Let_def redis_avail_def [of rate burst "AList.update _ _ _"] update_conv level_at
          redis_avail_def [of rate burst s k'])
  qed
qed

section \<open>The limiter of a process\<close>

datatype rate_limiter = MemoryLimiter limiter | RedisLimiter rat rat

text \<open>\<open>client\<close>: the Redis client could be built.\<close>

definition build_rate_limiter :: "settings \<Rightarrow> bool \<Rightarrow> rate_limiter" where
  "build_rate_limiter S client =
     (if rate_limit_backend S = ''redis'' \<and> redis_url S \<noteq> [] \<and> client
        then RedisLimiter (of_int (rate_limit_requests_per_minute S) / 60) (of_int (rate_limit_burst S))
      else MemoryLimiter (init_limiter (rate_limit_requests_per_minute S) (rate_limit_burst S)))"

definition limiter_consume :: "rat \<Rightarrow> string \<Rightarrow> rate_limiter \<times> redis_store \<Rightarrow> (bool \<times> rat) \<times> rate_limiter \<times> redis_store" where
  "limiter_consume now key st = (case st of
     (MemoryLimiter l, store) \<Rightarrow> (case memory_consume now key l of (a, l') \<Rightarrow> (a, MemoryLimiter l', store))
   | (RedisLimiter rate burst, store) \<Rightarrow> (case redis_consume rate burst now key store of (a, store') \<Rightarrow> (a, RedisLimiter rate burst, store')))"

lemma limiter_answers:
  "answers limiter_consume reqs (MemoryLimiter l, store) = answers memory_consume reqs l"
  "answers limiter_consume reqs (RedisLimiter rate burst, store) = answers (redis_consume rate burst) reqs store"
  by (induction reqs arbitrary: l store) (auto simp: limiter_consume_def split: prod.splits)

lemma start_valid:
  assumes "1 \<le> rpm" and "0 \<le> burst" and "burst \<le> 10 * rpm"
  shows "memory_valid (of_int rpm / 60) (of_int burst) t (init_limiter rpm burst)"
    and "redis_valid (of_int rpm / 60) (of_int burst) t []"
proof -
  have "(of_int burst :: rat) \<le> of_int (10 * rpm)" using assms(3) by (simp only: of_int_le_iff)
  then have "sound_params (of_int rpm / 60) (of_int burst)" using assms(1,2) by (simp add: sound_params_def)
  then show "memory_valid (of_int rpm / 60) (of_int burst) t (init_limiter rpm burst)"
    "redis_valid (of_int rpm / 60) (of_int burst) t []"
    by (simp_all add: memory_valid_def redis_valid_def init_limiter_def)
qed

lemma start_avail:
  "(\<lambda>k. memory_avail (init_limiter rpm burst) k t) = (\<lambda>_. of_int burst)"
  "(\<lambda>k. redis_avail (of_int rpm / 60) (of_int burst) [] k t) = (\<lambda>_. of_int burst)"
  by (simp_all add: memory_avail_def redis_avail_def init_limiter_def tokens_at_def)

definition rate_settings_sound :: "settings \<Rightarrow> bool" where
  "rate_settings_sound S \<longleftrightarrow> 1 \<le> rate_limit_requests_per_minute S \<and> 1 \<le> rate_limit_burst S \<and>
     rate_limit_burst S \<le> 10 * rate_limit_requests_per_minute S"


text \<open>No API key passes the limiter more often than its burst and the rate allow: of the requests made from
  time \<open>t\<close> to time \<open>u\<close>, at most \<open>burst + (u - t) * rate / 60\<close> of one key are served.\<close>

theorem rate_limit_bounds_requests:
  assumes "rate_settings_sound S" and "in_order t reqs" and "\<forall>(now, k) \<in> set reqs. now \<le> u" and "t \<le> u"
  shows "of_nat (granted key reqs (answers limiter_consume reqs (build_rate_limiter S client, []))) \<le>
    of_int (rate_limit_burst S) + (u - t) * (of_int (rate_limit_requests_per_minute S) / 60)"
proof -
  from assms(1) have "1 \<le> rate_limit_requests_per_minute S" "0 \<le> rate_limit_burst S"
    "rate_limit_burst S \<le> 10 * rate_limit_requests_per_minute S" by (simp_all add: rate_settings_sound_def)
  note v = start_valid [OF this, of t]
  show ?thesis
    using memory.granted_bound [OF v(1) assms(2-4), of key] redis.granted_bound [OF v(2) assms(2-4), of key]
    by (simp add: build_rate_limiter_def limiter_answers fun_cong [OF start_avail(1)] fun_cong [OF start_avail(2)])
qed

section \<open>Instances\<close>

lemma default_rate_settings: "rate_settings_sound default_settings"
  by (simp add: rate_settings_sound_def default_settings_def)

definition demo_settings :: settings where
  "demo_settings = default_settings\<lparr>rate_limit_requests_per_minute := 60, rate_limit_burst := 2\<rparr>"

definition demo_requests :: "(rat \<times> string) list" where
  "demo_requests = [(0, ''k''), (0, ''k''), (0, ''k''), (0, ''other''), (1, ''k'')]"

lemma demo_answers:
  "answers limiter_consume demo_requests (build_rate_limiter demo_settings False, []) =
     [(True, 0), (True, 0), (False, 1), (True, 0), (True, 0)]"
  by code_simp


lemma rate_limit_bounds_requests_witness:
  "of_nat (granted ''k'' demo_requests (answers limiter_consume demo_requests (build_rate_limiter demo_settings True, []))) \<le> (3 :: rat)"
proof -
  have "rate_settings_sound demo_settings" "in_order 0 demo_requests" "\<forall>(now, k) \<in> set demo_requests. now \<le> 1"
    by (simp_all add: rate_settings_sound_def demo_settings_def demo_requests_def)
  from rate_limit_bounds_requests [OF this, of "''k''" True] show ?thesis by (simp add: demo_settings_def)
qed

text \<open>
  With a slow rate, ten minutes of silence are worth a whole burst: at one request per minute, a key that
  used its burst of 20 may send 20 more after ten minutes, where 10 have flowed in.
\<close>

lemma slow_rate_refills_early:
  "granted ''k'' (replicate 20 (0, ''k'') @ replicate 20 (600, ''k''))
     (answers (redis_consume (1 / 60) 20) (replicate 20 (0, ''k'') @ replicate 20 (600, ''k'')) []) = 40"
  by code_simp

end
