(* ===== verification/Auth.thy ===== *)
theory Auth
  imports Security Rate_Limit
begin

text \<open>
  \<open>services/auth_service.py\<close> and \<open>api/dependencies.py\<close>: API keys, the cache of principals that each
  process keeps, and what a request must show. \<open>hash\<close> is the hexadecimal SHA-256 digest, a parameter;
  new keys are random, so they are arguments. \<open>clock\<close> is a process clock in seconds.
\<close>

section \<open>Keys\<close>

type_synonym principal_cache = "(string \<times> principal \<times> rat) list"

definition key_prefix :: "string \<Rightarrow> string" where
  "key_prefix raw = take 12 raw"

definition principal_of :: "api_key \<Rightarrow> tenant \<Rightarrow> principal" where
  "principal_of k t = \<lparr>pr_tenant = tn_id t, pr_tenant_name = tn_name t, pr_key = ak_id k,
     pr_key_name = ak_name k, pr_role = ak_role k\<rparr>"

definition insert_key :: "time \<Rightarrow> uid \<Rightarrow> string \<Rightarrow> string \<Rightarrow> string \<Rightarrow> string \<Rightarrow> db \<Rightarrow> api_key \<times> db" where
  "insert_key now tenant name prefix h role d = (case generate_uuid d of (i, d') \<Rightarrow>
     let k = \<lparr>ak_id = i, ak_tenant = tenant, ak_name = name, ak_prefix = prefix, ak_hash = h, ak_role = role,
           ak_created_at = now, ak_last_used_at = None, ak_revoked_at = None\<rparr>
     in (k, d'\<lparr>api_keys := api_keys d' @ [k]\<rparr>))"

definition ensure_tenant :: "settings \<Rightarrow> time \<Rightarrow> db \<Rightarrow> tenant \<times> db" where
  "ensure_tenant S now d = (case find (\<lambda>t. tn_slug t = ''default'') (tenants d) of
     Some t \<Rightarrow> (t, d)
   | None \<Rightarrow> (case generate_uuid d of (i, d') \<Rightarrow>
       let t = \<lparr>tn_id = i, tn_name = bootstrap_tenant_name S, tn_slug = ''default'', tn_created_at = now\<rparr>
       in (t, d'\<lparr>tenants := tenants d' @ [t]\<rparr>)))"

definition ensure_bootstrap :: "settings \<Rightarrow> (string \<Rightarrow> string) \<Rightarrow> time \<Rightarrow> db \<Rightarrow> principal \<times> db" where
  "ensure_bootstrap S hash now d = (case ensure_tenant S now d of (t, d1) \<Rightarrow>
     let h = hash (bootstrap_api_key S) in
     (case (case find (\<lambda>k. ak_hash k = h) (api_keys d1) of
        Some k \<Rightarrow> (k, d1)
      | None \<Rightarrow> insert_key now (tn_id t) ''bootstrap'' (key_prefix (bootstrap_api_key S)) h ''admin'' d1) of
        (k, d2) \<Rightarrow> (principal_of k t, d2)))"

section \<open>Authentication\<close>

definition live_key :: "string \<Rightarrow> db \<Rightarrow> (api_key \<times> tenant) option" where
  "live_key h d = (case find (\<lambda>k. ak_hash k = h \<and> ak_revoked_at k = None \<and> (\<exists>t \<in> set (tenants d). tn_id t = ak_tenant k)) (api_keys d) of
     None \<Rightarrow> None
   | Some k \<Rightarrow> map_option (\<lambda>t. (k, t)) (find (\<lambda>t. tn_id t = ak_tenant k) (tenants d)))"

definition authenticate :: "settings \<Rightarrow> (string \<Rightarrow> string) \<Rightarrow> rat \<Rightarrow> time \<Rightarrow> string \<Rightarrow> db \<times> principal_cache \<Rightarrow> principal option \<times> db \<times> principal_cache" where
  "authenticate S hash clock now raw st = (case st of (d, cache) \<Rightarrow>
     if raw = [] then (None, d, cache)
     else
       let h = hash raw in
       (case (case map_of cache h of Some (p, e) \<Rightarrow> if clock < e then Some p else None | None \<Rightarrow> None) of
          Some p \<Rightarrow> (Some p, d, cache)
        | None \<Rightarrow>
            (case live_key h d of
               None \<Rightarrow> (None, d, cache)
             | Some (k, t) \<Rightarrow>
                 (Some (principal_of k t),
                  d\<lparr>api_keys := upd_where (\<lambda>x. ak_id x = ak_id k) (\<lambda>x. x\<lparr>ak_last_used_at := Some now\<rparr>) (api_keys d)\<rparr>,
                  if auth_cache_ttl_seconds S = 0 then cache
                  else AList.update h (principal_of k t, clock + of_int (auth_cache_ttl_seconds S)) cache))))"

section \<open>Managing keys\<close>

definition api_key_create_ok :: "string \<Rightarrow> string \<Rightarrow> bool" where
  "api_key_create_ok name role \<longleftrightarrow> 1 \<le> length name \<and> length name \<le> 120 \<and> role \<in> {''viewer'', ''operator'', ''admin''}"

text \<open>\<open>raw\<close> is what \<open>generate_api_key\<close> returns; the column of the hash is unique.\<close>

definition create_key :: "time \<Rightarrow> (string \<Rightarrow> string) \<Rightarrow> string \<Rightarrow> principal \<Rightarrow> string \<Rightarrow> string \<Rightarrow> db \<Rightarrow> (api_key \<times> string \<times> db) res" where
  "create_key now hash raw p name role d =
     (case require ''admin'' p of
        Inl e \<Rightarrow> Inl e
      | Inr _ \<Rightarrow>
          if ROLE_LEVELS role = None then Inl (ApiError 422 ''validation_error'' ''Unknown role.'')
          else if \<exists>k \<in> set (api_keys d). ak_hash k = hash raw then Inl IntegrityError
          else (case insert_key now (pr_tenant p) (py_strip name) (key_prefix raw) (hash raw) role d of
                  (k, d') \<Rightarrow> Inr (k, raw, d')))"

definition list_keys :: "principal \<Rightarrow> db \<Rightarrow> api_key list res" where
  "list_keys p d = (case require ''admin'' p of
     Inl e \<Rightarrow> Inl e
   | Inr _ \<Rightarrow> Inr (sort_key (\<lambda>k. - ak_created_at k) (filter (\<lambda>k. ak_tenant k = pr_tenant p) (api_keys d))))"

definition revoke_key :: "time \<Rightarrow> principal \<Rightarrow> uid \<Rightarrow> db \<times> principal_cache \<Rightarrow> (db \<times> principal_cache) res" where
  "revoke_key now p kid st = (case st of (d, cache) \<Rightarrow>
     (case require ''admin'' p of
        Inl e \<Rightarrow> Inl e
      | Inr _ \<Rightarrow>
          (case find (\<lambda>k. ak_id k = kid \<and> ak_tenant k = pr_tenant p) (api_keys d) of
             None \<Rightarrow> Inl (ApiError 404 ''not_found'' ''API key not found.'')
           | Some k \<Rightarrow>
               if ak_id k = pr_key p then Inl (ApiError 400 ''invalid_request'' ''You cannot revoke the key currently in use.'')
               else Inr (d\<lparr>api_keys := upd_where (\<lambda>x. ak_id x = ak_id k) (\<lambda>x. x\<lparr>ak_revoked_at := Some now\<rparr>) (api_keys d)\<rparr>,
                         AList.delete (ak_hash k) cache))))"

text \<open>The routes add the audit record.\<close>

definition create_key_route :: "time \<Rightarrow> (string \<Rightarrow> string) \<Rightarrow> string \<Rightarrow> principal \<Rightarrow> string \<Rightarrow> string \<Rightarrow> db \<Rightarrow> (api_key \<times> string \<times> db) res" where
  "create_key_route now hash raw p name role d =
     (case create_key now hash raw p name role d of
        Inl e \<Rightarrow> Inl e
      | Inr (k, raw', d') \<Rightarrow> Inr (k, raw', audit_write now (Some p) ''api_key.created'' ''api_key'' (ak_id k)
          (JObj [(''name'', JStr (ak_name k)), (''role'', JStr (ak_role k))]) None d'))"

definition revoke_key_route :: "time \<Rightarrow> principal \<Rightarrow> uid \<Rightarrow> db \<times> principal_cache \<Rightarrow> (db \<times> principal_cache) res" where
  "revoke_key_route now p kid st =
     (case revoke_key now p kid st of
        Inl e \<Rightarrow> Inl e
      | Inr (d, cache) \<Rightarrow> Inr (audit_write now (Some p) ''api_key.revoked'' ''api_key'' kid (JObj []) None d, cache))"

section \<open>What a request must show\<close>

text \<open>Headers by their lower-case names.\<close>

definition bearer_token :: "(string \<times> string) list \<Rightarrow> string" where
  "bearer_token headers = (let authorization = get_or (map_of headers ''authorization'') [] in
     if take 7 (py_lower authorization) = ''bearer '' then py_strip (drop 7 authorization) else [])"

definition extract_api_key :: "(string \<times> string) list \<Rightarrow> string" where
  "extract_api_key headers = (case map_of headers ''x-api-key'' of
     Some k \<Rightarrow> if k \<noteq> [] then py_strip k else bearer_token headers
   | None \<Rightarrow> bearer_token headers)"

record auth_state =
  as_db :: db
  as_cache :: principal_cache
  as_limiter :: "rate_limiter \<times> redis_store"

definition get_principal :: "settings \<Rightarrow> (string \<Rightarrow> string) \<Rightarrow> rat \<Rightarrow> rat \<Rightarrow> time \<Rightarrow> (string \<times> string) list \<Rightarrow> auth_state \<Rightarrow> principal res \<times> auth_state" where
  "get_principal S hash clock limiter_clock now headers st =
     (let raw = extract_api_key headers in
      if raw = [] then (Inl (ApiError 401 ''unauthorized'' ''Provide an API key via X-API-Key or Authorization: Bearer.''), st)
      else (case authenticate S hash clock now raw (as_db st, as_cache st) of (found, d, cache) \<Rightarrow>
        let st1 = st\<lparr>as_db := d, as_cache := cache\<rparr> in
        (case found of
           None \<Rightarrow> (Inl (ApiError 401 ''unauthorized'' ''Invalid or revoked API key.''), st1)
         | Some p \<Rightarrow>
             (case limiter_consume limiter_clock (pr_key p) (as_limiter st1) of ((allowed, wait), limiter) \<Rightarrow>
                let st2 = st1\<lparr>as_limiter := limiter\<rparr> in
                if allowed then (Inr p, st2) else (Inl (ApiError 429 ''rate_limited'' ''Rate limit exceeded.''), st2)))))"

definition require_role :: "string \<Rightarrow> principal res \<Rightarrow> principal res" where
  "require_role minimum found = (case found of Inl e \<Rightarrow> Inl e
     | Inr p \<Rightarrow> (case require minimum p of Inl e \<Rightarrow> Inl e | Inr _ \<Rightarrow> Inr p))"

text \<open>A socket is closed with code 1008 and a reason, or has a principal.\<close>

definition authenticate_websocket :: "settings \<Rightarrow> (string \<Rightarrow> string) \<Rightarrow> rat \<Rightarrow> time \<Rightarrow> string option \<Rightarrow> string option \<Rightarrow>
    db \<times> principal_cache \<Rightarrow> (string + principal) \<times> db \<times> principal_cache" where
  "authenticate_websocket S hash clock now query header st =
     (let raw = (case query of Some q \<Rightarrow> if q \<noteq> [] then q else get_or header [] | None \<Rightarrow> get_or header []) in
      if raw = [] then (Inl ''Missing API key.'', st)
      else (case authenticate S hash clock now raw st of
              (None, st') \<Rightarrow> (Inl ''Invalid API key.'', st')
            | (Some p, st') \<Rightarrow> (Inr p, st')))"

section \<open>Several processes, one key table\<close>

datatype auth_op =
    AAuthenticate nat string
  | ACreate principal string string string
  | ARevoke nat principal uid
  | ABootstrap

text \<open>Process \<open>i\<close> has the cache \<open>caches i\<close>; \<open>clock\<close> is the time of the step in seconds.\<close>

fun auth_step :: "settings \<Rightarrow> (string \<Rightarrow> string) \<Rightarrow> rat \<times> time \<times> auth_op \<Rightarrow> db \<times> (nat \<Rightarrow> principal_cache) \<Rightarrow> db \<times> (nat \<Rightarrow> principal_cache)" where
  "auth_step S hash (clock, now, AAuthenticate i raw) (d, caches) =
     (case authenticate S hash clock now raw (d, caches i) of (_, d', c) \<Rightarrow> (d', caches(i := c)))"
| "auth_step S hash (clock, now, ACreate p raw name role) (d, caches) =
     (case create_key now hash raw p name role d of Inl _ \<Rightarrow> (d, caches) | Inr (_, _, d') \<Rightarrow> (d', caches))"
| "auth_step S hash (clock, now, ARevoke i p kid) (d, caches) =
     (case revoke_key now p kid (d, caches i) of Inl _ \<Rightarrow> (d, caches) | Inr (d', c) \<Rightarrow> (d', caches(i := c)))"
| "auth_step S hash (clock, now, ABootstrap) (d, caches) = (snd (ensure_bootstrap S hash now d), caches)"

fun auth_run :: "settings \<Rightarrow> (string \<Rightarrow> string) \<Rightarrow> (rat \<times> time \<times> auth_op) list \<Rightarrow> db \<times> (nat \<Rightarrow> principal_cache) \<Rightarrow> db \<times> (nat \<Rightarrow> principal_cache)" where
  "auth_run S hash [] st = st"
| "auth_run S hash (c # cs) st = auth_run S hash cs (auth_step S hash c st)"

fun timely :: "rat \<Rightarrow> (rat \<times> time \<times> auth_op) list \<Rightarrow> bool" where
  "timely t [] \<longleftrightarrow> True"
| "timely t (c # cs) \<longleftrightarrow> t \<le> fst c \<and> timely (fst c) cs"

text \<open>Whom a principal stands for: the holder of a key, in the key's tenant, with the key's role.\<close>

definition stands_for :: "string \<Rightarrow> principal \<Rightarrow> db \<Rightarrow> bool" where
  "stands_for h p d \<longleftrightarrow> (\<exists>k \<in> set (api_keys d). \<exists>t \<in> set (tenants d). ak_hash k = h \<and> tn_id t = ak_tenant k \<and> p = principal_of k t)"

text \<open>What every operation does to the table: rows keep their identity and stay revoked; new hashes are new.\<close>

definition keys_grow :: "db \<Rightarrow> db \<Rightarrow> bool" where
  "keys_grow d d' \<longleftrightarrow> (\<exists>f new. api_keys d' = map f (api_keys d) @ new \<and>
     (\<forall>k. ak_id (f k) = ak_id k \<and> ak_tenant (f k) = ak_tenant k \<and> ak_name (f k) = ak_name k \<and> ak_role (f k) = ak_role k \<and>
        ak_hash (f k) = ak_hash k \<and> (ak_revoked_at k \<noteq> None \<longrightarrow> ak_revoked_at (f k) \<noteq> None)) \<and>
     (\<forall>n \<in> set new. ak_hash n \<notin> ak_hash ` set (api_keys d))) \<and> (\<exists>ts. tenants d' = tenants d @ ts)"

lemma keys_grow_refl [simp]: "keys_grow d d"
  unfolding keys_grow_def by (intro conjI exI [of _ id] exI [of _ "[]"]) simp_all

lemma keys_grow_trans:
  assumes "keys_grow a b" and "keys_grow b c"
  shows "keys_grow a c"
proof -
  from assms(1) obtain f new ts where f: "api_keys b = map f (api_keys a) @ new" "tenants b = tenants a @ ts"
    "\<forall>n \<in> set new. ak_hash n \<notin> ak_hash ` set (api_keys a)"
    "\<And>k. ak_id (f k) = ak_id k \<and> ak_tenant (f k) = ak_tenant k \<and> ak_name (f k) = ak_name k \<and> ak_role (f k) = ak_role k \<and>
        ak_hash (f k) = ak_hash k \<and> (ak_revoked_at k \<noteq> None \<longrightarrow> ak_revoked_at (f k) \<noteq> None)" unfolding keys_grow_def by blast
  from assms(2) obtain g new' ts' where g: "api_keys c = map g (api_keys b) @ new'" "tenants c = tenants b @ ts'"
    "\<forall>n \<in> set new'. ak_hash n \<notin> ak_hash ` set (api_keys b)"
    "\<And>k. ak_id (g k) = ak_id k \<and> ak_tenant (g k) = ak_tenant k \<and> ak_name (g k) = ak_name k \<and> ak_role (g k) = ak_role k \<and>
        ak_hash (g k) = ak_hash k \<and> (ak_revoked_at k \<noteq> None \<longrightarrow> ak_revoked_at (g k) \<noteq> None)" unfolding keys_grow_def by blast
  have img: "ak_hash ` set (api_keys b) = ak_hash ` set (api_keys a) \<union> ak_hash ` set new"
    using f(4) by (simp add: f(1) image_Un image_image)
  have "\<forall>n \<in> set (map g new @ new'). ak_hash n \<notin> ak_hash ` set (api_keys a)"
    using f(3) g(3,4) unfolding img by auto
  then show ?thesis unfolding keys_grow_def
    using f(1,2,4) g(1,2,4) by (intro conjI exI [of _ "g \<circ> f"] exI [of _ "map g new @ new'"]) (simp_all add: comp_def)
qed

lemma stands_for_grow:
  assumes "keys_grow d d'" and "stands_for h p d"
  shows "stands_for h p d'"
proof -
  from assms(1) obtain f new ts where f: "api_keys d' = map f (api_keys d) @ new" "tenants d' = tenants d @ ts"
    "\<And>k. ak_id (f k) = ak_id k \<and> ak_tenant (f k) = ak_tenant k \<and> ak_name (f k) = ak_name k \<and> ak_role (f k) = ak_role k \<and>
        ak_hash (f k) = ak_hash k" unfolding keys_grow_def by blast
  from assms(2) obtain k t where kt: "k \<in> set (api_keys d)" "t \<in> set (tenants d)" "ak_hash k = h" "tn_id t = ak_tenant k" "p = principal_of k t"
    by (auto simp: stands_for_def)
  then show ?thesis unfolding stands_for_def using f
    by (intro bexI [of _ "f k"] bexI [of _ t]) (simp_all add: principal_of_def)
qed

lemma revoked_grow:
  assumes "keys_grow d d'" and "h \<in> ak_hash ` set (api_keys d)" and "\<forall>k \<in> set (api_keys d). ak_hash k = h \<longrightarrow> ak_revoked_at k \<noteq> None"
  shows "h \<in> ak_hash ` set (api_keys d')" and "\<forall>k \<in> set (api_keys d'). ak_hash k = h \<longrightarrow> ak_revoked_at k \<noteq> None"
proof -
  from assms(1) obtain f new where f: "api_keys d' = map f (api_keys d) @ new" "\<forall>n \<in> set new. ak_hash n \<notin> ak_hash ` set (api_keys d)"
    "\<And>k. ak_hash (f k) = ak_hash k \<and> (ak_revoked_at k \<noteq> None \<longrightarrow> ak_revoked_at (f k) \<noteq> None)" unfolding keys_grow_def by blast
  show "h \<in> ak_hash ` set (api_keys d')" using assms(2) f(3) by (auto simp: f(1) image_Un image_image)
  show "\<forall>k \<in> set (api_keys d'). ak_hash k = h \<longrightarrow> ak_revoked_at k \<noteq> None"
  proof (intro ballI impI)
    fix k assume "k \<in> set (api_keys d')" "ak_hash k = h"
    then obtain k0 where "k0 \<in> set (api_keys d)" "k = f k0" using assms(2) f(1,2) by auto
    with assms(3) f(3) \<open>ak_hash k = h\<close> show "ak_revoked_at k \<noteq> None" by metis
  qed
qed

lemma grow_update:
  assumes "\<And>k. ak_id (f k) = ak_id k \<and> ak_tenant (f k) = ak_tenant k \<and> ak_name (f k) = ak_name k \<and> ak_role (f k) = ak_role k \<and>
      ak_hash (f k) = ak_hash k \<and> (ak_revoked_at k \<noteq> None \<longrightarrow> ak_revoked_at (f k) \<noteq> None)"
  shows "keys_grow d (d\<lparr>api_keys := upd_where P f (api_keys d)\<rparr>)"
  unfolding keys_grow_def upd_where_def
  using assms by (intro conjI exI [of _ "\<lambda>k. if P k then f k else k"] exI [of _ "[]"]) simp_all

lemma grow_insert:
  assumes "h \<notin> ak_hash ` set (api_keys d)"
  shows "keys_grow d (snd (insert_key now tenant name prefix h role d))"
  unfolding keys_grow_def using assms
  by (intro conjI exI [of _ id] exI [of _ "[fst (insert_key now tenant name prefix h role d)]"])
    (simp_all add: insert_key_def generate_uuid_def Let_def)

text \<open>What one call of \<open>authenticate\<close> does.\<close>

lemma live_key_SomeD:
  assumes "live_key h d = Some (k, t)"
  shows "k \<in> set (api_keys d)" and "ak_hash k = h" and "ak_revoked_at k = None" and "t \<in> set (tenants d)" and "tn_id t = ak_tenant k"
  using assms by (auto simp: live_key_def dest!: find_SomeD split: option.splits)

lemma authenticate_blank: "authenticate S hash clock now [] (d, cache) = (None, d, cache)"
  by (simp add: authenticate_def)

lemma authenticate_hit:
  assumes "raw \<noteq> []" and "map_of cache (hash raw) = Some (p, e)" and "clock < e"
  shows "authenticate S hash clock now raw (d, cache) = (Some p, d, cache)"
  using assms by (simp add: authenticate_def Let_def)

definition fresh_cache :: "settings \<Rightarrow> rat \<Rightarrow> string \<Rightarrow> principal \<Rightarrow> principal_cache \<Rightarrow> principal_cache" where
  "fresh_cache S clock h p cache = (if auth_cache_ttl_seconds S = 0 then cache
     else AList.update h (p, clock + of_int (auth_cache_ttl_seconds S)) cache)"

lemma authenticate_miss:
  assumes "raw \<noteq> []" and "\<forall>p e. map_of cache (hash raw) = Some (p, e) \<longrightarrow> \<not> clock < e"
  shows "authenticate S hash clock now raw (d, cache) = (case live_key (hash raw) d of
      None \<Rightarrow> (None, d, cache)
    | Some (k, t) \<Rightarrow> (Some (principal_of k t),
        d\<lparr>api_keys := upd_where (\<lambda>x. ak_id x = ak_id k) (\<lambda>x. x\<lparr>ak_last_used_at := Some now\<rparr>) (api_keys d)\<rparr>,
        fresh_cache S clock (hash raw) (principal_of k t) cache))"
proof -
  have "(case map_of cache (hash raw) of Some (p, e) \<Rightarrow> if clock < e then Some p else None | None \<Rightarrow> None) = None"
    using assms(2) by (auto split: option.splits)
  with assms(1) show ?thesis by (simp add: authenticate_def Let_def)
    (simp add: fresh_cache_def split: option.splits)
qed

lemma authenticate_cases:
  assumes a: "authenticate S hash clock now raw (d, cache) = (found, d', cache')"
  obtains (refused) "found = None" "d' = d" "cache' = cache"
  | (cached) p e where "found = Some p" "(hash raw, p, e) \<in> set cache" "clock < e" "d' = d" "cache' = cache" "raw \<noteq> []"
  | (fresh) k t where "found = Some (principal_of k t)" "live_key (hash raw) d = Some (k, t)" "raw \<noteq> []"
      "d' = d\<lparr>api_keys := upd_where (\<lambda>x. ak_id x = ak_id k) (\<lambda>x. x\<lparr>ak_last_used_at := Some now\<rparr>) (api_keys d)\<rparr>"
      "cache' = fresh_cache S clock (hash raw) (principal_of k t) cache"
proof -
  consider (blank) "raw = []" | (hit) p e where "raw \<noteq> []" "map_of cache (hash raw) = Some (p, e)" "clock < e"
    | (miss) "raw \<noteq> []" "\<forall>p e. map_of cache (hash raw) = Some (p, e) \<longrightarrow> \<not> clock < e" by force
  then show ?thesis
  proof cases
    case blank
    show ?thesis by (rule refused) (use a in \<open>simp_all add: blank authenticate_blank\<close>)
  next
    case hit
    show ?thesis by (rule cached [OF _ map_of_SomeD [OF hit(2)] hit(3) _ _ hit(1)])
      (use a in \<open>simp_all add: authenticate_hit [where raw = raw and hash = hash, OF hit]\<close>)
  next
    case miss
    note a' = a [unfolded authenticate_miss [where raw = raw and hash = hash and cache = cache and clock = clock, OF miss]]
    show ?thesis
    proof (cases "live_key (hash raw) d")
      case None
      show ?thesis by (rule refused) (use a' in \<open>simp_all add: None\<close>)
    next
      case (Some kt)
      obtain k t where kt: "kt = (k, t)" by (cases kt)
      note a'' = a' [unfolded Some kt option.case prod.case prod.inject]
      show ?thesis by (rule fresh [OF a'' [THEN conjunct1, symmetric] Some [unfolded kt] miss(1)
          a'' [THEN conjunct2, THEN conjunct1, symmetric] a'' [THEN conjunct2, THEN conjunct2, symmetric]])
    qed
  qed
qed

lemma authenticate_grows:
  "authenticate S hash clock now raw (d, cache) = (found, d', cache') \<Longrightarrow> keys_grow d d'"
  by (erule authenticate_cases) (auto intro!: grow_update)

lemma revoke_key_InrD:
  assumes "revoke_key now p kid (d, cache) = Inr (d', cache')"
  obtains k where "k \<in> set (api_keys d)" "ak_id k = kid" "ak_tenant k = pr_tenant p" "ak_id k \<noteq> pr_key p" "pr_role p = ''admin''"
    "d' = d\<lparr>api_keys := upd_where (\<lambda>x. ak_id x = kid) (\<lambda>x. x\<lparr>ak_revoked_at := Some now\<rparr>) (api_keys d)\<rparr>"
    "cache' = AList.delete (ak_hash k) cache"
proof -
  from assms have "require ''admin'' p = Inr ()" by (auto simp: revoke_key_def split: sum.splits)
  moreover from assms obtain k where k: "find (\<lambda>k. ak_id k = kid \<and> ak_tenant k = pr_tenant p) (api_keys d) = Some k"
    "ak_id k \<noteq> pr_key p"
    "d' = d\<lparr>api_keys := upd_where (\<lambda>x. ak_id x = ak_id k) (\<lambda>x. x\<lparr>ak_revoked_at := Some now\<rparr>) (api_keys d)\<rparr>"
    "cache' = AList.delete (ak_hash k) cache"
    by (auto simp: revoke_key_def split: sum.splits option.splits if_splits)
  moreover note find_SomeD [OF k(1)]
  ultimately show ?thesis using that [of k] by simp
qed

lemma ensure_bootstrap_grows: "keys_grow d (snd (ensure_bootstrap S hash now d))"
proof -
  obtain t d1 where t: "ensure_tenant S now d = (t, d1)" by fastforce
  have "api_keys d1 = api_keys d" "\<exists>ts. tenants d1 = tenants d @ ts"
    using t by (auto simp: ensure_tenant_def generate_uuid_def Let_def split: option.splits)
  then have g: "keys_grow d d1" unfolding keys_grow_def 
    by (elim exE) (rule conjI, intro exI [of _ id] exI [of _ "[]"], simp_all)
  show ?thesis
  proof (cases "find (\<lambda>k. ak_hash k = hash (bootstrap_api_key S)) (api_keys d1)")
    case None
    then have "hash (bootstrap_api_key S) \<notin> ak_hash ` set (api_keys d1)" by (auto simp: find_None_iff)
    from keys_grow_trans [OF g grow_insert [OF this], of now "tn_id t" "''bootstrap''" "key_prefix (bootstrap_api_key S)" "''admin''"] None
    show ?thesis by (cases "insert_key now (tn_id t) ''bootstrap'' (key_prefix (bootstrap_api_key S)) (hash (bootstrap_api_key S)) ''admin'' d1")
      (simp add: ensure_bootstrap_def t Let_def)
  next
    case (Some k)
    with g show ?thesis by (simp add: ensure_bootstrap_def t Let_def)
  qed
qed

lemma create_key_grows: "create_key now hash raw p name role d = Inr (k, raw', d') \<Longrightarrow> keys_grow d d'"
  using grow_insert [of "hash raw" d now "pr_tenant p" "py_strip name" "key_prefix raw" role]
  by (cases "insert_key now (pr_tenant p) (py_strip name) (key_prefix raw) (hash raw) role d")
    (force simp: create_key_def split: sum.splits if_splits)

lemma auth_step_grows: "keys_grow d (fst (auth_step S hash c (d, caches)))"
proof -
  obtain clock now oper where c: "c = (clock, now, oper)" by (cases c) auto
  show ?thesis
  proof (cases oper)
    case (AAuthenticate i raw)
    then show ?thesis
      using authenticate_grows by (auto simp: c split: prod.splits)
  next
    case (ACreate p raw name role)
    then show ?thesis using create_key_grows by (auto simp: c split: sum.splits)
  next
    case (ARevoke i p kid)
    have "keys_grow d d'" if "revoke_key now p kid (d, caches i) = Inr (d', c')" for d' c'
      by (rule revoke_key_InrD [OF that]) (auto intro!: grow_update)
    with ARevoke show ?thesis by (auto simp: c split: sum.splits)
  next
    case ABootstrap
    then show ?thesis by (simp add: c ensure_bootstrap_grows)
  qed
qed

text \<open>A cached entry stands for a key holder and lives no longer than the configured time.\<close>

definition caches_ok :: "settings \<Rightarrow> rat \<Rightarrow> db \<times> (nat \<Rightarrow> principal_cache) \<Rightarrow> bool" where
  "caches_ok S clock st \<longleftrightarrow> (\<forall>i h p e. (h, p, e) \<in> set (snd st i) \<longrightarrow>
     stands_for h p (fst st) \<and> e \<le> clock + of_int (auth_cache_ttl_seconds S))"

definition locked :: "string \<Rightarrow> rat \<Rightarrow> db \<times> (nat \<Rightarrow> principal_cache) \<Rightarrow> bool" where
  "locked h until st \<longleftrightarrow> h \<in> ak_hash ` set (api_keys (fst st)) \<and>
     (\<forall>k \<in> set (api_keys (fst st)). ak_hash k = h \<longrightarrow> ak_revoked_at k \<noteq> None) \<and>
     (\<forall>i p e. (h, p, e) \<in> set (snd st i) \<longrightarrow> e \<le> until)"

lemma in_update: "(h, v) \<in> set (AList.update k w xs) \<Longrightarrow> (h = k \<and> v = w) \<or> (h, v) \<in> set xs"
  by (induction xs) (auto split: if_splits)

lemma in_delete: "(h, v) \<in> set (AList.delete k xs) \<Longrightarrow> (h, v) \<in> set xs"
  by (simp add: AList.delete_eq)

text \<open>The entries of the caches after a step: old ones, or the one the step made for a live key.\<close>

lemma auth_step_entries:
  assumes "(h, p, e) \<in> set (snd (auth_step S hash (clock, now, oper) (d, caches)) i)"
  shows "(h, p, e) \<in> set (caches i) \<or>
    (e = clock + of_int (auth_cache_ttl_seconds S) \<and> (\<exists>k t. live_key h d = Some (k, t) \<and> p = principal_of k t))"
proof (cases oper)
  case (AAuthenticate j raw)
  obtain found d' c' where a: "authenticate S hash clock now raw (d, caches j) = (found, d', c')" by (cases "authenticate S hash clock now raw (d, caches j)")
  from a show ?thesis
  proof (cases rule: authenticate_cases)
    case (fresh k t)
    have "(h, p, e) \<in> set (if i = j then c' else caches i)" using assms by (simp add: AAuthenticate a split: if_splits)
    then have "(h, p, e) \<in> set (caches i) \<or> (h, p, e) \<in> set (AList.update (hash raw) (principal_of k t, clock + of_int (auth_cache_ttl_seconds S)) (caches j)) \<and> i = j"
      using fresh(5) by (simp add: fresh_cache_def split: if_splits)
    with in_update [of h "(p, e)" "hash raw" "(principal_of k t, clock + of_int (auth_cache_ttl_seconds S))" "caches j"] fresh(2)
    show ?thesis by auto
  qed (use assms in \<open>simp_all add: AAuthenticate a split: if_splits\<close>)
next
  case (ARevoke j q kid)
  show ?thesis
  proof (cases "revoke_key now q kid (d, caches j)")
    case (Inr dc)
    obtain d' c' where dc: "dc = (d', c')" by (cases dc)
    obtain k :: api_key where k: "c' = AList.delete (ak_hash k) (caches j)" by (rule revoke_key_InrD [OF Inr [unfolded dc]]) (rule that)
    have "(h, p, e) \<in> set (if i = j then c' else caches i)" using assms by (simp add: ARevoke Inr dc split: if_splits)
    then show ?thesis using in_delete [of h "(p, e)" "ak_hash k" "caches j"] by (auto simp: k split: if_splits)
  qed (use assms in \<open>simp add: ARevoke\<close>)
qed (use assms in \<open>auto split: sum.splits\<close>)

lemma auth_step_ok:
  assumes ok: "caches_ok S t (d, caches)" and c: "t \<le> fst c"
  shows "caches_ok S (fst c) (auth_step S hash c (d, caches))"
  unfolding caches_ok_def
proof (intro allI impI)
  fix i h p e
  obtain clock now oper where cc: "c = (clock, now, oper)" by (cases c) auto
  assume "(h, p, e) \<in> set (snd (auth_step S hash c (d, caches)) i)"
  from auth_step_entries [OF this [unfolded cc]] show "stands_for h p (fst (auth_step S hash c (d, caches))) \<and>
      e \<le> fst c + of_int (auth_cache_ttl_seconds S)"
  proof
    assume "(h, p, e) \<in> set (caches i)"
    then have "stands_for h p d" "e \<le> t + of_int (auth_cache_ttl_seconds S)" using ok by (auto simp: caches_ok_def)
    moreover have "stands_for h p (fst (auth_step S hash c (d, caches)))" by (rule stands_for_grow [OF auth_step_grows]) fact
    ultimately show ?thesis using c by simp
  next
    assume new: "e = clock + of_int (auth_cache_ttl_seconds S) \<and> (\<exists>k t. live_key h d = Some (k, t) \<and> p = principal_of k t)"
    then obtain k u where k: "live_key h d = Some (k, u)" "p = principal_of k u" by blast
    have "stands_for h p d" unfolding stands_for_def using live_key_SomeD [OF k(1)] k(2) by blast
    then have "stands_for h p (fst (auth_step S hash c (d, caches)))" by (rule stands_for_grow [OF auth_step_grows])
    with new show ?thesis by (simp add: cc)
  qed
qed

lemma auth_step_locked:
  assumes "locked h until (d, caches)"
  shows "locked h until (auth_step S hash c (d, caches))"
proof -
  obtain clock now oper where cc: "c = (clock, now, oper)" by (cases c) auto
  have none: "live_key h d \<noteq> Some kt" for kt
    using assms live_key_SomeD [of h d "fst kt" "snd kt"] by (auto simp: locked_def)
  from assms have "h \<in> ak_hash ` set (api_keys d)" "\<forall>k \<in> set (api_keys d). ak_hash k = h \<longrightarrow> ak_revoked_at k \<noteq> None"
    and old: "\<And>i p e. (h, p, e) \<in> set (caches i) \<Longrightarrow> e \<le> until" by (auto simp: locked_def)
  from revoked_grow [OF auth_step_grows this(1,2)] have "h \<in> ak_hash ` set (api_keys (fst (auth_step S hash c (d, caches))))"
    "\<forall>k \<in> set (api_keys (fst (auth_step S hash c (d, caches)))). ak_hash k = h \<longrightarrow> ak_revoked_at k \<noteq> None" .
  moreover have "e \<le> until" if "(h, p, e) \<in> set (snd (auth_step S hash c (d, caches)) i)" for i p e
    using auth_step_entries [OF that [unfolded cc]]
  proof
    assume "(h, p, e) \<in> set (caches i)"
    then show ?thesis by (rule old)
  next
    assume "e = clock + of_int (auth_cache_ttl_seconds S) \<and> (\<exists>k t. live_key h d = Some (k, t) \<and> p = principal_of k t)"
    then obtain k t where "live_key h d = Some (k, t)" by (elim conjE exE)
    with none [of "(k, t)"] show ?thesis by simp
  qed
  ultimately show ?thesis unfolding locked_def by blast
qed

lemma auth_run_grows: "keys_grow d (fst (auth_run S hash cs (d, caches)))"
proof (induction cs arbitrary: d caches)
  case (Cons c cs)
  obtain d' caches' where st: "auth_step S hash c (d, caches) = (d', caches')" by (cases "auth_step S hash c (d, caches)")
  from auth_step_grows [of d S hash c caches] Cons.IH [of d' caches'] show ?case by (simp add: st keys_grow_trans)
qed simp

lemma auth_run_ok:
  assumes "caches_ok S t st" and "timely t cs"
  shows "caches_ok S (foldl (\<lambda>_. fst) t cs) (auth_run S hash cs st)"
  using assms
proof (induction cs arbitrary: t st)
  case (Cons c cs)
  obtain d caches where st: "st = (d, caches)" by (cases st)
  from Cons.prems auth_step_ok [of S t d caches c hash] Cons.IH [of "fst c" "auth_step S hash c st"] show ?case by (simp add: st)
qed simp

lemma auth_run_locked: "locked h until st \<Longrightarrow> locked h until (auth_run S hash cs st)"
proof (induction cs arbitrary: st)
  case (Cons c cs)
  obtain d caches where st: "st = (d, caches)" by (cases st)
  from Cons auth_step_locked [of h until d caches S hash c] show ?case by (simp add: st)
qed simp

lemma locked_refuses:
  assumes "locked (hash raw) until (d, caches)" and "until \<le> clock"
  shows "authenticate S hash clock now raw (d, caches i) = (None, d, caches i)"
proof (cases "authenticate S hash clock now raw (d, caches i)")
  case (fields found d' c')
  then show ?thesis
  proof (cases rule: authenticate_cases)
    case refused
    then show ?thesis by (simp add: fields)
  next
    case (cached p e)
    then have "e \<le> until" using assms(1) by (auto simp: locked_def)
    with cached(3) assms(2) show ?thesis by simp
  next
    case (fresh k t)
    then show ?thesis using assms(1) live_key_SomeD [OF fresh(2)] by (auto simp: locked_def)
  qed
qed

lemma timely_append: "timely t (xs @ ys) \<longleftrightarrow> timely t xs \<and> timely (foldl (\<lambda>_. fst) t xs) ys"
  by (induction xs arbitrary: t) simp_all

lemma timely_last: "timely t xs \<Longrightarrow> t \<le> foldl (\<lambda>_. fst) t xs"
  by (induction xs arbitrary: t) force+

lemma revoke_locks:
  assumes ok: "caches_ok S t (d, caches)" and r: "revoke_key now p kid (d, caches i) = Inr (d', c')"
    and k: "k \<in> set (api_keys d)" "ak_id k = kid" "ak_hash k = hash raw"
    and uniq: "\<And>x. x \<in> set (api_keys d) \<Longrightarrow> ak_hash x = hash raw \<Longrightarrow> ak_id x = kid"
  shows "locked (hash raw) (t + of_int (auth_cache_ttl_seconds S)) (d', caches(i := c'))"
proof -
  obtain k0 :: api_key where d': "d' = d\<lparr>api_keys := upd_where (\<lambda>x. ak_id x = kid) (\<lambda>x. x\<lparr>ak_revoked_at := Some now\<rparr>) (api_keys d)\<rparr>"
    and c': "c' = AList.delete (ak_hash k0) (caches i)" by (rule revoke_key_InrD [OF r]) (rule that)
  have keys: "api_keys d' = map (\<lambda>x. if ak_id x = kid then x\<lparr>ak_revoked_at := Some now\<rparr> else x) (api_keys d)"
    by (simp add: d' upd_where_def)
  have "hash raw \<in> ak_hash ` set (api_keys d')" 

  proof (rule image_eqI [of _ _ "k\<lparr>ak_revoked_at := Some now\<rparr>"])
    have "(\<lambda>x. if ak_id x = kid then x\<lparr>ak_revoked_at := Some now\<rparr> else x) k \<in> set (api_keys d')"
      unfolding keys set_map using k(1) by (rule imageI)
    then show "k\<lparr>ak_revoked_at := Some now\<rparr> \<in> set (api_keys d')" by (simp add: k(2))
  qed (simp add: k(3))
  moreover have "\<forall>x \<in> set (api_keys d'). ak_hash x = hash raw \<longrightarrow> ak_revoked_at x \<noteq> None"
  proof (intro ballI impI)
    fix x assume x: "x \<in> set (api_keys d')" "ak_hash x = hash raw"
    then obtain y where y: "y \<in> set (api_keys d)" "x = (if ak_id y = kid then y\<lparr>ak_revoked_at := Some now\<rparr> else y)"
      unfolding keys set_map by (elim imageE)
    with x(2) have "ak_id y = kid" by (intro uniq) (simp_all split: if_splits)
    with y(2) show "ak_revoked_at x \<noteq> None" by simp
  qed
  moreover have "e \<le> t + of_int (auth_cache_ttl_seconds S)" if "(hash raw, q, e) \<in> set ((caches(i := c')) j)" for j q e
  proof -
    have "(hash raw, q, e) \<in> set (caches j)"
      using that in_delete [of "hash raw" "(q, e)" "ak_hash k0" "caches i"] by (simp add: c' split: if_splits)
    then show ?thesis using ok unfolding caches_ok_def snd_conv by blast
  qed
  ultimately show ?thesis by (simp add: locked_def)
qed

section \<open>The properties\<close>

definition key_holders_distinct :: "db \<Rightarrow> bool" where
  "key_holders_distinct d \<longleftrightarrow> (\<forall>k \<in> set (api_keys d). \<forall>k' \<in> set (api_keys d). ak_hash k = ak_hash k' \<longrightarrow> ak_id k = ak_id k')"

text \<open>C29. Several processes share one key table, each with a cache of principals of its own. Whatever was
  authenticated, created or revoked before, once a key has been revoked at time \<open>t\<close> by a process, no process
  accepts it any more after \<open>auth_cache_ttl_seconds\<close>, and not even one more use of it within that time
  prolongs the delay.\<close>

theorem revoked_key_is_locked_out:
  fixes S :: settings
  defines "ttl \<equiv> of_int (auth_cache_ttl_seconds S)"
  assumes before: "timely t0 before" "auth_run S hash before (d0, \<lambda>_. []) = (d, caches)"
    and revoke: "foldl (\<lambda>_. fst) t0 before \<le> t" "revoke_key now p kid (d, caches i) = Inr (d', c')"
    and key: "k \<in> set (api_keys d)" "ak_id k = kid" "ak_hash k = hash raw" "key_holders_distinct d"
    and after: "timely t after" "auth_run S hash after (d', caches(i := c')) = (d2, caches2)"
    and late: "t + ttl \<le> clock"
  shows "authenticate S hash clock now2 raw (d2, caches2 j) = (None, d2, caches2 j)"
proof -
  have "caches_ok S t0 (d0, \<lambda>_. [])" by (simp add: caches_ok_def)
  from auth_run_ok [OF this before(1), of hash] have "caches_ok S (foldl (\<lambda>_. fst) t0 before) (d, caches)" by (simp add: before(2))
  then have "caches_ok S t (d, caches)" using revoke(1) unfolding caches_ok_def by (meson add_right_mono order_trans)
  from revoke_locks [where hash = hash and raw = raw, OF this revoke(2) key(1-3)] key have "locked (hash raw) (t + ttl) (d', caches(i := c'))"
    unfolding ttl_def key_holders_distinct_def by metis
  from auth_run_locked [OF this, of S hash after] have "locked (hash raw) (t + ttl) (d2, caches2)" by (simp add: after(2))
  from locked_refuses [where hash = hash and raw = raw, OF this late] show ?thesis .
qed

text \<open>A principal that \<open>authenticate\<close> returns, from the cache or from the table, is the holder of a key
  with the digest of what the client showed, in the tenant of that key and with the role of that key.\<close>

theorem authenticated_principal_holds_key:
  assumes "timely t0 cs" and "auth_run S hash cs (d0, \<lambda>_. []) = (d, caches)"
    and "authenticate S hash clock now raw (d, caches i) = (Some p, d', c')"
  shows "raw \<noteq> [] \<and> (\<exists>k \<in> set (api_keys d). \<exists>t \<in> set (tenants d). ak_hash k = hash raw \<and> tn_id t = ak_tenant k \<and>
    pr_key p = ak_id k \<and> pr_tenant p = tn_id t \<and> pr_role p = ak_role k)"
proof -
  have "caches_ok S t0 (d0, \<lambda>_. [])" by (simp add: caches_ok_def)
  from auth_run_ok [OF this assms(1), of hash] have ok: "caches_ok S (foldl (\<lambda>_. fst) t0 cs) (d, caches)" by (simp add: assms(2))
  from assms(3) have "raw \<noteq> [] \<and> stands_for (hash raw) p d"
  proof (cases rule: authenticate_cases)
    case (cached q e)
    with ok show ?thesis by (auto simp: caches_ok_def)
  next
    case (fresh k t)
    with live_key_SomeD [OF fresh(2)] show ?thesis by (auto simp: stands_for_def)
  qed simp
  then obtain k t where "raw \<noteq> []" "k \<in> set (api_keys d)" "t \<in> set (tenants d)" "ak_hash k = hash raw" "tn_id t = ak_tenant k"
    "p = principal_of k t" by (auto simp: stands_for_def)
  then show ?thesis by (intro conjI bexI [of _ k] bexI [of _ t]) (simp_all add: principal_of_def)
qed

section \<open>Evaluation\<close>

definition demo_hash :: "string \<Rightarrow> string" where
  "demo_hash raw = ''h:'' @ raw"

definition demo_admin :: principal where
  "demo_admin = \<lparr>pr_tenant = ''u0'', pr_tenant_name = ''Acme'', pr_key = ''u1'', pr_key_name = ''bootstrap'', pr_role = ''admin''\<rparr>"

definition demo_keys :: "(rat \<times> time \<times> auth_op) list" where
  "demo_keys = [(0, 0, ABootstrap), (1, 1, ACreate demo_admin ''k'' ''ci'' ''operator''), (2, 2, AAuthenticate 0 ''k''), (3, 3, AAuthenticate 1 ''k'')]"

lemma authenticated_principal_holds_key_witness:
  "\<exists>d caches p d' c'. auth_run default_settings demo_hash demo_keys (empty_db demo_supply, \<lambda>_. []) = (d, caches) \<and>
    authenticate default_settings demo_hash 4 4 ''k'' (d, caches 1) = (Some p, d', c') \<and> pr_role p = ''operator'' \<and>
    (\<exists>k \<in> set (api_keys d). ak_hash k = ''h:k'' \<and> pr_key p = ak_id k)"
proof -
  obtain d caches where r: "auth_run default_settings demo_hash demo_keys (empty_db demo_supply, \<lambda>_. []) = (d, caches)" by fastforce
  have "case authenticate default_settings demo_hash 4 4 ''k''
      (map_prod id (\<lambda>c. c 1) (auth_run default_settings demo_hash demo_keys (empty_db demo_supply, \<lambda>_. []))) of
    (Some p, _) \<Rightarrow> pr_role p = ''operator'' | _ \<Rightarrow> False" by code_simp
  then obtain p d' c' where a: "authenticate default_settings demo_hash 4 4 ''k'' (d, caches 1) = (Some p, d', c')"
    and p: "pr_role p = ''operator''" by (auto simp: r split: prod.splits option.splits)
  have "timely 0 demo_keys" by (simp add: demo_keys_def)
  from authenticated_principal_holds_key [OF this r a] obtain k where "k \<in> set (api_keys d)" "ak_hash k = ''h:k''" "pr_key p = ak_id k"
    by (auto simp: demo_hash_def)
  with r a p show ?thesis by blast
qed

lemma revoked_key_is_locked_out_witness:
  "\<exists>d caches d' c' d2 caches2. auth_run default_settings demo_hash demo_keys (empty_db demo_supply, \<lambda>_. []) = (d, caches) \<and>
    revoke_key 5 demo_admin ''u2'' (d, caches 0) = Inr (d', c') \<and>
    auth_run default_settings demo_hash [(6, 6, AAuthenticate 1 ''k'')] (d', caches(0 := c')) = (d2, caches2) \<and>
    authenticate default_settings demo_hash 40 40 ''k'' (d2, caches2 1) = (None, d2, caches2 1)"
proof -
  obtain d caches where r: "auth_run default_settings demo_hash demo_keys (empty_db demo_supply, \<lambda>_. []) = (d, caches)" by fastforce
  have "case auth_run default_settings demo_hash demo_keys (empty_db demo_supply, \<lambda>_. []) of (d, caches) \<Rightarrow>
      (case revoke_key 5 demo_admin ''u2'' (d, caches 0) of Inr _ \<Rightarrow> True | Inl _ \<Rightarrow> False) \<and>
      map (\<lambda>k. (ak_id k, ak_hash k)) (api_keys d) = [(''u1'', demo_hash (bootstrap_api_key default_settings)), (''u2'', demo_hash ''k'')]"
    by code_simp
  then obtain d' c' where rev: "revoke_key 5 demo_admin ''u2'' (d, caches 0) = Inr (d', c')"
    and keys: "map (\<lambda>k. (ak_id k, ak_hash k)) (api_keys d) = [(''u1'', demo_hash (bootstrap_api_key default_settings)), (''u2'', demo_hash ''k'')]"
    by (auto simp: r split: sum.splits)
  from keys obtain k1 k where ks: "api_keys d = [k1, k]" "ak_id k1 = ''u1''" "ak_id k = ''u2''" "ak_hash k = demo_hash ''k''"
    "ak_hash k1 \<noteq> demo_hash ''k''" by (auto simp: demo_hash_def default_settings_def DEVELOPMENT_API_KEY_def)
  obtain d2 caches2 where after: "auth_run default_settings demo_hash [(6, 6, AAuthenticate 1 ''k'')] (d', caches(0 := c')) = (d2, caches2)"
    by fastforce
  have "authenticate default_settings demo_hash 40 40 ''k'' (d2, caches2 1) = (None, d2, caches2 1)"
    by (rule revoked_key_is_locked_out [OF _ r _ rev _ _ ks(4) _ _ after, where ?t0.0 = 0 and ?t = 5])
      (use ks in \<open>simp_all add: demo_keys_def key_holders_distinct_def default_settings_def\<close>)
  with r rev after show ?thesis by blast
qed

end
