(* ===== verification/Calendar.thy ===== *)
theory Calendar
  imports DF_Prelude
begin

text \<open>
  The calendar of Python's \<open>datetime\<close>: a naive \<open>datetime\<close>, kept as the microseconds since the epoch, is
  written by \<open>isoformat\<close> as year, month, day and time of day; \<open>read_iso\<close> reads that form back. The
  scheduler puts such strings into idempotency keys and the log pages into their cursors.
\<close>

section \<open>Days and dates\<close>

definition is_leap :: "nat \<Rightarrow> bool" where
  "is_leap y \<longleftrightarrow> y mod 4 = 0 \<and> (y mod 100 \<noteq> 0 \<or> y mod 400 = 0)"

text \<open>Days before January 1 of year \<open>Suc p\<close>.\<close>

definition days_of_years :: "nat \<Rightarrow> nat" where
  "days_of_years p = 365 * p + p div 4 - p div 100 + p div 400"

definition days_before_month :: "bool \<Rightarrow> nat \<Rightarrow> nat" where
  "days_before_month leap m = [0, 31, 59, 90, 120, 151, 181, 212, 243, 273, 304, 334] ! (m - 1) + (if leap \<and> 2 < m then 1 else 0)"

definition days_in_month :: "bool \<Rightarrow> nat \<Rightarrow> nat" where
  "days_in_month leap m = [31, if leap then 29 else 28, 31, 30, 31, 30, 31, 31, 30, 31, 30, 31] ! (m - 1)"

definition toordinal :: "nat \<Rightarrow> nat \<Rightarrow> nat \<Rightarrow> nat" where
  "toordinal y m d = days_of_years (y - 1) + days_before_month (is_leap y) m + d"

lemma days_of_years_ge: "p \<le> days_of_years p"
  using div_le_mono2 [of 4 100 p] unfolding days_of_years_def by simp

lemma days_of_years_le: "days_of_years p \<le> 366 * p"
proof -
  have "p div 4 \<le> p" "p div 400 \<le> p div 100" "p div 100 \<le> p div 4" by (simp_all add: div_le_mono2)
  then show ?thesis unfolding days_of_years_def by linarith
qed

function years_before :: "nat \<Rightarrow> nat \<Rightarrow> nat" where
  "years_before n p = (if days_of_years (Suc p) < n then years_before n (Suc p) else p)"
  by pat_completeness auto
termination
proof (relation "measure (\<lambda>(n, p). n - p)", goal_cases)
  case (2 n p)
  with days_of_years_ge [of "Suc p"] show ?case by simp
qed simp

declare years_before.simps [simp del]

abbreviation months :: "nat list" where
  "months \<equiv> [1, 2, 3, 4, 5, 6, 7, 8, 9, 10, 11, 12]"

definition month_at :: "bool \<Rightarrow> nat \<Rightarrow> nat" where
  "month_at leap r = length (filter (\<lambda>m. days_before_month leap m < r) months)"

definition fromordinal :: "nat \<Rightarrow> nat \<times> nat \<times> nat" where
  "fromordinal n = (let p = years_before n ((n - 1) div 366); r = n - days_of_years p; leap = is_leap (Suc p); m = month_at leap r
     in (Suc p, m, r - days_before_month leap m))"

lemma div_step: "Suc p div k = p div k + (if k dvd Suc p then 1 else 0)"
  by (simp add: div_Suc mod_eq_0_iff_dvd)

lemma days_of_years_Suc: "days_of_years (Suc p) = days_of_years p + (if is_leap (Suc p) then 366 else 365)"
proof -
  have le: "p div 100 \<le> p div 4" by (simp add: div_le_mono2)
  have up: "4 dvd Suc p" if "100 dvd Suc p" using that by (rule dvd_trans [rotated]) simp
  have up': "100 dvd Suc p" if "400 dvd Suc p" using that by (rule dvd_trans [rotated]) simp
  have leap: "is_leap (Suc p) \<longleftrightarrow> 4 dvd Suc p \<and> (\<not> 100 dvd Suc p \<or> 400 dvd Suc p)" by (simp only: is_leap_def mod_eq_0_iff_dvd)
  consider "\<not> 4 dvd Suc p" "\<not> 100 dvd Suc p" "\<not> 400 dvd Suc p" | "4 dvd Suc p" "\<not> 100 dvd Suc p" "\<not> 400 dvd Suc p"
    | "4 dvd Suc p" "100 dvd Suc p" "\<not> 400 dvd Suc p" | "4 dvd Suc p" "100 dvd Suc p" "400 dvd Suc p" using up up' by blast
  then show ?thesis
    unfolding days_of_years_def leap div_step using le by cases (simp_all, arith+)
qed

lemma days_of_years_mono: "p \<le> q \<Longrightarrow> days_of_years p \<le> days_of_years q"
  by (rule lift_Suc_mono_le [of days_of_years]) (simp_all add: days_of_years_Suc)

lemma years_before:
  "days_of_years p < n \<Longrightarrow> days_of_years (years_before n p) < n \<and> n \<le> days_of_years (Suc (years_before n p))"
proof (induction n p rule: years_before.induct)
  case (1 n p)
  show ?case
  proof (cases "days_of_years (Suc p) < n")
    case True
    with 1 show ?thesis by (subst (1 2) years_before.simps) simp
  next
    case False
    with 1 show ?thesis by (subst (1 2) years_before.simps) simp
  qed
qed

lemma month_at_eq:
  assumes "m \<in> set months" and "days_before_month leap m < r" and "r \<le> days_before_month leap m + days_in_month leap m"
  shows "month_at leap r = m"
proof -
  from assms(1) have "m = 1 \<or> m = 2 \<or> m = 3 \<or> m = 4 \<or> m = 5 \<or> m = 6 \<or> m = 7 \<or> m = 8 \<or> m = 9 \<or> m = 10 \<or> m = 11 \<or> m = 12" by simp
  then show ?thesis using assms(2,3)
    by (elim disjE) (cases leap; simp add: month_at_def days_before_month_def days_in_month_def)+
qed

lemma days_before_next:
  "m \<in> set (butlast months) \<Longrightarrow> days_before_month leap (Suc m) = days_before_month leap m + days_in_month leap m"
  by (cases leap) (auto simp: days_before_month_def days_in_month_def)

lemma month_exists:
  assumes "1 \<le> r" and "r \<le> (if leap then 366 else 365)"
  shows "\<exists>m \<in> set months. days_before_month leap m < r \<and> r \<le> days_before_month leap m + days_in_month leap m"
proof (rule ccontr)
  assume none: "\<not> ?thesis"
  have up: "days_before_month leap (Suc m) < r" if "days_before_month leap m < r" "m \<in> set (butlast months)" for m
  proof -
    have "m \<in> set months" using that(2) by (rule in_set_butlastD)
    then have "days_before_month leap m + days_in_month leap m < r" using none that(1) not_le by blast
    then show ?thesis by (simp only: days_before_next [OF that(2)])
  qed
  have "days_before_month leap 1 < r" using assms by (simp add: days_before_month_def)
  from up [OF up [OF up [OF up [OF up [OF up [OF up [OF up [OF up [OF up [OF up [OF this]]]]]]]]]]]
  have "days_before_month leap 12 < r" by (simp add: eval_nat_numeral)
  moreover have "r \<le> days_before_month leap 12 + days_in_month leap 12"
    using assms by (simp add: days_before_month_def days_in_month_def split: if_splits)
  ultimately show False using none by simp
qed

lemma month_at:
  assumes "1 \<le> r" and "r \<le> (if leap then 366 else 365)"
  shows "1 \<le> month_at leap r" and "month_at leap r \<le> 12" and "days_before_month leap (month_at leap r) < r"
    and "r \<le> days_before_month leap (month_at leap r) + days_in_month leap (month_at leap r)"
proof -
  obtain m where m: "m \<in> set months" "days_before_month leap m < r" "r \<le> days_before_month leap m + days_in_month leap m"
    using month_exists [OF assms] by blast
  then show "1 \<le> month_at leap r" "month_at leap r \<le> 12" "days_before_month leap (month_at leap r) < r"
    "r \<le> days_before_month leap (month_at leap r) + days_in_month leap (month_at leap r)" by (auto simp: month_at_eq [OF m])
qed

text \<open>The ordinal of the last day, December 31 of the year 9999.\<close>

abbreviation max_ordinal :: nat where
  "max_ordinal \<equiv> 3652059"

lemma fromordinal:
  assumes "1 \<le> n" and "n \<le> max_ordinal" and "fromordinal n = (y, m, d)"
  shows "toordinal y m d = n" and "1 \<le> y" and "y \<le> 9999" and "1 \<le> m" and "m \<le> 12" and "1 \<le> d"
    and "d \<le> days_in_month (is_leap y) m"
proof -
  define p where "p = years_before n ((n - 1) div 366)"
  define r where "r = n - days_of_years p"
  have "days_of_years ((n - 1) div 366) < n"
    using days_of_years_le [of "(n - 1) div 366"] times_div_less_eq_dividend [of 366 "n - 1"] assms(1) by linarith
  from years_before [OF this] have p: "days_of_years p < n" "n \<le> days_of_years (Suc p)" by (simp_all add: p_def)
  then have r: "1 \<le> r" "r \<le> (if is_leap (Suc p) then 366 else 365)" by (simp_all add: r_def days_of_years_Suc)
  note mo = month_at [OF r]
  have eq: "y = Suc p" "m = month_at (is_leap (Suc p)) r" "d = r - days_before_month (is_leap (Suc p)) m"
    using assms(3) unfolding fromordinal_def Let_def p_def [symmetric] r_def [symmetric] by auto
  show "toordinal y m d = n" using mo(3) p(1) by (simp add: toordinal_def eq r_def)
  show "1 \<le> y" "1 \<le> m" "m \<le> 12" "1 \<le> d" "d \<le> days_in_month (is_leap y) m" using mo by (simp_all add: eq)
  show "y \<le> 9999"
  proof (rule ccontr)
    assume "\<not> y \<le> 9999"
    then have "days_of_years 9999 \<le> days_of_years p" by (intro days_of_years_mono) (simp add: eq)
    moreover have "days_of_years 9999 = max_ordinal" by (simp add: days_of_years_def)
    ultimately show False using p(1) assms(2) by simp
  qed
qed

section \<open>ISO 8601\<close>

text \<open>Decimal digits in a field of fixed width.\<close>

fun zero_filled :: "nat \<Rightarrow> nat \<Rightarrow> string" where
  "zero_filled 0 n = []"
| "zero_filled (Suc k) n = zero_filled k (n div 10) @ [char_of (48 + n mod 10)]"

definition is_digit :: "char \<Rightarrow> bool" where
  "is_digit c \<longleftrightarrow> 48 \<le> (of_char c :: nat) \<and> (of_char c :: nat) \<le> 57"

lemma zero_filled [simp]:
  "length (zero_filled k n) = k" "n < 10 ^ k \<Longrightarrow> digits_value (zero_filled k n) = n" "list_all is_digit (zero_filled k n)"
  by (induction k arbitrary: n) (auto simp: digits_value_def is_digit_def less_mult_imp_div_less mult.commute)

definition ordinal_of :: "time \<Rightarrow> nat" where
  "ordinal_of t = nat (t div 86400000000 + 719163)"

definition representable :: "time \<Rightarrow> bool" where
  "representable t \<longleftrightarrow> 0 < t div 86400000000 + 719163 \<and> t div 86400000000 + 719163 \<le> int max_ordinal"

definition isoformat :: "time \<Rightarrow> string" where
  "isoformat t = (case fromordinal (ordinal_of t) of (y, m, d) \<Rightarrow>
     let us = nat (t mod 86400000000); s = us div 1000000
     in zero_filled 4 y @ ''-'' @ zero_filled 2 m @ ''-'' @ zero_filled 2 d @ ''T'' @
        zero_filled 2 (s div 3600) @ '':'' @ zero_filled 2 (s div 60 mod 60) @ '':'' @ zero_filled 2 (s mod 60) @
        (if us mod 1000000 = 0 then [] else ''.'' @ zero_filled 6 (us mod 1000000)))"

text \<open>Reading that form: a field of digits at a position, separators in between, and the ranges of \<open>datetime\<close>.\<close>

definition field :: "nat \<Rightarrow> nat \<Rightarrow> string \<Rightarrow> nat option" where
  "field i k s = (let f = take k (drop i s) in if length f = k \<and> list_all is_digit f then Some (digits_value f) else None)"

definition iso_shape :: "string \<Rightarrow> bool" where
  "iso_shape s \<longleftrightarrow> (length s = 19 \<or> length s = 26 \<and> s ! 19 = CHR ''.'') \<and> s ! 4 = CHR ''-'' \<and> s ! 7 = CHR ''-'' \<and>
     s ! 10 = CHR ''T'' \<and> s ! 13 = CHR '':'' \<and> s ! 16 = CHR '':''"

definition valid_fields :: "nat \<times> nat \<times> nat \<Rightarrow> nat \<times> nat \<times> nat \<Rightarrow> bool" where
  "valid_fields date clock = (case (date, clock) of ((y, m, d), (hh, mm, ss)) \<Rightarrow>
     1 \<le> y \<and> 1 \<le> m \<and> m \<le> 12 \<and> 1 \<le> d \<and> d \<le> days_in_month (is_leap y) m \<and> hh < 24 \<and> mm < 60 \<and> ss < 60)"

definition read_iso :: "string \<Rightarrow> time option" where
  "read_iso s =
     (if \<not> iso_shape s then None
      else (case (field 0 4 s, field 5 2 s, field 8 2 s, field 11 2 s, field 14 2 s, field 17 2 s,
                  if length s = 19 then Some 0 else field 20 6 s) of
        (Some y, Some m, Some d, Some hh, Some mm, Some ss, Some us) \<Rightarrow>
          if valid_fields (y, m, d) (hh, mm, ss)
          then Some ((int (toordinal y m d) - 719163) * 86400000000 + int (((hh * 60 + mm) * 60 + ss) * 1000000 + us))
          else None
      | _ \<Rightarrow> None))"

lemma field_at: "length pre = i \<Longrightarrow> n < 10 ^ k \<Longrightarrow> field i k (pre @ zero_filled k n @ post) = Some n"
  by (simp add: field_def)

lemma read_written:
  fixes us :: nat
  assumes "valid_fields (y, m, d) (hh, mm, ss)" and "y < 10000" and "us < 1000000"
  defines "s \<equiv> zero_filled 4 y @ ''-'' @ zero_filled 2 m @ ''-'' @ zero_filled 2 d @ ''T'' @ zero_filled 2 hh @ '':'' @
    zero_filled 2 mm @ '':'' @ zero_filled 2 ss @ (if us = 0 then [] else ''.'' @ zero_filled 6 us)"
  shows "read_iso s = Some ((int (toordinal y m d) - 719163) * 86400000000 + int (((hh * 60 + mm) * 60 + ss) * 1000000 + us))"
proof -
  have dim: "days_in_month l m \<le> 31" if "1 \<le> m" "m \<le> 12" for l
    using month_at_eq [of m l] that by (cases l) (auto simp: days_in_month_def nth_Cons' split: if_splits)
  from assms(1) have r: "m \<le> 12" "d \<le> 31" "hh < 24" "mm < 60" "ss < 60" using dim by (auto simp: valid_fields_def intro: order_trans)
  have shape: "iso_shape s" by (simp add: iso_shape_def s_def nth_append)
  have "field 0 4 s = Some y" "field 5 2 s = Some m" "field 8 2 s = Some d" "field 11 2 s = Some hh" "field 14 2 s = Some mm"
    "field 17 2 s = Some ss" using r assms(2) by (simp_all add: field_def s_def)
  moreover have "(if length s = 19 then Some 0 else field 20 6 s) = Some us" using assms(3) by (simp add: field_def s_def)
  ultimately show ?thesis using shape assms(1) by (simp add: read_iso_def)
qed

theorem read_isoformat:
  assumes "representable t"
  shows "read_iso (isoformat t) = Some t"
proof -
  obtain y m d where o: "fromordinal (ordinal_of t) = (y, m, d)" by (cases "fromordinal (ordinal_of t)")
  have n: "1 \<le> ordinal_of t" "ordinal_of t \<le> max_ordinal" "int (ordinal_of t) - 719163 = t div 86400000000"
    using assms by (auto simp: representable_def ordinal_of_def)
  note ymd = fromordinal [OF n(1,2) o]
  define us where "us = nat (t mod 86400000000)"
  have us: "us < 86400000000" "int us = t mod 86400000000" unfolding us_def by (simp_all add: nat_less_iff)
  define s where "s = us div 1000000"
  have s: "s < 86400" using us(1) unfolding s_def by (simp add: less_mult_imp_div_less)
  have "valid_fields (y, m, d) (s div 3600, s div 60 mod 60, s mod 60)"
    using ymd s by (simp add: valid_fields_def less_mult_imp_div_less)
  from read_written [OF this, of "us mod 1000000"] ymd
  have "read_iso (isoformat t) = Some ((int (ordinal_of t) - 719163) * 86400000000 +
      int (((s div 3600 * 60 + s div 60 mod 60) * 60 + s mod 60) * 1000000 + us mod 1000000))"
    by (simp add: isoformat_def o us_def [symmetric] s_def [symmetric] Let_def)
  moreover have "s div 3600 * 60 + s div 60 mod 60 = s div 60"
  proof -
    have "s div 3600 = s div 60 div 60" by (simp add: div_mult2_eq [symmetric])
    then show ?thesis by simp
  qed
  moreover have "s div 60 * 60 + s mod 60 = s" by simp
  moreover have "s * 1000000 + us mod 1000000 = us" unfolding s_def by simp
  ultimately show ?thesis by (simp add: n(3) us(2))
qed

lemma isoformat_inj: "representable t \<Longrightarrow> representable u \<Longrightarrow> isoformat t = isoformat u \<Longrightarrow> t = u"
  by (metis option.inject read_isoformat)

lemma isoformat_ascii: "c \<in> set (isoformat t) \<Longrightarrow> is_digit c \<or> c \<in> set ''-T:.''"
  by (auto simp: isoformat_def Let_def list_all_iff split: prod.splits if_splits
      dest: zero_filled(3) [unfolded list_all_iff, rule_format])

lemma years_before_stop: "n \<le> days_of_years (Suc p) \<Longrightarrow> years_before n p = p"
  by (subst years_before.simps) simp

lemma years_before_go: "days_of_years (Suc p) < n \<Longrightarrow> years_before n p = years_before n (Suc p)"
  by (subst years_before.simps) simp

lemma fromordinal_samples: "fromordinal 719163 = (1970, 1, 1)"
proof -
  have y: "years_before 719163 1964 = 1969"
    by (simp add: years_before_go [of 1964] years_before_go [of 1965] years_before_go [of 1966] years_before_go [of 1967]
      years_before_go [of 1968] years_before_stop [of _ 1969] days_of_years_def)
  have "days_of_years 1969 = 719162" "is_leap 1970 \<longleftrightarrow> False" "month_at False 1 = 1" "days_before_month False 1 = 0"
    by (simp_all add: days_of_years_def is_leap_def month_at_eq days_before_month_def days_in_month_def)
  then show ?thesis by (simp add: fromordinal_def y Let_def)
qed

lemma isoformat_samples: "isoformat 0 = ''1970-01-01T00:00:00''"
proof -
  have "zero_filled 4 1970 = ''1970''" "zero_filled 2 1 = ''01''" "zero_filled 2 0 = ''00''" by code_simp+
  then show ?thesis by (simp add: isoformat_def ordinal_of_def fromordinal_samples)
qed

end
