(* ===== verification/Scheduler.thy ===== *)
theory Scheduler
  imports Catalogue Calendar
begin

text \<open>
  \<open>services/scheduler_service.py\<close>: one pass over the schedules that are due. \<open>cron\<close> stands for croniter's
  \<open>get_next\<close>, which may raise. A pass works in one session: it sees its own pending changes, and only what
  a trigger commits survives an exception that ends the pass.
\<close>

section \<open>A pass\<close>

definition schedule_key :: "wf_schedule \<Rightarrow> string" where
  "schedule_key s = ''schedule:'' @ sc_id s @ '':'' @ isoformat (sc_next_run_at s)"

definition compute_next_run :: "(string \<Rightarrow> time \<Rightarrow> time res) \<Rightarrow> wf_schedule \<Rightarrow> time \<Rightarrow> time res" where
  "compute_next_run cron s base =
     (let plain = Inr (base + secs (case sc_interval_seconds s of Some n \<Rightarrow> if n = 0 then 60 else n | None \<Rightarrow> 60)) in
      case sc_cron s of Some c \<Rightarrow> if c \<noteq> [] then cron c base else plain | None \<Rightarrow> plain)"

definition due_schedules :: "time \<Rightarrow> db \<Rightarrow> wf_schedule list" where
  "due_schedules now d = take 50 (sort_key sc_next_run_at (filter (\<lambda>s. sc_is_enabled s \<and> sc_next_run_at s \<le> now) (schedules d)))"

definition update_schedule :: "uid \<Rightarrow> (wf_schedule \<Rightarrow> wf_schedule) \<Rightarrow> db \<Rightarrow> db" where
  "update_schedule sid f d = d\<lparr>schedules := upd_where (\<lambda>s. sc_id s = sid) f (schedules d)\<rparr>"

definition advance :: "(string \<Rightarrow> time \<Rightarrow> time res) \<Rightarrow> time \<Rightarrow> wf_schedule \<Rightarrow> db \<times> db \<times> nat \<Rightarrow> (py_error \<times> db) + (db \<times> db \<times> nat)" where
  "advance cron now s st = (case st of (c, d, n) \<Rightarrow>
     (case compute_next_run cron s now of
        Inl e \<Rightarrow> Inl (e, c)
      | Inr t \<Rightarrow> Inr (c, update_schedule (sc_id s) (\<lambda>r. r\<lparr>sc_last_run_at := Some now, sc_next_run_at := t\<rparr>) d, n)))"

text \<open>
  The state is what is committed, what the session sees, and the number of triggers. \<open>clock\<close> gives the clock
  of each trigger. A repeated key commits nothing. The refusal 409 comes from a rollback: the rows of the
  session are expired, and reading the schedule again raises.
\<close>

definition handle_schedule :: "settings \<Rightarrow> (string \<Rightarrow> time \<Rightarrow> time res) \<Rightarrow> time \<Rightarrow> (uid \<Rightarrow> time) \<Rightarrow> db \<times> db \<times> nat \<Rightarrow>
    wf_schedule \<Rightarrow> (py_error \<times> db) + (db \<times> db \<times> nat)" where
  "handle_schedule S cron now clock st s = (case st of (c, d, n) \<Rightarrow>
     if (case find (\<lambda>w. wf_id w = sc_workflow s) (workflows d) of None \<Rightarrow> True | Some w \<Rightarrow> wf_is_archived w)
     then Inr (c, update_schedule (sc_id s) (\<lambda>r. r\<lparr>sc_is_enabled := False\<rparr>) d, n)
     else (case trigger_workflow S (clock (sc_id s)) (sc_tenant s) (sc_workflow s) ''scheduler'' (Some (schedule_key s)) d of
         Inr (e, d1, sent) \<Rightarrow>
           advance cron now s (if execution_with_key (sc_tenant s) (schedule_key s) d = None then d1 else c, d1, Suc n)
       | Inl (ApiError status code message) \<Rightarrow>
           if status = 409 then Inl (MissingGreenlet, c) else advance cron now s (c, d, n)
       | Inl e \<Rightarrow> Inl (e, c)))"

definition scheduler_pass :: "settings \<Rightarrow> (string \<Rightarrow> time \<Rightarrow> time res) \<Rightarrow> time \<Rightarrow> (uid \<Rightarrow> time) \<Rightarrow> wf_schedule list \<Rightarrow> db \<Rightarrow> nat res \<times> db" where
  "scheduler_pass S cron now clock rows d =
     (case fold_res (handle_schedule S cron now clock) (d, d, 0) rows of
        Inl (e, c) \<Rightarrow> (Inl e, c)
      | Inr (c, d', n) \<Rightarrow> (Inr n, d'))"

definition scheduler_once :: "settings \<Rightarrow> (string \<Rightarrow> time \<Rightarrow> time res) \<Rightarrow> time \<Rightarrow> (uid \<Rightarrow> time) \<Rightarrow> db \<Rightarrow> nat res \<times> db" where
  "scheduler_once S cron now clock d = scheduler_pass S cron now clock (due_schedules now d) d"

section \<open>What a trigger adds\<close>

lemma schedule_key_nonempty [simp]: "schedule_key s \<noteq> []"
  by (simp add: schedule_key_def)

lemma trigger_grows:
  assumes "platform_ok S d" and "tenant \<noteq> []" and "k \<noteq> []"
    and t: "trigger_workflow S now tenant wid actor (Some k) d = Inr (e, d', sent)"
  shows "platform_ok S d'" and "catalogue_same d d'" and "execution_with_key tenant k d' = Some e"
    and "execution_with_key u j d = Some x \<Longrightarrow> execution_with_key u j d' = Some x"
    and "active_executions u d \<le> active_executions u d'"
proof -
  have ok: "service_ok S d" "workflows_ok d" using assms(1) by (simp_all add: platform_ok_def)
  have cs: "catalogue_same d d'" using catalogue_trigger [of d S now tenant wid actor "Some k"] by (simp add: t db_of_def)
  then show "catalogue_same d d'" .
  from trigger_keeps_ok [OF ok(1) assms(2) t] catalogue_same_keeps(1) [OF cs ok(2)] show "platform_ok S d'" by (simp add: platform_ok_def)
  from t have "execution_with_key tenant k d' = Some e \<and> (\<exists>es. executions d' = executions d @ es)"
  proof (cases rule: trigger_cases)
    case existing
    with assms(3) show ?thesis by (simp add: seen_key_def)
  next
    case (created w doc rvid revno)
    have none: "execution_with_key tenant k d = None" using created(1) assms(3) by (simp add: seen_key_def)
    from created(8) show ?thesis
    proof (cases rule: spawn_cases)
      case sp: (created eid d1 s s1)
      from key_after_spawn [OF ok(1) assms(2) none sp(2,3,4)] spawn_executions(1) [OF ok(1) assms(2) sp(2,3,4)]
      show ?thesis by (simp add: sp(5,6))
    qed
  qed
  then obtain es where es: "execution_with_key tenant k d' = Some e" "executions d' = executions d @ es" by blast
  then show "execution_with_key tenant k d' = Some e" by simp
  show "execution_with_key u j d' = Some x" if "execution_with_key u j d = Some x"
    using that by (simp add: execution_with_key_def es(2) find_append)
  show "active_executions u d \<le> active_executions u d'" by (simp add: active_executions_def es(2))
qed

lemma update_schedule_frame [simp]:
  "workflows (update_schedule sid f d) = workflows d" "executions (update_schedule sid f d) = executions d"
  "execution_with_key u k (update_schedule sid f d) = execution_with_key u k d"
  "active_executions u (update_schedule sid f d) = active_executions u d"
  "schedules (update_schedule sid f d) = upd_where (\<lambda>s. sc_id s = sid) f (schedules d)"
  by (simp_all add: update_schedule_def execution_with_key_def active_executions_def)

lemma update_schedule_ok [simp]: "platform_ok S (update_schedule sid f d) = platform_ok S d"
proof -
  have "service_same d (update_schedule sid f d)" "service_same (update_schedule sid f d) d"
    by (simp_all add: service_same_def update_schedule_def)
  moreover have "workflows_ok (update_schedule sid f d) = workflows_ok d"
    by (simp add: workflows_ok_def update_schedule_def wf_good_def revs_of_def defs_of_def drawn_ids_def)
  ultimately show ?thesis using service_same_ok unfolding platform_ok_def by blast
qed

section \<open>The pass on a consistent installation\<close>

text \<open>Every schedule has an identifier of its own, a tenant, and its workflow in that tenant.\<close>

definition schedules_ok :: "db \<Rightarrow> bool" where
  "schedules_ok d \<longleftrightarrow> distinct (map sc_id (schedules d)) \<and> (\<forall>s \<in> set (schedules d). sc_tenant s \<noteq> [] \<and>
     (\<forall>w \<in> set (workflows d). wf_id w = sc_workflow s \<longrightarrow> wf_tenant w = sc_tenant s))"

definition live_workflow :: "workflow list \<Rightarrow> wf_schedule \<Rightarrow> bool" where
  "live_workflow ws s \<longleftrightarrow> (case find (\<lambda>w. wf_id w = sc_workflow s) ws of None \<Rightarrow> False | Some w \<Rightarrow> \<not> wf_is_archived w)"

text \<open>The row of a handled schedule.\<close>

definition handled :: "workflow list \<Rightarrow> (string \<Rightarrow> time \<Rightarrow> time res) \<Rightarrow> time \<Rightarrow> wf_schedule \<Rightarrow> wf_schedule" where
  "handled ws cron now s = (if live_workflow ws s
     then (case compute_next_run cron s now of Inr t \<Rightarrow> s\<lparr>sc_last_run_at := Some now, sc_next_run_at := t\<rparr> | Inl _ \<Rightarrow> s)
     else s\<lparr>sc_is_enabled := False\<rparr>)"

text \<open>A schedule that was due has its execution, or its tenant has no room.\<close>

definition fired :: "settings \<Rightarrow> wf_schedule \<Rightarrow> db \<Rightarrow> bool" where
  "fired S s d \<longleftrightarrow> execution_with_key (sc_tenant s) (schedule_key s) d \<noteq> None \<or>
     max_concurrent_executions_per_tenant S \<le> active_executions (sc_tenant s) d"

definition pass_grows :: "db \<Rightarrow> db \<Rightarrow> bool" where
  "pass_grows d d' \<longleftrightarrow> workflows d' = workflows d \<and> (\<forall>u. active_executions u d \<le> active_executions u d') \<and>
     (\<forall>u k e. execution_with_key u k d = Some e \<longrightarrow> execution_with_key u k d' = Some e)"

lemma fired_grows: "fired S s d \<Longrightarrow> pass_grows d d' \<Longrightarrow> fired S s d'"
  unfolding fired_def pass_grows_def by (metis not_None_eq order_trans)

lemma pass_grows_trans: "pass_grows a b \<Longrightarrow> pass_grows b c \<Longrightarrow> pass_grows a c"
  unfolding pass_grows_def by (metis order_trans)

lemma pass_grows_update [simp]: "pass_grows d (update_schedule sid f d)"
  by (simp add: pass_grows_def)

lemma handled_id [simp]: "sc_id (handled ws cron now s) = sc_id s" "sc_tenant (handled ws cron now s) = sc_tenant s"
  "sc_workflow (handled ws cron now s) = sc_workflow s"
  by (simp_all add: handled_def split: sum.splits)

text \<open>The trigger of a schedule whose workflow is live.\<close>

lemma scheduled_trigger:
  assumes "platform_ok S d" and "schedules_ok d" and "s \<in> set (schedules d)" and "live_workflow (workflows d) s"
  obtains (refused) m where "trigger_workflow S now (sc_tenant s) (sc_workflow s) actor (Some (schedule_key s)) d = Inl (ApiError 429 ''quota_exceeded'' m)"
      "fired S s d"
  | (started) e d' sent where "trigger_workflow S now (sc_tenant s) (sc_workflow s) actor (Some (schedule_key s)) d = Inr (e, d', sent)"
proof (cases "execution_with_key (sc_tenant s) (schedule_key s) d")
  case (Some e)
  show ?thesis by (rule started) (simp add: trigger_workflow_def Some)
next
  case None
  have ok: "service_ok S d" "workflows_ok d" using assms(1) by (simp_all add: platform_ok_def)
  from assms(4) obtain w where w: "find (\<lambda>w. wf_id w = sc_workflow s) (workflows d) = Some w" "\<not> wf_is_archived w"
    by (auto simp: live_workflow_def split: option.splits)
  have ten: "sc_tenant s \<noteq> []" "wf_tenant w = sc_tenant s" using assms(2,3) find_SomeD [OF w(1)] by (auto simp: schedules_ok_def)
  have "get_workflow (sc_tenant s) (sc_workflow s) False d \<noteq> None"
    using find_SomeD [OF w(1)] w(2) ten(2) by (auto simp: get_workflow_def find_None_iff)
  then obtain w' where w': "get_workflow (sc_tenant s) (sc_workflow s) False d = Some w'" by blast
  have seen: "seen_key (sc_tenant s) (Some (schedule_key s)) d = None" by (simp add: seen_key_def None)
  from trigger_total [OF ok ten(1) seen, where wid = "sc_workflow s" and now = now and actor = actor] show ?thesis
    by (auto simp: w' fired_def split: if_splits intro: refused started)
qed

lemma upd_where_row:
  assumes "distinct (map sc_id rows)" and "s \<in> set rows" and "f s = s'"
  shows "upd_where (\<lambda>r. sc_id r = sc_id s) f rows = map (\<lambda>r. if r = s then s' else r) rows"
  unfolding upd_where_def using assms by (auto simp: distinct_map dest: inj_onD)

lemma handle_one:
  assumes "platform_ok S d" and "schedules_ok d" and "s \<in> set (schedules d)" and "\<exists>t. compute_next_run cron s now = Inr t"
  shows "\<exists>c' d' n'. handle_schedule S cron now clock (c, d, n) s = Inr (c', d', n') \<and> platform_ok S d' \<and> n' \<le> Suc n \<and>
    schedules d' = map (\<lambda>r. if r = s then handled (workflows d) cron now s else r) (schedules d) \<and> pass_grows d d' \<and>
    (live_workflow (workflows d) s \<longrightarrow> fired S s d')"
proof -
  have dist: "distinct (map sc_id (schedules d))" and ten: "sc_tenant s \<noteq> []" using assms(2,3) by (auto simp: schedules_ok_def)
  from assms(4) obtain t where t: "compute_next_run cron s now = Inr t" ..
  show ?thesis
  proof (cases "live_workflow (workflows d) s")
    case False
    then show ?thesis using assms(1) upd_where_row [OF dist assms(3)]
      by (auto simp: handle_schedule_def live_workflow_def handled_def split: option.splits)
  next
    case True
    then have live: "\<not> (case find (\<lambda>w. wf_id w = sc_workflow s) (workflows d) of None \<Rightarrow> True | Some w \<Rightarrow> wf_is_archived w)"
      by (simp add: live_workflow_def split: option.splits)
    have row: "upd_where (\<lambda>r. sc_id r = sc_id s) (\<lambda>r. r\<lparr>sc_last_run_at := Some now, sc_next_run_at := t\<rparr>) (schedules d) =
        map (\<lambda>r. if r = s then handled (workflows d) cron now s else r) (schedules d)"
      by (rule upd_where_row [OF dist assms(3)]) (simp add: handled_def True t)
    show ?thesis using assms(1-3) True
    proof (cases rule: scheduled_trigger [where now = "clock (sc_id s)" and actor = "''scheduler''"])
      case (refused m)
      then show ?thesis using assms(1) by (simp add: handle_schedule_def live advance_def t row fired_def)
    next
      case (started e d' sent)
      note g = trigger_grows [OF assms(1) ten schedule_key_nonempty started]
      have "schedules d' = schedules d" "workflows d' = workflows d" using g(2) by (simp_all add: catalogue_same_def outer_tables_def)
      moreover have "pass_grows d d'" unfolding pass_grows_def using g(2,4,5) by (simp add: catalogue_same_def)
      ultimately show ?thesis using g(1,3) pass_grows_trans
        by (simp add: handle_schedule_def live started advance_def t row fired_def)
    qed
  qed
qed

lemma schedules_ok_map:
  assumes "schedules_ok d" and "workflows d' = workflows d" and "schedules d' = map f (schedules d)"
    and "\<And>s. sc_id (f s) = sc_id s \<and> sc_tenant (f s) = sc_tenant s \<and> sc_workflow (f s) = sc_workflow s"
  shows "schedules_ok d'"
  using assms by (simp add: schedules_ok_def comp_def)

lemma pass_rows:
  assumes "platform_ok S d" and "schedules_ok d" and "set rows \<subseteq> set (schedules d)" and "distinct rows"
    and "\<And>s. s \<in> set rows \<Longrightarrow> \<exists>t. compute_next_run cron s now = Inr t"
  shows "\<exists>c' d' n'. fold_res (handle_schedule S cron now clock) (c, d, n) rows = Inr (c', d', n') \<and> platform_ok S d' \<and>
    n' \<le> n + length rows \<and> pass_grows d d' \<and>
    schedules d' = map (\<lambda>r. if r \<in> set rows then handled (workflows d) cron now r else r) (schedules d) \<and>
    (\<forall>s \<in> set rows. live_workflow (workflows d) s \<longrightarrow> fired S s d')"
  using assms
proof (induction rows arbitrary: c d n)
  case Nil
  then show ?case by (simp add: pass_grows_def)
next
  case (Cons s rows)
  have s: "s \<in> set (schedules d)" using Cons.prems(3) by simp
  obtain c1 d1 n1 where one: "handle_schedule S cron now clock (c, d, n) s = Inr (c1, d1, n1)" "platform_ok S d1" "n1 \<le> Suc n"
    "schedules d1 = map (\<lambda>r. if r = s then handled (workflows d) cron now s else r) (schedules d)" "pass_grows d d1"
    "live_workflow (workflows d) s \<longrightarrow> fired S s d1"
    using handle_one [OF Cons.prems(1,2) s Cons.prems(5)] by fastforce
  have w1: "workflows d1 = workflows d" using one(5) by (simp add: pass_grows_def)
  have ok1: "schedules_ok d1" by (rule schedules_ok_map [OF Cons.prems(2) w1 one(4)]) simp
  have dist: "distinct (map sc_id (schedules d))" using Cons.prems(2) by (simp add: schedules_ok_def)
  have new: "handled (workflows d) cron now s \<notin> set rows"
  proof
    assume "handled (workflows d) cron now s \<in> set rows"
    moreover from this have "s = handled (workflows d) cron now s"
      using inj_onD [of sc_id "set (schedules d)" s "handled (workflows d) cron now s"] dist s Cons.prems(3) by (auto simp: distinct_map)
    ultimately show False using Cons.prems(4) by simp
  qed
  have "set rows \<subseteq> set (schedules d1)" using Cons.prems(3,4) by (auto simp: one(4))
  with Cons.IH [OF one(2) ok1 _ _ Cons.prems(5)] Cons.prems(4) obtain c' d' n' where rest:
    "fold_res (handle_schedule S cron now clock) (c1, d1, n1) rows = Inr (c', d', n')" "platform_ok S d'" "n' \<le> n1 + length rows"
    "pass_grows d1 d'" "schedules d' = map (\<lambda>r. if r \<in> set rows then handled (workflows d) cron now r else r) (schedules d1)"
    "\<forall>s \<in> set rows. live_workflow (workflows d) s \<longrightarrow> fired S s d'" unfolding w1 by fastforce
  have "schedules d' = map (\<lambda>r. if r \<in> set (s # rows) then handled (workflows d) cron now r else r) (schedules d)"
    using new Cons.prems(4) unfolding rest(5) one(4) by (auto simp: comp_def)
  with one rest pass_grows_trans [OF one(5) rest(4)] fired_grows [OF _ rest(4)] show ?case by auto
qed

lemma due_rows:
  shows "set (due_schedules now d) \<subseteq> set (schedules d)" and "distinct (map sc_id (schedules d)) \<Longrightarrow> distinct (due_schedules now d)"
    and "length (due_schedules now d) \<le> 50" and "s \<in> set (due_schedules now d) \<Longrightarrow> sc_is_enabled s \<and> sc_next_run_at s \<le> now"
proof -
  show "set (due_schedules now d) \<subseteq> set (schedules d)" "length (due_schedules now d) \<le> 50"
    unfolding due_schedules_def using set_take_subset by fastforce+
  show "sc_is_enabled s \<and> sc_next_run_at s \<le> now" if "s \<in> set (due_schedules now d)"
    using in_set_takeD [OF that [unfolded due_schedules_def]] by simp
  show "distinct (due_schedules now d)" if "distinct (map sc_id (schedules d))"
    unfolding due_schedules_def using that by (simp add: distinct_map)
qed

text \<open>A second scheduler that selected the same rows finds the keys taken and starts nothing.\<close>

lemma handle_seen:
  assumes "handle_schedule S cron now clock (c, d, n) s = Inr (c', d', n')"
    and "live_workflow (workflows d) s \<longrightarrow> execution_with_key (sc_tenant s) (schedule_key s) d \<noteq> None"
  shows "executions d' = executions d" and "workflows d' = workflows d" and "etasks d' = etasks d" and "jobs d' = jobs d"
proof -
  have "\<exists>f. d' = update_schedule (sc_id s) f d"
  proof (cases "live_workflow (workflows d) s")
    case False
    with assms(1) show ?thesis by (auto simp: handle_schedule_def live_workflow_def split: option.splits)
  next
    case True
    then have live: "\<not> (case find (\<lambda>w. wf_id w = sc_workflow s) (workflows d) of None \<Rightarrow> True | Some w \<Rightarrow> wf_is_archived w)"
      by (simp add: live_workflow_def split: option.splits)
    from True assms(2) obtain e where "execution_with_key (sc_tenant s) (schedule_key s) d = Some e" by blast
    then have "trigger_workflow S (clock (sc_id s)) (sc_tenant s) (sc_workflow s) ''scheduler'' (Some (schedule_key s)) d = Inr (e, d, [])"
      by (simp add: trigger_workflow_def)
    with assms(1) show ?thesis by (auto simp: handle_schedule_def live advance_def split: sum.splits)
  qed
  then show "executions d' = executions d" "workflows d' = workflows d" "etasks d' = etasks d" "jobs d' = jobs d"
    by (auto simp: update_schedule_def)
qed

lemma stale_pass:
  assumes "\<forall>s \<in> set rows. live_workflow (workflows d) s \<longrightarrow> execution_with_key (sc_tenant s) (schedule_key s) d \<noteq> None"
    and "executions c = executions d"
  shows "executions (snd (case fold_res (handle_schedule S cron now clock) (c, d, n) rows of
      Inl (e, c) \<Rightarrow> (Inl e, c) | Inr (c, d', n) \<Rightarrow> (Inr n, d'))) = executions d"
  using assms
proof (induction rows arbitrary: c d n)
  case (Cons s rows)
  show ?case
  proof (cases "handle_schedule S cron now clock (c, d, n) s")
    case (Inl ec)
    moreover have "snd ec = c"
      using Inl Cons.prems(1)
      by (auto simp: handle_schedule_def live_workflow_def trigger_workflow_def advance_def split: option.splits if_splits sum.splits)
    ultimately show ?thesis using Cons.prems(2) by (cases ec) simp
  next
    case (Inr st)
    obtain c1 d1 n1 where st: "st = (c1, d1, n1)" by (cases st)
    have c1: "c1 = c"
      using Inr Cons.prems(1)
      by (auto simp: st handle_schedule_def live_workflow_def trigger_workflow_def advance_def split: option.splits if_splits sum.splits)
    have "live_workflow (workflows d) s \<longrightarrow> execution_with_key (sc_tenant s) (schedule_key s) d \<noteq> None" using Cons.prems(1) by simp
    note same = handle_seen [OF Inr [unfolded st] this]
    have keys: "execution_with_key u k d1 = execution_with_key u k d" for u k by (simp add: execution_with_key_def same(1))
    have "executions c1 = executions d1" using Cons.prems(2) by (simp add: c1 same(1))
    from Cons.IH [of d1 c1 n1] Cons.prems(1) this show ?thesis by (simp add: Inr st same keys)
  qed
qed simp

text \<open>C31. One pass of the scheduler over a consistent installation whose due cron expressions have a next
  run: it never raises; of the schedules that are due, at most 50, each is switched off when its workflow is
  missing or archived and moved to its next run otherwise, every other schedule stays as it is; a schedule
  moved has the execution of its due time, unless its tenant has used up its quota; and the platform stays
  consistent. A second scheduler process that had selected the same rows then starts no execution, whatever
  its clock.\<close>

theorem scheduler_handles_due:
  assumes "platform_ok S d" and "schedules_ok d"
    and "\<forall>s \<in> set (due_schedules now d). \<exists>t. compute_next_run cron s now = Inr t"
  shows "\<exists>d' n. scheduler_once S cron now clock d = (Inr n, d') \<and> platform_ok S d' \<and> schedules_ok d' \<and> n \<le> 50 \<and>
    schedules d' = map (\<lambda>s. if s \<in> set (due_schedules now d) then handled (workflows d) cron now s else s) (schedules d) \<and>
    (\<forall>s \<in> set (due_schedules now d). live_workflow (workflows d) s \<longrightarrow>
       execution_with_key (sc_tenant s) (schedule_key s) d' \<noteq> None \<or>
       max_concurrent_executions_per_tenant S \<le> active_executions (sc_tenant s) d') \<and>
    ((\<forall>s \<in> set (due_schedules now d). live_workflow (workflows d) s \<longrightarrow> execution_with_key (sc_tenant s) (schedule_key s) d' \<noteq> None) \<longrightarrow>
       executions (snd (scheduler_pass S' cron' now' clock' (due_schedules now d) d')) = executions d')"
proof -
  have dist: "distinct (map sc_id (schedules d))" using assms(2) by (simp add: schedules_ok_def)
  obtain c' d' n' where p: "fold_res (handle_schedule S cron now clock) (d, d, 0) (due_schedules now d) = Inr (c', d', n')" "platform_ok S d'"
    "n' \<le> 0 + length (due_schedules now d)" "pass_grows d d'"
    "schedules d' = map (\<lambda>r. if r \<in> set (due_schedules now d) then handled (workflows d) cron now r else r) (schedules d)"
    "\<forall>s \<in> set (due_schedules now d). live_workflow (workflows d) s \<longrightarrow> fired S s d'"
    using pass_rows [OF assms(1,2) due_rows(1) due_rows(2) [OF dist], of now cron now clock d 0] assms(3) by blast
  have "schedules_ok d'" by (rule schedules_ok_map [OF assms(2) _ p(5)]) (use p(4) in \<open>simp_all add: pass_grows_def\<close>)
  moreover have "workflows d' = workflows d" using p(4) by (simp add: pass_grows_def)
  ultimately show ?thesis using p due_rows(3) [of now d] stale_pass [of "due_schedules now d" d' d' S' cron' now' clock' 0]
    by (intro exI [of _ d'] exI [of _ n']) (simp add: scheduler_once_def scheduler_pass_def fired_def)
qed

section \<open>Evaluation\<close>

lemma platform_ok_schedules [simp]: "platform_ok S (d\<lparr>schedules := ss\<rparr>) = platform_ok S d"
proof -
  have "service_same d (d\<lparr>schedules := ss\<rparr>)" "service_same (d\<lparr>schedules := ss\<rparr>) d" by (simp_all add: service_same_def)
  moreover have "workflows_ok (d\<lparr>schedules := ss\<rparr>) = workflows_ok d"
    by (simp add: workflows_ok_def wf_good_def revs_of_def defs_of_def drawn_ids_def)
  ultimately show ?thesis using service_same_ok unfolding platform_ok_def by blast
qed

definition demo_schedule :: wf_schedule where
  "demo_schedule = \<lparr>sc_id = ''s1'', sc_tenant = ''acme'', sc_workflow = ''u0'', sc_cron = None, sc_interval_seconds = Some 3600,
     sc_next_run_at = 0, sc_is_enabled = True, sc_created_at = 0, sc_last_run_at = None\<rparr>"

lemma scheduler_handles_due_witness:
  "\<exists>d' n. scheduler_once default_settings (\<lambda>c t. Inl (ValueError c)) 5 (\<lambda>_. 6) (installed\<lparr>schedules := [demo_schedule]\<rparr>) = (Inr n, d') \<and>
    schedules d' = [demo_schedule\<lparr>sc_last_run_at := Some 5, sc_next_run_at := 5 + secs 3600\<rparr>] \<and>
    (execution_with_key ''acme'' (''schedule:s1:1970-01-01T00:00:00'') d' \<noteq> None \<or>
     max_concurrent_executions_per_tenant default_settings \<le> active_executions ''acme'' d')"
proof -
  let ?d = "installed\<lparr>schedules := [demo_schedule]\<rparr>"
  have ok: "platform_ok default_settings ?d" by (simp only: platform_ok_schedules) (simp add: platform_ok_def installed_ok)
  obtain w where w: "get_workflow ''acme'' ''u0'' False installed = Some w" using installed_workflow by auto
  have ws: "map (\<lambda>w. (wf_id w, wf_tenant w, wf_is_archived w)) (workflows installed) = [(''u0'', ''acme'', False)]" by code_simp
  then obtain v where v: "workflows installed = [v]" "wf_id v = ''u0''" "wf_tenant v = ''acme''" "\<not> wf_is_archived v" by auto
  have sok: "schedules_ok ?d" by (simp add: schedules_ok_def demo_schedule_def v)
  have due: "due_schedules 5 ?d = [demo_schedule]" by (simp add: due_schedules_def demo_schedule_def)
  have key: "schedule_key demo_schedule = ''schedule:s1:1970-01-01T00:00:00''" by (simp add: schedule_key_def demo_schedule_def isoformat_samples)
  have next_run: "compute_next_run (\<lambda>c t. Inl (ValueError c)) demo_schedule 5 = Inr (5 + secs 3600)"
    by (simp add: compute_next_run_def demo_schedule_def)
  have live: "live_workflow (workflows ?d) demo_schedule" by (simp add: live_workflow_def v demo_schedule_def)
  have prem: "\<forall>s \<in> set (due_schedules 5 ?d). \<exists>t. compute_next_run (\<lambda>c t. Inl (ValueError c)) s 5 = Inr t" by (simp add: due next_run)
  obtain d' n where r: "scheduler_once default_settings (\<lambda>c t. Inl (ValueError c)) 5 (\<lambda>_. 6) ?d = (Inr n, d')"
    "schedules d' = map (\<lambda>s. if s \<in> set (due_schedules 5 ?d) then handled (workflows ?d) (\<lambda>c t. Inl (ValueError c)) 5 s else s) (schedules ?d)"
    "\<forall>s \<in> set (due_schedules 5 ?d). live_workflow (workflows ?d) s \<longrightarrow>
       execution_with_key (sc_tenant s) (schedule_key s) d' \<noteq> None \<or>
       max_concurrent_executions_per_tenant default_settings \<le> active_executions (sc_tenant s) d'"
    using scheduler_handles_due [OF ok sok prem, where clock = "\<lambda>_. 6" and S' = default_settings and cron' = "\<lambda>c t. Inl (ValueError c)"
      and now' = 0 and clock' = "\<lambda>_. 6"] by blast
  have "schedules d' = [handled (workflows ?d) (\<lambda>c t. Inl (ValueError c)) 5 demo_schedule]" unfolding r(2) due by simp
  also have "handled (workflows ?d) (\<lambda>c t. Inl (ValueError c)) 5 demo_schedule = demo_schedule\<lparr>sc_last_run_at := Some 5, sc_next_run_at := 5 + secs 3600\<rparr>"
    unfolding handled_def next_run using live by simp
  finally have rows: "schedules d' = [demo_schedule\<lparr>sc_last_run_at := Some 5, sc_next_run_at := 5 + secs 3600\<rparr>]" .
  have "sc_tenant demo_schedule = ''acme''" by (simp add: demo_schedule_def)
  with r(3) live key have "execution_with_key ''acme'' (''schedule:s1:1970-01-01T00:00:00'') d' \<noteq> None \<or>
     max_concurrent_executions_per_tenant default_settings \<le> active_executions ''acme'' d'" unfolding due by simp
  with r(1) rows show ?thesis by blast
qed

end
