(* ===== verification/Retention.thy ===== *)
theory Retention
  imports Catalogue
begin

text \<open>
  \<open>services/retention_service.py\<close>: one pass that deletes what is older than the configured numbers of days.
  The statements run in the order of the code, in one transaction; the counts are the ones the pass logs.
\<close>

definition cutoff :: "time \<Rightarrow> int \<Rightarrow> time" where
  "cutoff now n = now - days n"

definition before :: "time option \<Rightarrow> time \<Rightarrow> bool" where
  "before t c \<longleftrightarrow> (case t of None \<Rightarrow> False | Some u \<Rightarrow> u < c)"

definition old_execution :: "settings \<Rightarrow> time \<Rightarrow> execution \<Rightarrow> bool" where
  "old_execution S now e \<longleftrightarrow> ex_status e \<in> {ESuccess, EFailed, ECancelled} \<and>
     before (ex_finished_at e) (cutoff now (execution_retention_days S))"

definition old_executions :: "settings \<Rightarrow> time \<Rightarrow> db \<Rightarrow> uid set" where
  "old_executions S now d = ex_id ` set (filter (old_execution S now) (executions d))"

definition old_job :: "settings \<Rightarrow> time \<Rightarrow> job \<Rightarrow> bool" where
  "old_job S now j \<longleftrightarrow> qj_state j \<in> {QCompleted, QCancelled, QFailed} \<and> before (qj_completed_at j) (cutoff now (queue_retention_days S))"

definition old_event :: "settings \<Rightarrow> time \<Rightarrow> outbox_event \<Rightarrow> bool" where
  "old_event S now x \<longleftrightarrow> before (ob_processed_at x) (cutoff now (log_retention_days S))"

definition old_worker :: "settings \<Rightarrow> time \<Rightarrow> worker_record \<Rightarrow> bool" where
  "old_worker S now w \<longleftrightarrow> \<not> wk_is_active w \<and> before (wk_last_seen_at w) (cutoff now (worker_retention_days S))"

record deleted =
  dl_logs :: nat
  dl_executions :: nat
  dl_queue_jobs :: nat
  dl_outbox_events :: nat
  dl_workers :: nat

text \<open>\<open>DELETE .. WHERE\<close> and its row count.\<close>

definition sweep :: "('r \<Rightarrow> bool) \<Rightarrow> 'r list \<Rightarrow> nat \<times> 'r list" where
  "sweep P rows = (length (filter P rows), del_where P rows)"

definition retention_once :: "settings \<Rightarrow> time \<Rightarrow> db \<Rightarrow> deleted \<times> db" where
  "retention_once S now d =
     (case sweep (\<lambda>l. lg_execution l \<in> old_executions S now d) (elogs d) of (n1, ls) \<Rightarrow>
      let d1 = d\<lparr>elogs := ls\<rparr> in
      (case sweep (\<lambda>l. lg_created_at l < cutoff now (log_retention_days S)) (elogs d1) of (n2, ls) \<Rightarrow>
      let d2 = d1\<lparr>elogs := ls\<rparr>;
          d3 = d2\<lparr>etasks := del_where (\<lambda>t. et_execution t \<in> old_executions S now d2) (etasks d2)\<rparr> in
      (case sweep (\<lambda>e. ex_id e \<in> old_executions S now d3) (executions d3) of (n3, es) \<Rightarrow>
      let d4 = d3\<lparr>executions := es\<rparr> in
      (case sweep (old_job S now) (jobs d4) of (n4, js) \<Rightarrow>
      let d5 = d4\<lparr>jobs := js\<rparr> in
      (case sweep (old_event S now) (outbox d5) of (n5, xs) \<Rightarrow>
      let d6 = d5\<lparr>outbox := xs\<rparr> in
      (case sweep (old_worker S now) (worker_rows d6) of (n6, ws) \<Rightarrow>
        (\<lparr>dl_logs = n1 + n2, dl_executions = n3, dl_queue_jobs = n4, dl_outbox_events = n5, dl_workers = n6\<rparr>,
         d6\<lparr>worker_rows := ws\<rparr>)))))))"

section \<open>What is left\<close>

lemma old_executions_iff:
  assumes "distinct (map ex_id (executions d))" and "e \<in> set (executions d)"
  shows "ex_id e \<in> old_executions S now d \<longleftrightarrow> old_execution S now e"
  using assms inj_onD [of ex_id "set (executions d)"] by (auto simp: old_executions_def distinct_map)

lemma retention_tables:
  assumes "retention_once S now d = (n, d')"
  defines "gone \<equiv> old_executions S now d"
  shows "executions d' = filter (\<lambda>e. ex_id e \<notin> gone) (executions d)"
    and "etasks d' = filter (\<lambda>t. et_execution t \<notin> gone) (etasks d)"
    and "elogs d' = filter (\<lambda>l. lg_execution l \<notin> gone \<and> cutoff now (log_retention_days S) \<le> lg_created_at l) (elogs d)"
    and "jobs d' = filter (\<lambda>j. \<not> old_job S now j) (jobs d)"
    and "outbox d' = filter (\<lambda>x. \<not> old_event S now x) (outbox d)"
    and "worker_rows d' = filter (\<lambda>w. \<not> old_worker S now w) (worker_rows d)"
    and "workflows d' = workflows d" "revisions d' = revisions d" "task_defs d' = task_defs d" "audits d' = audits d"
      "outer_tables d' = outer_tables d" "uuid_supply d' = uuid_supply d" "uuid_draws d' = uuid_draws d"
  using assms(1) unfolding gone_def
  by (auto simp: retention_once_def sweep_def del_where_def old_executions_def Let_def not_less conj_commute)

lemma sweep_count: "sweep P rows = (k, rows') \<Longrightarrow> k + length rows' = length rows"
  using sum_length_filter_compl [of P rows] by (auto simp: sweep_def del_where_def)

lemma retention_counts:
  assumes "retention_once S now d = (n, d')"
  shows "dl_logs n + length (elogs d') = length (elogs d)" and "dl_executions n + length (executions d') = length (executions d)"
    and "dl_queue_jobs n + length (jobs d') = length (jobs d)" and "dl_outbox_events n + length (outbox d') = length (outbox d)"
    and "dl_workers n + length (worker_rows d') = length (worker_rows d)"
  using assms by (auto simp: retention_once_def Let_def split: prod.splits dest!: sweep_count)

lemma retention_keeps_ok:
  assumes "platform_ok S d" and r: "retention_once S now d = (n, d')"
  shows "platform_ok S d'"
proof -
  note t = retention_tables [OF r]
  have ok: "service_ok S d" "workflows_ok d" using assms(1) by (simp_all add: platform_ok_def)
  have ids: "drawn_ids d' = drawn_ids d" by (simp add: drawn_ids_def t)
  have "et_execution ` set (etasks d') \<subseteq> ex_id ` set (executions d')"
    using ok(1) by (auto simp: service_ok_def t(1,2))
  moreover have "queue_ok (jobs d')" using ok(1) by (auto simp: service_ok_def jobs_good_def queue_ok_def t(4) distinct_map_filter)
  ultimately have "service_ok S d'"
    using ok(1) by (auto simp: service_ok_def rows_ok_def jobs_good_def ids t(1,2,4,12) distinct_map_filter)
  moreover have "catalogue_same d d'" by (simp add: catalogue_same_def t)
  from catalogue_same_keeps(1) [OF this ok(2)] have "workflows_ok d'" .
  ultimately show ?thesis by (simp add: platform_ok_def)
qed

lemma retention_executions:
  assumes "platform_ok S d" and "retention_once S now d = (n, d')"
  shows "executions d' = filter (\<lambda>e. \<not> old_execution S now e) (executions d)"
proof -
  have "distinct (map ex_id (executions d))" using assms(1) by (simp add: platform_ok_def service_ok_def rows_ok_def)
  from old_executions_iff [OF this] show ?thesis unfolding retention_tables(1) [OF assms(2)] by (intro filter_cong) simp_all
qed

lemma find_kept: "(\<And>x. P x \<Longrightarrow> Q x) \<Longrightarrow> find P (filter Q xs) = find P xs"
  by (induction xs) auto

lemma retention_keeps_rows:
  assumes "platform_ok S d" and r: "retention_once S now d = (n, d')" and e: "e \<in> set (executions d)" "\<not> old_execution S now e"
  shows "rows_of (ex_id e) d' = rows_of (ex_id e) d"
proof -
  have dist: "distinct (map ex_id (executions d))" using assms(1) by (simp add: platform_ok_def service_ok_def rows_ok_def)
  have kept: "ex_id e \<notin> old_executions S now d" using old_executions_iff [OF dist e(1)] e(2) by simp
  have "find (\<lambda>x. ex_id x = ex_id e) (executions d') = find (\<lambda>x. ex_id x = ex_id e) (executions d)"
    using kept unfolding retention_tables(1) [OF r] by (intro find_kept) auto
  moreover have "filter (\<lambda>i. et_execution i = ex_id e) (etasks d') = filter (\<lambda>i. et_execution i = ex_id e) (etasks d)"
    using kept unfolding retention_tables(2) [OF r] by (auto intro: filter_cong)
  ultimately show ?thesis by (simp add: rows_of_def load_session_def split: option.splits)
qed


definition demo_done :: db where
  "demo_done = (empty_db demo_supply)\<lparr>executions := [demo_execution\<lparr>ex_id := demo_supply 0, ex_status := ESuccess, ex_finished_at := Some 0\<rparr>],
     uuid_draws := 1\<rparr>"


end
