(* ===== verification/Notify.thy ===== *)
theory Notify
  imports Catalogue Calendar "HOL-Library.List_Lexorder" "HOL-Library.Char_ord"
begin

text \<open>
  \<open>services/outbox_notifier_service.py\<close> and \<open>services/webhook_service.py\<close>: the outbox is read in batches,
  every event becomes one delivery per subscribed endpoint of its tenant and one broadcast; a dispatcher
  posts due deliveries with a signature and retries with a growing delay. \<open>sign secret body\<close> is the
  hexadecimal HMAC; \<open>post\<close> is the network. \<open>clock\<close> gives the time at which the row of an identifier is handled.
\<close>

section \<open>JSON text\<close>

definition hex_digit :: "nat \<Rightarrow> char" where
  "hex_digit n = char_of (if n < 10 then 48 + n else 87 + n)"

definition json_char :: "char \<Rightarrow> string" where
  "json_char c = (let n = (of_char c :: nat) in
     if n = 34 then [CHR 0x5C, CHR 0x22] else if n = 92 then [CHR 0x5C, CHR 0x5C]
     else if n = 10 then [CHR 0x5C, CHR ''n''] else if n = 13 then [CHR 0x5C, CHR ''r'']
     else if n = 9 then [CHR 0x5C, CHR ''t''] else if n = 8 then [CHR 0x5C, CHR ''b'']
     else if n = 12 then [CHR 0x5C, CHR ''f''] else if 32 \<le> n \<and> n \<le> 126 then [c]
     else CHR 0x5C # ''u00'' @ [hex_digit (n div 16), hex_digit (n mod 16)])"

definition json_string :: "string \<Rightarrow> string" where
  "json_string s = CHR 0x22 # concat (map json_char s) @ [CHR 0x22]"

fun sep_by :: "string \<Rightarrow> string list \<Rightarrow> string" where
  "sep_by sep [] = []"
| "sep_by sep [x] = x"
| "sep_by sep (x # y # xs) = x @ sep @ sep_by sep (y # xs)"

text \<open>\<open>json.dumps\<close> with separators of one character; \<open>srt\<close> is \<open>sort_keys\<close>.\<close>

fun json_dumps :: "bool \<Rightarrow> json \<Rightarrow> string" where
  "json_dumps srt JNull = ''null''"
| "json_dumps srt (JBool b) = (if b then ''true'' else ''false'')"
| "json_dumps srt (JInt n) = int_str n"
| "json_dumps srt (JStr s) = json_string s"
| "json_dumps srt (JList xs) = ''['' @ sep_by '','' (map (json_dumps srt) xs) @ '']''"
| "json_dumps srt (JObj kvs) =
     (let items = map (\<lambda>(k, v). (k, json_string k @ '':'' @ json_dumps srt v)) kvs
      in ''{'' @ sep_by '','' (map snd (if srt then sort_key fst items else items)) @ ''}'')"

section \<open>The outbox notifier\<close>

definition pending_events :: "db \<Rightarrow> outbox_event list" where
  "pending_events d = take 100 (sort_key ob_created_at (filter (\<lambda>x. ob_processed_at x = None) (outbox d)))"

definition broadcast_payload :: "outbox_event \<Rightarrow> json" where
  "broadcast_payload x = JObj [(''type'', JStr (ob_event_type x)),
     (''executionId'', case ob_execution x of None \<Rightarrow> JNull | Some e \<Rightarrow> JStr e), (''payload'', ob_payload x)]"

definition subscribers :: "outbox_event \<Rightarrow> db \<Rightarrow> webhook_endpoint list" where
  "subscribers x d = filter (\<lambda>h. ob_event_type x \<in> set (wh_events h))
     (filter (\<lambda>h. wh_tenant h = ob_tenant x \<and> wh_is_active h) (endpoints d))"

definition insert_delivery :: "time \<Rightarrow> outbox_event \<Rightarrow> webhook_endpoint \<Rightarrow> db \<Rightarrow> db" where
  "insert_delivery now x h d = (case generate_uuid d of (i, d1) \<Rightarrow>
     d1\<lparr>deliveries := deliveries d1 @ [\<lparr>wd_id = i, wd_tenant = ob_tenant x, wd_endpoint = wh_id h, wd_event_type = ob_event_type x,
        wd_payload = JObj [(''event'', JStr (ob_event_type x)), (''executionId'', case ob_execution x of None \<Rightarrow> JNull | Some e \<Rightarrow> JStr e),
          (''data'', ob_payload x), (''timestamp'', JStr (isoformat now))],
        wd_status = ''pending'', wd_attempts = 0, wd_next_attempt_at = now, wd_last_error = None, wd_created_at = now,
        wd_delivered_at = None\<rparr>]\<rparr>)"

definition notify_event :: "(uid \<Rightarrow> time) \<Rightarrow> outbox_event \<Rightarrow> db \<Rightarrow> db" where
  "notify_event clock x d =
     (let d1 = fold (insert_delivery (clock (ob_id x)) x) (subscribers x d) d in
      d1\<lparr>outbox := upd_where (\<lambda>y. ob_id y = ob_id x) (\<lambda>y. y\<lparr>ob_processed_at := Some (clock (ob_id x))\<rparr>) (outbox d1)\<rparr>)"

text \<open>A poll returns what is broadcast after the commit.\<close>

definition poll_once :: "(uid \<Rightarrow> time) \<Rightarrow> db \<Rightarrow> db \<times> (uid \<times> json) list" where
  "poll_once clock d =
     (let events = pending_events d in
      if events = [] then (d, [])
      else (fold (notify_event clock) events d,
            List.map_filter (\<lambda>x. case ob_execution x of Some e \<Rightarrow> if e \<noteq> [] then Some (e, broadcast_payload x) else None | None \<Rightarrow> None) events))"

section \<open>The webhook dispatcher\<close>

datatype answer = Responded nat | HttpError string | OtherError string

type_synonym request = "uid \<times> string \<times> string \<times> string \<times> string"

definition due_deliveries :: "time \<Rightarrow> db \<Rightarrow> (webhook_delivery \<times> webhook_endpoint) list" where
  "due_deliveries now d = take 20 (sort_key (\<lambda>p. wd_next_attempt_at (fst p))
     (concat (map (\<lambda>w. map (\<lambda>h. (w, h)) (filter (\<lambda>h. wh_id h = wd_endpoint w) (endpoints d)))
       (filter (\<lambda>w. wd_status w = ''pending'' \<and> wd_next_attempt_at w \<le> now) (deliveries d)))))"

definition request_of :: "(string \<Rightarrow> string \<Rightarrow> string) \<Rightarrow> webhook_delivery \<Rightarrow> webhook_endpoint \<Rightarrow> request" where
  "request_of sign w h = (let body = json_dumps True (wd_payload w) in
     (wd_id w, wh_url h, body, ''sha256='' @ sign (wh_secret h) body, wd_event_type w))"

definition settle_attempt :: "settings \<Rightarrow> time \<Rightarrow> answer \<Rightarrow> webhook_delivery \<Rightarrow> webhook_delivery" where
  "settle_attempt S now a w0 =
     (let w = w0\<lparr>wd_attempts := wd_attempts w0 + 1\<rparr>;
          w1 = (case a of
              Responded c \<Rightarrow> if 200 \<le> c \<and> c < 300
                then w\<lparr>wd_status := ''delivered'', wd_delivered_at := Some now, wd_last_error := None\<rparr>
                else w\<lparr>wd_last_error := Some (''Endpoint returned '' @ int_str (int c) @ ''.'')\<rparr>
            | HttpError m \<Rightarrow> w\<lparr>wd_last_error := Some (take 2000 m)\<rparr>
            | OtherError m \<Rightarrow> w)
      in if wd_status w1 \<noteq> ''delivered'' then
           if webhook_max_attempts S \<le> wd_attempts w1 then w1\<lparr>wd_status := ''failed''\<rparr>
           else w1\<lparr>wd_next_attempt_at := now + secs (min (2 ^ nat (wd_attempts w1)) 300)\<rparr>
         else w1)"

text \<open>An exception other than \<open>httpx.HTTPError\<close> leaves the loop; the requests made so far stay made.\<close>

fun dispatch_rows :: "settings \<Rightarrow> (string \<Rightarrow> string \<Rightarrow> string) \<Rightarrow> (uid \<Rightarrow> time) \<Rightarrow> (request \<Rightarrow> answer) \<Rightarrow>
    (webhook_delivery \<times> webhook_endpoint) list \<Rightarrow> db \<Rightarrow> (string + db) \<times> request list" where
  "dispatch_rows S sign clock post [] d = (Inr d, [])"
| "dispatch_rows S sign clock post ((w, h) # rows) d =
     (let q = request_of sign w h in
      case post q of
        OtherError m \<Rightarrow> (Inl m, [q])
      | a \<Rightarrow> (case dispatch_rows S sign clock post rows
            (d\<lparr>deliveries := upd_where (\<lambda>r. wd_id r = wd_id w) (settle_attempt S (clock (wd_id w)) a) (deliveries d)\<rparr>) of
              (r, qs) \<Rightarrow> (r, q # qs)))"

definition dispatch_once :: "settings \<Rightarrow> (string \<Rightarrow> string \<Rightarrow> string) \<Rightarrow> time \<Rightarrow> (uid \<Rightarrow> time) \<Rightarrow> (request \<Rightarrow> answer) \<Rightarrow> db \<Rightarrow>
    string option \<times> db \<times> request list" where
  "dispatch_once S sign now clock post d =
     (case dispatch_rows S sign clock post (due_deliveries now d) d of
        (Inr d', sent) \<Rightarrow> (None, d', sent)
      | (Inl m, sent) \<Rightarrow> (Some m, d, sent))"

section \<open>What a poll does\<close>

definition delivery_of :: "outbox_event \<Rightarrow> webhook_endpoint \<Rightarrow> uid \<times> uid \<times> string" where
  "delivery_of x h = (ob_tenant x, wh_id h, ob_event_type x)"

definition delivery_key :: "webhook_delivery \<Rightarrow> uid \<times> uid \<times> string" where
  "delivery_key w = (wd_tenant w, wd_endpoint w, wd_event_type w)"

text \<open>A delivery that nobody has tried yet.\<close>

definition untried :: "webhook_delivery \<Rightarrow> bool" where
  "untried w \<longleftrightarrow> wd_status w = ''pending'' \<and> wd_attempts w = 0"

definition notifies :: "db \<Rightarrow> db \<Rightarrow> bool" where
  "notifies d d' \<longleftrightarrow> endpoints d' = endpoints d \<and> uuid_supply d' = uuid_supply d \<and> uuid_draws d \<le> uuid_draws d' \<and>
     (\<exists>new. deliveries d' = deliveries d @ new \<and> list_all untried new \<and>
        (\<exists>ns. map wd_id new = map (uuid_supply d) ns \<and> distinct ns \<and> set ns \<subseteq> {uuid_draws d ..< uuid_draws d'}))"

lemma notifies_refl [simp]: "notifies d d"
  by (simp add: notifies_def)

lemma notifies_trans:
  assumes "notifies a b" and "notifies b c"
  shows "notifies a c"
proof -
  from assms(1) obtain n ns where n: "deliveries b = deliveries a @ n" "list_all untried n" "map wd_id n = map (uuid_supply a) ns" "distinct ns"
    "set ns \<subseteq> {uuid_draws a ..< uuid_draws b}" by (auto simp: notifies_def)
  from assms obtain m ms where m: "deliveries c = deliveries b @ m" "list_all untried m" "map wd_id m = map (uuid_supply a) ms" "distinct ms"
    "set ms \<subseteq> {uuid_draws b ..< uuid_draws c}" by (auto simp: notifies_def)
  have le: "uuid_draws a \<le> uuid_draws b" "uuid_draws b \<le> uuid_draws c" using assms by (simp_all add: notifies_def)
  have "set ns \<inter> set ms = {}" using n(5) m(5) by fastforce
  moreover have "set (ns @ ms) \<subseteq> {uuid_draws a ..< uuid_draws c}" using n(5) m(5) le by fastforce
  ultimately show ?thesis using n m le assms unfolding notifies_def by (intro conjI exI [of _ "n @ m"] exI [of _ "ns @ ms"]) simp_all
qed

lemma insert_delivery:
  "\<exists>w. deliveries (insert_delivery now x h d) = deliveries d @ [w] \<and> untried w \<and> wd_id w = uuid_supply d (uuid_draws d) \<and>
     delivery_key w = delivery_of x h"
  "endpoints (insert_delivery now x h d) = endpoints d" "outbox (insert_delivery now x h d) = outbox d"
  "uuid_supply (insert_delivery now x h d) = uuid_supply d" "uuid_draws (insert_delivery now x h d) = Suc (uuid_draws d)"
  by (simp_all add: insert_delivery_def generate_uuid_def untried_def delivery_key_def delivery_of_def)

lemma insert_deliveries:
  "\<exists>new. deliveries (fold (insert_delivery now x) hs d) = deliveries d @ new \<and> list_all untried new \<and>
     map wd_id new = map (uuid_supply d) [uuid_draws d ..< uuid_draws d + length hs] \<and>
     map delivery_key new = map (delivery_of x) hs \<and>
     endpoints (fold (insert_delivery now x) hs d) = endpoints d \<and> outbox (fold (insert_delivery now x) hs d) = outbox d \<and>
     uuid_supply (fold (insert_delivery now x) hs d) = uuid_supply d \<and>
     uuid_draws (fold (insert_delivery now x) hs d) = uuid_draws d + length hs"
proof (induction hs arbitrary: d)
  case (Cons h hs)
  let ?d = "insert_delivery now x h d"
  obtain w where w: "deliveries ?d = deliveries d @ [w]" "untried w" "wd_id w = uuid_supply d (uuid_draws d)"
    "delivery_key w = delivery_of x h" using insert_delivery(1) by blast
  from Cons.IH [of ?d] obtain new where new: "deliveries (fold (insert_delivery now x) hs ?d) = deliveries ?d @ new" "list_all untried new"
    "map wd_id new = map (uuid_supply d) [Suc (uuid_draws d) ..< Suc (uuid_draws d) + length hs]" "map delivery_key new = map (delivery_of x) hs"
    "endpoints (fold (insert_delivery now x) hs ?d) = endpoints d" "outbox (fold (insert_delivery now x) hs ?d) = outbox d"
    "uuid_supply (fold (insert_delivery now x) hs ?d) = uuid_supply d"
    "uuid_draws (fold (insert_delivery now x) hs ?d) = Suc (uuid_draws d) + length hs"
    unfolding insert_delivery(2-5) by blast
  have up: "[uuid_draws d ..< uuid_draws d + length (h # hs)] = uuid_draws d # [Suc (uuid_draws d) ..< Suc (uuid_draws d) + length hs]"
    by (simp add: upt_conv_Cons del: upt_Suc)
  show ?case unfolding up by (rule exI [of _ "w # new"]) (use w new in simp)
qed simp

text \<open>What one event leads to: its subscribers' deliveries, in order, and its row marked.\<close>

lemma notify_event:
  "\<exists>new. deliveries (notify_event clock x d) = deliveries d @ new \<and> map delivery_key new = map (delivery_of x) (subscribers x d)"
  "notifies d (notify_event clock x d)"
  "outbox (notify_event clock x d) = upd_where (\<lambda>y. ob_id y = ob_id x) (\<lambda>y. y\<lparr>ob_processed_at := Some (clock (ob_id x))\<rparr>) (outbox d)"
proof -
  obtain new where new: "deliveries (fold (insert_delivery (clock (ob_id x)) x) (subscribers x d) d) = deliveries d @ new" "list_all untried new"
    "map wd_id new = map (uuid_supply d) [uuid_draws d ..< uuid_draws d + length (subscribers x d)]"
    "map delivery_key new = map (delivery_of x) (subscribers x d)"
    "endpoints (fold (insert_delivery (clock (ob_id x)) x) (subscribers x d) d) = endpoints d"
    "outbox (fold (insert_delivery (clock (ob_id x)) x) (subscribers x d) d) = outbox d"
    "uuid_supply (fold (insert_delivery (clock (ob_id x)) x) (subscribers x d) d) = uuid_supply d"
    "uuid_draws (fold (insert_delivery (clock (ob_id x)) x) (subscribers x d) d) = uuid_draws d + length (subscribers x d)"
    using insert_deliveries by blast
  show "\<exists>new. deliveries (notify_event clock x d) = deliveries d @ new \<and> map delivery_key new = map (delivery_of x) (subscribers x d)"
    by (rule exI [of _ new]) (simp add: notify_event_def Let_def new)
  show "notifies d (notify_event clock x d)" unfolding notifies_def
    by (intro conjI exI [of _ new] exI [of _ "[uuid_draws d ..< uuid_draws d + length (subscribers x d)]"])
      (use new(2,3) in \<open>simp_all add: notify_event_def Let_def new(1,5-8)\<close>)
  show "outbox (notify_event clock x d) = upd_where (\<lambda>y. ob_id y = ob_id x) (\<lambda>y. y\<lparr>ob_processed_at := Some (clock (ob_id x))\<rparr>) (outbox d)"
    by (simp add: notify_event_def Let_def new(6))
qed

lemma notify_events:
  shows "notifies d (fold (notify_event clock) xs d)"
    and "\<exists>new. deliveries (fold (notify_event clock) xs d) = deliveries d @ new \<and>
      map delivery_key new = concat (map (\<lambda>x. map (delivery_of x) (subscribers x d)) xs)"
    and "outbox (fold (notify_event clock) xs d) =
      map (\<lambda>y. if ob_id y \<in> ob_id ` set xs then y\<lparr>ob_processed_at := Some (clock (ob_id y))\<rparr> else y) (outbox d)"
proof -
  show "notifies d (fold (notify_event clock) xs d)"
    by (induction xs arbitrary: d) (auto intro: notifies_trans notify_event(2))
  show "\<exists>new. deliveries (fold (notify_event clock) xs d) = deliveries d @ new \<and>
      map delivery_key new = concat (map (\<lambda>x. map (delivery_of x) (subscribers x d)) xs)"
  proof (induction xs arbitrary: d)
    case (Cons x xs)
    have same: "subscribers y (notify_event clock x d) = subscribers y d" for y
      using notify_event(2) [of d clock x] by (simp add: subscribers_def notifies_def)
    obtain n where n: "deliveries (notify_event clock x d) = deliveries d @ n" "map delivery_key n = map (delivery_of x) (subscribers x d)"
      using notify_event(1) by blast
    from Cons.IH [of "notify_event clock x d"] obtain m where m: "deliveries (fold (notify_event clock) xs (notify_event clock x d)) =
        deliveries (notify_event clock x d) @ m" "map delivery_key m = concat (map (\<lambda>x. map (delivery_of x) (subscribers x d)) xs)"
      unfolding same by blast
    show ?case by (rule exI [of _ "n @ m"]) (simp add: n m)
  qed simp
  show "outbox (fold (notify_event clock) xs d) =
      map (\<lambda>y. if ob_id y \<in> ob_id ` set xs then y\<lparr>ob_processed_at := Some (clock (ob_id y))\<rparr> else y) (outbox d)"
    by (induction xs arbitrary: d) (auto simp: notify_event(3) upd_where_def)
qed

section \<open>Deliveries are bounded\<close>

text \<open>\<open>hist\<close> is every request made so far, with whether it was accepted.\<close>

definition accepted :: "answer \<Rightarrow> bool" where
  "accepted a \<longleftrightarrow> (case a of Responded c \<Rightarrow> 200 \<le> c \<and> c < 300 | _ \<Rightarrow> False)"

definition row_ok :: "settings \<Rightarrow> (uid \<times> bool) list \<Rightarrow> webhook_delivery \<Rightarrow> bool" where
  "row_ok S hist w \<longleftrightarrow> wd_attempts w = int (length (filter (\<lambda>p. fst p = wd_id w) hist)) \<and> wd_attempts w \<le> webhook_max_attempts S \<and>
     (wd_status w = ''pending'' \<longrightarrow> wd_attempts w < webhook_max_attempts S) \<and>
     length (filter (\<lambda>p. fst p = wd_id w \<and> snd p) hist) = (if wd_status w = ''delivered'' then 1 else 0)"

definition notify_ok :: "settings \<Rightarrow> (uid \<times> bool) list \<Rightarrow> db \<Rightarrow> bool" where
  "notify_ok S hist d \<longleftrightarrow> 1 \<le> webhook_max_attempts S \<and> inj (uuid_supply d) \<and> distinct (map wd_id (deliveries d)) \<and>
     distinct (map wh_id (endpoints d)) \<and> wd_id ` set (deliveries d) \<subseteq> drawn_ids d \<and>
     fst ` set hist \<subseteq> drawn_ids d \<and> (\<forall>w \<in> set (deliveries d). row_ok S hist w)"

lemma settle_id [simp]: "wd_id (settle_attempt S now a w) = wd_id w"
  by (simp add: settle_attempt_def Let_def split: answer.splits)

lemma settle_row:
  assumes "row_ok S hist w" and "wd_status w = ''pending''" and "\<And>m. a \<noteq> OtherError m"
  shows "row_ok S (hist @ [(wd_id w, accepted a)]) (settle_attempt S now a w)"
  using assms by (cases a) (auto simp: row_ok_def settle_attempt_def accepted_def Let_def)

lemma row_ok_other: "row_ok S hist r \<Longrightarrow> wd_id r \<noteq> i \<Longrightarrow> row_ok S (hist @ [(i, b)]) r"
  unfolding row_ok_def by simp metis

definition polite :: "(request \<Rightarrow> answer) \<Rightarrow> bool" where
  "polite post \<longleftrightarrow> (\<forall>q m. post q \<noteq> OtherError m)"

lemma politeD: "polite post \<Longrightarrow> post q \<noteq> OtherError m"
  unfolding polite_def by blast

lemma fst_request [simp]: "fst (request_of sign w h) = wd_id w"
  by (simp add: request_of_def Let_def)

lemma dispatch_Cons:
  assumes "polite post"
  shows "dispatch_rows S sign clock post ((w, h) # rows) d = (case dispatch_rows S sign clock post rows
      (d\<lparr>deliveries := upd_where (\<lambda>r. wd_id r = wd_id w) (settle_attempt S (clock (wd_id w)) (post (request_of sign w h))) (deliveries d)\<rparr>) of
        (r, qs) \<Rightarrow> (r, request_of sign w h # qs))"
proof (cases "post (request_of sign w h)")
  case (OtherError m)
  with politeD [OF assms] show ?thesis by metis
qed (simp_all add: Let_def)

lemma notify_ok_attempt:
  fixes now :: time
  assumes ok: "notify_ok S hist d" and w: "w \<in> set (deliveries d)" "wd_status w = ''pending''" and a: "\<And>m. a \<noteq> OtherError m"
  defines "d' \<equiv> d\<lparr>deliveries := upd_where (\<lambda>r. wd_id r = wd_id w) (settle_attempt S now a) (deliveries d)\<rparr>"
  shows "notify_ok S (hist @ [(wd_id w, accepted a)]) d'"
    and "deliveries d' = map (\<lambda>r. if r = w then settle_attempt S now a w else r) (deliveries d)"
proof -
  have dist: "distinct (map wd_id (deliveries d))" using ok by (simp add: notify_ok_def)
  then have same: "wd_id r = wd_id w \<longleftrightarrow> r = w" if "r \<in> set (deliveries d)" for r
    using inj_onD [of wd_id "set (deliveries d)" r w] that w(1) by (auto simp: distinct_map)
  then show rows: "deliveries d' = map (\<lambda>r. if r = w then settle_attempt S now a w else r) (deliveries d)"
    by (auto simp: d'_def upd_where_def)
  have ids: "map wd_id (deliveries d') = map wd_id (deliveries d)" by (auto simp: rows)
  then have "wd_id ` set (deliveries d') = wd_id ` set (deliveries d)" by (metis set_map)
  moreover have "row_ok S (hist @ [(wd_id w, accepted a)]) x" if x: "x \<in> set (deliveries d')" for x
  proof -
    from x obtain r where r: "r \<in> set (deliveries d)" "x = (if r = w then settle_attempt S now a w else r)" by (auto simp: rows)
    with ok have "row_ok S hist r" by (simp add: notify_ok_def)
    with r same [OF r(1)] show ?thesis using settle_row [OF _ w(2) a] row_ok_other by (cases "r = w") auto
  qed
  moreover have "wd_id w \<in> drawn_ids d" using ok w(1) by (auto simp: notify_ok_def)
  moreover have "drawn_ids d' = drawn_ids d" by (simp add: d'_def drawn_ids_def)
  moreover have "inj (uuid_supply d')" "endpoints d' = endpoints d" using ok by (simp_all add: d'_def notify_ok_def)
  ultimately show "notify_ok S (hist @ [(wd_id w, accepted a)]) d'" using ok dist unfolding notify_ok_def ids by auto
qed

lemma dispatch_rows_ok:
  fixes clock :: "uid \<Rightarrow> time"
  assumes "notify_ok S hist d" and "polite post" and "distinct (map (wd_id \<circ> fst) rows)"
    and "\<forall>p \<in> set rows. fst p \<in> set (deliveries d) \<and> wd_status (fst p) = ''pending''"
  shows "\<exists>d' qs. dispatch_rows S sign clock post rows d = (Inr d', qs) \<and>
    notify_ok S (hist @ map (\<lambda>q. (fst q, accepted (post q))) qs) d' \<and> map fst qs = map (wd_id \<circ> fst) rows \<and>
    (\<forall>r \<in> set (deliveries d). wd_id r \<notin> (wd_id \<circ> fst) ` set rows \<longrightarrow> r \<in> set (deliveries d'))"
  using assms
proof (induction rows arbitrary: d hist)
  case (Cons p rows)
  obtain w h where p: "p = (w, h)" by (cases p)
  define a where "a = post (request_of sign w h)"
  define d1 where "d1 = d\<lparr>deliveries := upd_where (\<lambda>r. wd_id r = wd_id w) (settle_attempt S (clock (wd_id w)) a) (deliveries d)\<rparr>"
  have w: "w \<in> set (deliveries d)" "wd_status w = ''pending''" using Cons.prems(4) by (auto simp: p)
  have a: "a \<noteq> OtherError m" for m unfolding a_def by (rule politeD [OF Cons.prems(2)])
  note one = notify_ok_attempt [OF Cons.prems(1) w a, of "clock (wd_id w)", folded d1_def]
  have keep: "r \<in> set (deliveries d1)" if "r \<in> set (deliveries d)" "wd_id r \<noteq> wd_id w" for r
    using that unfolding one(2) by (auto simp: image_iff)
  have rest: "\<forall>p \<in> set rows. fst p \<in> set (deliveries d1) \<and> wd_status (fst p) = ''pending''"
  proof
    fix q assume q: "q \<in> set rows"
    have "wd_id w \<notin> (wd_id \<circ> fst) ` set rows" using Cons.prems(3) by (simp add: p)
    then have "wd_id (fst q) \<noteq> wd_id w" using q by (metis comp_apply imageI)
    moreover have "fst q \<in> set (deliveries d) \<and> wd_status (fst q) = ''pending''" using Cons.prems(4) q by simp
    ultimately show "fst q \<in> set (deliveries d1) \<and> wd_status (fst q) = ''pending''" using keep by blast
  qed
  from Cons.IH [OF one(1) Cons.prems(2) _ rest] Cons.prems(3) obtain d' qs where
    r: "dispatch_rows S sign clock post rows d1 = (Inr d', qs)"
    "notify_ok S ((hist @ [(wd_id w, accepted a)]) @ map (\<lambda>q. (fst q, accepted (post q))) qs) d'" "map fst qs = map (wd_id \<circ> fst) rows"
    "\<forall>r \<in> set (deliveries d1). wd_id r \<notin> (wd_id \<circ> fst) ` set rows \<longrightarrow> r \<in> set (deliveries d')" by (auto simp: p)
  have "dispatch_rows S sign clock post (p # rows) d = (Inr d', request_of sign w h # qs)"
    unfolding p dispatch_Cons [OF Cons.prems(2)] a_def [symmetric] d1_def [symmetric] by (simp add: r(1))
  then show ?case using keep r(2-4)
    by (intro exI [of _ d'] exI [of _ "request_of sign w h # qs"]) (simp add: p a_def comp_def)
qed simp

lemma concat_single:
  "(\<And>x. x \<in> set xs \<Longrightarrow> length (g x) \<le> 1) \<Longrightarrow> distinct (map f xs) \<Longrightarrow> (\<And>x y. y \<in> set (g x) \<Longrightarrow> k y = f x) \<Longrightarrow>
     distinct (map k (concat (map g xs)))"
proof (induction xs)
  case (Cons x xs)
  have "g x = [] \<or> (\<exists>y. g x = [y])" using Cons.prems(1) [of x] by (cases "g x") auto
  moreover have "k y \<notin> k ` set (concat (map g xs))" if "y \<in> set (g x)" for y
    using Cons.prems(2,3) that by (auto simp: image_iff)
  ultimately show ?case using Cons.IH Cons.prems by auto
qed simp

lemma filter_key_length: "distinct (map f ys) \<Longrightarrow> length (filter (\<lambda>y. f y = v) ys) \<le> 1"
proof (induction ys)
  case (Cons y ys)
  show ?case
  proof (cases "f y = v")
    case True
    then have "filter (\<lambda>y. f y = v) ys = []" using Cons.prems by (auto simp: filter_empty_conv image_iff)
    with True show ?thesis by simp
  qed (use Cons in simp)
qed simp

lemma due_deliveries_rows:
  assumes "notify_ok S hist d"
  shows "distinct (map (wd_id \<circ> fst) (due_deliveries now d))"
    and "(w, h) \<in> set (due_deliveries now d) \<Longrightarrow> w \<in> set (deliveries d) \<and> wd_status w = ''pending'' \<and> wd_next_attempt_at w \<le> now \<and>
      h \<in> set (endpoints d) \<and> wh_id h = wd_endpoint w"
    and "length (due_deliveries now d) \<le> 20"
proof -
  have dist: "distinct (map wd_id (deliveries d))" "distinct (map wh_id (endpoints d))" using assms by (simp_all add: notify_ok_def)
  let ?all = "concat (map (\<lambda>w. map (\<lambda>h. (w, h)) (filter (\<lambda>h. wh_id h = wd_endpoint w) (endpoints d)))
       (filter (\<lambda>w. wd_status w = ''pending'' \<and> wd_next_attempt_at w \<le> now) (deliveries d)))"
  have "distinct (map (wd_id \<circ> fst) ?all)"
    by (rule concat_single [where f = wd_id]) (use filter_key_length [OF dist(2)] dist(1) in \<open>auto simp: distinct_map_filter\<close>)
  then have "distinct (map (wd_id \<circ> fst) (sort_key (\<lambda>p. wd_next_attempt_at (fst p)) ?all))" by (simp add: distinct_map)
  then show "distinct (map (wd_id \<circ> fst) (due_deliveries now d))" unfolding due_deliveries_def take_map [symmetric] by (rule distinct_take)
  show "length (due_deliveries now d) \<le> 20" by (simp add: due_deliveries_def)
  show "w \<in> set (deliveries d) \<and> wd_status w = ''pending'' \<and> wd_next_attempt_at w \<le> now \<and> h \<in> set (endpoints d) \<and> wh_id h = wd_endpoint w"
    if "(w, h) \<in> set (due_deliveries now d)" using in_set_takeD [OF that [unfolded due_deliveries_def]] by auto
qed

lemma dispatch_ok:
  assumes "notify_ok S hist d" and "polite post" and "dispatch_once S sign now clock post d = (r, d', qs)"
  shows "r = None" and "notify_ok S (hist @ map (\<lambda>q. (fst q, accepted (post q))) qs) d'"
    and "map fst qs = map (wd_id \<circ> fst) (due_deliveries now d)"
  using dispatch_rows_ok [OF assms(1,2) due_deliveries_rows(1) [OF assms(1), where now = now], where sign = sign and clock = clock] due_deliveries_rows(2) [OF assms(1)] assms(3)
  by (fastforce simp: dispatch_once_def)+

lemma notifies_ok:
  assumes ok: "notify_ok S hist d" and n: "notifies d d'"
  shows "notify_ok S hist d'"
proof -
  from n obtain new where new: "endpoints d' = endpoints d" "uuid_supply d' = uuid_supply d" "uuid_draws d \<le> uuid_draws d'"
    "deliveries d' = deliveries d @ new" "list_all untried new" by (auto simp: notifies_def)
  from n new(4) obtain ns where ns: "map wd_id new = map (uuid_supply d) ns" "distinct ns" "set ns \<subseteq> {uuid_draws d ..< uuid_draws d'}"
    by (auto simp: notifies_def)
  have inj: "inj (uuid_supply d)" using ok by (simp add: notify_ok_def)
  have ids: "wd_id ` set new = uuid_supply d ` set ns" using arg_cong [OF ns(1), of set] by simp
  have fresh: "i \<notin> drawn_ids d" if "i \<in> wd_id ` set new" for i
    using that inj ns(3) unfolding ids drawn_ids_def by (fastforce dest: injD)
  have sub: "drawn_ids d \<subseteq> drawn_ids d'" "wd_id ` set new \<subseteq> drawn_ids d'" using new(2,3) ns(3) unfolding ids drawn_ids_def by fastforce+
  have "distinct (map wd_id new)" unfolding ns(1) using inj ns(2) by (simp add: distinct_map inj_on_def)
  moreover have "wd_id ` set new \<inter> wd_id ` set (deliveries d) = {}" using fresh ok by (auto simp: notify_ok_def)
  moreover have "row_ok S hist w" if w: "w \<in> set new" for w
  proof -
    have "wd_id w \<notin> fst ` set hist" using fresh [of "wd_id w"] w ok by (auto simp: notify_ok_def)
    then have none: "filter (\<lambda>p. fst p = wd_id w) hist = []" "filter (\<lambda>p. fst p = wd_id w \<and> snd p) hist = []"
      unfolding filter_empty_conv by (metis imageI)+
    have "untried w" using new(5) w by (auto simp: list_all_iff)
    with none ok show ?thesis by (simp add: row_ok_def untried_def notify_ok_def)
  qed
  ultimately show ?thesis using ok sub unfolding notify_ok_def new(1,2,4) by auto
qed

lemma poll_notifies: "poll_once clock d = (d', sent) \<Longrightarrow> notifies d d'"
  using notify_events(1) by (auto simp: poll_once_def Let_def split: if_splits)

section \<open>Notifier and dispatcher together\<close>

datatype notify_op =
    NPoll "uid \<Rightarrow> time"
  | NDispatch time "uid \<Rightarrow> time" "request \<Rightarrow> answer"
  | NEndpoints "webhook_endpoint list"
  | NEvent time uid string "uid option" json

text \<open>Webhook endpoints are registered and deleted, with their deliveries, and events arrive between the passes.\<close>

fun notify_step :: "settings \<Rightarrow> (string \<Rightarrow> string \<Rightarrow> string) \<Rightarrow> notify_op \<Rightarrow> db \<times> (uid \<times> bool) list \<Rightarrow> db \<times> (uid \<times> bool) list" where
  "notify_step S sign (NPoll clock) (d, hist) = (fst (poll_once clock d), hist)"
| "notify_step S sign (NDispatch now clock post) (d, hist) = (case dispatch_once S sign now clock post d of
     (r, d', qs) \<Rightarrow> (d', hist @ map (\<lambda>q. (fst q, accepted (post q))) qs))"
| "notify_step S sign (NEndpoints hs) (d, hist) = (d\<lparr>endpoints := hs,
     deliveries := filter (\<lambda>w. wd_endpoint w \<in> wh_id ` set hs) (deliveries d)\<rparr>, hist)"
| "notify_step S sign (NEvent now tenant event_type eid payload) (d, hist) = (outbox_write now tenant event_type eid payload d, hist)"

fun notify_allowed :: "notify_op \<Rightarrow> bool" where
  "notify_allowed (NPoll clock) \<longleftrightarrow> True"
| "notify_allowed (NDispatch now clock post) \<longleftrightarrow> polite post"
| "notify_allowed (NEndpoints hs) \<longleftrightarrow> distinct (map wh_id hs)"
| "notify_allowed (NEvent now tenant event_type eid payload) \<longleftrightarrow> True"

lemma notify_step_ok:
  assumes "notify_ok S (snd st) (fst st)" and "notify_allowed c"
  shows "notify_ok S (snd (notify_step S sign c st)) (fst (notify_step S sign c st))"
proof -
  obtain d hist where st: "st = (d, hist)" by (cases st)
  have ok: "notify_ok S hist d" using assms(1) by (simp add: st)
  show ?thesis
  proof (cases c)
    case (NPoll clock)
    with notifies_ok [OF ok poll_notifies [OF prod.collapse [symmetric]]] show ?thesis by (simp add: st)
  next
    case (NDispatch now clock post)
    then show ?thesis using assms(2) dispatch_ok(2) [OF ok] by (auto simp: st split: prod.splits)
  next
    case (NEndpoints hs)
    then show ?thesis using assms(2) ok by (auto simp: st notify_ok_def drawn_ids_def distinct_map_filter)
  next
    case (NEvent now tenant event_type eid payload)
    have "notifies d (outbox_write now tenant event_type eid payload d)"
      by (simp add: notifies_def outbox_write_def generate_uuid_def)
    with notifies_ok [OF ok] NEvent show ?thesis by (simp add: st)
  qed
qed

interpretation nt: command_machine "notify_step S sign" "\<lambda>st. notify_ok S (snd st) (fst st)" "\<lambda>c st. notify_allowed c" for S sign
  by unfold_locales (rule notify_step_ok)



text \<open>One malformed URL, which makes the client raise something else than \<open>HTTPError\<close>, undoes the whole pass: the
  deliveries before it have been posted, and nothing of that is stored, so the next pass posts them again.\<close>

lemma poisoned_dispatch:
  assumes "due_deliveries now d = (w, h) # (w', h') # rest" and "post (request_of sign w h) = Responded 200"
    and "post (request_of sign w' h') = OtherError m"
  shows "dispatch_once S sign now clock post d = (Some m, d, [request_of sign w h, request_of sign w' h'])"
  using assms by (simp add: dispatch_once_def Let_def)

section \<open>Evaluation\<close>

definition demo_endpoint :: webhook_endpoint where
  "demo_endpoint = \<lparr>wh_id = ''h1'', wh_tenant = ''acme'', wh_url = ''https://example.org'', wh_secret = ''0123456789abcdef'',
     wh_events = [''execution.failed''], wh_is_active = True, wh_created_at = 0\<rparr>"

definition demo_events :: "notify_op list" where
  "demo_events = [NEndpoints [demo_endpoint], NEvent 1 ''acme'' ''execution.failed'' (Some ''e1'') (JObj [])]"

definition demo_outbox :: "db \<times> (uid \<times> bool) list" where
  "demo_outbox = fold (notify_step default_settings (\<lambda>k b. k @ b)) demo_events (empty_db demo_supply, [])"

lemma demo_outbox_tables:
  "outbox (fst demo_outbox) = [\<lparr>ob_id = ''u0'', ob_tenant = ''acme'', ob_event_type = ''execution.failed'', ob_execution = Some ''e1'',
     ob_payload = JObj [], ob_created_at = 1, ob_processed_at = None\<rparr>]"
  "endpoints (fst demo_outbox) = [demo_endpoint]" "deliveries (fst demo_outbox) = []" "uuid_supply (fst demo_outbox) = demo_supply"
  "uuid_draws (fst demo_outbox) = 1"
proof -
  have "demo_supply 0 = ''u0''" by code_simp
  then show "outbox (fst demo_outbox) = [\<lparr>ob_id = ''u0'', ob_tenant = ''acme'', ob_event_type = ''execution.failed'', ob_execution = Some ''e1'',
     ob_payload = JObj [], ob_created_at = 1, ob_processed_at = None\<rparr>]"
    by (simp add: demo_outbox_def demo_events_def outbox_write_def generate_uuid_def empty_db_def)
qed (simp_all add: demo_outbox_def demo_events_def outbox_write_def generate_uuid_def empty_db_def)


lemma reaches_fold:
  "\<forall>c \<in> set cs. notify_allowed c \<Longrightarrow> nt.reaches S sign s0 s \<Longrightarrow> nt.reaches S sign s0 (fold (notify_step S sign) cs s)"
  by (induction cs arbitrary: s) (simp_all add: nt.next_step)


end
