(* ===== verification/Realtime.thy ===== *)
theory Realtime
  imports Notify
begin

text \<open>
  \<open>services/realtime_service.py\<close> and \<open>services/realtime_bus.py\<close>: the sockets that watch an execution, and the
  PostgreSQL channel over which the API processes tell each other about events. A socket is a number;
  \<open>alive w\<close> says that sending to it succeeds. \<open>loads\<close> is \<open>json.loads\<close>.
\<close>

section \<open>Connections of one process\<close>

type_synonym sockets = "(uid \<times> nat list) list"

definition watching :: "uid \<Rightarrow> sockets \<Rightarrow> nat list" where
  "watching eid c = (case map_of c eid of None \<Rightarrow> [] | Some ws \<Rightarrow> ws)"

definition rt_connect :: "uid \<Rightarrow> nat \<Rightarrow> sockets \<Rightarrow> sockets" where
  "rt_connect eid w c = AList.update eid (List.insert w (watching eid c)) c"

definition rt_disconnect :: "uid \<Rightarrow> nat \<Rightarrow> sockets \<Rightarrow> sockets" where
  "rt_disconnect eid w c = (case map_of c eid of
     None \<Rightarrow> c
   | Some ws \<Rightarrow> (let ws' = removeAll w ws in if ws' = [] then AList.delete eid c else AList.update eid ws' c))"

definition broadcast_local :: "(nat \<Rightarrow> bool) \<Rightarrow> uid \<Rightarrow> json \<Rightarrow> sockets \<Rightarrow> (nat \<times> json) list \<times> sockets" where
  "broadcast_local alive eid payload c = (let ws = watching eid c in
     (map (\<lambda>w. (w, payload)) (filter alive ws), fold (rt_disconnect eid) (filter (\<lambda>w. \<not> alive w) ws) c))"

definition connection_count :: "sockets \<Rightarrow> nat" where
  "connection_count c = sum_list (map (length \<circ> snd) c)"

section \<open>The bus\<close>

definition bus_message :: "string \<Rightarrow> uid \<Rightarrow> json \<Rightarrow> json" where
  "bus_message origin eid payload = JObj [(''origin'', JStr origin), (''execution_id'', JStr eid), (''payload'', payload)]"

text \<open>What \<open>publish\<close> hands to \<open>pg_notify\<close>, if anything.\<close>

definition publish :: "bool \<Rightarrow> string \<Rightarrow> uid \<Rightarrow> json \<Rightarrow> string option" where
  "publish listening origin eid payload =
     (if \<not> listening then None
      else let m = json_dumps False (bus_message origin eid payload) in if 7900 < length m then None else Some m)"

text \<open>What a process does with a notification: the execution and the event to broadcast, or nothing.\<close>

definition on_notification :: "(string \<Rightarrow> json option) \<Rightarrow> string \<Rightarrow> string \<Rightarrow> (uid \<times> json) option" where
  "on_notification loads origin text =
     (case loads text of
        Some (JObj m) \<Rightarrow>
          (case (map_of m ''execution_id'', map_of m ''payload'') of
             (Some (JStr eid), Some payload) \<Rightarrow> if map_of m ''origin'' = Some (JStr origin) then None else Some (eid, payload)
           | _ \<Rightarrow> None)
      | _ \<Rightarrow> None)"

definition build_realtime_bus :: "settings \<Rightarrow> bool" where
  "build_realtime_bus S \<longleftrightarrow> realtime_bus S \<in> {''auto'', ''postgres''} \<and> take 10 (database_url S) = ''postgresql''"

record process =
  pc_origin :: string
  pc_sockets :: sockets

text \<open>
  \<open>RealtimeService.broadcast\<close> in process \<open>i\<close>: the local sockets first, then the bus, which every listening
  process hears, the publisher too. The result lists what each process sent.
\<close>

definition broadcast_all :: "(string \<Rightarrow> json option) \<Rightarrow> (nat \<Rightarrow> bool) \<Rightarrow> nat \<Rightarrow> uid \<Rightarrow> json \<Rightarrow> process list \<Rightarrow> ((nat \<times> json) list \<times> process) list" where
  "broadcast_all loads alive i eid payload ps =
     (let p = ps ! i;
          local = (case broadcast_local alive eid payload (pc_sockets p) of (sent, c) \<Rightarrow> (sent, p\<lparr>pc_sockets := c\<rparr>));
          after = (map (\<lambda>q. ([], q)) ps)[i := local] in
      case publish True (pc_origin p) eid payload of
        None \<Rightarrow> after
      | Some text \<Rightarrow> map (\<lambda>(sent, q).
          (case on_notification loads (pc_origin q) text of
             None \<Rightarrow> (sent, q)
           | Some (e, x) \<Rightarrow> (case broadcast_local alive e x (pc_sockets q) of (again, c) \<Rightarrow> (sent @ again, q\<lparr>pc_sockets := c\<rparr>)))) after)"

section \<open>Properties\<close>

definition sockets_ok :: "sockets \<Rightarrow> bool" where
  "sockets_ok c \<longleftrightarrow> distinct (map fst c) \<and> (\<forall>(e, ws) \<in> set c. ws \<noteq> [] \<and> distinct ws)"

lemma watching_connect [simp]: "watching e (rt_connect eid w c) = (if e = eid then List.insert w (watching eid c) else watching e c)"
  by (simp add: watching_def rt_connect_def update_conv')

lemma watching_disconnect: "watching e (rt_disconnect eid w c) = (if e = eid then removeAll w (watching eid c) else watching e c)"
  by (auto simp: watching_def rt_disconnect_def Let_def update_conv' delete_conv' split: option.splits)

lemma watching_distinct: "sockets_ok c \<Longrightarrow> distinct (watching e c)"
  by (auto simp: sockets_ok_def watching_def dest!: map_of_SomeD split: option.splits)

lemma in_update_row: "(e, v) \<in> set (AList.update k w c) \<Longrightarrow> (e = k \<and> v = w) \<or> (e, v) \<in> set c"
  by (induction c) (auto split: if_splits)

lemma sockets_ok_update: "sockets_ok c \<Longrightarrow> ws \<noteq> [] \<Longrightarrow> distinct ws \<Longrightarrow> sockets_ok (AList.update e ws c)"
  unfolding sockets_ok_def using distinct_update [of c e ws] by (auto dest!: in_update_row)

lemma connect_ok: "sockets_ok c \<Longrightarrow> sockets_ok (rt_connect eid w c)"
  unfolding rt_connect_def by (rule sockets_ok_update) (use watching_distinct in \<open>auto simp: List.insert_def\<close>)

lemma disconnect_ok:
  assumes "sockets_ok c"
  shows "sockets_ok (rt_disconnect eid w c)"
proof (cases "map_of c eid")
  case None
  with assms show ?thesis by (simp add: rt_disconnect_def)
next
  case (Some ws)
  have "distinct (removeAll w ws)" using watching_distinct [OF assms, of eid] by (simp add: watching_def Some distinct_removeAll)
  moreover have "sockets_ok (AList.delete eid c)" using assms by (auto simp: sockets_ok_def AList.delete_eq distinct_map_filter)
  ultimately show ?thesis using assms sockets_ok_update by (simp add: rt_disconnect_def Some Let_def)
qed

lemma watching_drop: "watching e (fold (rt_disconnect eid) ws c) = (if e = eid then filter (\<lambda>x. x \<notin> set ws) (watching eid c) else watching e c)"
  by (induction ws arbitrary: c) (auto simp: watching_disconnect removeAll_filter_not_eq intro: filter_cong)

lemma broadcast_local:
  assumes "broadcast_local alive eid payload c = (sent, c')"
  shows "sent = map (\<lambda>w. (w, payload)) (filter alive (watching eid c))"
    and "watching e c' = (if e = eid then filter alive (watching eid c) else watching e c)"
proof -
  show "sent = map (\<lambda>w. (w, payload)) (filter alive (watching eid c))" using assms by (auto simp: broadcast_local_def Let_def)
  have "c' = fold (rt_disconnect eid) (filter (\<lambda>w. \<not> alive w) (watching eid c)) c" using assms by (auto simp: broadcast_local_def Let_def)
  then show "watching e c' = (if e = eid then filter alive (watching eid c) else watching e c)"
    by (auto simp: watching_drop intro: filter_cong)
qed

text \<open>C35. An event broadcast in one of several API processes reaches every socket that watches the execution and
  can be written to exactly once, whichever process holds it, and nobody else; sockets that cannot be written
  to are dropped, the others stay. The processes have distinct origins, the message fits into a
  notification, and \<open>json.loads\<close> reads back what \<open>json.dumps\<close> wrote.\<close>

theorem broadcast_reaches_all_once:
  assumes "distinct (map pc_origin ps)" and "i < length ps" and "j < length ps"
    and "loads (json_dumps False (bus_message (pc_origin (ps ! i)) eid payload)) = Some (bus_message (pc_origin (ps ! i)) eid payload)"
    and "length (json_dumps False (bus_message (pc_origin (ps ! i)) eid payload)) \<le> 7900"
    and "broadcast_all loads alive i eid payload ps ! j = (sent, q)"
  shows "sent = map (\<lambda>w. (w, payload)) (filter alive (watching eid (pc_sockets (ps ! j)))) \<and> pc_origin q = pc_origin (ps ! j) \<and>
    (\<forall>e. watching e (pc_sockets q) =
       (if e = eid then filter alive (watching eid (pc_sockets (ps ! j))) else watching e (pc_sockets (ps ! j))))"
proof -
  have msg: "publish True (pc_origin (ps ! i)) eid payload = Some (json_dumps False (bus_message (pc_origin (ps ! i)) eid payload))"
    using assms(5) by (simp add: publish_def Let_def)
  have heard: "on_notification loads o' (json_dumps False (bus_message (pc_origin (ps ! i)) eid payload)) =
      (if o' = pc_origin (ps ! i) then None else Some (eid, payload))" for o'
    by (simp add: on_notification_def assms(4)) (simp add: bus_message_def)
  obtain s c where bl: "broadcast_local alive eid payload (pc_sockets (ps ! j)) = (s, c)" by fastforce
  have "(sent, q) = (s, (ps ! j)\<lparr>pc_sockets := c\<rparr>)"
  proof (cases "j = i")
    case True
    with assms(2,6) bl show ?thesis by (simp add: broadcast_all_def Let_def msg heard)
  next
    case False
    with assms(1-3) have "pc_origin (ps ! j) \<noteq> pc_origin (ps ! i)" using nth_eq_iff_index_eq [OF assms(1), of j i] by simp
    with assms(2,3,6) bl False show ?thesis by (simp add: broadcast_all_def Let_def msg heard)
  qed
  with broadcast_local [OF bl] show ?thesis by simp
qed

definition demo_processes :: "process list" where
  "demo_processes = [\<lparr>pc_origin = ''a'', pc_sockets = [(''e1'', [1, 2])]\<rparr>, \<lparr>pc_origin = ''b'', pc_sockets = [(''e1'', [3, 4])]\<rparr>]"

lemma broadcast_reaches_all_once_witness:
  "fst (broadcast_all (\<lambda>_. Some (bus_message ''a'' ''e1'' JNull)) (\<lambda>w. w \<noteq> 4) 0 ''e1'' JNull demo_processes ! 1) = [(3, JNull)]"
proof -
  obtain sent q where b: "broadcast_all (\<lambda>_. Some (bus_message ''a'' ''e1'' JNull)) (\<lambda>w. w \<noteq> 4) 0 ''e1'' JNull demo_processes ! 1 = (sent, q)"
    by fastforce
  have size: "length (json_dumps False (bus_message ''a'' ''e1'' JNull)) \<le> 7900" by code_simp
  from broadcast_reaches_all_once [of demo_processes 0 1 "\<lambda>_. Some (bus_message ''a'' ''e1'' JNull)" "''e1''" JNull "\<lambda>w. w \<noteq> 4"] b size
  show ?thesis by (simp add: demo_processes_def watching_def)
qed

end
