(* ===== verification/Cursors.thy ===== *)
theory Cursors
  imports Entities DF_Prelude Calendar
begin

text \<open>
  The page cursors of \<open>repositories/execution_repository.py\<close>: the time and the identifier of the last log of a
  page, as URL-safe Base64. The decoder accepts what \<open>base64.urlsafe_b64decode\<close> does: characters outside the
  alphabet are skipped, and a complete padding ends the input. \<open>utf8\<close> stands for decoding UTF-8 and
  \<open>parse\<close> for \<open>datetime.fromisoformat\<close>.
\<close>

section \<open>Base64\<close>

definition b64_char :: "nat \<Rightarrow> char" where
  "b64_char n = char_of (if n < 26 then 65 + n else if n < 52 then 71 + n else if n < 62 then n - 4 else if n = 62 then 45 else 95)"

definition b64_value :: "char \<Rightarrow> nat option" where
  "b64_value c = (let n = (of_char c :: nat) in
     if 65 \<le> n \<and> n \<le> 90 then Some (n - 65) else if 97 \<le> n \<and> n \<le> 122 then Some (n - 71)
     else if 48 \<le> n \<and> n \<le> 57 then Some (n + 4) else if n = 45 \<or> n = 43 then Some 62
     else if n = 95 \<or> n = 47 then Some 63 else None)"

fun b64_encode :: "nat list \<Rightarrow> string" where
  "b64_encode [] = []"
| "b64_encode [a] = [b64_char (a div 4), b64_char (a mod 4 * 16), CHR ''='', CHR ''='']"
| "b64_encode [a, b] = [b64_char (a div 4), b64_char (a mod 4 * 16 + b div 16), b64_char (b mod 16 * 4), CHR ''='']"
| "b64_encode (a # b # c # rest) =
     b64_char (a div 4) # b64_char (a mod 4 * 16 + b div 16) # b64_char (b mod 16 * 4 + c div 64) # b64_char (c mod 64) # b64_encode rest"

text \<open>The state is the position in the group of four, the bits left over, and the paddings seen in a row.\<close>

fun b64_decode :: "nat \<Rightarrow> nat \<Rightarrow> nat \<Rightarrow> string \<Rightarrow> nat list option" where
  "b64_decode q left pads [] = (if q = 0 then Some [] else None)"
| "b64_decode q left pads (ch # s) =
     (if ch = CHR ''='' then
        if 2 \<le> q then if 4 \<le> q + Suc pads then Some [] else b64_decode q left (Suc pads) s
        else b64_decode q left pads s
      else case b64_value ch of
        None \<Rightarrow> b64_decode q left pads s
      | Some v \<Rightarrow>
          if q = 0 then b64_decode 1 v 0 s
          else if q = 1 then map_option (Cons (left * 4 + v div 16)) (b64_decode 2 (v mod 16) 0 s)
          else if q = 2 then map_option (Cons (left * 16 + v div 4)) (b64_decode 3 (v mod 4) 0 s)
          else map_option (Cons (left * 64 + v)) (b64_decode 0 0 0 s))"

lemma of_b64_char:
  "n < 64 \<Longrightarrow> (of_char (b64_char n) :: nat) =
     (if n < 26 then 65 + n else if n < 52 then 71 + n else if n < 62 then n - 4 else if n = 62 then 45 else 95)"
  by (simp add: b64_char_def)

lemma b64_value_char [simp]:
  assumes "n < 64"
  shows "b64_value (b64_char n) = Some n" and "b64_char n \<noteq> CHR ''=''" and "(of_char (b64_char n) :: nat) < 128"
proof -
  show "(of_char (b64_char n) :: nat) < 128" using assms by (auto simp: of_b64_char)
  have "(of_char (b64_char n) :: nat) \<noteq> 61" using assms by (auto simp: of_b64_char)
  then show "b64_char n \<noteq> CHR ''=''" by auto
  show "b64_value (b64_char n) = Some n" using assms by (auto simp: b64_value_def Let_def of_b64_char)
qed

lemma b64_roundtrip: "\<forall>b \<in> set bs. b < 256 \<Longrightarrow> b64_decode 0 0 0 (b64_encode bs) = Some bs"
proof (induction bs rule: b64_encode.induct)
  case (2 a)
  then have "a div 4 < 64" "a mod 4 * 16 < 64" by auto
  then show ?case by simp
next
  case (3 a b)
  then have "a div 4 < 64" "a mod 4 * 16 + b div 16 < 64" "b mod 16 * 4 < 64" "b div 16 < 16" by auto
  then show ?case by simp
next
  case (4 a b c rest)
  then have "a div 4 < 64" "a mod 4 * 16 + b div 16 < 64" "b mod 16 * 4 + c div 64 < 64" "c mod 64 < 64" "b div 16 < 16" "c div 64 < 4" by auto
  with 4 show ?case by simp
qed simp

lemma b64_encode_ascii: "\<forall>b \<in> set bs. b < 256 \<Longrightarrow> c \<in> set (b64_encode bs) \<Longrightarrow> (of_char c :: nat) < 128"
proof (induction bs rule: b64_encode.induct)
  case (2 a)
  then have "a div 4 < 64" "a mod 4 * 16 < 64" by auto
  with 2 show ?case by auto
next
  case (3 a b)
  then have "a div 4 < 64" "a mod 4 * 16 + b div 16 < 64" "b mod 16 * 4 < 64" by auto
  with 3 show ?case by auto
next
  case (4 a b c rest)
  then have "a div 4 < 64" "a mod 4 * 16 + b div 16 < 64" "b mod 16 * 4 + c div 64 < 64" "c mod 64 < 64" by auto
  with 4 show ?case by auto
qed simp

section \<open>Cursors\<close>

definition utf8_char :: "char \<Rightarrow> nat list" where
  "utf8_char c = (let n = (of_char c :: nat) in if n < 128 then [n] else [192 + n div 64, 128 + n mod 64])"

definition encode_cursor :: "time \<Rightarrow> uid \<Rightarrow> string" where
  "encode_cursor created i = b64_encode (concat (map utf8_char (isoformat created @ ''|'' @ i)))"

fun split_bar :: "string \<Rightarrow> (string \<times> string) option" where
  "split_bar [] = None"
| "split_bar (c # s) = (if c = CHR ''|'' then Some ([], s) else map_option (\<lambda>(a, b). (c # a, b)) (split_bar s))"

definition decode_cursor :: "(nat list \<Rightarrow> string option) \<Rightarrow> (string \<Rightarrow> time option) \<Rightarrow> string \<Rightarrow> (time \<times> uid) option" where
  "decode_cursor utf8 parse cursor =
     (if \<exists>c \<in> set cursor. 128 \<le> (of_char c :: nat) then None
      else (case b64_decode 0 0 0 cursor of
          None \<Rightarrow> None
        | Some bs \<Rightarrow> (case utf8 bs of
            None \<Rightarrow> None
          | Some raw \<Rightarrow> (case split_bar raw of
              None \<Rightarrow> None
            | Some (t, i) \<Rightarrow> map_option (\<lambda>u. (u, i)) (parse t)))))"

definition ascii :: "string \<Rightarrow> bool" where
  "ascii s \<longleftrightarrow> (\<forall>c \<in> set s. (of_char c :: nat) < 128)"

text \<open>The documented behaviour of the two library functions that cursors rely on.\<close>

definition utf8_reads_ascii :: "(nat list \<Rightarrow> string option) \<Rightarrow> bool" where
  "utf8_reads_ascii utf8 \<longleftrightarrow> (\<forall>s. ascii s \<longrightarrow> utf8 (map of_char s) = Some s)"

definition reads_iso :: "(string \<Rightarrow> time option) \<Rightarrow> bool" where
  "reads_iso parse \<longleftrightarrow> (\<forall>t. representable t \<longrightarrow> parse (isoformat t) = Some t)"

lemma split_bar_first: "CHR ''|'' \<notin> set a \<Longrightarrow> split_bar (a @ CHR ''|'' # b) = Some (a, b)"
  by (induction a) auto

lemma utf8_ascii: "ascii s \<Longrightarrow> concat (map utf8_char s) = map of_char s"
  by (induction s) (auto simp: ascii_def utf8_char_def Let_def)

lemma isoformat_chars: "ascii (isoformat t)" "CHR ''|'' \<notin> set (isoformat t)"
  using isoformat_ascii [of _ t] by (fastforce simp: ascii_def is_digit_def)+

theorem cursor_roundtrip:
  assumes "utf8_reads_ascii utf8" and "reads_iso parse" and "representable t" and "ascii i"
  shows "decode_cursor utf8 parse (encode_cursor t i) = Some (t, i)"
proof -
  let ?raw = "isoformat t @ ''|'' @ i"
  have raw: "ascii ?raw" using isoformat_chars(1) assms(4) by (auto simp: ascii_def)
  have cur: "encode_cursor t i = b64_encode (map of_char ?raw)" unfolding encode_cursor_def utf8_ascii [OF raw] ..
  have small: "\<forall>b \<in> set (map of_char ?raw). (b :: nat) < 256" using raw by (auto simp: ascii_def)
  have "\<not> (\<exists>c \<in> set (encode_cursor t i). 128 \<le> (of_char c :: nat))"
    using b64_encode_ascii [OF small] unfolding cur by (simp add: not_le)
  moreover have "utf8 (map of_char ?raw) = Some ?raw" using assms(1) raw unfolding utf8_reads_ascii_def by blast
  moreover have "parse (isoformat t) = Some t" using assms(2,3) by (simp add: reads_iso_def)
  ultimately show ?thesis using split_bar_first [OF isoformat_chars(2), of t i]
    unfolding decode_cursor_def cur b64_roundtrip [OF small] by simp
qed

end
