(* ===== verification/Queries.thy ===== *)
theory Queries
  imports Catalogue Cursors "HOL-Library.List_Lexorder" "HOL-Library.Char_ord"
begin

text \<open>
  \<open>repositories/execution_repository.py\<close> and \<open>controllers/execution_controller.py\<close>: what clients read of
  executions, and the requests that change them with their audit records. Identifiers are compared as
  strings of characters.
\<close>

section \<open>The repository\<close>

definition execution_exists :: "uid \<Rightarrow> uid \<Rightarrow> db \<Rightarrow> bool" where
  "execution_exists tenant eid d \<longleftrightarrow> (\<exists>e \<in> set (executions d). ex_id e = eid \<and> ex_tenant e = tenant)"

definition repo_get_execution :: "uid \<Rightarrow> uid \<Rightarrow> db \<Rightarrow> (execution \<times> etask list) option" where
  "repo_get_execution tenant eid d =
     map_option (\<lambda>e. (e, filter (\<lambda>t. et_execution t = eid) (etasks d)))
       (find (\<lambda>e. ex_id e = eid \<and> ex_tenant e = tenant) (executions d))"

definition repo_list_executions :: "uid \<Rightarrow> nat \<Rightarrow> nat \<Rightarrow> execution_status option \<Rightarrow> string option \<Rightarrow> db \<Rightarrow> execution list \<times> nat" where
  "repo_list_executions tenant limit off status wid d =
     (let rows = filter (\<lambda>e. ex_tenant e = tenant \<and> (case status of None \<Rightarrow> True | Some s \<Rightarrow> ex_status e = s) \<and>
            (case wid of None \<Rightarrow> True | Some w \<Rightarrow> w = [] \<or> ex_workflow e = w)) (executions d)
      in (take limit (drop off (sort_key (\<lambda>e. - ex_created_at e) rows)), length rows))"

definition list_execution_tasks :: "uid \<Rightarrow> uid \<Rightarrow> db \<Rightarrow> etask list" where
  "list_execution_tasks tenant eid d =
     sort_key (\<lambda>t. (case et_started_at t of None \<Rightarrow> (0 :: int, 0) | Some s \<Rightarrow> (1, s), et_name t))
       (if execution_exists tenant eid d then filter (\<lambda>t. et_execution t = eid) (etasks d) else [])"

definition log_key :: "elog \<Rightarrow> time \<times> uid" where
  "log_key l = (lg_created_at l, lg_id l)"

definition execution_logs :: "uid \<Rightarrow> uid \<Rightarrow> db \<Rightarrow> elog list" where
  "execution_logs tenant eid d = (if execution_exists tenant eid d then filter (\<lambda>l. lg_execution l = eid) (elogs d) else [])"

text \<open>An empty \<open>after\<close> counts as none; one that cannot be decoded drops the condition, and the offset too.\<close>

definition list_logs :: "(nat list \<Rightarrow> string option) \<Rightarrow> (string \<Rightarrow> time option) \<Rightarrow> uid \<Rightarrow> uid \<Rightarrow> nat \<Rightarrow> nat \<Rightarrow> string option \<Rightarrow> db \<Rightarrow>
    elog list \<times> string option" where
  "list_logs utf8 parse tenant eid limit off after d =
     (let cursor = (case after of None \<Rightarrow> None | Some c \<Rightarrow> if c = [] then None else decode_cursor utf8 parse c);
          given = (case after of None \<Rightarrow> False | Some c \<Rightarrow> c \<noteq> []);
          matching = filter (\<lambda>l. case cursor of None \<Rightarrow> True
            | Some (t, i) \<Rightarrow> t < lg_created_at l \<or> (lg_created_at l = t \<and> i < lg_id l)) (execution_logs tenant eid d);
          rows = take (limit + 1) (drop (if given then 0 else off) (sort_key log_key matching))
      in if limit < length rows
         then (take limit rows, Some (encode_cursor (lg_created_at (last (take limit rows))) (lg_id (last (take limit rows)))))
         else (rows, None))"

text \<open>The bounds of the routes.\<close>

definition logs_query_ok :: "int \<Rightarrow> int \<Rightarrow> string option \<Rightarrow> bool" where
  "logs_query_ok limit off after \<longleftrightarrow> 1 \<le> limit \<and> limit \<le> 5000 \<and> 0 \<le> off \<and> (case after of None \<Rightarrow> True | Some c \<Rightarrow> length c \<le> 512)"

definition executions_query_ok :: "int \<Rightarrow> int \<Rightarrow> string option \<Rightarrow> string option \<Rightarrow> bool" where
  "executions_query_ok limit off status wid \<longleftrightarrow> 1 \<le> limit \<and> limit \<le> 200 \<and> 0 \<le> off \<and>
     (case status of None \<Rightarrow> True | Some s \<Rightarrow> s \<in> {''pending'', ''running'', ''success'', ''failed'', ''cancelled''}) \<and>
     (case wid of None \<Rightarrow> True | Some w \<Rightarrow> length w \<le> 36)"

section \<open>The controller\<close>

definition no_execution :: py_error where
  "no_execution = ApiError 404 ''not_found'' ''Execution not found.''"

definition run_workflow_ctl :: "settings \<Rightarrow> time \<Rightarrow> principal \<Rightarrow> uid \<Rightarrow> string option \<Rightarrow> db \<Rightarrow> exec_result" where
  "run_workflow_ctl S now p wid key d =
     (case trigger_workflow S now (pr_tenant p) wid (actor_label p) key d of
        Inl (DagValidationError m) \<Rightarrow> Inl (ApiError 400 ''invalid_request'' m)
      | Inl e \<Rightarrow> Inl e
      | Inr (e, d', sent) \<Rightarrow> Inr (e, audit_write now (Some p) ''execution.started'' ''execution'' (ex_id e)
          (JObj [(''workflow_id'', JStr wid), (''idempotency'', JBool (case key of None \<Rightarrow> False | Some k \<Rightarrow> k \<noteq> []))]) None d', sent))"

definition list_executions_ctl :: "principal \<Rightarrow> nat \<Rightarrow> nat \<Rightarrow> execution_status option \<Rightarrow> string option \<Rightarrow> db \<Rightarrow> execution list \<times> nat" where
  "list_executions_ctl p limit off status wid d = repo_list_executions (pr_tenant p) limit off status wid d"

definition get_execution_ctl :: "principal \<Rightarrow> uid \<Rightarrow> db \<Rightarrow> (execution \<times> etask list) res" where
  "get_execution_ctl p eid d = (case repo_get_execution (pr_tenant p) eid d of None \<Rightarrow> Inl no_execution | Some r \<Rightarrow> Inr r)"

definition get_tasks_ctl :: "principal \<Rightarrow> uid \<Rightarrow> db \<Rightarrow> etask list res" where
  "get_tasks_ctl p eid d = (if execution_exists (pr_tenant p) eid d then Inr (list_execution_tasks (pr_tenant p) eid d) else Inl no_execution)"

definition get_logs_ctl :: "(nat list \<Rightarrow> string option) \<Rightarrow> (string \<Rightarrow> time option) \<Rightarrow> principal \<Rightarrow> uid \<Rightarrow> nat \<Rightarrow> nat \<Rightarrow> string option \<Rightarrow> db \<Rightarrow>
    (elog list \<times> string option) res" where
  "get_logs_ctl utf8 parse p eid limit off after d =
     (if execution_exists (pr_tenant p) eid d then Inr (list_logs utf8 parse (pr_tenant p) eid limit off after d) else Inl no_execution)"

definition audited :: "time \<Rightarrow> principal \<Rightarrow> string \<Rightarrow> (execution \<Rightarrow> uid) \<Rightarrow> json \<Rightarrow> exec_result \<Rightarrow> exec_result" where
  "audited now p action rid details r =
     (case r of Inl e \<Rightarrow> Inl e
      | Inr (e, d', sent) \<Rightarrow> Inr (e, audit_write now (Some p) action ''execution'' (rid e) details None d', sent))"

definition cancel_ctl :: "time \<Rightarrow> (exec_mem \<times> db \<Rightarrow> exec_mem \<times> db) \<Rightarrow> principal \<Rightarrow> uid \<Rightarrow> exec_mem \<Rightarrow> db \<Rightarrow> exec_result \<times> exec_mem" where
  "cancel_ctl now others p eid mem d =
     (case cancel_execution now others (pr_tenant p) eid (actor_label p) mem d of
        (r, mem') \<Rightarrow> (audited now p ''execution.cancelled'' (\<lambda>_. eid) (JObj []) r, mem'))"

definition retry_execution_ctl :: "settings \<Rightarrow> time \<Rightarrow> principal \<Rightarrow> uid \<Rightarrow> db \<Rightarrow> exec_result" where
  "retry_execution_ctl S now p eid d =
     audited now p ''execution.retried'' ex_id (JObj [(''source_execution'', JStr eid)]) (retry_execution S now (pr_tenant p) eid (actor_label p) d)"

definition retry_task_ctl :: "settings \<Rightarrow> time \<Rightarrow> principal \<Rightarrow> uid \<Rightarrow> string \<Rightarrow> db \<Rightarrow> exec_result" where
  "retry_task_ctl S now p eid ident d =
     audited now p ''task.retried'' (\<lambda>_. eid) (JObj [(''task'', JStr ident)]) (retry_task S now (pr_tenant p) eid ident (actor_label p) d)"

definition skip_task_ctl :: "settings \<Rightarrow> time \<Rightarrow> principal \<Rightarrow> uid \<Rightarrow> string \<Rightarrow> db \<Rightarrow> exec_result" where
  "skip_task_ctl S now p eid ident d =
     audited now p ''task.skipped'' (\<lambda>_. eid) (JObj [(''task'', JStr ident)]) (skip_task S now (pr_tenant p) eid ident (actor_label p) d)"

section \<open>Reading all logs page by page\<close>

text \<open>A client that follows the cursors, giving up after so many requests.\<close>

fun follow_logs :: "(nat list \<Rightarrow> string option) \<Rightarrow> (string \<Rightarrow> time option) \<Rightarrow> uid \<Rightarrow> uid \<Rightarrow> nat \<Rightarrow> nat \<Rightarrow> string option \<Rightarrow> db \<Rightarrow> elog list option" where
  "follow_logs utf8 parse tenant eid limit 0 after d = None"
| "follow_logs utf8 parse tenant eid limit (Suc n) after d =
     (case list_logs utf8 parse tenant eid limit 0 after d of
        (rows, None) \<Rightarrow> Some rows
      | (rows, Some c) \<Rightarrow> map_option (\<lambda>rest. rows @ rest) (follow_logs utf8 parse tenant eid limit n (Some c) d))"

definition after_key :: "(time \<times> uid) option \<Rightarrow> elog \<Rightarrow> bool" where
  "after_key k l \<longleftrightarrow> (case k of None \<Rightarrow> True | Some b \<Rightarrow> b < log_key l)"

lemma list_logs_sorted:
  fixes d :: db and tenant eid :: uid
  assumes "case after of None \<Rightarrow> k = None | Some c \<Rightarrow> c \<noteq> [] \<and> decode_cursor utf8 parse c = k \<and> k \<noteq> None"
  defines "rows \<equiv> filter (after_key k) (sort_key log_key (execution_logs tenant eid d))"
  shows "list_logs utf8 parse tenant eid limit 0 after d =
    (take limit rows, if limit < length rows
       then Some (encode_cursor (lg_created_at (last (take limit rows))) (lg_id (last (take limit rows)))) else None)"
proof -
  have key: "after_key (Some (t, i)) l \<longleftrightarrow> t < lg_created_at l \<or> (lg_created_at l = t \<and> i < lg_id l)" for t i l
    by (auto simp: after_key_def log_key_def less_prod_def)
  have "filter (\<lambda>l. case k of None \<Rightarrow> True | Some (t, i) \<Rightarrow> t < lg_created_at l \<or> (lg_created_at l = t \<and> i < lg_id l)) xs = filter (after_key k) xs" for xs
  proof (cases k)
    case None
    then show ?thesis by (simp add: after_key_def)
  next
    case (Some ti)
    then show ?thesis by (cases ti) (auto simp: key intro!: filter_cong)
  qed
  then have "list_logs utf8 parse tenant eid limit 0 after d =
    (let r = take (limit + 1) (sort_key log_key (filter (after_key k) (execution_logs tenant eid d))) in
     if limit < length r then (take limit r, Some (encode_cursor (lg_created_at (last (take limit r))) (lg_id (last (take limit r))))) else (r, None))"
    using assms(1) unfolding list_logs_def Let_def by (cases after) auto
  then show ?thesis unfolding rows_def filter_sort by (auto simp: Let_def min_def)
qed

lemma after_drop:
  assumes "sorted_wrt (\<lambda>a b. log_key a < log_key b) xs" and "0 < k" and "k \<le> length xs"
  shows "filter (after_key (Some (log_key (xs ! (k - 1))))) xs = drop k xs"
proof -
  have "filter (after_key (Some (log_key (xs ! (k - 1))))) (take k xs) = []"
    unfolding filter_empty_conv after_key_def option.case
  proof
    fix l assume "l \<in> set (take k xs)"
    then obtain i where "i < k" "l = xs ! i" using assms(3) by (auto simp: in_set_conv_nth)
    then consider "l = xs ! (k - 1)" | "i < k - 1" by (cases "i = k - 1") auto
    then show "\<not> log_key (xs ! (k - 1)) < log_key l"
    proof cases
      case 2
      with sorted_wrt_nth_less [OF assms(1), of i "k - 1"] assms(2,3) \<open>l = xs ! i\<close> show ?thesis by (simp add: less_not_sym)
    qed simp
  qed
  moreover have "filter (after_key (Some (log_key (xs ! (k - 1))))) (drop k xs) = drop k xs"
    unfolding filter_id_conv after_key_def option.case
  proof
    fix l assume "l \<in> set (drop k xs)"
    then obtain i where "i < length xs - k" "l = xs ! (k + i)" by (auto simp: in_set_conv_nth)
    then show "log_key (xs ! (k - 1)) < log_key l" using assms sorted_wrt_nth_less [OF assms(1), of "k - 1" "k + i"] by simp
  qed
  ultimately show ?thesis by (metis append_take_drop_id append_Nil filter_append)
qed

lemma encode_cursor_nonempty [simp]: "encode_cursor t i \<noteq> []"
proof -
  have "concat (map utf8_char (isoformat t @ ''|'' @ i)) \<noteq> []" by (simp add: utf8_char_def Let_def)
  moreover have "b64_encode bs = [] \<longleftrightarrow> bs = []" for bs by (cases bs rule: b64_encode.cases) auto
  ultimately show ?thesis unfolding encode_cursor_def by metis
qed

definition logs_ok :: "db \<Rightarrow> bool" where
  "logs_ok d \<longleftrightarrow> distinct (map lg_id (elogs d)) \<and> (\<forall>l \<in> set (elogs d). representable (lg_created_at l) \<and> ascii (lg_id l))"

lemma sorted_logs:
  fixes d :: db and tenant eid :: uid
  assumes "logs_ok d"
  defines "all \<equiv> sort_key log_key (execution_logs tenant eid d)"
  shows "sorted_wrt (\<lambda>a b. log_key a < log_key b) all" and "set all \<subseteq> set (elogs d)"
proof -
  show "set all \<subseteq> set (elogs d)" by (auto simp: all_def execution_logs_def)
  have "distinct (map lg_id (execution_logs tenant eid d))"
    using assms(1) by (simp add: logs_ok_def execution_logs_def distinct_map_filter)
  then have "distinct (map log_key (execution_logs tenant eid d))"
    by (auto simp: distinct_map log_key_def inj_on_def)
  then have "distinct (map log_key all)" by (simp add: all_def distinct_map)
  moreover have "sorted (map log_key all)" by (simp add: all_def)
  ultimately have "sorted_wrt (<) (map log_key all)" by (simp add: strict_sorted_iff)
  then show "sorted_wrt (\<lambda>a b. log_key a < log_key b) all" by (simp add: sorted_wrt_map)
qed

lemma follow_suffix:
  fixes d :: db and tenant eid :: uid
  assumes ok: "logs_ok d" and reads: "utf8_reads_ascii utf8" "reads_iso parse" and "0 < limit"
  defines "all \<equiv> sort_key log_key (execution_logs tenant eid d)"
  assumes "k \<le> length all" and "after = (if k = 0 then None else Some (encode_cursor (lg_created_at (all ! (k - 1))) (lg_id (all ! (k - 1)))))"
    and "(length all - k) div limit < n"
  shows "follow_logs utf8 parse tenant eid limit n after d = Some (drop k all)"
  using assms(6-8)
proof (induction n arbitrary: k after)
  case (Suc n)
  define key where "key = (if k = 0 then None else Some (log_key (all ! (k - 1))))"
  have "all ! (k - 1) \<in> set (elogs d)" if "k \<noteq> 0"
    using sorted_logs(2) [OF ok, of tenant eid] Suc.prems(1) that nth_mem [of "k - 1" all] by (auto simp: all_def [symmetric])
  then have cur: "case after of None \<Rightarrow> key = None | Some c \<Rightarrow> c \<noteq> [] \<and> decode_cursor utf8 parse c = key \<and> key \<noteq> None"
    using ok cursor_roundtrip [OF reads] by (simp add: Suc.prems(2) key_def logs_ok_def log_key_def)
  have rows: "filter (after_key key) all = drop k all"
    using after_drop [OF sorted_logs(1) [OF ok, of tenant eid, folded all_def], of k] Suc.prems(1) by (simp add: key_def after_key_def)
  note page = list_logs_sorted [OF cur, where tenant = tenant and eid = eid and d = d and limit = limit, folded all_def, unfolded rows]
  show ?case
  proof (cases "limit < length (drop k all)")
    case False
    then show ?thesis by (simp add: page)
  next
    case True
    then have last: "last (take limit (drop k all)) = all ! (k + limit - 1)"
      using \<open>0 < limit\<close> by (simp add: last_conv_nth)
    have "(length all - (k + limit)) div limit < n"
      using Suc.prems(3) True \<open>0 < limit\<close> le_div_geq [of limit "length all - k"] by simp
    from Suc.IH [OF _ refl this] True \<open>0 < limit\<close> have
      "follow_logs utf8 parse tenant eid limit n (Some (encode_cursor (lg_created_at (all ! (k + limit - 1))) (lg_id (all ! (k + limit - 1))))) d =
        Some (drop (k + limit) all)" by simp
    with True show ?thesis by (simp add: page last flip: drop_drop) (metis append_take_drop_id drop_drop add.commute)
  qed
qed simp

text \<open>C36. Following the cursors of the log pages ends, with a page size of at least one after at most
  \<open>n div limit + 1\<close> requests for \<open>n\<close> logs, and returns every log of the caller's execution exactly once, ordered
  by time and identifier; an execution of another tenant has no logs.\<close>

theorem log_pages_terminate:
  assumes "logs_ok d" and "utf8_reads_ascii utf8" and "reads_iso parse" and "0 < limit"
  shows "follow_logs utf8 parse tenant eid limit (length (execution_logs tenant eid d) div limit + 1) None d =
      Some (sort_key log_key (execution_logs tenant eid d)) \<and>
    set (execution_logs tenant eid d) = {l \<in> set (elogs d). lg_execution l = eid \<and> (\<exists>e \<in> set (executions d). ex_id e = eid \<and> ex_tenant e = tenant)}"
proof
  show "follow_logs utf8 parse tenant eid limit (length (execution_logs tenant eid d) div limit + 1) None d =
      Some (sort_key log_key (execution_logs tenant eid d))"
    using follow_suffix [OF assms, where k = 0 and tenant = tenant and eid = eid and after = None] by (simp del: follow_logs.simps)
  show "set (execution_logs tenant eid d) = {l \<in> set (elogs d). lg_execution l = eid \<and> (\<exists>e \<in> set (executions d). ex_id e = eid \<and> ex_tenant e = tenant)}"
    by (auto simp: execution_logs_def execution_exists_def)
qed

section \<open>Requests that change executions\<close>

lemma audited_ok:
  assumes "\<And>e d' sent. r = Inr (e, d', sent) \<Longrightarrow> platform_ok S d'" and "audited now p action rid details r = Inr (e, d', sent)"
  shows "platform_ok S d'"
  using assms by (auto simp: audited_def audit_keeps split: sum.splits)

text \<open>The audit trail grows by one record of the caller for every request that succeeds.\<close>

lemma audited_record:
  assumes "audited now p action rid details r = Inr (e, d', sent)"
  obtains d1 a where "r = Inr (e, d1, sent)" "audits d' = audits d1 @ [a]" "au_tenant a = pr_tenant p" "au_actor_key a = Some (pr_key p)"
    "au_action a = action" "au_resource_id a = rid e" "executions d' = executions d1" "etasks d' = etasks d1" "jobs d' = jobs d1"
  using assms that by (auto simp: audited_def audit_write_def generate_uuid_def split: sum.splits)

section \<open>Evaluation\<close>

definition demo_logs :: db where
  "demo_logs = (empty_db demo_supply)\<lparr>executions := [demo_execution],
     elogs := map (\<lambda>(i, t). \<lparr>lg_id = i, lg_execution = ''ex1'', lg_task = None, lg_level = ''INFO'', lg_message = i, lg_created_at = t\<rparr>)
       [(''c'', 2), (''b'', 1), (''a'', 2)]\<rparr>"

definition demo_utf8 :: "nat list \<Rightarrow> string option" where
  "demo_utf8 bs = Some (map char_of bs)"

lemma log_pages_terminate_witness:
  "map_option (map lg_id) (follow_logs demo_utf8 read_iso ''acme'' ''ex1'' 2 2 None demo_logs) = Some [''b'', ''a'', ''c'']"
proof -
  have ok: "logs_ok demo_logs" by (simp add: logs_ok_def demo_logs_def representable_def ascii_def)
  have utf8: "utf8_reads_ascii demo_utf8" by (simp add: utf8_reads_ascii_def demo_utf8_def comp_def)
  have iso: "reads_iso read_iso" by (simp add: reads_iso_def read_isoformat)
  have rows: "map lg_id (sort_key log_key (execution_logs ''acme'' ''ex1'' demo_logs)) = [''b'', ''a'', ''c'']" by code_simp
  have "length (execution_logs ''acme'' ''ex1'' demo_logs) = 3" by code_simp
  then have n: "length (execution_logs ''acme'' ''ex1'' demo_logs) div 2 + 1 = 2" by simp
  have "follow_logs demo_utf8 read_iso ''acme'' ''ex1'' 2 2 None demo_logs = Some (sort_key log_key (execution_logs ''acme'' ''ex1'' demo_logs))"
    using log_pages_terminate [OF ok utf8 iso, of 2 "''acme''" "''ex1''", unfolded n, THEN conjunct1] by (simp del: follow_logs.simps)
  then show ?thesis by (simp only: option.map rows)
qed

end
