(* ===== verification/Ops.thy ===== *)
theory Ops
  imports Queries Scheduler Worker
begin

text \<open>
  \<open>controllers/ops_controller.py\<close>, \<open>services/secret_service.py\<close>, \<open>schemas/ops.py\<close> and
  \<open>controllers/monitor_controller.py\<close>: what administrators and operators do beside workflows and executions.
  \<open>encrypt key value\<close> and \<open>decrypt key token\<close> stand for Fernet, \<open>sha256\<close> for the digest.
\<close>

section \<open>Secrets\<close>

definition name_char :: "char \<Rightarrow> bool" where
  "name_char c \<longleftrightarrow> (let n = (of_char c :: nat) in (65 \<le> n \<and> n \<le> 90) \<or> (97 \<le> n \<and> n \<le> 122) \<or> (48 \<le> n \<and> n \<le> 57) \<or>
     n = 95 \<or> n = 46 \<or> n = 45)"

definition secret_create_ok :: "string \<Rightarrow> string \<Rightarrow> bool" where
  "secret_create_ok name value \<longleftrightarrow> 1 \<le> length name \<and> length name \<le> 120 \<and> list_all name_char name \<and>
     1 \<le> length value \<and> length value \<le> 8000"

definition derive_fernet_key :: "(string \<Rightarrow> nat list) \<Rightarrow> string \<Rightarrow> string" where
  "derive_fernet_key sha256 secret = b64_encode (sha256 secret)"

definition fernet_key :: "(string \<Rightarrow> nat list) \<Rightarrow> settings \<Rightarrow> string" where
  "fernet_key sha256 S = (let key = if secret_encryption_key S \<noteq> [] then secret_encryption_key S else bootstrap_api_key S in
     if key \<noteq> [] \<and> last key = CHR ''='' \<and> length key = 44 then key else derive_fernet_key sha256 key)"

definition find_secret :: "uid \<Rightarrow> string \<Rightarrow> db \<Rightarrow> secret_record option" where
  "find_secret tenant name d = find (\<lambda>s. sr_tenant s = tenant \<and> sr_name s = name) (secrets d)"

definition secret_create :: "(string \<Rightarrow> string) \<Rightarrow> time \<Rightarrow> uid \<Rightarrow> string \<Rightarrow> string \<Rightarrow> db \<Rightarrow> secret_record \<times> db" where
  "secret_create encrypt now tenant name value d =
     (case find_secret tenant name d of
        None \<Rightarrow> (case generate_uuid d of (i, d1) \<Rightarrow>
          let r = \<lparr>sr_id = i, sr_tenant = tenant, sr_name = name, sr_ciphertext = encrypt value, sr_created_at = now, sr_updated_at = now\<rparr>
          in (r, d1\<lparr>secrets := secrets d1 @ [r]\<rparr>))
      | Some r \<Rightarrow> (let r' = r\<lparr>sr_ciphertext := encrypt value, sr_updated_at := now\<rparr>
          in (r', d\<lparr>secrets := upd_where (\<lambda>x. sr_id x = sr_id r) (\<lambda>x. x\<lparr>sr_ciphertext := encrypt value, sr_updated_at := now\<rparr>) (secrets d)\<rparr>)))"

definition secret_list :: "uid \<Rightarrow> db \<Rightarrow> secret_record list" where
  "secret_list tenant d = sort_key sr_name (filter (\<lambda>s. sr_tenant s = tenant) (secrets d))"

definition secret_delete :: "uid \<Rightarrow> string \<Rightarrow> db \<Rightarrow> db res" where
  "secret_delete tenant name d = (case find_secret tenant name d of
     None \<Rightarrow> Inl (ApiError 404 ''not_found'' ''Secret not found.'')
   | Some r \<Rightarrow> Inr (d\<lparr>secrets := del_where (\<lambda>x. sr_id x = sr_id r) (secrets d)\<rparr>))"

definition secret_resolve :: "(string \<Rightarrow> string option) \<Rightarrow> uid \<Rightarrow> string \<Rightarrow> db \<Rightarrow> string res" where
  "secret_resolve decrypt tenant name d = (case find_secret tenant name d of
     None \<Rightarrow> Inl (ApiError 400 ''secret_missing'' (''Secret '' @ quoted name @ '' is not configured for this tenant.''))
   | Some r \<Rightarrow> (case decrypt (sr_ciphertext r) of
        None \<Rightarrow> Inl (ApiError 400 ''secret_unreadable'' (''Secret '' @ quoted name @ '' cannot be decrypted.''))
      | Some v \<Rightarrow> Inr v))"

text \<open>\<open>SECRET_PATTERN\<close>: the name behind a placeholder at the start of the text, and what follows it.\<close>

definition placeholder_at :: "string \<Rightarrow> (string \<times> string) option" where
  "placeholder_at s =
     (if take 9 s = ''{{secret:'' then
        let name = takeWhile name_char (drop 9 s); rest = dropWhile name_char (drop 9 s) in
        if name \<noteq> [] \<and> take 2 rest = ''}}'' then Some (name, drop 2 rest) else None
      else None)"

lemma placeholder_shorter [termination_simp]: "placeholder_at s = Some (n, r) \<Longrightarrow> length r < length s"
  using length_dropWhile_le [of name_char "drop 9 s"]
  by (auto simp: placeholder_at_def Let_def split: if_splits dest!: arg_cong [of _ _ length])

function secret_names :: "string \<Rightarrow> string list" where
  "secret_names s = (case placeholder_at s of
     Some (name, rest) \<Rightarrow> name # secret_names rest
   | None \<Rightarrow> (case s of [] \<Rightarrow> [] | c # s' \<Rightarrow> secret_names s'))"
  by pat_completeness auto
termination by (relation "measure length") (auto simp: placeholder_shorter)

declare secret_names.simps [simp del]

text \<open>\<open>str.replace\<close> for a nonempty pattern.\<close>

function str_replace :: "string \<Rightarrow> string \<Rightarrow> string \<Rightarrow> string" where
  "str_replace old new s =
     (if old \<noteq> [] \<and> take (length old) s = old then new @ str_replace old new (drop (length old) s)
      else (case s of [] \<Rightarrow> [] | c # s' \<Rightarrow> c # str_replace old new s'))"
  by pat_completeness auto
termination
proof (relation "measure (\<lambda>(old, new, s). length s)", goal_cases)
  case (2 old new s)
  then have "s \<noteq> []" by auto
  with 2 show ?case by simp
qed auto

declare str_replace.simps [simp del]

definition placeholder :: "string \<Rightarrow> string" where
  "placeholder name = ''{{secret:'' @ name @ ''}}''"

definition render_template :: "(string \<Rightarrow> string option) \<Rightarrow> uid \<Rightarrow> string \<Rightarrow> db \<Rightarrow> string res" where
  "render_template decrypt tenant value d =
     fold_res (\<lambda>v name. case secret_resolve decrypt tenant name d of Inl e \<Rightarrow> Inl e | Inr x \<Rightarrow> Inr (str_replace (placeholder name) x v))
       value (secret_names value)"

section \<open>Requests\<close>

definition list_audit :: "principal \<Rightarrow> nat \<Rightarrow> nat \<Rightarrow> db \<Rightarrow> (audit_log list \<times> nat) res" where
  "list_audit p limit off d = (case require ''admin'' p of Inl e \<Rightarrow> Inl e
   | Inr _ \<Rightarrow> (let rows = filter (\<lambda>a. au_tenant a = pr_tenant p) (audits d)
       in Inr (take limit (drop off (sort_key (\<lambda>a. - au_created_at a) rows)), length rows)))"

definition create_secret :: "(string \<Rightarrow> string) \<Rightarrow> time \<Rightarrow> principal \<Rightarrow> string \<Rightarrow> string \<Rightarrow> db \<Rightarrow> (secret_record \<times> db) res" where
  "create_secret encrypt now p name value d = (case require ''admin'' p of Inl e \<Rightarrow> Inl e
   | Inr _ \<Rightarrow> (case secret_create encrypt now (pr_tenant p) name value d of (r, d') \<Rightarrow>
       Inr (r, audit_write now (Some p) ''secret.created'' ''secret'' (sr_id r) (JObj [(''name'', JStr (sr_name r))]) None d')))"

definition list_secrets :: "principal \<Rightarrow> db \<Rightarrow> secret_record list res" where
  "list_secrets p d = (case require ''admin'' p of Inl e \<Rightarrow> Inl e | Inr _ \<Rightarrow> Inr (secret_list (pr_tenant p) d))"

definition delete_secret :: "time \<Rightarrow> principal \<Rightarrow> string \<Rightarrow> db \<Rightarrow> db res" where
  "delete_secret now p name d = (case require ''admin'' p of Inl e \<Rightarrow> Inl e
   | Inr _ \<Rightarrow> (case secret_delete (pr_tenant p) name d of Inl e \<Rightarrow> Inl e
     | Inr d' \<Rightarrow> Inr (audit_write now (Some p) ''secret.deleted'' ''secret'' name (JObj [(''name'', JStr name)]) None d')))"

definition allowed_events :: "string list" where
  "allowed_events = [''execution.succeeded'', ''execution.failed'', ''execution.cancelled'', ''execution.started'']"

text \<open>\<open>WebhookCreate\<close>: the events come out sorted and without repetition.\<close>

definition webhook_create :: "string \<Rightarrow> string \<Rightarrow> string list \<Rightarrow> (string \<times> string \<times> string list) option" where
  "webhook_create url secret events =
     (if 1 \<le> length url \<and> length url \<le> 2048 \<and> (take 7 url = ''http://'' \<or> take 8 url = ''https://'') \<and>
         16 \<le> length secret \<and> length secret \<le> 255 \<and> set events \<subseteq> set allowed_events
      then Some (url, secret, sort (remdups events)) else None)"

definition create_webhook :: "time \<Rightarrow> principal \<Rightarrow> string \<times> string \<times> string list \<Rightarrow> bool \<Rightarrow> db \<Rightarrow> (webhook_endpoint \<times> db) res" where
  "create_webhook now p payload active d = (case require ''admin'' p of Inl e \<Rightarrow> Inl e
   | Inr _ \<Rightarrow> (case payload of (url, secret, events) \<Rightarrow> (case generate_uuid d of (i, d1) \<Rightarrow>
       let h = \<lparr>wh_id = i, wh_tenant = pr_tenant p, wh_url = url, wh_secret = secret, wh_events = events, wh_is_active = active,
             wh_created_at = now\<rparr>;
           d2 = d1\<lparr>endpoints := endpoints d1 @ [h]\<rparr>
       in Inr (h, audit_write now (Some p) ''webhook.created'' ''webhook'' i (JObj [(''events'', JList (map JStr events))]) None d2))))"

definition list_webhooks :: "principal \<Rightarrow> db \<Rightarrow> webhook_endpoint list res" where
  "list_webhooks p d = (case require ''admin'' p of Inl e \<Rightarrow> Inl e
   | Inr _ \<Rightarrow> Inr (sort_key (\<lambda>h. - wh_created_at h) (filter (\<lambda>h. wh_tenant h = pr_tenant p) (endpoints d))))"

text \<open>Deleting an endpoint takes its deliveries along (\<open>ON DELETE CASCADE\<close>).\<close>

definition delete_webhook :: "time \<Rightarrow> principal \<Rightarrow> uid \<Rightarrow> db \<Rightarrow> db res" where
  "delete_webhook now p wid d = (case require ''admin'' p of Inl e \<Rightarrow> Inl e
   | Inr _ \<Rightarrow> (case find (\<lambda>h. wh_id h = wid \<and> wh_tenant h = pr_tenant p) (endpoints d) of
       None \<Rightarrow> Inl (ApiError 404 ''not_found'' ''Webhook not found.'')
     | Some h \<Rightarrow> Inr (audit_write now (Some p) ''webhook.deleted'' ''webhook'' wid (JObj []) None
         (d\<lparr>endpoints := del_where (\<lambda>x. wh_id x = wh_id h) (endpoints d),
            deliveries := del_where (\<lambda>w. wd_endpoint w = wh_id h) (deliveries d)\<rparr>))))"

definition list_deliveries :: "principal \<Rightarrow> nat \<Rightarrow> nat \<Rightarrow> db \<Rightarrow> (webhook_delivery list \<times> nat) res" where
  "list_deliveries p limit off d = (case require ''admin'' p of Inl e \<Rightarrow> Inl e
   | Inr _ \<Rightarrow> (let rows = filter (\<lambda>w. wd_tenant w = pr_tenant p) (deliveries d)
       in Inr (take limit (drop off (sort_key (\<lambda>w. - wd_created_at w) rows)), length rows)))"

definition create_schedule :: "(string \<Rightarrow> time \<Rightarrow> time res) \<Rightarrow> time \<Rightarrow> principal \<Rightarrow> uid \<Rightarrow> string option \<Rightarrow> int option \<Rightarrow> db \<Rightarrow>
    (wf_schedule \<times> db) res" where
  "create_schedule cron_next now p wid cron interval d = (case require ''operator'' p of Inl e \<Rightarrow> Inl e
   | Inr _ \<Rightarrow> (case find (\<lambda>w. wf_id w = wid \<and> wf_tenant w = pr_tenant p \<and> \<not> wf_is_archived w) (workflows d) of
       None \<Rightarrow> Inl (ApiError 404 ''not_found'' ''Workflow not found.'')
     | Some w \<Rightarrow> (case generate_uuid d of (i, d1) \<Rightarrow>
         let s0 = \<lparr>sc_id = i, sc_tenant = pr_tenant p, sc_workflow = wf_id w, sc_cron = cron, sc_interval_seconds = interval,
               sc_next_run_at = now, sc_is_enabled = True, sc_created_at = now, sc_last_run_at = None\<rparr> in
         (case compute_next_run cron_next s0 now of Inl e \<Rightarrow> Inl e
          | Inr t \<Rightarrow> (let s = s0\<lparr>sc_next_run_at := t\<rparr>; d2 = d1\<lparr>schedules := schedules d1 @ [s]\<rparr>
              in Inr (s, audit_write now (Some p) ''schedule.created'' ''schedule'' i
                (JObj [(''workflow_id'', JStr (wf_id w)), (''cron'', case cron of None \<Rightarrow> JNull | Some c \<Rightarrow> JStr c),
                   (''interval_seconds'', case interval of None \<Rightarrow> JNull | Some n \<Rightarrow> JInt n)]) None d2))))))"

definition list_schedules :: "principal \<Rightarrow> uid \<Rightarrow> db \<Rightarrow> wf_schedule list" where
  "list_schedules p wid d =
     sort_key (\<lambda>s. - sc_created_at s) (filter (\<lambda>s. sc_tenant s = pr_tenant p \<and> sc_workflow s = wid) (schedules d))"

definition delete_schedule :: "time \<Rightarrow> principal \<Rightarrow> uid \<Rightarrow> db \<Rightarrow> db res" where
  "delete_schedule now p sid d = (case require ''operator'' p of Inl e \<Rightarrow> Inl e
   | Inr _ \<Rightarrow> (case find (\<lambda>s. sc_id s = sid \<and> sc_tenant s = pr_tenant p) (schedules d) of
       None \<Rightarrow> Inl (ApiError 404 ''not_found'' ''Schedule not found.'')
     | Some s \<Rightarrow> Inr (audit_write now (Some p) ''schedule.deleted'' ''schedule'' sid (JObj []) None
         (d\<lparr>schedules := del_where (\<lambda>x. sc_id x = sc_id s) (schedules d)\<rparr>))))"

definition list_dead_letters_ctl :: "principal \<Rightarrow> nat \<Rightarrow> nat \<Rightarrow> db \<Rightarrow> (job list \<times> nat) res" where
  "list_dead_letters_ctl p limit off d = (case require ''admin'' p of Inl e \<Rightarrow> Inl e
   | Inr _ \<Rightarrow> Inr (list_dead_letters (pr_tenant p) limit off (jobs d), count_dead_letters (pr_tenant p) (jobs d)))"

text \<open>The retry is committed before the dead letter is resolved.\<close>

definition replay_dead_letter_ctl :: "settings \<Rightarrow> time \<Rightarrow> principal \<Rightarrow> uid \<Rightarrow> db \<Rightarrow> exec_result" where
  "replay_dead_letter_ctl S now p jid d = (case require ''operator'' p of Inl e \<Rightarrow> Inl e
   | Inr _ \<Rightarrow> (case get_dead_letter (pr_tenant p) jid (jobs d) of
       None \<Rightarrow> Inl (ApiError 404 ''not_found'' ''Dead-lettered job not found.'')
     | Some r \<Rightarrow> (case retry_task S now (pr_tenant p) (qj_execution r) (qj_etask r) (actor_label p) d of
         Inl e \<Rightarrow> Inl e
       | Inr (e, d1, sent) \<Rightarrow>
           Inr (e, audit_write now (Some p) ''queue.dead_letter_replayed'' ''queue_job'' jid
             (JObj [(''execution_id'', JStr (qj_execution r))]) None
             (d1\<lparr>jobs := snd (resolve_dead_letter now (pr_tenant p) jid (jobs d1))\<rparr>), sent))))"

record diagnostics =
  dg_version :: string
  dg_environment :: string
  dg_queue :: queue_stats
  dg_workers :: "(string \<times> string \<times> time option \<times> string option) list"
  dg_dead_letters :: nat
  dg_stale_leases :: nat
  dg_handlers :: "string list"
  dg_enabled_schedules :: nat
  dg_websockets :: nat
  dg_lease_seconds :: int
  dg_worker_count :: int
  dg_max_concurrent_tasks :: int
  dg_max_task_timeout :: int
  dg_requests_per_minute :: int

definition diagnostics :: "settings \<Rightarrow> time \<Rightarrow> string list \<Rightarrow> nat \<Rightarrow> principal \<Rightarrow> db \<Rightarrow> diagnostics res" where
  "diagnostics S now handlers sockets p d = (case require ''admin'' p of Inl e \<Rightarrow> Inl e
   | Inr _ \<Rightarrow> Inr \<lparr>dg_version = app_version S, dg_environment = environment S, dg_queue = stats now None (Some (jobs d)),
       dg_workers = map (\<lambda>w. (sn_id w, sn_state w, sn_last_seen_at w, sn_last_error w)) (snapshots S now (Some (worker_rows d))),
       dg_dead_letters = dead_letter_count (jobs d), dg_stale_leases = stale_lease_count now (jobs d), dg_handlers = handlers,
       dg_enabled_schedules = length (filter sc_is_enabled (schedules d)), dg_websockets = sockets,
       dg_lease_seconds = queue_lease_seconds S, dg_worker_count = worker_count S,
       dg_max_concurrent_tasks = max_concurrent_tasks_per_workflow S, dg_max_task_timeout = max_task_timeout_seconds S,
       dg_requests_per_minute = rate_limit_requests_per_minute S\<rparr>)"

text \<open>\<open>MonitorController\<close>; a table that cannot be read is \<open>None\<close>.\<close>

definition queue_status :: "time \<Rightarrow> uid option \<Rightarrow> job list option \<Rightarrow> queue_stats" where
  "queue_status now tenant table = stats now tenant table"

definition worker_status :: "settings \<Rightarrow> time \<Rightarrow> worker_record list option \<Rightarrow> worker_snapshot list" where
  "worker_status S now table = snapshots S now table"

definition system_snapshot :: "settings \<Rightarrow> time \<Rightarrow> uid option \<Rightarrow> job list option \<Rightarrow> worker_record list option \<Rightarrow> queue_stats \<times> worker_snapshot list" where
  "system_snapshot S now tenant table workers = (stats now tenant table, snapshots S now workers)"

section \<open>Secrets: one value per name and tenant\<close>

definition secrets_ok :: "db \<Rightarrow> bool" where
  "secrets_ok d \<longleftrightarrow> inj (uuid_supply d) \<and> distinct (map sr_id (secrets d)) \<and> sr_id ` set (secrets d) \<subseteq> drawn_ids d \<and>
     distinct (map (\<lambda>s. (sr_tenant s, sr_name s)) (secrets d))"

lemma find_secret_iff:
  assumes "secrets_ok d"
  shows "find_secret t n d = Some r \<longleftrightarrow> r \<in> set (secrets d) \<and> sr_tenant r = t \<and> sr_name r = n"
proof
  assume "r \<in> set (secrets d) \<and> sr_tenant r = t \<and> sr_name r = n"
  then obtain r' where r': "find_secret t n d = Some r'" by (fastforce simp: find_secret_def find_None_iff)
  with find_SomeD [OF r' [unfolded find_secret_def]] \<open>r \<in> set (secrets d) \<and> sr_tenant r = t \<and> sr_name r = n\<close> assms
  show "find_secret t n d = Some r" by (auto simp: secrets_ok_def distinct_map inj_on_def)
qed (auto simp: find_secret_def dest: find_SomeD)

text \<open>What a write does to the other names, and to its own.\<close>

lemma secret_created:
  assumes ok: "secrets_ok d" and c: "secret_create encrypt now t n v d = (r, d')"
  shows "secrets_ok d'"
    and "find_secret t' n' d' = (if t' = t \<and> n' = n then Some r else find_secret t' n' d)"
    and "sr_ciphertext r = encrypt v" and "sr_tenant r = t" and "sr_name r = n"
proof -
  show r: "sr_ciphertext r = encrypt v" "sr_tenant r = t" "sr_name r = n"
    using c find_SomeD [of _ "secrets d" r] by (auto simp: secret_create_def Let_def find_secret_def generate_uuid_def split: option.splits dest: find_SomeD)
  have "secrets_ok d' \<and> find_secret t' n' d' = (if t' = t \<and> n' = n then Some r else find_secret t' n' d)"
  proof (cases "find_secret t n d")
    case None
    then have none: "\<And>s. s \<in> set (secrets d) \<Longrightarrow> \<not> (sr_tenant s = t \<and> sr_name s = n)" by (auto simp: find_secret_def find_None_iff)
    have d': "secrets d' = secrets d @ [r]" "uuid_supply d' = uuid_supply d" "uuid_draws d' = Suc (uuid_draws d)" "sr_id r = uuid_supply d (uuid_draws d)"
      using c None by (auto simp: secret_create_def generate_uuid_def Let_def)
    have "sr_id r \<notin> drawn_ids d" using ok by (auto simp: secrets_ok_def d'(4) drawn_ids_def dest: injD)
    have "(t, n) \<notin> (\<lambda>s. (sr_tenant s, sr_name s)) ` set (secrets d)" using none by (auto simp del: not_ex)
    with \<open>sr_id r \<notin> drawn_ids d\<close> have ok': "secrets_ok d'" using ok r by (auto simp: secrets_ok_def d' drawn_ids_def lessThan_Suc)
    have "find_secret t' n' d' = (if t' = t \<and> n' = n then Some r else find_secret t' n' d)"
      using None r by (auto simp: find_secret_def d'(1) find_append split: option.splits)
    with ok' show ?thesis ..
  next
    case (Some x)
    note x = Some [unfolded find_secret_iff [OF ok]]
    have same: "sr_id y = sr_id x \<longleftrightarrow> y = x" if "y \<in> set (secrets d)" for y
      using ok x that by (auto simp: secrets_ok_def distinct_map inj_on_def)
    have d': "secrets d' = map (\<lambda>y. if y = x then r else y) (secrets d)" "uuid_supply d' = uuid_supply d" "uuid_draws d' = uuid_draws d"
      "sr_id r = sr_id x" using c Some same by (auto simp: secret_create_def Let_def upd_where_def)
    have keys: "map (\<lambda>s. (sr_tenant s, sr_name s)) (secrets d') = map (\<lambda>s. (sr_tenant s, sr_name s)) (secrets d)" "map sr_id (secrets d') = map sr_id (secrets d)"
      using x r d'(4) by (auto simp: d'(1))
    have "sr_id ` set (secrets d') = sr_id ` set (secrets d)" using keys(2) by (metis set_map)
    then have ok': "secrets_ok d'" using ok unfolding secrets_ok_def keys by (simp add: d'(2,3) drawn_ids_def)
    have "find_secret t' n' d' = (if t' = t \<and> n' = n then Some r else find_secret t' n' d)"
    proof (cases "t' = t \<and> n' = n")
      case True
      then show ?thesis using x r by (auto simp: find_secret_iff [OF ok'] d'(1) image_iff)
    next
      case False
      have "find_secret t' n' d' = Some s \<longleftrightarrow> find_secret t' n' d = Some s" for s
        using False x r by (auto simp: find_secret_iff [OF ok'] find_secret_iff [OF ok] d'(1) image_iff split: if_splits)
      with False show ?thesis by (metis not_None_eq)
    qed
    with ok' show ?thesis ..
  qed
  then show "secrets_ok d'" and "find_secret t' n' d' = (if t' = t \<and> n' = n then Some r else find_secret t' n' d)" by blast+
qed

text \<open>Deleting a name leaves the others; a name without a row cannot be resolved.\<close>

lemma secret_deleted:
  assumes ok: "secrets_ok d" and c: "secret_delete t n d = Inr d'"
  shows "find_secret t' n' d' = (if t' = t \<and> n' = n then None else find_secret t' n' d)"
proof -
  obtain x where x: "find_secret t n d = Some x" and d': "d' = d\<lparr>secrets := del_where (\<lambda>y. sr_id y = sr_id x) (secrets d)\<rparr>"
    using c by (auto simp: secret_delete_def split: option.splits)
  note x' = x [unfolded find_secret_iff [OF ok]]
  have same: "sr_id y = sr_id x \<longleftrightarrow> y = x" if "y \<in> set (secrets d)" for y
    using ok x' that by (auto simp: secrets_ok_def distinct_map inj_on_def)
  have rows: "set (secrets d') = set (secrets d) - {x}" using same by (auto simp: d' del_where_def)
  have ok': "secrets_ok d'" using ok
    by (auto simp: secrets_ok_def d' del_where_def drawn_ids_def distinct_map_filter)
  have others: "find_secret t' n' d' = Some s \<longleftrightarrow> find_secret t' n' d = Some s \<and> s \<noteq> x" for s
    by (auto simp: find_secret_iff [OF ok'] find_secret_iff [OF ok] rows)
  have own: "find_secret t' n' d = Some x \<longleftrightarrow> t' = t \<and> n' = n" using x' by (auto simp: find_secret_iff [OF ok])
  show ?thesis
  proof (cases "t' = t \<and> n' = n")
    case True
    with own have "find_secret t' n' d' \<noteq> Some s" for s unfolding others by simp
    with True show ?thesis by (cases "find_secret t' n' d'") auto
  next
    case False
    with own have "find_secret t' n' d' = Some s \<longleftrightarrow> find_secret t' n' d = Some s" for s unfolding others by auto
    with False show ?thesis by (metis not_None_eq)
  qed
qed

lemma resolve_cong: "find_secret t n d = find_secret t n d' \<Longrightarrow> secret_resolve dec t n d = secret_resolve dec t n d'"
  by (simp add: secret_resolve_def)

lemma audit_write_find_secret [simp]: "find_secret t n (audit_write now p a rt ri js req d) = find_secret t n d"
  by (simp add: find_secret_def)

section \<open>Templates\<close>

lemma takeWhile_name: "list_all name_char n \<Longrightarrow> \<not> name_char c \<Longrightarrow> takeWhile name_char (n @ c # s) = n \<and> dropWhile name_char (n @ c # s) = c # s"
  by (induction n) auto

lemma brace_no_name: "\<not> name_char CHR ''}''" by (simp add: name_char_def)

lemma placeholder_at_placeholder:
  assumes "n \<noteq> []" and "list_all name_char n"
  shows "placeholder_at (placeholder n @ s) = Some (n, s)"
  using takeWhile_name [OF assms(2) brace_no_name, of "CHR ''}'' # s"] assms(1)
  by (simp add: placeholder_at_def placeholder_def Let_def)

lemma secret_names_Nil [simp]: "secret_names [] = []"
  by (subst secret_names.simps) (simp add: placeholder_at_def)

lemma str_replace_Nil [simp]: "old \<noteq> [] \<Longrightarrow> str_replace old new [] = []"
  by (subst str_replace.simps) simp

lemma str_replace_head: "old \<noteq> [] \<Longrightarrow> str_replace old new (old @ s) = new @ str_replace old new s"
  by (subst str_replace.simps) simp

lemma placeholder_nonempty [simp]: "placeholder n \<noteq> []"
  by (simp add: placeholder_def)

lemma render_placeholder:
  assumes "n \<noteq> []" and "list_all name_char n" and "secret_resolve dec t n d = Inr v"
  shows "render_template dec t (placeholder n) d = Inr v"
proof -
  have names: "secret_names (placeholder n) = [n]" using placeholder_at_placeholder [OF assms(1,2), of "[]"]
    by (subst secret_names.simps) simp
  show ?thesis using str_replace_head [of "placeholder n" v "[]"] by (simp add: render_template_def names assms(3))
qed

text \<open>C37. Storing a secret and using it are inverse: what an administrator stored under a name is what the
  name resolves to, alone or in a template, until it is overwritten or deleted; the other names of the tenant,
  and every name of other tenants, resolve as before; a deleted name no longer resolves.\<close>

theorem secret_round_trip:
  assumes ok: "secrets_ok d" and valid: "secret_create_ok n v" and fernet: "dec (enc v) = Some v"
    and c: "create_secret enc now p n v d = Inr (r, d1)" and del: "delete_secret later p n d1 = Inr d2"
  shows "secret_resolve dec (pr_tenant p) n d1 = Inr v \<and> render_template dec (pr_tenant p) (placeholder n) d1 = Inr v \<and>
    ((t, m) \<noteq> (pr_tenant p, n) \<longrightarrow> secret_resolve dec t m d1 = secret_resolve dec t m d \<and>
      secret_resolve dec t m d2 = secret_resolve dec t m d) \<and>
    (\<exists>msg. secret_resolve dec (pr_tenant p) n d2 = Inl (ApiError 400 ''secret_missing'' msg))"
proof (intro conjI)
  obtain d0 where d0: "secret_create enc now (pr_tenant p) n v d = (r, d0)"
      "d1 = audit_write now (Some p) ''secret.created'' ''secret'' (sr_id r) (JObj [(''name'', JStr (sr_name r))]) None d0"
    using c by (auto simp: create_secret_def split: sum.splits prod.splits)
  note made = secret_created [OF ok d0(1)]
  have ok1: "secrets_ok d1" using made(1) by (auto simp: secrets_ok_def d0(2) drawn_ids_def lessThan_Suc)
  obtain d3 where d3: "secret_delete (pr_tenant p) n d1 = Inr d3"
      "d2 = audit_write later (Some p) ''secret.deleted'' ''secret'' n (JObj [(''name'', JStr n)]) None d3"
    using del by (auto simp: delete_secret_def split: sum.splits)
  have f1: "find_secret t m d1 = (if t = pr_tenant p \<and> m = n then Some r else find_secret t m d)" for t m
    using made(2) by (simp add: d0(2))
  have f2: "find_secret t m d2 = (if t = pr_tenant p \<and> m = n then None else find_secret t m d)" for t m
    using secret_deleted [OF ok1 d3(1), of t m] f1 [of t m] by (simp add: d3(2))
  show res: "secret_resolve dec (pr_tenant p) n d1 = Inr v" using f1 made(3) fernet by (simp add: secret_resolve_def)
  show "render_template dec (pr_tenant p) (placeholder n) d1 = Inr v"
    using render_placeholder [OF _ _ res] valid by (cases n) (auto simp: secret_create_ok_def)
  show "(t, m) \<noteq> (pr_tenant p, n) \<longrightarrow> secret_resolve dec t m d1 = secret_resolve dec t m d \<and>
      secret_resolve dec t m d2 = secret_resolve dec t m d" using f1 f2 by (auto simp: secret_resolve_def)
  show "\<exists>msg. secret_resolve dec (pr_tenant p) n d2 = Inl (ApiError 400 ''secret_missing'' msg)"
    using f2 by (simp add: secret_resolve_def)
qed

definition demo_owner :: principal where
  "demo_owner = \<lparr>pr_tenant = ''acme'', pr_tenant_name = ''Acme'', pr_key = ''k0'', pr_key_name = ''owner'', pr_role = ''admin''\<rparr>"

lemma secret_round_trip_witness:
  "\<exists>r d1 d2. create_secret rev 5 demo_owner ''token'' ''xyz'' (empty_db demo_supply) = Inr (r, d1) \<and>
     secret_resolve (\<lambda>s. Some (rev s)) ''acme'' ''token'' d1 = Inr ''xyz'' \<and> delete_secret 9 demo_owner ''token'' d1 = Inr d2 \<and>
     (\<exists>m. secret_resolve (\<lambda>s. Some (rev s)) ''acme'' ''token'' d2 = Inl (ApiError 400 ''secret_missing'' m))"
proof -
  have ok: "secrets_ok (empty_db demo_supply)" using demo_supply_inj by (simp add: secrets_ok_def empty_db_def drawn_ids_def)
  have "case create_secret rev 5 demo_owner ''token'' ''xyz'' (empty_db demo_supply) of Inl _ \<Rightarrow> False
    | Inr (r, d1) \<Rightarrow> (case delete_secret 9 demo_owner ''token'' d1 of Inl _ \<Rightarrow> False | Inr _ \<Rightarrow> True)" by code_simp
  then obtain r d1 where c: "create_secret rev 5 demo_owner ''token'' ''xyz'' (empty_db demo_supply) = Inr (r, d1)"
    and "case delete_secret 9 demo_owner ''token'' d1 of Inl _ \<Rightarrow> False | Inr _ \<Rightarrow> True" by (auto split: sum.splits)
  then obtain d2 where del: "delete_secret 9 demo_owner ''token'' d1 = Inr d2" by (cases "delete_secret 9 demo_owner ''token'' d1") auto
  have valid: "secret_create_ok ''token'' ''xyz''" by code_simp
  have t: "pr_tenant demo_owner = ''acme''" by code_simp
  note trip = secret_round_trip [OF ok valid _ c del, where dec = "\<lambda>s. Some (rev s)", unfolded t]
  from trip show ?thesis using c del by fastforce
qed

lemma compute_next_run_next [simp]: "compute_next_run cron (s\<lparr>sc_next_run_at := t\<rparr>) b = compute_next_run cron s b"
  by (simp add: compute_next_run_def)

text \<open>A new schedule keeps what the scheduler relies on.\<close>

lemma create_schedule_keeps_ok:
  assumes ok: "schedules_ok d" and ids: "inj (uuid_supply d)" "sc_id ` set (schedules d) \<subseteq> drawn_ids d" and ten: "pr_tenant p \<noteq> []"
    and ws: "distinct (map wf_id (workflows d))" and c: "create_schedule cron_next now p wid cron interval d = Inr (s, d')"
  shows "schedules_ok d'" and "schedules d' = schedules d @ [s]" and "compute_next_run cron_next s now = Inr (sc_next_run_at s)"
proof -
  obtain w where w: "find (\<lambda>w. wf_id w = wid \<and> wf_tenant w = pr_tenant p \<and> \<not> wf_is_archived w) (workflows d) = Some w"
    using c by (auto simp: create_schedule_def split: sum.splits option.splits)
  define s0 where "s0 = \<lparr>sc_id = uuid_supply d (uuid_draws d), sc_tenant = pr_tenant p, sc_workflow = wf_id w, sc_cron = cron,
    sc_interval_seconds = interval, sc_next_run_at = now, sc_is_enabled = True, sc_created_at = now, sc_last_run_at = None\<rparr>"
  obtain t where t: "compute_next_run cron_next s0 now = Inr t" and s0: "s = s0\<lparr>sc_next_run_at := t\<rparr>"
    and d': "schedules d' = schedules d @ [s]" "workflows d' = workflows d"
    using c w by (auto simp: create_schedule_def Let_def generate_uuid_def s0_def [symmetric] split: sum.splits)
  have s: "sc_id s = uuid_supply d (uuid_draws d)" "sc_tenant s = pr_tenant p" "sc_workflow s = wf_id w" by (simp_all add: s0 s0_def)
  show "schedules d' = schedules d @ [s]" by (rule d')
  show "compute_next_run cron_next s now = Inr (sc_next_run_at s)" using t by (simp add: s0)
  have "v = w" if "v \<in> set (workflows d)" "wf_id v = wf_id w" for v
    using that ws find_SomeD [OF w] by (auto simp: distinct_map inj_on_def)
  moreover have "sc_id s \<notin> drawn_ids d" using ids(1) by (auto simp: s(1) drawn_ids_def dest: injD)
  ultimately show "schedules_ok d'" using ok ids(2) ten find_SomeD [OF w] by (auto simp: schedules_ok_def d' s)
qed

end
