(* ===== verification/Handlers.thy ===== *)
theory Handlers
  imports Ops
begin

text \<open>
  \<open>handlers/registry.py\<close> and \<open>handlers/builtin.py\<close>: what the task types do, and which URLs they may call.
  The parts of \<open>urllib.parse.urlsplit\<close> and \<open>ipaddress\<close> the code uses are modelled as in Python 3.12; \<open>ipv6\<close> stands
  for the classification of an IPv6 literal (\<open>None\<close> when it is none), \<open>send\<close> for the HTTP client: how many seconds
  the request takes and what comes of it.
\<close>

section \<open>URLs\<close>

definition scheme_char :: "char \<Rightarrow> bool" where
  "scheme_char c \<longleftrightarrow> (let n = (of_char c :: nat) in (65 \<le> n \<and> n \<le> 90) \<or> (97 \<le> n \<and> n \<le> 122) \<or> (48 \<le> n \<and> n \<le> 57) \<or>
     n = 43 \<or> n = 45 \<or> n = 46)"

definition alpha :: "char \<Rightarrow> bool" where
  "alpha c \<longleftrightarrow> (let n = (of_char c :: nat) in (65 \<le> n \<and> n \<le> 90) \<or> (97 \<le> n \<and> n \<le> 122))"

text \<open>Leading control characters and blanks go, and so do tabs and line ends anywhere.\<close>

definition clean_url :: "string \<Rightarrow> string" where
  "clean_url url = filter (\<lambda>c. (of_char c :: nat) \<notin> {9, 10, 13}) (dropWhile (\<lambda>c. (of_char c :: nat) \<le> 32) url)"

definition split_scheme :: "string \<Rightarrow> string \<times> string" where
  "split_scheme url = (let s = takeWhile (\<lambda>c. c \<noteq> CHR '':'') url; rest = dropWhile (\<lambda>c. c \<noteq> CHR '':'') url in
     if rest \<noteq> [] \<and> s \<noteq> [] \<and> alpha (hd s) \<and> list_all scheme_char s then (py_lower s, tl rest) else ([], url))"

definition netloc_of :: "string \<Rightarrow> string" where
  "netloc_of rest = (if take 2 rest = ''//'' then takeWhile (\<lambda>c. c \<notin> {CHR ''/'', CHR ''?'', CHR ''#''}) (drop 2 rest) else [])"

definition after_at :: "string \<Rightarrow> string" where
  "after_at s = rev (takeWhile (\<lambda>c. c \<noteq> CHR ''@'') (rev s))"

definition host_of :: "string \<Rightarrow> string" where
  "host_of netloc = (let info = after_at netloc in
     if CHR ''['' \<in> set info then takeWhile (\<lambda>c. c \<noteq> CHR '']'') (tl (dropWhile (\<lambda>c. c \<noteq> CHR ''['') info))
     else takeWhile (\<lambda>c. c \<noteq> CHR '':'') info)"

text \<open>What stands in brackets must be an IPv6 literal, or \<open>urlsplit\<close> raises.\<close>

definition brackets_ok :: "(string \<Rightarrow> bool option) \<Rightarrow> string \<Rightarrow> bool" where
  "brackets_ok ipv6 netloc = (if CHR ''['' \<in> set netloc \<or> CHR '']'' \<in> set netloc
     then CHR ''['' \<in> set netloc \<and> CHR '']'' \<in> set netloc \<and>
       ipv6 (takeWhile (\<lambda>c. c \<noteq> CHR '']'') (tl (dropWhile (\<lambda>c. c \<noteq> CHR ''['') netloc))) \<noteq> None
     else True)"

definition urlparse :: "(string \<Rightarrow> bool option) \<Rightarrow> string \<Rightarrow> (string \<times> string) option" where
  "urlparse ipv6 url = (case split_scheme (clean_url url) of (scheme, rest) \<Rightarrow>
     if brackets_ok ipv6 (netloc_of rest) then Some (scheme, py_lower (host_of (netloc_of rest))) else None)"

section \<open>IPv4 addresses\<close>

definition parse_octet :: "string \<Rightarrow> nat option" where
  "parse_octet s = (if s = [] \<or> \<not> list_all is_digit s \<or> 3 < length s \<or> (s \<noteq> ''0'' \<and> hd s = CHR ''0'') then None
     else if 255 < digits_value s then None else Some (digits_value s))"

definition quad :: "nat \<Rightarrow> nat \<Rightarrow> nat \<Rightarrow> nat \<Rightarrow> nat" where
  "quad a b c d = ((a * 256 + b) * 256 + c) * 256 + d"

definition ipv4_of :: "string \<Rightarrow> nat option" where
  "ipv4_of s = (case map parse_octet (py_split (CHR ''.'') s) of
     [Some a, Some b, Some c, Some d] \<Rightarrow> Some (quad a b c d)
   | _ \<Rightarrow> None)"

definition in_network :: "nat \<Rightarrow> nat \<times> nat \<Rightarrow> bool" where
  "in_network x n = (x div 2 ^ (32 - snd n) = fst n div 2 ^ (32 - snd n))"

definition private_networks :: "(nat \<times> nat) list" where
  "private_networks = [(quad 0 0 0 0, 8), (quad 10 0 0 0, 8), (quad 127 0 0 0, 8), (quad 169 254 0 0, 16), (quad 172 16 0 0, 12),
     (quad 192 0 0 0, 24), (quad 192 0 0 170, 31), (quad 192 0 2 0, 24), (quad 192 168 0 0, 16), (quad 198 18 0 0, 15),
     (quad 198 51 100 0, 24), (quad 203 0 113 0, 24), (quad 240 0 0 0, 4), (quad 255 255 255 255, 32)]"

definition ipv4_refused :: "nat \<Rightarrow> bool" where
  "ipv4_refused x \<longleftrightarrow>
     (list_ex (in_network x) private_networks \<and> \<not> list_ex (in_network x) [(quad 192 0 0 9, 32), (quad 192 0 0 10, 32)]) \<or>
     in_network x (quad 127 0 0 0, 8) \<or> in_network x (quad 169 254 0 0, 16) \<or> in_network x (quad 240 0 0 0, 4)"

section \<open>The handlers\<close>

datatype failure = HandlerError string | OtherFailure

definition no_private :: failure where
  "no_private = HandlerError ''Private network targets are not allowed.''"

definition ends_with :: "string \<Rightarrow> string \<Rightarrow> bool" where
  "ends_with suffix s \<longleftrightarrow> length suffix \<le> length s \<and> drop (length s - length suffix) s = suffix"

definition validate_outbound_url :: "(string \<Rightarrow> bool option) \<Rightarrow> string \<Rightarrow> failure + unit" where
  "validate_outbound_url ipv6 url = (case urlparse ipv6 url of
     None \<Rightarrow> Inl OtherFailure
   | Some (scheme, host) \<Rightarrow>
       if scheme \<notin> {''http'', ''https''} then Inl (HandlerError ''Only http and https URLs are allowed.'')
       else if host = [] then Inl (HandlerError ''URL must include a hostname.'')
       else if host \<in> {''localhost'', ''metadata.google.internal''} \<or> ends_with ''.local'' host then Inl no_private
       else (case ipv4_of host of
          Some x \<Rightarrow> if ipv4_refused x then Inl no_private else Inr ()
        | None \<Rightarrow> (case ipv6 host of Some private \<Rightarrow> if private then Inl no_private else Inr () | None \<Rightarrow> Inr ())))"

record http_request =
  hr_method :: string
  hr_url :: string
  hr_headers :: "(string \<times> string) list"
  hr_body :: "string option"
  hr_timeout :: rat

text \<open>A response with its text, an \<open>httpx.HTTPError\<close> by its class, or another exception.\<close>

datatype http_answer = Response nat string | HTTPError string | HTTPOther

type_synonym handler_result = "rat \<times> (failure + (string \<times> out_value) list)"

definition sleep_handler :: "task_config \<Rightarrow> handler_result" where
  "sleep_handler cfg = (let ms = get_or (cf_duration_ms cfg) 800 in (max 0 (of_int ms / 1000), Inr [(''duration_ms'', OutInt ms)]))"

definition truthy :: "string option \<Rightarrow> string \<Rightarrow> string" where
  "truthy s alt = (case s of None \<Rightarrow> alt | Some t \<Rightarrow> if t = [] then alt else t)"

definition echo_handler :: "string \<Rightarrow> task_config \<Rightarrow> handler_result" where
  "echo_handler task_name cfg =
     (0, Inr [(''message'', OutStr (truthy (cf_message cfg) (''Task '' @ quoted task_name @ '' completed.'')))])"

definition fail_handler :: "task_config \<Rightarrow> handler_result" where
  "fail_handler cfg = (0, Inl (HandlerError (truthy (cf_message cfg) ''Task intentionally failed.'')))"

definition render_all :: "(string \<Rightarrow> string option) \<Rightarrow> uid \<Rightarrow> db \<Rightarrow> (string \<times> string) list \<Rightarrow> (string \<times> string) list res" where
  "render_all dec tenant d headers = fold_res (\<lambda>done (k, v). case render_template dec tenant v d of
     Inl e \<Rightarrow> Inl e | Inr v' \<Rightarrow> Inr (done @ [(k, v')])) [] headers"

definition judge :: "int option \<Rightarrow> nat \<Rightarrow> string \<Rightarrow> failure + (string \<times> out_value) list" where
  "judge expected code text =
     (let e = get_or expected 0 in
      if e \<noteq> 0 \<and> int code \<noteq> e
        then Inl (HandlerError (''HTTP task expected status '' @ int_str e @ '' but received '' @ int_str (int code) @ ''.''))
      else if e = 0 \<and> 400 \<le> code then Inl (HandlerError (''HTTP task received status '' @ int_str (int code) @ ''.''))
      else Inr [(''status_code'', OutInt (int code)), (''body_preview'', OutStr (take 500 text))])"

definition http_handler :: "settings \<Rightarrow> (string \<Rightarrow> bool option) \<Rightarrow> (http_request \<Rightarrow> rat \<times> http_answer) \<Rightarrow> (string \<Rightarrow> string option) \<Rightarrow>
    uid \<Rightarrow> task_config \<Rightarrow> db \<Rightarrow> handler_result" where
  "http_handler S ipv6 send dec tenant cfg d =
     (let url = get_or (cf_url cfg) [] in
      case (if allow_private_task_targets S then Inr () else validate_outbound_url ipv6 url) of Inl e \<Rightarrow> (0, Inl e)
      | Inr _ \<Rightarrow> (case render_all dec tenant d (cf_headers cfg) of Inl e \<Rightarrow> (0, Inl OtherFailure)
      | Inr headers \<Rightarrow>
          (case (case cf_body cfg of Some (c # cs) \<Rightarrow> map_sum id Some (render_template dec tenant (c # cs) d) | _ \<Rightarrow> Inr None) of
             Inl e \<Rightarrow> (0, Inl OtherFailure)
           | Inr body \<Rightarrow>
               (case send \<lparr>hr_method = get_or (cf_method cfg) ''GET'', hr_url = url, hr_headers = headers,
                   hr_body = (case body of Some [] \<Rightarrow> None | b \<Rightarrow> b), hr_timeout = get_or (cf_timeout_seconds cfg) 60\<rparr> of
                  (t, Response code text) \<Rightarrow> (t, judge (cf_expected_status cfg) code text)
                | (t, HTTPError cls) \<Rightarrow> (t, Inl (HandlerError (''HTTP request failed: '' @ cls @ ''.'')))
                | (t, HTTPOther) \<Rightarrow> (t, Inl OtherFailure)))))"

definition secret_names_in :: "task_config \<Rightarrow> string list" where
  "secret_names_in cfg = sort (remdups (concat (map secret_names
     (truthy (cf_url cfg) [] # truthy (cf_body cfg) [] # map snd (cf_headers cfg)))))"

section \<open>The registry\<close>

datatype handler = SleepHandler | EchoHandler | HttpHandler | FailHandler

type_synonym registry = "(string \<times> handler) list"

definition register :: "string \<Rightarrow> handler \<Rightarrow> registry \<Rightarrow> registry" where
  "register name h r = AList.update name h r"

definition get_handler :: "string \<Rightarrow> registry \<Rightarrow> failure + handler" where
  "get_handler name r = (case map_of r name of
     None \<Rightarrow> Inl (HandlerError (''Unknown task type '' @ quoted name @ ''.''))
   | Some h \<Rightarrow> Inr h)"

definition handler_names :: "registry \<Rightarrow> string list" where
  "handler_names r = sort (map fst r)"

definition builtin_registry :: registry where
  "builtin_registry = register ''fail'' FailHandler (register ''http'' HttpHandler (register ''echo'' EchoHandler
     (register ''sleep'' SleepHandler [])))"

text \<open>The handler of a task under its timeout, as \<open>_run_task\<close> sees it end.\<close>

definition call_handler :: "settings \<Rightarrow> (string \<Rightarrow> bool option) \<Rightarrow> (http_request \<Rightarrow> rat \<times> http_answer) \<Rightarrow> (string \<Rightarrow> string option) \<Rightarrow>
    uid \<Rightarrow> etask \<Rightarrow> db \<Rightarrow> handler \<Rightarrow> handler_result" where
  "call_handler S ipv6 send dec tenant item d h = (case h of
     SleepHandler \<Rightarrow> sleep_handler (et_config item)
   | EchoHandler \<Rightarrow> echo_handler (et_name item) (et_config item)
   | HttpHandler \<Rightarrow> http_handler S ipv6 send dec tenant (et_config item) d
   | FailHandler \<Rightarrow> fail_handler (et_config item))"

definition run_handler :: "settings \<Rightarrow> (string \<Rightarrow> bool option) \<Rightarrow> (http_request \<Rightarrow> rat \<times> http_answer) \<Rightarrow> (string \<Rightarrow> string option) \<Rightarrow>
    uid \<Rightarrow> etask \<Rightarrow> db \<Rightarrow> outcome" where
  "run_handler S ipv6 send dec tenant item d =
     (case get_handler (get_or (cf_type (et_config item)) ''sleep'') builtin_registry of
        Inl (HandlerError m) \<Rightarrow> HandlerFailed m
      | Inl OtherFailure \<Rightarrow> Crashed
      | Inr h \<Rightarrow> (case call_handler S ipv6 send dec tenant item d h of (t, r) \<Rightarrow>
          if task_timeout S item \<le> t then TimedOut
          else (case r of Inl (HandlerError m) \<Rightarrow> HandlerFailed m | Inl OtherFailure \<Rightarrow> Crashed | Inr out \<Rightarrow> Returned (Some out))))"

section \<open>Task types\<close>

lemma builtin_registry: "builtin_registry = [(''sleep'', SleepHandler), (''echo'', EchoHandler), (''http'', HttpHandler), (''fail'', FailHandler)]"
  by (simp add: builtin_registry_def register_def)

text \<open>The registry knows exactly the task types that \<open>_run_task\<close> accepts.\<close>

lemma registry_types: "(\<exists>h. get_handler ty builtin_registry = Inr h) \<longleftrightarrow> ty \<in> set task_types"
  by (auto simp: builtin_registry get_handler_def task_types_def)

lemma early_error_unknown:
  assumes "get_or (cf_fail_first_n (et_config item)) 0 \<le> et_retries item"
  shows "early_error item = (case get_handler (get_or (cf_type (et_config item)) ''sleep'') builtin_registry of
    Inl (HandlerError m) \<Rightarrow> Some m | _ \<Rightarrow> None)"
  using assms by (simp add: early_error_def Let_def builtin_registry get_handler_def task_types_def)

section \<open>Literal IPv4 targets\<close>

lemma digit_char: "k < (10 :: nat) \<Longrightarrow> is_digit (char_of (48 + k)) \<and> (k \<noteq> 0 \<longrightarrow> char_of (48 + k) \<noteq> CHR ''0'')"
proof -
  assume k: "k < (10 :: nat)"
  have "(of_char (char_of (48 + k)) :: nat) = 48 + k" using k by simp
  moreover have "(of_char CHR ''0'' :: nat) = 48" by simp
  ultimately have "char_of (48 + k) = CHR ''0'' \<Longrightarrow> k = 0" by (metis add_cancel_right_right)
  with \<open>(of_char (char_of (48 + k)) :: nat) = 48 + k\<close> k show ?thesis unfolding is_digit_def by linarith
qed

lemma octets:
  assumes "n < 256"
  shows "parse_octet (nat_digits n) = Some n \<and> list_all is_digit (nat_digits n) \<and> nat_digits n \<noteq> []"
proof -
  consider "n < 10" | "10 \<le> n" "n < 100" | "100 \<le> n" "n < 1000" using assms by linarith
  then have "list_all is_digit (nat_digits n) \<and> nat_digits n \<noteq> [] \<and> length (nat_digits n) \<le> 3 \<and>
    (nat_digits n \<noteq> ''0'' \<longrightarrow> hd (nat_digits n) \<noteq> CHR ''0'')"
  proof cases
    case 1
    then have "nat_digits n = [char_of (48 + n)]" by (subst nat_digits.simps) simp
    then show ?thesis using digit_char [of n] 1 by auto
  next
    case 2
    then have "nat_digits n = [char_of (48 + n div 10), char_of (48 + n mod 10)]"
      using nat_digits.simps [of n] nat_digits.simps [of "n div 10"] by auto
    then show ?thesis using digit_char [of "n div 10"] digit_char [of "n mod 10"] 2 by simp
  next
    case 3
    then have "nat_digits n = [char_of (48 + n div 100), char_of (48 + n div 10 mod 10), char_of (48 + n mod 10)]"
      using nat_digits.simps [of n] nat_digits.simps [of "n div 10"] nat_digits.simps [of "n div 100"] by (auto simp: div_mult2_eq [symmetric])
    then show ?thesis using digit_char [of "n div 100"] digit_char [of "n div 10 mod 10"] digit_char [of "n mod 10"] 3 by simp
  qed
  then show ?thesis using assms by (auto simp: parse_octet_def)
qed

lemma digit_chars: "is_digit c \<Longrightarrow> c \<noteq> CHR ''.'' \<and> c \<noteq> CHR '':'' \<and> c \<noteq> CHR ''@'' \<and> c \<noteq> CHR ''/'' \<and> c \<noteq> CHR ''['' \<and> c \<noteq> CHR '']'' \<and>
    c \<noteq> CHR ''?'' \<and> c \<noteq> CHR ''#'' \<and> lower_char c = c \<and> c \<noteq> CHR ''l'' \<and> c \<noteq> CHR ''m''"
  by (auto simp: is_digit_def lower_char_def)

lemma py_split_word: "c \<notin> set w \<Longrightarrow> py_split c w = [w]"
  by (induction w) auto

lemma py_split_append: "c \<notin> set w \<Longrightarrow> py_split c (w @ c # s) = w # py_split c s"
  by (induction w) auto

definition dotted :: "nat \<Rightarrow> nat \<Rightarrow> nat \<Rightarrow> nat \<Rightarrow> string" where
  "dotted a b c d = nat_digits a @ ''.'' @ nat_digits b @ ''.'' @ nat_digits c @ ''.'' @ nat_digits d"

lemma ipv4_dotted:
  assumes "a < 256" "b < 256" "c < 256" "d < 256"
  shows "ipv4_of (dotted a b c d) = Some (quad a b c d)"
proof -
  have "CHR ''.'' \<notin> set (nat_digits n)" if "n < 256" for n using octets [OF that] digit_chars by (auto simp: list_all_iff)
  then show ?thesis using assms octets by (simp add: ipv4_of_def dotted_def py_split_append py_split_word)
qed

text \<open>What a host of four octets may not be.\<close>

definition private_quad :: "nat \<Rightarrow> nat \<Rightarrow> nat \<Rightarrow> nat \<Rightarrow> bool" where
  "private_quad a b c d \<longleftrightarrow> a \<in> {0, 10, 127} \<or> 240 \<le> a \<or> (a = 169 \<and> b = 254) \<or> (a = 172 \<and> 16 \<le> b \<and> b < 32) \<or> (a = 192 \<and> b = 168) \<or>
     (a = 192 \<and> b = 0 \<and> c = 0 \<and> d \<notin> {9, 10}) \<or> (a = 192 \<and> b = 0 \<and> c = 2) \<or> (a = 198 \<and> b \<in> {18, 19}) \<or>
     (a = 198 \<and> b = 51 \<and> c = 100) \<or> (a = 203 \<and> b = 0 \<and> c = 113)"

lemma radix_div: "y < m \<Longrightarrow> (x * m + y) div m = (x :: nat)"
  by simp

lemma radix_eq:
  assumes "y < m" "v < m"
  shows "x * m + y = u * m + v \<longleftrightarrow> x = u \<and> y = (v :: nat)"
proof
  assume eq: "x * m + y = u * m + v"
  have "x = u" using radix_div [OF assms(1), of x] radix_div [OF assms(2), of u] by (simp only: eq)
  with eq show "x = u \<and> y = v" by simp
qed simp

lemmas byte_eq = radix_eq [where m = 256]

lemma quad_div:
  assumes "b < 256" "c < 256" "d < 256"
  shows "quad a b c d div 256 = (a * 256 + b) * 256 + c" and "quad a b c d div 65536 = a * 256 + b" and "quad a b c d div 16777216 = a"
proof -
  show q8: "quad a b c d div 256 = (a * 256 + b) * 256 + c" unfolding quad_def using assms by (intro radix_div) simp
  have "quad a b c d div 65536 = quad a b c d div 256 div 256" using div_mult2_eq [of "quad a b c d" 256 256] by simp
  then show q16: "quad a b c d div 65536 = a * 256 + b" unfolding q8 using radix_div [of c 256] assms by simp
  have "quad a b c d div 16777216 = quad a b c d div 65536 div 256" using div_mult2_eq [of "quad a b c d" 65536 256] by simp
  then show "quad a b c d div 16777216 = a" unfolding q16 using assms by simp
qed

lemma half_word:
  assumes "b < 256" "c < 256" "d < 256"
  shows "quad a b c d div 268435456 = a div 16" and "quad a b c d div 1048576 = a * 16 + b div 16" and "quad a b c d div 131072 = a * 128 + b div 2"
    and "quad a b c d div 2 = ((a * 256 + b) * 256 + c) * 128 + d div 2"
proof -
  note q = quad_div [OF assms]
  have "quad a b c d div 268435456 = quad a b c d div 16777216 div 16" using div_mult2_eq [of "quad a b c d" 16777216 16] by simp
  then show "quad a b c d div 268435456 = a div 16" unfolding q .
  have "quad a b c d div 1048576 = quad a b c d div 65536 div 16" using div_mult2_eq [of "quad a b c d" 65536 16] by simp
  then show "quad a b c d div 1048576 = a * 16 + b div 16" unfolding q using div_mult_self1 [of 16 b "a * 16"] by (simp add: algebra_simps)
  have "quad a b c d div 131072 = quad a b c d div 65536 div 2" using div_mult2_eq [of "quad a b c d" 65536 2] by simp
  then show "quad a b c d div 131072 = a * 128 + b div 2" unfolding q using div_mult_self1 [of 2 b "a * 128"] by (simp add: algebra_simps)
  have "(x * 256 + d) div 2 = x * 128 + d div 2" for x using div_mult_self1 [of 2 d "x * 128"] by (simp add: algebra_simps)
  then show "quad a b c d div 2 = ((a * 256 + b) * 256 + c) * 128 + d div 2" unfolding quad_def .
qed

lemma networks:
  assumes "b < 256" "c < 256" "d < 256" "f < 256" "g < 256" "h < 256"
  shows "in_network (quad a b c d) (quad e f g h, 8) \<longleftrightarrow> a = e"
    and "in_network (quad a b c d) (quad e f g h, 16) \<longleftrightarrow> a = e \<and> b = f"
    and "in_network (quad a b c d) (quad e f g h, 24) \<longleftrightarrow> a = e \<and> b = f \<and> c = g"
    and "in_network (quad a b c d) (quad e f g h, 32) \<longleftrightarrow> a = e \<and> b = f \<and> c = g \<and> d = h"
    and "in_network (quad a b c d) (quad e f g h, 4) \<longleftrightarrow> a div 16 = e div 16"
    and "in_network (quad a b c d) (quad e f g h, 12) \<longleftrightarrow> a = e \<and> b div 16 = f div 16"
    and "in_network (quad a b c d) (quad e f g h, 15) \<longleftrightarrow> a = e \<and> b div 2 = f div 2"
    and "in_network (quad a b c d) (quad e f g h, 31) \<longleftrightarrow> a = e \<and> b = f \<and> c = g \<and> d div 2 = h div 2"
proof -
  note q = quad_div [OF assms(1-3)] quad_div [OF assms(4-6)] half_word [OF assms(1-3)] half_word [OF assms(4-6)]
  have p16: "x * 16 + b div 16 = u * 16 + f div 16 \<longleftrightarrow> x = u \<and> b div 16 = f div 16" for x u :: nat using assms by (intro radix_eq) simp_all
  have p2: "x * 128 + y div 2 = u * 128 + v div 2 \<longleftrightarrow> x = u \<and> y div 2 = v div 2" if "y < 256" "v < 256" for x u y v :: nat using that by (intro radix_eq) simp_all
  show "in_network (quad a b c d) (quad e f g h, 8) \<longleftrightarrow> a = e" by (simp add: in_network_def q)
  show "in_network (quad a b c d) (quad e f g h, 16) \<longleftrightarrow> a = e \<and> b = f" using assms by (simp add: in_network_def q byte_eq del: distrib_right_numeral)
  show "in_network (quad a b c d) (quad e f g h, 24) \<longleftrightarrow> a = e \<and> b = f \<and> c = g" using assms by (simp add: in_network_def q byte_eq del: distrib_right_numeral)
  show "in_network (quad a b c d) (quad e f g h, 32) \<longleftrightarrow> a = e \<and> b = f \<and> c = g \<and> d = h" using assms by (simp add: in_network_def quad_def byte_eq del: distrib_right_numeral)
  show "in_network (quad a b c d) (quad e f g h, 4) \<longleftrightarrow> a div 16 = e div 16" by (simp add: in_network_def q)
  show "in_network (quad a b c d) (quad e f g h, 12) \<longleftrightarrow> a = e \<and> b div 16 = f div 16" by (simp add: in_network_def q p16)
  show "in_network (quad a b c d) (quad e f g h, 15) \<longleftrightarrow> a = e \<and> b div 2 = f div 2" using assms by (simp add: in_network_def q p2)
  show "in_network (quad a b c d) (quad e f g h, 31) \<longleftrightarrow> a = e \<and> b = f \<and> c = g \<and> d div 2 = h div 2" using assms by (simp add: in_network_def q p2 byte_eq del: distrib_right_numeral)
qed

lemma quad_refused:
  assumes "a < 256" "b < 256" "c < 256" "d < 256"
  shows "ipv4_refused (quad a b c d) \<longleftrightarrow> private_quad a b c d"
proof -
  have d16: "a div 16 = 15 \<longleftrightarrow> 240 \<le> a" "b div 16 = Suc 0 \<longleftrightarrow> 16 \<le> b \<and> b < 32" "b div 2 = 9 \<longleftrightarrow> b = 18 \<or> b = 19" using assms by auto
  have top: "a = 255 \<Longrightarrow> 240 \<le> a" by simp
  have net: "ipv4_refused (quad a b c d) \<longleftrightarrow>
    ((a = 0 \<or> a = 10 \<or> a = 127 \<or> a = 169 \<and> b = 254 \<or> a = 172 \<and> 16 \<le> b \<and> b < 32 \<or> a = 192 \<and> b = 0 \<and> c = 0 \<or>
      a = 192 \<and> b = 0 \<and> c = 0 \<and> d div 2 = 85 \<or> a = 192 \<and> b = 0 \<and> c = 2 \<or> a = 192 \<and> b = 168 \<or> a = 198 \<and> (b = 18 \<or> b = 19) \<or>
      a = 198 \<and> b = 51 \<and> c = 100 \<or> a = 203 \<and> b = 0 \<and> c = 113 \<or> 240 \<le> a \<or> a = 255 \<and> b = 255 \<and> c = 255 \<and> d = 255) \<and>
     \<not> (a = 192 \<and> b = 0 \<and> c = 0 \<and> d = 9) \<and> \<not> (a = 192 \<and> b = 0 \<and> c = 0 \<and> d = 10)) \<or> a = 127 \<or> a = 169 \<and> b = 254 \<or> 240 \<le> a"
    unfolding ipv4_refused_def private_networks_def using assms by (simp add: networks d16)
  show ?thesis
  proof (cases "a = 192")
    case True
    then show ?thesis unfolding net private_quad_def by (cases "b = 0"; cases "c = 0") auto
  next
    case False
    with top show ?thesis unfolding net private_quad_def insert_iff empty_iff by argo
  qed
qed

section \<open>URLs with a literal host\<close>

text \<open>A URL as a client would write it: scheme, credentials, host, port, and the rest.\<close>

definition user_part :: "string \<Rightarrow> bool" where
  "user_part u \<longleftrightarrow> (u = [] \<or> last u = CHR ''@'') \<and> (\<forall>c \<in> set u. 32 < (of_char c :: nat) \<and> c \<notin> {CHR ''/'', CHR ''?'', CHR ''#'', CHR ''['', CHR '']''})"

definition port_part :: "string \<Rightarrow> bool" where
  "port_part p \<longleftrightarrow> p = [] \<or> (hd p = CHR '':'' \<and> list_all is_digit (tl p))"

definition tail_part :: "string \<Rightarrow> bool" where
  "tail_part t \<longleftrightarrow> (t = [] \<or> hd t \<in> {CHR ''/'', CHR ''?'', CHR ''#''}) \<and> (\<forall>c \<in> set t. 32 < (of_char c :: nat))"

definition url_of :: "bool \<Rightarrow> string \<Rightarrow> string \<Rightarrow> string \<Rightarrow> string \<Rightarrow> string" where
  "url_of secure user host port rest = (if secure then ''https'' else ''http'') @ ''://'' @ user @ host @ port @ rest"

definition host_chars :: "string \<Rightarrow> bool" where
  "host_chars h \<longleftrightarrow> (\<forall>c \<in> set h. is_digit c \<or> c = CHR ''.'')"

lemma host_char: "host_chars h \<Longrightarrow> c \<in> set h \<Longrightarrow> c \<notin> {CHR ''/'', CHR ''?'', CHR ''#'', CHR ''['', CHR '']'', CHR ''@'', CHR '':''} \<and>
    32 < (of_char c :: nat) \<and> lower_char c = c"
  by (auto simp: host_chars_def is_digit_def lower_char_def)

lemma port_char: "port_part p \<Longrightarrow> c \<in> set p \<Longrightarrow> c \<notin> {CHR ''/'', CHR ''?'', CHR ''#'', CHR ''['', CHR '']'', CHR ''@''} \<and> 32 < (of_char c :: nat)"
  by (cases p) (auto simp: port_part_def is_digit_def list_all_iff)

lemma user_char: "user_part u \<Longrightarrow> c \<in> set u \<Longrightarrow> c \<notin> {CHR ''/'', CHR ''?'', CHR ''#'', CHR ''['', CHR '']''} \<and> 32 < (of_char c :: nat)"
  by (auto simp: user_part_def)

lemma tail_char: "tail_part t \<Longrightarrow> c \<in> set t \<Longrightarrow> 32 < (of_char c :: nat)"
  by (simp add: tail_part_def)

lemma clean_visible: "\<forall>c \<in> set s. 32 < (of_char c :: nat) \<Longrightarrow> clean_url s = s"
  by (cases s) (auto simp: clean_url_def intro!: filter_True)

lemma takeWhile_stop: "\<forall>c \<in> set xs. P c \<Longrightarrow> ys = [] \<or> \<not> P (hd ys) \<Longrightarrow> takeWhile P (xs @ ys) = xs"
  by (induction xs) (auto simp: takeWhile_eq_Nil_iff)

lemma after_user: "user_part u \<Longrightarrow> CHR ''@'' \<notin> set s \<Longrightarrow> after_at (u @ s) = s"
proof -
  assume u: "user_part u" and s: "CHR ''@'' \<notin> set s"
  have "rev u = [] \<or> hd (rev u) = CHR ''@''" using u by (auto simp: user_part_def hd_rev)
  then have "takeWhile (\<lambda>c. c \<noteq> CHR ''@'') (rev s @ rev u) = rev s" using s by (intro takeWhile_stop) auto
  then show ?thesis by (simp add: after_at_def)
qed

lemma urlparse_url:
  assumes "user_part u" and "host_chars h" and "port_part p" and "tail_part t"
  shows "urlparse ipv6 (url_of secure u h p t) = Some (if secure then ''https'' else ''http'', h)"
proof -
  let ?s = "if secure then ''https'' else ''http''"
  have "clean_url (url_of secure u h p t) = url_of secure u h p t"
    by (rule clean_visible)
      (auto simp: url_of_def dest: user_char [OF assms(1)] host_char [OF assms(2)] port_char [OF assms(3)] tail_char [OF assms(4)])
  moreover have "split_scheme (url_of secure u h p t) = (?s, ''//'' @ u @ h @ p @ t)"
    by (cases secure) (simp_all add: split_scheme_def url_of_def alpha_def scheme_char_def py_lower_def lower_char_def)
  moreover have net: "netloc_of (''//'' @ u @ h @ p @ t) = u @ h @ p"
  proof -
    have chars: "\<forall>c \<in> set (u @ h @ p). c \<notin> {CHR ''/'', CHR ''?'', CHR ''#''}"
      by (auto dest: user_char [OF assms(1)] host_char [OF assms(2)] port_char [OF assms(3)])
    have stop: "t = [] \<or> \<not> hd t \<notin> {CHR ''/'', CHR ''?'', CHR ''#''}" using assms(4) by (simp add: tail_part_def)
    from takeWhile_stop [OF chars stop] show ?thesis by (simp add: netloc_of_def)
  qed
  moreover have "brackets_ok ipv6 (u @ h @ p)" unfolding brackets_ok_def
    by (auto dest: user_char [OF assms(1)] host_char [OF assms(2)] port_char [OF assms(3)])
  moreover have "host_of (u @ h @ p) = h"
  proof -
    have "after_at (u @ h @ p) = h @ p"
      by (rule after_user [OF assms(1)]) (auto dest: host_char [OF assms(2)] port_char [OF assms(3)])
    moreover have "CHR ''['' \<notin> set (h @ p)" by (auto dest: host_char [OF assms(2)] port_char [OF assms(3)])
    moreover have "takeWhile (\<lambda>c. c \<noteq> CHR '':'') (h @ p) = h"
      using assms(3) by (intro takeWhile_stop) (auto simp: port_part_def dest: host_char [OF assms(2)])
    ultimately show ?thesis by (simp add: host_of_def)
  qed
  moreover have "py_lower h = h" using host_char [OF assms(2)] by (simp add: py_lower_def map_idI)
  ultimately show ?thesis by (simp add: urlparse_def)
qed



text \<open>Other ways to write an address are not recognised, so they pass.\<close>

lemma unusual_hosts_pass:
  "validate_outbound_url (\<lambda>_. None) ''http://127.1/'' = Inr ()" "validate_outbound_url (\<lambda>_. None) ''http://2130706433/'' = Inr ()"
  by code_simp+

text \<open>Placeholders in the URL are counted as secrets in use, and sent as they are.\<close>

lemma url_secret_not_rendered:
  "secret_names_in (empty_config\<lparr>cf_url := Some ''https://example.com/{{secret:token}}''\<rparr>) = [''token'']"
  by code_simp

end
