(* ===== verification/Views.thy ===== *)
theory Views
  imports Ops Auth
begin

text \<open>
  The response models of \<open>schemas\<close>: what of a row an answer shows. The digest of a key, the ciphertext of a secret
  and the signing secret of a webhook endpoint are in none of them.
\<close>

section \<open>Workflows\<close>

record task_view =
  tv_id :: uid
  tv_name :: string
  tv_deps :: "string list"
  tv_config :: task_config

record workflow_view =
  wv_id :: uid
  wv_name :: string
  wv_description :: "string option"
  wv_current_revision :: int
  wv_is_archived :: bool
  wv_created_at :: time
  wv_updated_at :: time
  wv_tasks :: "task_view list"

record revision_view =
  vv_id :: uid
  vv_revision :: int
  vv_document :: wf_document
  vv_created_by :: string
  vv_created_at :: time

record schedule_view =
  cv_id :: uid
  cv_workflow :: uid
  cv_cron :: "string option"
  cv_interval_seconds :: "int option"
  cv_next_run_at :: time
  cv_is_enabled :: bool
  cv_created_at :: time
  cv_last_run_at :: "time option"

definition view_task :: "task_definition \<Rightarrow> task_view" where
  "view_task t = \<lparr>tv_id = td_id t, tv_name = td_name t, tv_deps = td_deps t, tv_config = td_config t\<rparr>"

text \<open>The relationship \<open>Workflow.tasks\<close>.\<close>

definition tasks_of_workflow :: "uid \<Rightarrow> db \<Rightarrow> task_definition list" where
  "tasks_of_workflow wid d = sort_key td_created_at (filter (\<lambda>t. td_workflow t = wid) (task_defs d))"

definition view_workflow :: "db \<Rightarrow> workflow \<Rightarrow> workflow_view" where
  "view_workflow d w = \<lparr>wv_id = wf_id w, wv_name = wf_name w, wv_description = wf_description w,
     wv_current_revision = wf_current_revision w, wv_is_archived = wf_is_archived w, wv_created_at = wf_created_at w,
     wv_updated_at = wf_updated_at w, wv_tasks = map view_task (tasks_of_workflow (wf_id w) d)\<rparr>"

definition view_revision :: "wf_revision \<Rightarrow> revision_view" where
  "view_revision r = \<lparr>vv_id = rv_id r, vv_revision = rv_revision r, vv_document = rv_document r,
     vv_created_by = rv_created_by r, vv_created_at = rv_created_at r\<rparr>"

definition view_schedule :: "wf_schedule \<Rightarrow> schedule_view" where
  "view_schedule s = \<lparr>cv_id = sc_id s, cv_workflow = sc_workflow s, cv_cron = sc_cron s,
     cv_interval_seconds = sc_interval_seconds s, cv_next_run_at = sc_next_run_at s, cv_is_enabled = sc_is_enabled s,
     cv_created_at = sc_created_at s, cv_last_run_at = sc_last_run_at s\<rparr>"

section \<open>Executions\<close>

record execution_view =
  ev_id :: uid
  ev_workflow :: uid
  ev_workflow_name :: string
  ev_revision :: int
  ev_status :: execution_status
  ev_cancel_requested :: bool
  ev_triggered_by :: string
  ev_created_at :: time
  ev_started_at :: "time option"
  ev_finished_at :: "time option"
  ev_updated_at :: time

record etask_view =
  kv_id :: uid
  kv_execution :: uid
  kv_task :: "uid option"
  kv_name :: string
  kv_deps :: "string list"
  kv_config :: task_config
  kv_status :: task_state
  kv_retries :: int
  kv_started_at :: "time option"
  kv_finished_at :: "time option"
  kv_error :: "string option"
  kv_worker :: "string option"

record log_view =
  lv_id :: uid
  lv_execution :: uid
  lv_task :: "uid option"
  lv_level :: string
  lv_message :: string
  lv_created_at :: time

definition view_execution :: "execution \<Rightarrow> execution_view" where
  "view_execution e = \<lparr>ev_id = ex_id e, ev_workflow = ex_workflow e, ev_workflow_name = ex_workflow_name e,
     ev_revision = ex_revision e, ev_status = ex_status e, ev_cancel_requested = ex_cancel_requested e,
     ev_triggered_by = ex_triggered_by e, ev_created_at = ex_created_at e, ev_started_at = ex_started_at e,
     ev_finished_at = ex_finished_at e, ev_updated_at = ex_updated_at e\<rparr>"

definition view_etask :: "etask \<Rightarrow> etask_view" where
  "view_etask t = \<lparr>kv_id = et_id t, kv_execution = et_execution t, kv_task = et_task t, kv_name = et_name t,
     kv_deps = et_deps t, kv_config = et_config t, kv_status = et_status t, kv_retries = et_retries t,
     kv_started_at = et_started_at t, kv_finished_at = et_finished_at t, kv_error = et_error t, kv_worker = et_worker t\<rparr>"

definition view_log :: "elog \<Rightarrow> log_view" where
  "view_log l = \<lparr>lv_id = lg_id l, lv_execution = lg_execution l, lv_task = lg_task l, lv_level = lg_level l,
     lv_message = lg_message l, lv_created_at = lg_created_at l\<rparr>"

section \<open>Keys and operations\<close>

record key_view =
  yv_id :: uid
  yv_name :: string
  yv_prefix :: string
  yv_role :: string
  yv_created_at :: time
  yv_last_used_at :: "time option"
  yv_revoked_at :: "time option"

record audit_view =
  av_id :: uid
  av_actor_label :: string
  av_action :: string
  av_resource_type :: string
  av_resource_id :: string
  av_details :: json
  av_created_at :: time

record secret_view =
  sv_id :: uid
  sv_name :: string
  sv_created_at :: time
  sv_updated_at :: time

record webhook_view =
  bv_id :: uid
  bv_url :: string
  bv_events :: "string list"
  bv_is_active :: bool
  bv_created_at :: time

record delivery_view =
  dv_id :: uid
  dv_endpoint :: uid
  dv_event_type :: string
  dv_status :: string
  dv_attempts :: int
  dv_next_attempt_at :: time
  dv_last_error :: "string option"
  dv_created_at :: time
  dv_delivered_at :: "time option"

record dead_letter_view =
  jv_id :: uid
  jv_execution :: uid
  jv_etask :: uid
  jv_task :: uid
  jv_attempts :: int
  jv_last_error :: "string option"
  jv_created_at :: time
  jv_completed_at :: "time option"

definition view_key :: "api_key \<Rightarrow> key_view" where
  "view_key k = \<lparr>yv_id = ak_id k, yv_name = ak_name k, yv_prefix = ak_prefix k, yv_role = ak_role k,
     yv_created_at = ak_created_at k, yv_last_used_at = ak_last_used_at k, yv_revoked_at = ak_revoked_at k\<rparr>"

definition view_audit :: "audit_log \<Rightarrow> audit_view" where
  "view_audit a = \<lparr>av_id = au_id a, av_actor_label = au_actor_label a, av_action = au_action a,
     av_resource_type = au_resource_type a, av_resource_id = au_resource_id a, av_details = au_details a, av_created_at = au_created_at a\<rparr>"

definition view_secret :: "secret_record \<Rightarrow> secret_view" where
  "view_secret s = \<lparr>sv_id = sr_id s, sv_name = sr_name s, sv_created_at = sr_created_at s, sv_updated_at = sr_updated_at s\<rparr>"

definition view_webhook :: "webhook_endpoint \<Rightarrow> webhook_view" where
  "view_webhook w = \<lparr>bv_id = wh_id w, bv_url = wh_url w, bv_events = wh_events w, bv_is_active = wh_is_active w,
     bv_created_at = wh_created_at w\<rparr>"

definition view_delivery :: "webhook_delivery \<Rightarrow> delivery_view" where
  "view_delivery x = \<lparr>dv_id = wd_id x, dv_endpoint = wd_endpoint x, dv_event_type = wd_event_type x, dv_status = wd_status x,
     dv_attempts = wd_attempts x, dv_next_attempt_at = wd_next_attempt_at x, dv_last_error = wd_last_error x,
     dv_created_at = wd_created_at x, dv_delivered_at = wd_delivered_at x\<rparr>"

definition view_dead_letter :: "job \<Rightarrow> dead_letter_view" where
  "view_dead_letter j = \<lparr>jv_id = qj_id j, jv_execution = qj_execution j, jv_etask = qj_etask j, jv_task = qj_task j,
     jv_attempts = qj_attempts j, jv_last_error = qj_last_error j, jv_created_at = qj_created_at j, jv_completed_at = qj_completed_at j\<rparr>"

end
