(* ===== verification/Seed.thy ===== *)
theory Seed
  imports Catalogue Auth
begin

text \<open>
  \<open>services/seed_service.py\<close> and \<open>sample_data\<close>: the workflows a new installation starts with, and the templates
  the API offers. A raw document has the fields the data names; the rest are defaults.
\<close>

definition sample :: "string \<Rightarrow> string list \<Rightarrow> task_config \<Rightarrow> raw_task" where
  "sample name deps cfg = \<lparr>ts_name = name, ts_deps = deps, ts_config = cfg, rt_extra = []\<rparr>"

definition lasting :: "int \<Rightarrow> task_config" where
  "lasting ms = empty_config\<lparr>cf_duration_ms := Some ms\<rparr>"

type_synonym raw_workflow = "string \<times> string option \<times> raw_task list"

definition SAMPLE_WORKFLOWS :: "raw_workflow list" where
  "SAMPLE_WORKFLOWS =
    [(''ETL Pipeline'', None,
      [sample ''extract'' [] ((lasting 1200)\<lparr>cf_max_retries := Some 1, cf_priority := Some 2\<rparr>),
       sample ''transform'' [''extract''] ((lasting 1400)\<lparr>cf_fail_first_n := Some 1, cf_max_retries := Some 2, cf_backoff_seconds := Some 1\<rparr>),
       sample ''quality_check'' [''transform''] ((lasting 900)\<lparr>cf_priority := Some 1\<rparr>),
       sample ''load'' [''quality_check''] (lasting 1300)]),
     (''ML Training Pipeline'', None,
      [sample ''prepare_dataset'' [] (lasting 1000),
       sample ''train_model'' [''prepare_dataset''] (lasting 2200),
       sample ''evaluate_model'' [''train_model''] (lasting 1100),
       sample ''deploy_shadow'' [''evaluate_model''] ((lasting 800)\<lparr>cf_delay_seconds := Some 1\<rparr>)])]"

definition TEMPLATE_WORKFLOWS :: "raw_workflow list" where
  "TEMPLATE_WORKFLOWS =
    [(''Service health probe'', Some ''Calls three public endpoints over HTTP and records their status.'',
      [sample ''probe_example'' [] (empty_config\<lparr>cf_type := Some ''http'', cf_method := Some ''GET'', cf_url := Some ''https://example.com'',
         cf_expected_status := Some 200, cf_max_retries := Some 2, cf_backoff_seconds := Some 2, cf_timeout_seconds := Some 15\<rparr>),
       sample ''record_result'' [''probe_example'']
         ((lasting 100)\<lparr>cf_type := Some ''echo'', cf_message := Some ''Health probe finished.''\<rparr>)]),
     (''Fan-out / fan-in'', Some ''Runs three parallel branches and joins them before publishing.'',
      [sample ''start'' [] (lasting 300), sample ''branch_a'' [''start''] (lasting 800), sample ''branch_b'' [''start''] (lasting 1200),
       sample ''branch_c'' [''start''] (lasting 600), sample ''join'' [''branch_a'', ''branch_b'', ''branch_c''] (lasting 400),
       sample ''publish'' [''join''] ((lasting 200)\<lparr>cf_type := Some ''echo''\<rparr>)]),
     (''Resilient ingestion'', Some ''Demonstrates retries with exponential backoff and idempotent output.'',
      [sample ''fetch'' [] ((lasting 500)\<lparr>cf_fail_first_n := Some 2, cf_max_retries := Some 3, cf_backoff_seconds := Some 1\<rparr>),
       sample ''normalize'' [''fetch''] (lasting 700),
       sample ''write'' [''normalize''] ((lasting 400)\<lparr>cf_type := Some ''echo'', cf_message := Some ''Rows written.''\<rparr>)])]"

definition parse_raw :: "raw_workflow \<Rightarrow> workflow_create option" where
  "parse_raw r = (case r of (name, desc, tasks) \<Rightarrow> make_create name desc tasks)"

text \<open>One sample after the other; each create commits.\<close>

definition seed_one :: "time \<Rightarrow> uid \<Rightarrow> db \<Rightarrow> raw_workflow \<Rightarrow> py_error + db" where
  "seed_one now tenant d r = (case parse_raw r of
     None \<Rightarrow> Inl ValidationError
   | Some p \<Rightarrow> (case create_workflow now (\<lambda>x. x) tenant p ''seed'' None d of Inl e \<Rightarrow> Inl e | Inr (w, d') \<Rightarrow> Inr d'))"

definition seed_default_workflows :: "time \<Rightarrow> uid \<Rightarrow> db \<Rightarrow> py_error + db" where
  "seed_default_workflows now tenant d =
     (if \<exists>w \<in> set (workflows d). wf_tenant w = tenant then Inr d else fold_res (seed_one now tenant) d SAMPLE_WORKFLOWS)"

text \<open>The database part of starting a process.\<close>

definition start_up :: "settings \<Rightarrow> (string \<Rightarrow> string) \<Rightarrow> time \<Rightarrow> db \<Rightarrow> py_error + db" where
  "start_up S hash now d = (case ensure_bootstrap S hash now d of (p, d1) \<Rightarrow> seed_default_workflows now (pr_tenant p) d1)"

section \<open>The samples are valid\<close>

lemmas parsing = parse_raw_def make_create_def make_tasks_def make_task_def make_name_def normalize_name_def sample_def
    lasting_def py_strip_def is_space_def make_config_def fill_config_def config_fields_ok_def validate_headers_def validate_retry_bounds_def
    empty_config_def opt_all_def between_def normalize_dependencies_def Let_def

definition sound_raw :: "raw_workflow \<Rightarrow> bool" where
  "sound_raw r \<longleftrightarrow> (case parse_raw r of None \<Rightarrow> False | Some p \<Rightarrow> validate (wc_tasks p) = Inr ())"

lemma samples_sound: "\<forall>r \<in> set SAMPLE_WORKFLOWS. sound_raw r"
proof -
  have "sound_raw (SAMPLE_WORKFLOWS ! 0)" by (simp add: SAMPLE_WORKFLOWS_def sound_raw_def parsing) code_simp
  moreover have "sound_raw (SAMPLE_WORKFLOWS ! 1)" by (simp add: SAMPLE_WORKFLOWS_def sound_raw_def parsing) code_simp
  ultimately show ?thesis by (simp add: SAMPLE_WORKFLOWS_def)
qed

lemma templates_sound: "\<forall>r \<in> set TEMPLATE_WORKFLOWS. sound_raw r"
proof -
  have "sound_raw (TEMPLATE_WORKFLOWS ! 0)" by (simp add: TEMPLATE_WORKFLOWS_def sound_raw_def parsing) code_simp
  moreover have "sound_raw (TEMPLATE_WORKFLOWS ! 1)" by (simp add: TEMPLATE_WORKFLOWS_def sound_raw_def parsing) code_simp
  moreover have "sound_raw (TEMPLATE_WORKFLOWS ! 2)" by (simp add: TEMPLATE_WORKFLOWS_def sound_raw_def parsing) code_simp
  ultimately show ?thesis by (simp add: TEMPLATE_WORKFLOWS_def numeral_2_eq_2)
qed

lemma sample_names: "map fst SAMPLE_WORKFLOWS = [''ETL Pipeline'', ''ML Training Pipeline'']" "\<forall>n \<in> set (map fst SAMPLE_WORKFLOWS). py_strip n = n"
  by (simp_all add: SAMPLE_WORKFLOWS_def py_strip_def is_space_def)

section \<open>Starting a process\<close>

lemma insert_task_defs_outer: "outer_tables (fold (insert_task_def now wid) ts d) = outer_tables d"
  by (induction ts arbitrary: d) (simp_all add: insert_task_def_def generate_uuid_def outer_tables_def)

lemma write_document_outer [simp]: "outer_tables (write_document now wid tenant actor doc d) = outer_tables d"
  using insert_task_defs_outer [of now wid "doc_tasks doc" d]
  by (simp add: write_document_def insert_revision_def generate_uuid_def outer_tables_def)

lemma create_outer:
  assumes "create_workflow now (\<lambda>x. x) tenant payload actor ov d = Inr (w, d')"
  shows "outer_tables d' = outer_tables d" and "\<exists>r. workflows d' = workflows d @ [r] \<and> wf_tenant r = tenant \<and> wf_name r = create_name payload ov"
proof -
  let ?wid = "uuid_supply d (uuid_draws d)"
  let ?d2 = "d\<lparr>uuid_draws := Suc (uuid_draws d), workflows := workflows d @ [created_row now tenant payload ov ?wid]\<rparr>"
  have d': "d' = write_document now ?wid tenant actor (create_document payload ov) ?d2"
    using assms by (auto simp: create_steps Let_def split: sum.splits if_splits option.splits)
  have "outer_tables d' = outer_tables ?d2" unfolding d' by (rule write_document_outer)
  then show "outer_tables d' = outer_tables d" by (simp add: outer_tables_def)
  from write_document_tables [of now ?wid tenant actor "create_document payload ov" ?d2]
  have "workflows d' = workflows ?d2" unfolding d' by metis
  then show "\<exists>r. workflows d' = workflows d @ [r] \<and> wf_tenant r = tenant \<and> wf_name r = create_name payload ov"
    by (simp add: created_row_def)
qed

lemma create_total:
  assumes "validate (wc_tasks payload) = Inr ()" and "\<not> name_exists tenant (create_name payload ov) None d"
  shows "\<exists>w d'. create_workflow now (\<lambda>x. x) tenant payload actor ov d = Inr (w, d')"
proof -
  let ?wid = "uuid_supply d (uuid_draws d)"
  let ?w = "created_row now tenant payload ov ?wid"
  let ?d2 = "d\<lparr>uuid_draws := Suc (uuid_draws d), workflows := workflows d @ [?w]\<rparr>"
  let ?d3 = "write_document now ?wid tenant actor (create_document payload ov) ?d2"
  from write_document_tables [of now ?wid tenant actor "create_document payload ov" ?d2] have "workflows ?d3 = workflows ?d2" by metis
  then have "?w \<in> set (workflows ?d3)" by simp
  moreover have "wf_id ?w = ?wid" "wf_tenant ?w = tenant" by (simp_all add: created_row_def)
  ultimately have "get_workflow tenant ?wid True ?d3 \<noteq> None" unfolding get_workflow_def find_None_iff by blast
  then show ?thesis using assms by (auto simp: create_steps Let_def split: option.splits)
qed

lemma seed_one_ok:
  assumes "platform_ok S d" and "sound_raw (name, desc, raws)" and "py_strip name = name"
    and "\<forall>w \<in> set (workflows d). wf_tenant w = tenant \<longrightarrow> wf_name w \<noteq> name"
  shows "\<exists>d' r. seed_one now tenant d (name, desc, raws) = Inr d' \<and> platform_ok S d' \<and> outer_tables d' = outer_tables d \<and>
    workflows d' = workflows d @ [r] \<and> wf_tenant r = tenant \<and> wf_name r = name"
proof -
  obtain p where p: "make_create name desc raws = Some p" and v: "validate (wc_tasks p) = Inr ()"
    using assms(2) by (auto simp: sound_raw_def parse_raw_def split: option.splits)
  have "wc_name p = name" using p assms(3) by (auto simp: make_create_def make_name_def normalize_name_def Let_def split: option.splits if_splits)
  then have cn: "create_name p None = name" using assms(3) by (simp add: create_name_def or_string_def)
  have "\<not> name_exists tenant (create_name p None) None d" using assms(4) by (auto simp: name_exists_def cn)
  from create_total [OF v this] obtain w d' where c: "create_workflow now (\<lambda>x. x) tenant p ''seed'' None d = Inr (w, d')" by blast
  have "platform_ok S d'" by (rule created_keeps [OF assms(1) lawful_id make_create_fields(2) [OF p] c])
  with create_outer [OF c] c p show ?thesis by (auto simp: seed_one_def parse_raw_def cn)
qed

lemma seed_grows: "fold_res (seed_one now tenant) d rs = Inr d' \<Longrightarrow> outer_tables d' = outer_tables d \<and>
    (rs \<noteq> [] \<longrightarrow> (\<exists>w \<in> set (workflows d'). wf_tenant w = tenant)) \<and> set (workflows d) \<subseteq> set (workflows d')"
proof (induction rs arbitrary: d)
  case Nil
  then show ?case by simp
next
  case (Cons r rs)
  then obtain d1 where one: "seed_one now tenant d r = Inr d1" and rest: "fold_res (seed_one now tenant) d1 rs = Inr d'"
    by (auto split: sum.splits)
  then obtain p w where c: "create_workflow now (\<lambda>x. x) tenant p ''seed'' None d = Inr (w, d1)"
    by (auto simp: seed_one_def split: option.splits sum.splits)
  from create_outer [OF c] Cons.IH [OF rest] show ?case by auto
qed

lemma bootstrap_again:
  assumes "ensure_bootstrap S hash now d = (p, d1)" and "outer_tables d' = outer_tables d1"
  shows "\<exists>q. ensure_bootstrap S hash later d' = (q, d') \<and> pr_tenant q = pr_tenant p"
proof -
  have o: "tenants d' = tenants d1" "api_keys d' = api_keys d1" using assms(2) by (simp_all add: outer_tables_def)
  obtain t d0 where t: "ensure_tenant S now d = (t, d0)" by fastforce
  then have ft: "find (\<lambda>t. tn_slug t = ''default'') (tenants d0) = Some t"
    by (auto simp: ensure_tenant_def generate_uuid_def Let_def find_append split: option.splits)
  have fk: "tenants d1 = tenants d0 \<and> (\<exists>k. find (\<lambda>k. ak_hash k = hash (bootstrap_api_key S)) (api_keys d1) = Some k) \<and> pr_tenant p = tn_id t"
    using assms(1) t by (auto simp: ensure_bootstrap_def insert_key_def generate_uuid_def Let_def find_append principal_of_def split: option.splits)
  then obtain k where "find (\<lambda>k. ak_hash k = hash (bootstrap_api_key S)) (api_keys d') = Some k" using o by auto
  then show ?thesis using ft fk by (auto simp: ensure_bootstrap_def ensure_tenant_def o principal_of_def Let_def)
qed

text \<open>Starting a second process, or the same one again, changes nothing.\<close>

theorem start_up_idempotent:
  assumes "start_up S hash now d = Inr d'"
  shows "start_up S hash later d' = Inr d'"
proof -
  obtain p d1 where b: "ensure_bootstrap S hash now d = (p, d1)" by fastforce
  have s: "seed_default_workflows now (pr_tenant p) d1 = Inr d'" using assms by (simp add: start_up_def b)
  have "outer_tables d' = outer_tables d1 \<and> (\<exists>w \<in> set (workflows d'). wf_tenant w = pr_tenant p)"
  proof (cases "\<exists>w \<in> set (workflows d1). wf_tenant w = pr_tenant p")
    case True
    with s show ?thesis by (auto simp: seed_default_workflows_def)
  next
    case False
    with s have "fold_res (seed_one now (pr_tenant p)) d1 SAMPLE_WORKFLOWS = Inr d'" by (auto simp: seed_default_workflows_def)
    from seed_grows [OF this] show ?thesis by (simp add: SAMPLE_WORKFLOWS_def)
  qed
  then show ?thesis using bootstrap_again [OF b, of d' later] by (auto simp: start_up_def seed_default_workflows_def)
qed

text \<open>A consistent installation without workflows gets the two samples, and stays consistent.\<close>

theorem seeding_installs_samples:
  assumes "platform_ok S d" and "\<forall>w \<in> set (workflows d). wf_tenant w \<noteq> tenant"
  shows "\<exists>d'. seed_default_workflows now tenant d = Inr d' \<and> platform_ok S d' \<and> outer_tables d' = outer_tables d \<and>
    map wf_name (filter (\<lambda>w. wf_tenant w = tenant) (workflows d')) = [''ETL Pipeline'', ''ML Training Pipeline'']"
proof -
  obtain n1 de1 r1 n2 de2 r2 where sam: "SAMPLE_WORKFLOWS = [(n1, de1, r1), (n2, de2, r2)]" by (simp add: SAMPLE_WORKFLOWS_def)
  have names: "n1 = ''ETL Pipeline''" "n2 = ''ML Training Pipeline''" "py_strip n1 = n1" "py_strip n2 = n2"
    using sample_names by (simp_all add: sam)
  have sound: "sound_raw (n1, de1, r1)" "sound_raw (n2, de2, r2)" using samples_sound by (simp_all add: sam)
  have none: "\<forall>w \<in> set (workflows d). wf_tenant w = tenant \<longrightarrow> wf_name w \<noteq> n1" using assms(2) by auto
  from seed_one_ok [OF assms(1) sound(1) names(3) none, of now] obtain e w1 where e: "seed_one now tenant d (n1, de1, r1) = Inr e" "platform_ok S e"
    "outer_tables e = outer_tables d" "workflows e = workflows d @ [w1]" "wf_tenant w1 = tenant" "wf_name w1 = n1" by blast
  have "\<forall>w \<in> set (workflows e). wf_tenant w = tenant \<longrightarrow> wf_name w \<noteq> n2" using assms(2) e names by auto
  from seed_one_ok [OF e(2) sound(2) names(4) this, of now] obtain f w2 where f: "seed_one now tenant e (n2, de2, r2) = Inr f" "platform_ok S f"
    "outer_tables f = outer_tables e" "workflows f = workflows e @ [w2]" "wf_tenant w2 = tenant" "wf_name w2 = n2" by blast
  have "filter (\<lambda>w. wf_tenant w = tenant) (workflows d) = []" using assms(2) by (simp add: filter_empty_conv)
  with e f names show ?thesis using assms(2) by (auto simp: seed_default_workflows_def sam)
qed

end
