(* ===== verification/Http.thy ===== *)
theory Http
  imports Handlers Realtime Views Seed
begin

text \<open>
  The HTTP API: \<open>main.py\<close> with its middleware and error handlers, and the routes of \<open>api/routes\<close> with the role
  each one asks for. FastAPI decodes the body and converts query values to their types; a \<open>payload\<close> and a \<open>query\<close>
  are what it hands over. A request is served alone here; what may happen between the steps of a method is
  an argument of the methods themselves.
\<close>

section \<open>Routes\<close>

datatype seg = Lit string | Arg

datatype route =
    RMe | RListKeys | RCreateKey | RRevokeKey
  | RTemplates | RImport | RCreateWorkflow | RListWorkflows | RGetWorkflow | RUpdateWorkflow | RDeleteWorkflow | RClone
  | RRevisions | RExport | RListSchedules | RCreateSchedule
  | RRun | RListExecutions | RGetExecution | RGetTasks | RGetLogs | RCancel | RRetry | RRetryTask | RSkipTask
  | RQueueStatus | RWorkersStatus | RSnapshot
  | RAudit | RListSecrets | RCreateSecret | RDeleteSecret | RListWebhooks | RCreateWebhook | RDeleteWebhook | RDeliveries
  | RDeadLetters | RReplay | RDeleteSchedule | RDiagnostics
  | RHealth | RLive | RReady | RMetrics

text \<open>
  The decorator of a route function: the method, the path and the status of a success; and the role of its
  \<open>Depends(require_role(..))\<close>, which the last four routes do not have.
\<close>

record decorated =
  de_method :: string
  de_path :: "seg list"
  de_role :: "string option"
  de_status :: nat
  de_route :: route

definition guarded :: "string \<Rightarrow> seg list \<Rightarrow> string \<Rightarrow> nat \<Rightarrow> route \<Rightarrow> decorated" where
  "guarded m p role status r = \<lparr>de_method = m, de_path = p, de_role = Some role, de_status = status, de_route = r\<rparr>"

definition unguarded :: "seg list \<Rightarrow> route \<Rightarrow> decorated" where
  "unguarded p r = \<lparr>de_method = ''GET'', de_path = Lit [] # p, de_role = None, de_status = 200, de_route = r\<rparr>"

definition under :: "seg list \<Rightarrow> decorated list \<Rightarrow> decorated list" where
  "under prefix = map (\<lambda>d. d\<lparr>de_path := prefix @ de_path d\<rparr>)"

definition auth_routes :: "decorated list" where
  "auth_routes = under [Lit ''auth'']
     [guarded ''GET'' [Lit ''me''] ''viewer'' 200 RMe,
      guarded ''GET'' [Lit ''keys''] ''admin'' 200 RListKeys,
      guarded ''POST'' [Lit ''keys''] ''admin'' 201 RCreateKey,
      guarded ''DELETE'' [Lit ''keys'', Arg] ''admin'' 204 RRevokeKey]"

definition workflow_routes :: "decorated list" where
  "workflow_routes = under [Lit ''workflows'']
     [guarded ''GET'' [Lit ''templates''] ''viewer'' 200 RTemplates,
      guarded ''POST'' [Lit ''import''] ''operator'' 201 RImport,
      guarded ''POST'' [] ''operator'' 201 RCreateWorkflow,
      guarded ''GET'' [] ''viewer'' 200 RListWorkflows,
      guarded ''GET'' [Arg] ''viewer'' 200 RGetWorkflow,
      guarded ''PATCH'' [Arg] ''operator'' 200 RUpdateWorkflow,
      guarded ''DELETE'' [Arg] ''admin'' 204 RDeleteWorkflow,
      guarded ''POST'' [Arg, Lit ''clone''] ''operator'' 201 RClone,
      guarded ''GET'' [Arg, Lit ''revisions''] ''viewer'' 200 RRevisions,
      guarded ''GET'' [Arg, Lit ''export''] ''viewer'' 200 RExport,
      guarded ''GET'' [Arg, Lit ''schedules''] ''viewer'' 200 RListSchedules,
      guarded ''POST'' [Arg, Lit ''schedules''] ''operator'' 201 RCreateSchedule]"

definition execution_routes :: "decorated list" where
  "execution_routes =
     [guarded ''POST'' [Lit ''workflows'', Arg, Lit ''run''] ''operator'' 200 RRun,
      guarded ''GET'' [Lit ''executions''] ''viewer'' 200 RListExecutions,
      guarded ''GET'' [Lit ''executions'', Arg] ''viewer'' 200 RGetExecution,
      guarded ''GET'' [Lit ''executions'', Arg, Lit ''tasks''] ''viewer'' 200 RGetTasks,
      guarded ''GET'' [Lit ''executions'', Arg, Lit ''logs''] ''viewer'' 200 RGetLogs,
      guarded ''POST'' [Lit ''executions'', Arg, Lit ''cancel''] ''operator'' 200 RCancel,
      guarded ''POST'' [Lit ''executions'', Arg, Lit ''retry''] ''operator'' 200 RRetry,
      guarded ''POST'' [Lit ''executions'', Arg, Lit ''tasks'', Arg, Lit ''retry''] ''operator'' 200 RRetryTask,
      guarded ''POST'' [Lit ''executions'', Arg, Lit ''tasks'', Arg, Lit ''skip''] ''operator'' 200 RSkipTask]"

definition monitor_routes :: "decorated list" where
  "monitor_routes =
     [guarded ''GET'' [Lit ''queue'', Lit ''status''] ''operator'' 200 RQueueStatus,
      guarded ''GET'' [Lit ''workers'', Lit ''status''] ''admin'' 200 RWorkersStatus,
      guarded ''GET'' [Lit ''system'', Lit ''snapshot''] ''admin'' 200 RSnapshot]"

definition ops_routes :: "decorated list" where
  "ops_routes =
     [guarded ''GET'' [Lit ''audit''] ''admin'' 200 RAudit,
      guarded ''GET'' [Lit ''secrets''] ''admin'' 200 RListSecrets,
      guarded ''POST'' [Lit ''secrets''] ''admin'' 201 RCreateSecret,
      guarded ''DELETE'' [Lit ''secrets'', Arg] ''admin'' 204 RDeleteSecret,
      guarded ''GET'' [Lit ''webhooks''] ''admin'' 200 RListWebhooks,
      guarded ''POST'' [Lit ''webhooks''] ''admin'' 201 RCreateWebhook,
      guarded ''DELETE'' [Lit ''webhooks'', Arg] ''admin'' 204 RDeleteWebhook,
      guarded ''GET'' [Lit ''webhooks'', Lit ''deliveries''] ''admin'' 200 RDeliveries,
      guarded ''GET'' [Lit ''queue'', Lit ''dead-letters''] ''admin'' 200 RDeadLetters,
      guarded ''POST'' [Lit ''queue'', Lit ''dead-letters'', Arg, Lit ''replay''] ''operator'' 200 RReplay,
      guarded ''DELETE'' [Lit ''schedules'', Arg] ''operator'' 204 RDeleteSchedule,
      guarded ''GET'' [Lit ''diagnostics''] ''admin'' 200 RDiagnostics]"

definition app_routes :: "settings \<Rightarrow> decorated list" where
  "app_routes S = under (map Lit (py_split (CHR ''/'') (api_prefix S)))
       (auth_routes @ workflow_routes @ execution_routes @ monitor_routes @ ops_routes) @
     [unguarded [Lit ''health''] RHealth, unguarded [Lit ''health'', Lit ''live''] RLive,
      unguarded [Lit ''health'', Lit ''ready''] RReady, unguarded [Lit ''metrics''] RMetrics]"

fun match_path :: "seg list \<Rightarrow> string list \<Rightarrow> string list option" where
  "match_path [] [] = Some []"
| "match_path (Lit s # ps) (x # xs) = (if x = s then match_path ps xs else None)"
| "match_path (Arg # ps) (x # xs) = (if x = [] then None else map_option (Cons x) (match_path ps xs))"
| "match_path _ _ = None"

text \<open>
  Finding the route of a request is Starlette's part, and so an argument: from the table of routes, the method and the path
  it finds a route with the values of its path parameters, or answers 405, a redirect or 404 by itself. What the
  development needs is that it finds routes of the table only.
\<close>

datatype routed = Found decorated "string list" | WrongMethod | Redirect string | NoRoute

type_synonym router = "decorated list \<Rightarrow> string \<Rightarrow> string \<Rightarrow> routed"

definition sound_router :: "router \<Rightarrow> bool" where
  "sound_router find_in \<longleftrightarrow> (\<forall>rts meth path de args. find_in rts meth path = Found de args \<longrightarrow> de \<in> set rts)"

text \<open>A router as Starlette documents it: the first route whose path and method match.\<close>

definition matches :: "decorated list \<Rightarrow> string \<Rightarrow> (decorated \<times> string list) list" where
  "matches rts path = List.map_filter (\<lambda>d. map_option (Pair d) (match_path (de_path d) (py_split (CHR ''/'') path))) rts"

definition first_route :: router where
  "first_route rts meth path = (case find (\<lambda>(d, _). de_method d = meth) (matches rts path) of
     Some (d, args) \<Rightarrow> Found d args
   | None \<Rightarrow> if matches rts path \<noteq> [] then WrongMethod else NoRoute)"

lemma first_route_sound: "sound_router first_route"
proof -
  have "de \<in> set rts" if "first_route rts meth path = Found de args" for rts meth path de args
  proof -
    have "(de, args) \<in> set (matches rts path)"
      using that by (auto simp: first_route_def dest: find_SomeD split: option.splits if_splits)
    then show ?thesis by (auto simp: matches_def List.map_filter_def)
  qed
  then show ?thesis unfolding sound_router_def by blast
qed

definition takes_body :: "route \<Rightarrow> bool" where
  "takes_body r \<longleftrightarrow> r \<in> {RCreateKey, RImport, RCreateWorkflow, RUpdateWorkflow, RClone, RCreateSchedule, RCreateSecret, RCreateWebhook}"

lemma routes_sound: "\<forall>de \<in> set (app_routes S). de_status de < 400 \<and> (case de_role de of
    None \<Rightarrow> de_route de \<in> {RHealth, RLive, RReady, RMetrics} | Some role \<Rightarrow> ROLE_LEVELS role \<noteq> None)"
  by (simp add: app_routes_def auth_routes_def workflow_routes_def execution_routes_def monitor_routes_def ops_routes_def
      under_def guarded_def unguarded_def ROLE_LEVELS_def)

lemma found_sound:
  assumes "sound_router find_in" and "find_in (app_routes S) meth path = Found de args"
  shows "de_status de < 400" and "de_role de = None \<Longrightarrow> de_route de \<in> {RHealth, RLive, RReady, RMetrics}"
    and "de_role de = Some role \<Longrightarrow> ROLE_LEVELS role \<noteq> None"
proof -
  have "de \<in> set (app_routes S)" using assms unfolding sound_router_def by blast
  with routes_sound [of S] show "de_status de < 400" and "de_role de = None \<Longrightarrow> de_route de \<in> {RHealth, RLive, RReady, RMetrics}"
    and "de_role de = Some role \<Longrightarrow> ROLE_LEVELS role \<noteq> None" by fastforce+
qed

section \<open>Requests\<close>

text \<open>A body that is not JSON is \<open>Undecodable\<close>, one with values of other types is \<open>Mistyped\<close>.\<close>

datatype payload = NoBody | Undecodable | Mistyped
  | PWorkflow "string option" "string option" "raw_task list option"
  | PClone "string option" | PSchedule "string option" "int option" | PKey "string option" "string option"
  | PSecret "string option" "string option" | PWebhook "string option" "string option" "string list option" "bool option"

record query =
  qu_typed :: bool
  qu_limit :: "int option"
  qu_offset :: "int option"
  qu_status :: "string option"
  qu_workflow :: "string option"
  qu_after :: "string option"
  qu_archived :: "bool option"

record http_input =
  hi_method :: string
  hi_path :: string
  hi_headers :: "(string \<times> string) list"
  hi_query :: query
  hi_payload :: payload

text \<open>An endpoint with its parsed arguments.\<close>

datatype call =
    Me | ListKeys | CreateKey string string | RevokeKey uid
  | Templates | CreateWorkflow workflow_create | ListWorkflows nat nat bool | GetWorkflow uid
  | UpdateWorkflow uid workflow_update | DeleteWorkflow uid | Clone uid "string option" | Revisions uid | Export uid
  | ListSchedules uid | CreateSchedule uid "string option" "int option"
  | Run uid "string option" | ListExecutions nat nat "execution_status option" "string option" | GetExecution uid | GetTasks uid
  | GetLogs uid nat nat "string option" | Cancel uid | Retry uid | RetryTask uid string | SkipTask uid string
  | QueueStatus | WorkersStatus | Snapshot
  | Audit nat nat | ListSecrets | CreateSecret string string | DeleteSecret string | ListWebhooks
  | CreateWebhook "string \<times> string \<times> string list" bool | DeleteWebhook uid | Deliveries nat nat
  | DeadLetters nat nat | Replay uid | DeleteSchedule uid | Diagnostics

definition page :: "int \<Rightarrow> int \<Rightarrow> query \<Rightarrow> (nat \<times> nat) option" where
  "page dflt most q = (let l = get_or (qu_limit q) dflt; s = get_or (qu_offset q) 0 in
     if qu_typed q \<and> 1 \<le> l \<and> l \<le> most \<and> 0 \<le> s then Some (nat l, nat s) else None)"

definition status_of_name :: "string \<Rightarrow> execution_status option" where
  "status_of_name s = find (\<lambda>e. execution_status_value e = s) [EPending, ERunning, ESuccess, EFailed, ECancelled]"

text \<open>The events of a webhook that names none are not validated, so not sorted.\<close>

definition bind_webhook :: "string \<Rightarrow> string \<Rightarrow> string list option \<Rightarrow> (string \<times> string \<times> string list) option" where
  "bind_webhook url secret events = (case events of
     Some es \<Rightarrow> webhook_create url secret es
   | None \<Rightarrow> map_option (\<lambda>(u, s, _). (u, s, [''execution.succeeded'', ''execution.failed''])) (webhook_create url secret []))"

definition bind_workflow :: "payload \<Rightarrow> call option" where
  "bind_workflow body = (case body of
     PWorkflow (Some name) desc (Some raws) \<Rightarrow> map_option CreateWorkflow (make_create name desc raws)
   | _ \<Rightarrow> None)"

text \<open>
  What the parameters of the route functions become; \<open>None\<close> is a validation error. The first of \<open>args\<close> is the
  identifier in the path, the second the one of a task.
\<close>

definition auth_args :: "http_input \<Rightarrow> route \<Rightarrow> string list \<Rightarrow> call option" where
  "auth_args i r args = (case r of
     RMe \<Rightarrow> Some Me
   | RListKeys \<Rightarrow> Some ListKeys
   | RCreateKey \<Rightarrow> (case hi_payload i of
       PKey (Some n) role \<Rightarrow> let ro = get_or role ''viewer'' in if api_key_create_ok n ro then Some (CreateKey n ro) else None
     | _ \<Rightarrow> None)
   | RRevokeKey \<Rightarrow> Some (RevokeKey (hd args))
   | _ \<Rightarrow> None)"

definition workflow_args :: "(string \<Rightarrow> bool) \<Rightarrow> http_input \<Rightarrow> route \<Rightarrow> string list \<Rightarrow> call option" where
  "workflow_args cron_valid i r args = (let body = hi_payload i; wid = hd args in case r of
     RTemplates \<Rightarrow> Some Templates
   | RImport \<Rightarrow> bind_workflow body
   | RCreateWorkflow \<Rightarrow> bind_workflow body
   | RListWorkflows \<Rightarrow> map_option (\<lambda>(l, s). ListWorkflows l s (get_or (qu_archived (hi_query i)) False)) (page 50 200 (hi_query i))
   | RGetWorkflow \<Rightarrow> Some (GetWorkflow wid)
   | RUpdateWorkflow \<Rightarrow> (case body of PWorkflow n ds ts \<Rightarrow> map_option (UpdateWorkflow wid) (make_update n ds ts) | _ \<Rightarrow> None)
   | RDeleteWorkflow \<Rightarrow> Some (DeleteWorkflow wid)
   | RClone \<Rightarrow> (case body of PClone n \<Rightarrow> if clone_request_ok n then Some (Clone wid n) else None | _ \<Rightarrow> None)
   | RRevisions \<Rightarrow> Some (Revisions wid)
   | RExport \<Rightarrow> Some (Export wid)
   | RListSchedules \<Rightarrow> Some (ListSchedules wid)
   | RCreateSchedule \<Rightarrow> (case body of
       PSchedule c n \<Rightarrow> if schedule_request_ok cron_valid c n then Some (CreateSchedule wid c n) else None
     | _ \<Rightarrow> None)
   | _ \<Rightarrow> None)"

definition execution_args :: "http_input \<Rightarrow> route \<Rightarrow> string list \<Rightarrow> call option" where
  "execution_args i r args = (let q = hi_query i; eid = hd args; tid = hd (tl args) in case r of
     RRun \<Rightarrow> Some (Run eid (map_of (hi_headers i) ''idempotency-key''))
   | RListExecutions \<Rightarrow> (case page 25 200 q of None \<Rightarrow> None | Some (l, s) \<Rightarrow>
       if executions_query_ok (int l) (int s) (qu_status q) (qu_workflow q)
       then Some (ListExecutions l s (case qu_status q of None \<Rightarrow> None | Some v \<Rightarrow> status_of_name v) (qu_workflow q)) else None)
   | RGetExecution \<Rightarrow> Some (GetExecution eid)
   | RGetTasks \<Rightarrow> Some (GetTasks eid)
   | RGetLogs \<Rightarrow> (case page 200 5000 q of None \<Rightarrow> None | Some (l, s) \<Rightarrow>
       if logs_query_ok (int l) (int s) (qu_after q) then Some (GetLogs eid l s (qu_after q)) else None)
   | RCancel \<Rightarrow> Some (Cancel eid)
   | RRetry \<Rightarrow> Some (Retry eid)
   | RRetryTask \<Rightarrow> Some (RetryTask eid tid)
   | RSkipTask \<Rightarrow> Some (SkipTask eid tid)
   | _ \<Rightarrow> None)"

definition monitor_args :: "route \<Rightarrow> call option" where
  "monitor_args r = (case r of
     RQueueStatus \<Rightarrow> Some QueueStatus
   | RWorkersStatus \<Rightarrow> Some WorkersStatus
   | RSnapshot \<Rightarrow> Some Snapshot
   | _ \<Rightarrow> None)"

definition ops_args :: "http_input \<Rightarrow> route \<Rightarrow> string list \<Rightarrow> call option" where
  "ops_args i r args = (let q = hi_query i; body = hi_payload i; key = hd args in case r of
     RAudit \<Rightarrow> map_option (\<lambda>(l, s). Audit l s) (page 50 200 q)
   | RListSecrets \<Rightarrow> Some ListSecrets
   | RCreateSecret \<Rightarrow> (case body of
       PSecret (Some n) (Some v) \<Rightarrow> if secret_create_ok n v then Some (CreateSecret n v) else None
     | _ \<Rightarrow> None)
   | RDeleteSecret \<Rightarrow> Some (DeleteSecret key)
   | RListWebhooks \<Rightarrow> Some ListWebhooks
   | RCreateWebhook \<Rightarrow> (case body of
       PWebhook (Some u) (Some s) es act \<Rightarrow> map_option (\<lambda>w. CreateWebhook w (get_or act True)) (bind_webhook u s es)
     | _ \<Rightarrow> None)
   | RDeleteWebhook \<Rightarrow> Some (DeleteWebhook key)
   | RDeliveries \<Rightarrow> map_option (\<lambda>(l, s). Deliveries l s) (page 50 200 q)
   | RDeadLetters \<Rightarrow> map_option (\<lambda>(l, s). DeadLetters l s) (page 50 200 q)
   | RReplay \<Rightarrow> Some (Replay key)
   | RDeleteSchedule \<Rightarrow> Some (DeleteSchedule key)
   | RDiagnostics \<Rightarrow> Some Diagnostics
   | _ \<Rightarrow> None)"

definition bind_call :: "(string \<Rightarrow> bool) \<Rightarrow> http_input \<Rightarrow> route \<Rightarrow> string list \<Rightarrow> call option" where
  "bind_call cron_valid i r args =
     (case List.map_filter id [auth_args i r args, workflow_args cron_valid i r args, execution_args i r args, monitor_args r, ops_args i r args] of
        c # _ \<Rightarrow> Some c | [] \<Rightarrow> None)"

section \<open>Endpoints\<close>

datatype body =
    Empty | BPrincipal principal | BKeys "key_view list" | BKey key_view string
  | BTemplates "raw_workflow list" | BWorkflow workflow_view | BWorkflows "workflow_view list" int nat nat
  | BRevisions "revision_view list" | BDocument wf_document | BSchedules "schedule_view list" | BSchedule schedule_view
  | BExecution execution_view | BExecutions "execution_view list" nat nat nat | BTasks "etask_view list"
  | BLogs "log_view list" "string option"
  | BQueue queue_stats | BWorkers "worker_snapshot list" | BSnapshot queue_stats "worker_snapshot list"
  | BAudit "audit_view list" nat nat nat | BSecrets "secret_view list" | BSecret secret_view
  | BWebhooks "webhook_view list" | BWebhook webhook_view | BDeliveries "delivery_view list" nat nat nat
  | BDeadLetters "dead_letter_view list" nat nat nat | BReplayed uid | BDiagnostics diagnostics
  | BHealth string string string time | BReady string string string string time string string queue_stats | BMetrics
  | BError string string string | BLocation string

text \<open>What a request needs from outside: the clock, a fresh key, croniter, Fernet, decoders, the sockets connected.\<close>

record env =
  env_settings :: settings
  env_router :: router
  env_now :: time
  env_clock :: rat
  env_limiter_clock :: rat
  env_hash :: "string \<Rightarrow> string"
  env_raw_key :: string
  env_request_id :: string
  env_cron_valid :: "string \<Rightarrow> bool"
  env_cron_next :: "string \<Rightarrow> time \<Rightarrow> time res"
  env_encrypt :: "string \<Rightarrow> string"
  env_utf8 :: "nat list \<Rightarrow> string option"
  env_parse_time :: "string \<Rightarrow> time option"
  env_sockets :: nat
  env_database_error :: "string option"

text \<open>A process of the API: its database, its caches, and the messages its service broadcast.\<close>

record server =
  srv_auth :: auth_state
  srv_exec :: exec_mem
  srv_sent :: "(uid \<times> json) list"

type_synonym reply = "(body \<times> db \<times> (uid \<times> json) list) res"

definition give :: "db \<Rightarrow> body \<Rightarrow> reply" where
  "give d b = Inr (b, d, [])"

definition ask :: "('a \<Rightarrow> body) \<Rightarrow> 'a res \<Rightarrow> db \<Rightarrow> reply" where
  "ask f r d = (case r of Inl e \<Rightarrow> Inl e | Inr x \<Rightarrow> Inr (f x, d, []))"

definition change :: "('a \<Rightarrow> db \<Rightarrow> body) \<Rightarrow> ('a \<times> db) res \<Rightarrow> reply" where
  "change f r = (case r of Inl e \<Rightarrow> Inl e | Inr (x, d) \<Rightarrow> Inr (f x d, d, []))"

definition remove :: "db res \<Rightarrow> reply" where
  "remove r = (case r of Inl e \<Rightarrow> Inl e | Inr d \<Rightarrow> Inr (Empty, d, []))"

definition service :: "(execution_view \<Rightarrow> body) \<Rightarrow> exec_result \<Rightarrow> reply" where
  "service f r = (case r of Inl e \<Rightarrow> Inl e | Inr (e, d, sent) \<Rightarrow> Inr (f (view_execution e), d, sent))"

definition shown_workflow :: "workflow \<Rightarrow> db \<Rightarrow> body" where
  "shown_workflow w d = BWorkflow (view_workflow d w)"

text \<open>The bodies of the route functions; \<open>None\<close> where the call belongs to another file.\<close>

definition auth_call :: "env \<Rightarrow> principal \<Rightarrow> call \<Rightarrow> db \<Rightarrow> reply option" where
  "auth_call v p c d = (case c of
     Me \<Rightarrow> Some (give d (BPrincipal p))
   | ListKeys \<Rightarrow> Some (ask (BKeys \<circ> map view_key) (list_keys p d) d)
   | CreateKey n r \<Rightarrow> Some (change (\<lambda>(k, raw) _. BKey (view_key k) raw)
       (map_sum id (\<lambda>(k, raw, d'). ((k, raw), d')) (create_key_route (env_now v) (env_hash v) (env_raw_key v) p n r d)))
   | _ \<Rightarrow> None)"

definition workflow_call :: "env \<Rightarrow> principal \<Rightarrow> call \<Rightarrow> db \<Rightarrow> reply option" where
  "workflow_call v p c d = (case c of
     Templates \<Rightarrow> Some (give d (BTemplates TEMPLATE_WORKFLOWS))
   | CreateWorkflow w \<Rightarrow> Some (change shown_workflow (workflow_create_ctl (env_now v) (\<lambda>x. x) p w d))
   | ListWorkflows l s arch \<Rightarrow> Some (give d (case list_workflows (pr_tenant p) l s arch d of (ws, n) \<Rightarrow> BWorkflows (map (view_workflow d) ws) n l s))
   | GetWorkflow i \<Rightarrow> Some (ask (BWorkflow \<circ> view_workflow d) (workflow_get_ctl p i d) d)
   | UpdateWorkflow i u \<Rightarrow> Some (change shown_workflow (workflow_update_ctl (env_now v) (\<lambda>x. x) p i u d))
   | DeleteWorkflow i \<Rightarrow> Some (remove (workflow_delete_ctl (env_now v) p i d))
   | Clone i n \<Rightarrow> Some (change shown_workflow (workflow_clone_ctl (env_now v) (\<lambda>x. x) p i n d))
   | Revisions i \<Rightarrow> Some (ask (BRevisions \<circ> map view_revision) (list_revisions (pr_tenant p) i d) d)
   | Export i \<Rightarrow> Some (ask BDocument (export_workflow (pr_tenant p) i d) d)
   | ListSchedules i \<Rightarrow> Some (give d (BSchedules (map view_schedule (list_schedules p i d))))
   | CreateSchedule i cron n \<Rightarrow> Some (change (\<lambda>x _. BSchedule (view_schedule x)) (create_schedule (env_cron_next v) (env_now v) p i cron n d))
   | _ \<Rightarrow> None)"

definition execution_call :: "env \<Rightarrow> principal \<Rightarrow> call \<Rightarrow> db \<Rightarrow> reply option" where
  "execution_call v p c d = (let S = env_settings v; now = env_now v in case c of
     Run i key \<Rightarrow> Some (service BExecution (run_workflow_ctl S now p i key d))
   | ListExecutions l s st w \<Rightarrow> Some (give d (case list_executions_ctl p l s st w d of (es, n) \<Rightarrow> BExecutions (map view_execution es) n l s))
   | GetExecution i \<Rightarrow> Some (ask (\<lambda>(e, ts). BExecution (view_execution e)) (get_execution_ctl p i d) d)
   | GetTasks i \<Rightarrow> Some (ask (BTasks \<circ> map view_etask) (get_tasks_ctl p i d) d)
   | GetLogs i l s after \<Rightarrow> Some (ask (\<lambda>(ls, n). BLogs (map view_log ls) n) (get_logs_ctl (env_utf8 v) (env_parse_time v) p i l s after d) d)
   | Retry i \<Rightarrow> Some (service BExecution (retry_execution_ctl S now p i d))
   | RetryTask i t \<Rightarrow> Some (service BExecution (retry_task_ctl S now p i t d))
   | SkipTask i t \<Rightarrow> Some (service BExecution (skip_task_ctl S now p i t d))
   | _ \<Rightarrow> None)"

definition monitor_call :: "env \<Rightarrow> principal \<Rightarrow> call \<Rightarrow> db \<Rightarrow> reply option" where
  "monitor_call v p c d = (let S = env_settings v; now = env_now v in case c of
     QueueStatus \<Rightarrow> Some (give d (BQueue (queue_status now (Some (pr_tenant p)) (Some (jobs d)))))
   | WorkersStatus \<Rightarrow> Some (give d (BWorkers (worker_status S now (Some (worker_rows d)))))
   | Snapshot \<Rightarrow> Some (give d (case system_snapshot S now None (Some (jobs d)) (Some (worker_rows d)) of (q, w) \<Rightarrow> BSnapshot q w))
   | _ \<Rightarrow> None)"

definition ops_call :: "env \<Rightarrow> principal \<Rightarrow> call \<Rightarrow> db \<Rightarrow> reply option" where
  "ops_call v p c d = (let S = env_settings v; now = env_now v in case c of
     Audit l s \<Rightarrow> Some (ask (\<lambda>(xs, n). BAudit (map view_audit xs) n l s) (list_audit p l s d) d)
   | ListSecrets \<Rightarrow> Some (ask (BSecrets \<circ> map view_secret) (list_secrets p d) d)
   | CreateSecret n x \<Rightarrow> Some (change (\<lambda>x _. BSecret (view_secret x)) (create_secret (env_encrypt v) now p n x d))
   | DeleteSecret n \<Rightarrow> Some (remove (delete_secret now p n d))
   | ListWebhooks \<Rightarrow> Some (ask (BWebhooks \<circ> map view_webhook) (list_webhooks p d) d)
   | CreateWebhook w act \<Rightarrow> Some (change (\<lambda>x _. BWebhook (view_webhook x)) (create_webhook now p w act d))
   | DeleteWebhook i \<Rightarrow> Some (remove (delete_webhook now p i d))
   | Deliveries l s \<Rightarrow> Some (ask (\<lambda>(xs, n). BDeliveries (map view_delivery xs) n l s) (list_deliveries p l s d) d)
   | DeadLetters l s \<Rightarrow> Some (ask (\<lambda>(xs, n). BDeadLetters (map view_dead_letter xs) n l s) (list_dead_letters_ctl p l s d) d)
   | Replay i \<Rightarrow> Some (service (\<lambda>_. BReplayed i) (replay_dead_letter_ctl S now p i d))
   | DeleteSchedule i \<Rightarrow> Some (remove (delete_schedule now p i d))
   | Diagnostics \<Rightarrow> Some (ask BDiagnostics (diagnostics S now (handler_names builtin_registry) (env_sockets v) p d) d)
   | _ \<Rightarrow> None)"

text \<open>
  A call on a process. What raises leaves the database as it was. A revocation also clears the cache, and a
  cancellation signals the handlers that run in the process.
\<close>

definition with_db :: "db \<Rightarrow> (uid \<times> json) list \<Rightarrow> server \<Rightarrow> server" where
  "with_db d sent sv = sv\<lparr>srv_auth := (srv_auth sv)\<lparr>as_db := d\<rparr>, srv_sent := srv_sent sv @ sent\<rparr>"

definition perform :: "env \<Rightarrow> principal \<Rightarrow> call \<Rightarrow> server \<Rightarrow> body res \<times> server" where
  "perform v p c sv = (let d = as_db (srv_auth sv) in case c of
     RevokeKey i \<Rightarrow> (case revoke_key_route (env_now v) p i (d, as_cache (srv_auth sv)) of
         Inl e \<Rightarrow> (Inl e, sv)
       | Inr (d', cache) \<Rightarrow> (Inr Empty, sv\<lparr>srv_auth := (srv_auth sv)\<lparr>as_db := d', as_cache := cache\<rparr>\<rparr>))
   | Cancel i \<Rightarrow> (case cancel_ctl (env_now v) (\<lambda>x. x) p i (srv_exec sv) d of
         (Inl e, mem) \<Rightarrow> (Inl e, sv\<lparr>srv_exec := mem\<rparr>)
       | (Inr (e, d', sent), mem) \<Rightarrow> (Inr (BExecution (view_execution e)), with_db d' sent (sv\<lparr>srv_exec := mem\<rparr>)))
   | _ \<Rightarrow> (case List.map_filter id [auth_call v p c d, workflow_call v p c d, execution_call v p c d, monitor_call v p c d, ops_call v p c d] of
         Inr (b, d', sent) # _ \<Rightarrow> (Inr b, with_db d' sent sv)
       | Inl e # _ \<Rightarrow> (Inl e, sv)
       | [] \<Rightarrow> (Inl (ValueError []), sv)))"

section \<open>Responses\<close>

record response =
  rs_status :: nat
  rs_headers :: "(string \<times> string) list"
  rs_body :: body

definition STATUS_CODES :: "(nat \<times> string) list" where
  "STATUS_CODES = [(400, ''invalid_request''), (401, ''unauthorized''), (403, ''forbidden''), (404, ''not_found''),
     (405, ''method_not_allowed''), (409, ''conflict''), (413, ''payload_too_large''), (422, ''validation_error''),
     (429, ''rate_limited''), (500, ''internal_error''), (503, ''unavailable'')]"

definition error_response :: "nat \<Rightarrow> string \<Rightarrow> string \<Rightarrow> string \<Rightarrow> response" where
  "error_response status code message rid =
     \<lparr>rs_status = status, rs_headers = [(''X-Request-ID'', rid)], rs_body = BError code message rid\<rparr>"

definition http_exception :: "nat \<Rightarrow> string \<Rightarrow> string \<Rightarrow> response" where
  "http_exception status detail rid = error_response status (get_or (map_of STATUS_CODES status) ''error'') detail rid"

definition validation_error :: "string \<Rightarrow> response" where
  "validation_error rid = error_response 422 ''validation_error'' ''Request validation failed.'' rid"

definition internal_error :: "string \<Rightarrow> response" where
  "internal_error rid = error_response 500 ''internal_error'' ''Internal server error.'' rid"

text \<open>\<open>ApiError\<close> is answered as it is, everything else that leaves a route as an internal error.\<close>

definition raised :: "py_error \<Rightarrow> string \<Rightarrow> response" where
  "raised e rid = (case e of ApiError status code message \<Rightarrow> error_response status code message rid | _ \<Rightarrow> internal_error rid)"

definition ok_response :: "nat \<Rightarrow> body \<Rightarrow> response" where
  "ok_response status b = \<lparr>rs_status = status, rs_headers = [], rs_body = b\<rparr>"

section \<open>Health\<close>

definition health :: "env \<Rightarrow> response" where
  "health v = (let S = env_settings v in ok_response 200 (BHealth (app_name S) (app_version S) (environment S) (env_now v)))"

definition readiness_workers :: "worker_snapshot list \<Rightarrow> string" where
  "readiness_workers ws = (if ws = [] then ''not-started''
     else if \<exists>w \<in> set ws. sn_state w \<notin> {''offline'', ''stopped''} then ''running'' else ''degraded'')"

definition readiness :: "env \<Rightarrow> db \<Rightarrow> response" where
  "readiness v d = (let S = env_settings v; broken = env_database_error v;
       database = (case broken of None \<Rightarrow> ''ok'' | Some cls \<Rightarrow> ''error: '' @ cls);
       workers = readiness_workers (snapshots S (env_now v) (if broken = None then Some (worker_rows d) else None));
       queue = stats (env_now v) None (if broken = None then Some (jobs d) else None);
       unhealthy = (is_production S \<and> workers \<noteq> ''running'');
       overall = (if database = ''ok'' \<and> stats_healthy queue \<and> \<not> unhealthy then ''ok'' else ''degraded'')
     in ok_response 200 (BReady overall (app_name S) (app_version S) (environment S) (env_now v) database workers queue))"

definition metrics :: "settings \<Rightarrow> response" where
  "metrics S = (if metrics_enabled S then ok_response 200 BMetrics else ok_response 404 Empty)"

section \<open>From the request to the response\<close>

text \<open>
  A body that does not decode is refused before the dependencies run, other validation errors after them.
\<close>

definition run_route :: "env \<Rightarrow> string \<Rightarrow> http_input \<Rightarrow> decorated \<Rightarrow> string list \<Rightarrow> server \<Rightarrow> response \<times> server" where
  "run_route v rid i de args sv = (let r = de_route de in
     if takes_body r \<and> hi_payload i = Undecodable then (validation_error rid, sv)
     else case de_role de of
        None \<Rightarrow> (if r = RReady then readiness v (as_db (srv_auth sv)) else if r = RMetrics then metrics (env_settings v) else health v, sv)
      | Some role \<Rightarrow>
          (case get_principal (env_settings v) (env_hash v) (env_clock v) (env_limiter_clock v) (env_now v) (hi_headers i) (srv_auth sv) of
             (found, auth) \<Rightarrow> let sv1 = sv\<lparr>srv_auth := auth\<rparr> in
             (case require_role role found of
                Inl e \<Rightarrow> (raised e rid, sv1)
              | Inr p \<Rightarrow> (case bind_call (env_cron_valid v) i r args of
                    None \<Rightarrow> (validation_error rid, sv1)
                  | Some c \<Rightarrow> (case perform v p c sv1 of
                      (Inl e, sv2) \<Rightarrow> (raised e rid, sv2)
                    | (Inr b, sv2) \<Rightarrow> (ok_response (de_status de) b, sv2))))))"

definition call_next :: "env \<Rightarrow> string \<Rightarrow> http_input \<Rightarrow> server \<Rightarrow> response \<times> server" where
  "call_next v rid i sv = (case env_router v (app_routes (env_settings v)) (hi_method i) (hi_path i) of
     Found de args \<Rightarrow> run_route v rid i de args sv
   | WrongMethod \<Rightarrow> (http_exception 405 ''Method Not Allowed'' rid, sv)
   | Redirect path \<Rightarrow> (ok_response 307 (BLocation path), sv)
   | NoRoute \<Rightarrow> (http_exception 404 ''Not Found'' rid, sv))"

text \<open>The pattern \<open>[A-Za-z0-9._-]{8,64}\<close>.\<close>

definition request_id_ok :: "string \<Rightarrow> bool" where
  "request_id_ok s \<longleftrightarrow> 8 \<le> length s \<and> length s \<le> 64 \<and> list_all name_char s"

text \<open>Python's \<open>int\<close> of a text: blanks around, a sign, digits with single underscores between them, 4300 digits at most.\<close>

fun int_digits :: "bool \<Rightarrow> string \<Rightarrow> string option" where
  "int_digits after [] = (if after then Some [] else None)"
| "int_digits after (c # s) = (if is_digit c then map_option (Cons c) (int_digits True s)
     else if c = CHR ''_'' \<and> after \<and> s \<noteq> [] then int_digits False s else None)"

definition py_int :: "string \<Rightarrow> int option" where
  "py_int text = (case py_strip text of
     [] \<Rightarrow> None
   | c # s \<Rightarrow> (case int_digits False (if c = CHR ''+'' \<or> c = CHR ''-'' then s else c # s) of
       None \<Rightarrow> None
     | Some ds \<Rightarrow> if 4300 < length ds then None
         else Some (if c = CHR ''-'' then - int (digits_value ds) else int (digits_value ds))))"

definition setdefault :: "string \<times> string \<Rightarrow> (string \<times> string) list \<Rightarrow> (string \<times> string) list" where
  "setdefault h hs = (if map_of hs (fst h) = None then hs @ [h] else hs)"

definition hardening :: "settings \<Rightarrow> string \<Rightarrow> (string \<times> string) list" where
  "hardening S rid = [(''X-Request-ID'', rid), (''X-Content-Type-Options'', ''nosniff''), (''X-Frame-Options'', ''DENY''),
     (''Referrer-Policy'', ''no-referrer''), (''Cache-Control'', ''no-store''), (''Permissions-Policy'', ''geolocation=(), microphone=(), camera=()'')] @
     (if is_production S then [(''Strict-Transport-Security'', ''max-age=31536000; includeSubDomains'')] else [])"

definition harden :: "settings \<Rightarrow> string \<Rightarrow> response \<Rightarrow> response" where
  "harden S rid r = r\<lparr>rs_headers := fold setdefault (hardening S rid) (rs_headers r)\<rparr>"

definition request_id_of :: "env \<Rightarrow> http_input \<Rightarrow> string" where
  "request_id_of v i = (let incoming = get_or (map_of (hi_headers i) ''x-request-id'') [] in
     if request_id_ok incoming then incoming else env_request_id v)"

text \<open>The middleware \<open>harden_responses\<close>.\<close>

definition serve :: "env \<Rightarrow> http_input \<Rightarrow> server \<Rightarrow> response \<times> server" where
  "serve v i sv = (let S = env_settings v; rid = request_id_of v i;
       proceed = (case call_next v rid i sv of (r, sv') \<Rightarrow> (harden S rid r, sv')) in
     case map_of (hi_headers i) ''content-length'' of
       None \<Rightarrow> proceed
     | Some text \<Rightarrow> (case py_int text of
         None \<Rightarrow> (error_response 400 ''invalid_request'' ''Invalid Content-Length header.'' rid, sv)
       | Some n \<Rightarrow> if max_request_body_bytes S < n
           then (error_response 413 ''payload_too_large'' ''Request body too large.'' rid, sv) else proceed))"

text \<open>
  The socket route: the reason it is closed for, or the sockets of the process with this one among them. When the client
  leaves, \<open>rt_disconnect\<close> takes it out.
\<close>

definition execution_updates :: "env \<Rightarrow> string option \<Rightarrow> string option \<Rightarrow> uid \<Rightarrow> nat \<Rightarrow> db \<times> principal_cache \<Rightarrow> sockets \<Rightarrow>
    (string + sockets) \<times> db \<times> principal_cache" where
  "execution_updates v query header eid socket st conns =
     (case authenticate_websocket (env_settings v) (env_hash v) (env_clock v) (env_now v) query header st of
        (Inl reason, st') \<Rightarrow> (Inl reason, st')
      | (Inr p, st') \<Rightarrow> (case find (\<lambda>e. ex_id e = eid) (executions (fst st')) of
            None \<Rightarrow> (Inl ''Execution not found.'', st')
          | Some e \<Rightarrow> if ex_tenant e \<noteq> pr_tenant p then (Inl ''Execution not found.'', st') else (Inr (rt_connect eid socket conns), st')))"

section \<open>What every response carries\<close>

lemma setdefault_keeps: "map_of hs k = Some x \<Longrightarrow> map_of (setdefault h hs) k = Some x"
  by (auto simp: setdefault_def map_add_def)

lemma fold_setdefault_keeps: "map_of hs k = Some x \<Longrightarrow> map_of (fold setdefault new hs) k = Some x"
  by (induction new arbitrary: hs) (simp_all add: setdefault_keeps)

lemma fold_setdefault: "distinct (map fst new) \<Longrightarrow> (k, x) \<in> set new \<Longrightarrow> map_of (fold setdefault new hs) k = Some (get_or (map_of hs k) x)"
proof (induction new arbitrary: hs)
  case (Cons h new)
  show ?case
  proof (cases "h = (k, x)")
    case True
    have "map_of (setdefault h hs) k = Some (get_or (map_of hs k) x)"
      by (cases "map_of hs k") (simp_all add: True setdefault_def get_or_def map_add_def)
    then show ?thesis using fold_setdefault_keeps by simp
  next
    case False
    then have in_new: "(k, x) \<in> set new" "fst h \<noteq> k" using Cons.prems by (auto simp: image_iff)
    have "map_of (setdefault h hs) k = map_of hs k" using in_new(2) by (cases h) (simp add: setdefault_def map_add_def split: option.splits)
    then show ?thesis using Cons in_new by simp
  qed
qed simp

lemma hardening_distinct: "distinct (map fst (hardening S rid))"
  by (simp add: hardening_def)

text \<open>A response before the middleware has touched it: at most a request identifier, and an error in its envelope.\<close>

definition plain :: "string \<Rightarrow> response \<Rightarrow> bool" where
  "plain rid r \<longleftrightarrow> (rs_headers r = [] \<or> rs_headers r = [(''X-Request-ID'', rid)]) \<and>
     (rs_status r < 400 \<or> (rs_status r = 404 \<and> rs_body r = Empty) \<or> (\<exists>code message. rs_body r = BError code message rid))"

lemma plain_errors [simp]: "plain rid (error_response n c m rid)" "plain rid (raised e rid)" "plain rid (validation_error rid)"
  "plain rid (http_exception n m rid)" "plain rid (internal_error rid)"
  by (simp_all add: plain_def error_response_def raised_def validation_error_def http_exception_def internal_error_def split: py_error.split)

lemma plain_ok [simp]: "n < 400 \<Longrightarrow> plain rid (ok_response n b)" "plain rid (ok_response 404 Empty)"
  by (simp_all add: plain_def ok_response_def)

lemma run_route_plain: "de_status de < 400 \<Longrightarrow> plain rid (fst (run_route v rid i de args sv))"
  by (simp add: run_route_def readiness_def metrics_def health_def Let_def split: option.split prod.split sum.split)

lemma call_next_plain: "sound_router (env_router v) \<Longrightarrow> plain rid (fst (call_next v rid i sv))"
  using found_sound by (auto simp: call_next_def intro: run_route_plain split: routed.split)

definition length_accepted :: "settings \<Rightarrow> (string \<times> string) list \<Rightarrow> bool" where
  "length_accepted S headers \<longleftrightarrow> (case map_of headers ''content-length'' of None \<Rightarrow> True
     | Some text \<Rightarrow> (case py_int text of None \<Rightarrow> False | Some n \<Rightarrow> n \<le> max_request_body_bytes S))"

lemma serve_cases:
  assumes "serve v i sv = (r, sv')"
  obtains (refused) n c m where "\<not> length_accepted (env_settings v) (hi_headers i)" "r = error_response n c m (request_id_of v i)" "sv' = sv" "n \<in> {400, 413}"
  | (served) q where "length_accepted (env_settings v) (hi_headers i)" "call_next v (request_id_of v i) i sv = (q, sv')"
      "r = harden (env_settings v) (request_id_of v i) q"
proof (cases "length_accepted (env_settings v) (hi_headers i)")
  case True
  with assms have "(case call_next v (request_id_of v i) i sv of (q, sv') \<Rightarrow> (harden (env_settings v) (request_id_of v i) q, sv')) = (r, sv')"
    by (auto simp: serve_def length_accepted_def Let_def split: option.splits)
  with True served show ?thesis by (auto split: prod.splits)
next
  case False
  show ?thesis
  proof (cases "py_int (the (map_of (hi_headers i) ''content-length''))")
    case None
    with assms False show ?thesis
      by (intro refused [of 400 "''invalid_request''" "''Invalid Content-Length header.''"])
        (auto simp: serve_def length_accepted_def Let_def split: option.splits if_splits)
  next
    case (Some n)
    with assms False show ?thesis
      by (intro refused [of 413 "''payload_too_large''" "''Request body too large.''"])
        (auto simp: serve_def length_accepted_def Let_def split: option.splits if_splits)
  qed
qed


section \<open>What a request without the right to make it does\<close>

text \<open>Two databases that differ in the times at which keys were last used.\<close>

definition used_keys :: "db \<Rightarrow> db \<Rightarrow> bool" where
  "used_keys d d' \<longleftrightarrow> (\<exists>ks. d' = d\<lparr>api_keys := ks\<rparr> \<and> map (\<lambda>k. k\<lparr>ak_last_used_at := None\<rparr>) ks = map (\<lambda>k. k\<lparr>ak_last_used_at := None\<rparr>) (api_keys d))"

lemma used_keys_refl [simp]: "used_keys d d"
  unfolding used_keys_def by (intro exI [of _ "api_keys d"]) simp

lemma touched_used: "used_keys d (d\<lparr>api_keys := upd_where P (ak_last_used_at_update f) (api_keys d)\<rparr>)"
  unfolding used_keys_def by (intro exI [of _ "upd_where P (ak_last_used_at_update f) (api_keys d)"]) (simp add: upd_where_def)

lemma authenticate_used: "authenticate S hash clock now raw (d, cache) = (found, d', cache') \<Longrightarrow> used_keys d d'"
  by (auto simp: authenticate_def Let_def intro: touched_used split: if_splits option.splits prod.splits)

lemma get_principal_used:
  assumes "get_principal S hash clock lclock now headers auth = (found, auth')"
  shows "used_keys (as_db auth) (as_db auth')"
    and "found = Inl e \<Longrightarrow> \<exists>status code message. e = ApiError status code message \<and> status \<in> {401, 429}"
  using assms authenticate_used
  by (auto simp: get_principal_def Let_def split: if_splits prod.splits option.splits)

text \<open>C9. Apart from the health checks and metrics, a request by a caller who does not show the key of a principal with the
  role of the route is refused, and changes nothing but the time its key was last used, the cache of principals and
  the rate limiter: no row, no job, no running handler, and no message is sent.\<close>

theorem requests_need_role:
  assumes "serve v i sv = (r, sv')" and "sound_router (env_router v)"
    and "env_router v (app_routes (env_settings v)) (hi_method i) (hi_path i) = Found de args"
    and "de_route de \<notin> {RHealth, RLive, RReady, RMetrics}"
    and "\<forall>p. fst (get_principal (env_settings v) (env_hash v) (env_clock v) (env_limiter_clock v) (env_now v) (hi_headers i) (srv_auth sv)) = Inr p
      \<longrightarrow> require (the (de_role de)) p \<noteq> Inr ()"
  shows "rs_status r \<in> {400, 401, 403, 413, 422, 429} \<and> used_keys (as_db (srv_auth sv)) (as_db (srv_auth sv')) \<and>
    srv_exec sv' = srv_exec sv \<and> srv_sent sv' = srv_sent sv"
  using assms(1)
proof (cases rule: serve_cases)
  case (refused n c m)
  then show ?thesis by (auto simp: error_response_def)
next
  case (served q)
  obtain role where role: "de_role de = Some role" using assms(4) found_sound(2) [OF assms(2,3)] by blast
  obtain found auth where g: "get_principal (env_settings v) (env_hash v) (env_clock v) (env_limiter_clock v) (env_now v) (hi_headers i) (srv_auth sv) = (found, auth)"
    by fastforce
  have no: "require role p \<noteq> Inr ()" if "found = Inr p" for p using assms(5) that by (simp add: g role)
  have run: "run_route v (request_id_of v i) i de args sv = (q, sv')" using served(2) assms(3) by (simp add: call_next_def)
  have "rs_status q \<in> {401, 403, 422, 429} \<and> used_keys (as_db (srv_auth sv)) (as_db (srv_auth sv')) \<and> srv_exec sv' = srv_exec sv \<and> srv_sent sv' = srv_sent sv"
  proof (cases "takes_body (de_route de) \<and> hi_payload i = Undecodable")
    case True
    with run show ?thesis by (auto simp: run_route_def validation_error_def error_response_def)
  next
    case False
    have "\<exists>e. require_role role found = Inl e \<and> (\<exists>status c m. e = ApiError status c m \<and> status \<in> {401, 403, 429})"
    proof (cases found)
      case (Inl e)
      with get_principal_used(2) [OF g] show ?thesis by (force simp: require_role_def)
    next
      case (Inr p)
      with no [OF Inr] show ?thesis by (cases "require role p") (use found_sound(3) [OF assms(2,3) role] in \<open>auto simp: require_role_def require_def split: if_splits option.splits\<close>)
    qed
    then obtain e status c m where e: "require_role role found = Inl e" "e = ApiError status c m" "status \<in> {401, 403, 429}" by blast
    from run False e have "q = raised e (request_id_of v i) \<and> sv' = sv\<lparr>srv_auth := auth\<rparr>" by (simp add: run_route_def role g Let_def)
    with e get_principal_used(1) [OF g] show ?thesis by (auto simp: raised_def error_response_def)
  qed
  then show ?thesis by (auto simp: served(3) harden_def)
qed

text \<open>A request to create a workflow without a key.\<close>

definition demo_env :: env where
  "demo_env = \<lparr>env_settings = default_settings, env_router = first_route, env_now = 0, env_clock = 0, env_limiter_clock = 0, env_hash = demo_hash, env_raw_key = ''k'',
     env_request_id = ''0123456789abcdef'', env_cron_valid = (\<lambda>_. True), env_cron_next = (\<lambda>_ t. Inr (t + 60000000)), env_encrypt = (\<lambda>s. s),
     env_utf8 = (\<lambda>_. None), env_parse_time = (\<lambda>_. None), env_sockets = 0, env_database_error = None\<rparr>"

definition demo_server :: server where
  "demo_server = \<lparr>srv_auth = \<lparr>as_db = empty_db demo_supply, as_cache = [], as_limiter = (build_rate_limiter default_settings True, [])\<rparr>,
     srv_exec = \<lparr>inflight = [], cancelling = {}, next_handler = 0, signalled = {}\<rparr>, srv_sent = []\<rparr>"

definition keyless_request :: http_input where
  "keyless_request = \<lparr>hi_method = ''POST'', hi_path = ''/api/v1/workflows'', hi_headers = [(''content-length'', ''2'')],
     hi_query = \<lparr>qu_typed = True, qu_limit = None, qu_offset = None, qu_status = None, qu_workflow = None, qu_after = None, qu_archived = None\<rparr>,
     hi_payload = PWorkflow None None None\<rparr>"

lemma demo_router: "sound_router (env_router demo_env)"
  by (simp add: demo_env_def first_route_sound)

lemma keyless_routed: "env_router demo_env (app_routes (env_settings demo_env)) (hi_method keyless_request) (hi_path keyless_request) = Found
    (guarded ''POST'' (map Lit [[], ''api'', ''v1'', ''workflows'']) ''operator'' 201 RCreateWorkflow) []"
  by code_simp

lemma keyless_principal: "fst (get_principal S hash clock lclock now (hi_headers keyless_request) auth) =
    Inl (ApiError 401 ''unauthorized'' ''Provide an API key via X-API-Key or Authorization: Bearer.'')"
proof -
  have "extract_api_key (hi_headers keyless_request) = []" by code_simp
  then show ?thesis by (simp add: get_principal_def)
qed

lemma requests_need_role_witness:
  "\<exists>r sv'. serve demo_env keyless_request demo_server = (r, sv') \<and> rs_status r \<in> {400, 401, 403, 413, 422, 429} \<and>
    used_keys (as_db (srv_auth demo_server)) (as_db (srv_auth sv')) \<and> srv_sent sv' = []"
proof -
  obtain r sv' where s: "serve demo_env keyless_request demo_server = (r, sv')" by fastforce
  have "srv_sent demo_server = []" by (simp add: demo_server_def)
  with requests_need_role [OF s demo_router keyless_routed] s show ?thesis by (auto simp: keyless_principal guarded_def)
qed


end
