(* ===== verification/Tenancy.thy ===== *)
theory Tenancy
  imports Http
begin

text \<open>
  What the tenants of an installation can see and change of each other through the API: a tenant's part of the
  database, the requests answered from it alone, and what the requests of other tenants leave of it.
\<close>

section \<open>The part of a tenant\<close>

definition own_executions :: "uid \<Rightarrow> db \<Rightarrow> uid set" where
  "own_executions u d = ex_id ` set (filter (\<lambda>e. ex_tenant e = u) (executions d))"

definition own_workflows :: "uid \<Rightarrow> db \<Rightarrow> uid set" where
  "own_workflows u d = wf_id ` set (filter (\<lambda>w. wf_tenant w = u) (workflows d))"

text \<open>Rows without a tenant column belong to the tenant of their execution or workflow; workers and the supply of
  identifiers to nobody.\<close>

definition tenant_part :: "uid \<Rightarrow> db \<Rightarrow> db" where
  "tenant_part u d = \<lparr>tenants = filter (\<lambda>x. tn_id x = u) (tenants d), api_keys = filter (\<lambda>x. ak_tenant x = u) (api_keys d),
     workflows = filter (\<lambda>x. wf_tenant x = u) (workflows d),
     revisions = filter (\<lambda>x. rv_workflow x \<in> own_workflows u d) (revisions d),
     task_defs = filter (\<lambda>x. td_workflow x \<in> own_workflows u d) (task_defs d),
     executions = filter (\<lambda>x. ex_tenant x = u) (executions d),
     etasks = filter (\<lambda>x. et_execution x \<in> own_executions u d) (etasks d),
     elogs = filter (\<lambda>x. lg_execution x \<in> own_executions u d) (elogs d),
     jobs = filter (\<lambda>x. qj_tenant x = u) (jobs d), worker_rows = [],
     audits = filter (\<lambda>x. au_tenant x = u) (audits d), secrets = filter (\<lambda>x. sr_tenant x = u) (secrets d),
     endpoints = filter (\<lambda>x. wh_tenant x = u) (endpoints d), deliveries = filter (\<lambda>x. wd_tenant x = u) (deliveries d),
     schedules = filter (\<lambda>x. sc_tenant x = u) (schedules d), outbox = filter (\<lambda>x. ob_tenant x = u) (outbox d),
     uuid_supply = (\<lambda>_. []), uuid_draws = 0\<rparr>"

lemmas part_defs = tenant_part_def own_executions_def own_workflows_def

section \<open>Answers come from the tenant's part\<close>

text \<open>The requests that only read, but for the three about the whole process.\<close>

fun reading :: "call \<Rightarrow> bool" where
  "reading Me = True" | "reading ListKeys = True" | "reading Templates = True" | "reading (ListWorkflows _ _ _) = True"
| "reading (GetWorkflow _) = True" | "reading (Revisions _) = True" | "reading (Export _) = True" | "reading (ListSchedules _) = True"
| "reading (ListExecutions _ _ _ _) = True" | "reading (GetExecution _) = True" | "reading (GetTasks _) = True"
| "reading (GetLogs _ _ _ _) = True" | "reading QueueStatus = True" | "reading (Audit _ _) = True" | "reading ListSecrets = True"
| "reading ListWebhooks = True" | "reading (Deliveries _ _) = True" | "reading (DeadLetters _ _) = True" | "reading _ = False"

lemma find_filter: "(\<And>x. P x \<Longrightarrow> Q x) \<Longrightarrow> find P (filter Q xs) = find P xs"
  by (induction xs) auto

lemma part_get_workflow: "get_workflow u wid arch (tenant_part u d) = get_workflow u wid arch d"
  by (simp add: get_workflow_def tenant_part_def) (rule find_filter, simp)

lemma got_workflow: "get_workflow u wid arch d = Some w \<Longrightarrow> wf_id w \<in> own_workflows u d"
  by (auto simp: get_workflow_def own_workflows_def dest!: find_SomeD)

lemma part_revisions: "wid \<in> own_workflows u d \<Longrightarrow> revs_of wid (tenant_part u d) = revs_of wid d"
  by (auto simp: revs_of_def tenant_part_def intro!: filter_cong)

lemma part_tasks: "wid \<in> own_workflows u d \<Longrightarrow> tasks_of_workflow wid (tenant_part u d) = tasks_of_workflow wid d"
  unfolding tasks_of_workflow_def by (rule arg_cong [of _ _ "sort_key td_created_at"]) (auto simp: tenant_part_def intro!: filter_cong)

lemma part_view: "wf_id w \<in> own_workflows u d \<Longrightarrow> view_workflow (tenant_part u d) w = view_workflow d w"
  by (simp add: view_workflow_def part_tasks)

lemma part_list_workflows: "list_workflows u l s arch (tenant_part u d) = list_workflows u l s arch d"
proof -
  have "filter (\<lambda>w. wf_tenant w = u \<and> (arch \<or> \<not> wf_is_archived w)) (workflows (tenant_part u d)) =
      filter (\<lambda>w. wf_tenant w = u \<and> (arch \<or> \<not> wf_is_archived w)) (workflows d)"
    by (auto simp: tenant_part_def intro!: filter_cong)
  then show ?thesis unfolding list_workflows_def by simp
qed

lemma listed_workflow: "list_workflows u l s arch d = (ws, n) \<Longrightarrow> w \<in> set ws \<Longrightarrow> wf_id w \<in> own_workflows u d"
  by (auto simp: list_workflows_def own_workflows_def Let_def dest!: in_set_takeD in_set_dropD)

lemma part_exists: "execution_exists u eid (tenant_part u d) = execution_exists u eid d"
  by (auto simp: execution_exists_def tenant_part_def)

lemma exists_own: "execution_exists u eid d \<Longrightarrow> eid \<in> own_executions u d"
  by (auto simp: execution_exists_def own_executions_def)

lemma part_items: "eid \<in> own_executions u d \<Longrightarrow>
    filter (\<lambda>t. et_execution t = eid) (etasks (tenant_part u d)) = filter (\<lambda>t. et_execution t = eid) (etasks d)"
  by (auto simp: tenant_part_def intro!: filter_cong)

lemma part_execution: "repo_get_execution u eid (tenant_part u d) = repo_get_execution u eid d"
proof -
  have "find (\<lambda>e. ex_id e = eid \<and> ex_tenant e = u) (executions (tenant_part u d)) = find (\<lambda>e. ex_id e = eid \<and> ex_tenant e = u) (executions d)"
    by (simp add: tenant_part_def) (rule find_filter, simp)
  moreover have "eid \<in> own_executions u d" if "find (\<lambda>e. ex_id e = eid \<and> ex_tenant e = u) (executions d) = Some e" for e
    using find_SomeD [OF that] by (auto simp: own_executions_def)
  ultimately show ?thesis using part_items
    by (cases "find (\<lambda>e. ex_id e = eid \<and> ex_tenant e = u) (executions d)") (simp_all add: repo_get_execution_def)
qed

lemma part_executions: "repo_list_executions u l s st w (tenant_part u d) = repo_list_executions u l s st w d"
proof -
  have "filter (\<lambda>e. ex_tenant e = u \<and> P e) (executions (tenant_part u d)) = filter (\<lambda>e. ex_tenant e = u \<and> P e) (executions d)" for P
    by (auto simp: tenant_part_def intro!: filter_cong)
  then show ?thesis unfolding repo_list_executions_def by simp
qed

lemma part_etasks: "list_execution_tasks u eid (tenant_part u d) = list_execution_tasks u eid d"
  using part_items exists_own by (simp add: list_execution_tasks_def part_exists)

lemma part_logs: "execution_logs u eid (tenant_part u d) = execution_logs u eid d"
proof (cases "execution_exists u eid d")
  case True
  then have "filter (\<lambda>l. lg_execution l = eid) (elogs (tenant_part u d)) = filter (\<lambda>l. lg_execution l = eid) (elogs d)"
    using exists_own by (auto simp: tenant_part_def intro!: filter_cong)
  then show ?thesis by (simp add: execution_logs_def part_exists)
qed (simp add: execution_logs_def part_exists)

lemma part_stats: "u \<noteq> [] \<Longrightarrow> stats now (Some u) (Some (jobs (tenant_part u d))) = stats now (Some u) (Some (jobs d))"
  by (cases u) (simp_all add: stats_def tenant_part_def)

lemma part_tables:
  "filter (\<lambda>s. sc_tenant s = u \<and> P s) (schedules (tenant_part u d)) = filter (\<lambda>s. sc_tenant s = u \<and> P s) (schedules d)"
  "filter (\<lambda>j. qj_tenant j = u \<and> Q j) (jobs (tenant_part u d)) = filter (\<lambda>j. qj_tenant j = u \<and> Q j) (jobs d)"
  "filter (\<lambda>k. ak_tenant k = u) (api_keys (tenant_part u d)) = filter (\<lambda>k. ak_tenant k = u) (api_keys d)"
  "filter (\<lambda>a. au_tenant a = u) (audits (tenant_part u d)) = filter (\<lambda>a. au_tenant a = u) (audits d)"
  "filter (\<lambda>s. sr_tenant s = u) (secrets (tenant_part u d)) = filter (\<lambda>s. sr_tenant s = u) (secrets d)"
  "filter (\<lambda>h. wh_tenant h = u) (endpoints (tenant_part u d)) = filter (\<lambda>h. wh_tenant h = u) (endpoints d)"
  "filter (\<lambda>w. wd_tenant w = u) (deliveries (tenant_part u d)) = filter (\<lambda>w. wd_tenant w = u) (deliveries d)"
  by (auto simp: tenant_part_def intro!: filter_cong)

lemmas part_reads = part_get_workflow part_list_workflows part_execution part_executions part_etasks part_logs part_exists part_stats part_tables

text \<open>A reply with the database left out.\<close>

definition answer_of :: "reply option \<Rightarrow> body res option" where
  "answer_of r = map_option (map_sum id fst) r"

lemma answer_simps [simp]: "answer_of None = None" "answer_of (Some (give d b)) = Some (Inr b)"
  "answer_of (Some (ask f r d)) = Some (map_sum id f r)"
  by (simp_all add: answer_of_def give_def ask_def split: sum.split)

lemma part_auth_call: "reading c \<Longrightarrow> answer_of (auth_call v p c (tenant_part (pr_tenant p) d)) = answer_of (auth_call v p c d)"
  by (cases c) (simp_all add: auth_call_def list_keys_def part_reads cong: sum.case_cong)

lemma part_workflow_call: "reading c \<Longrightarrow> answer_of (workflow_call v p c (tenant_part (pr_tenant p) d)) = answer_of (workflow_call v p c d)"
proof (cases c)
  case (ListWorkflows l s arch)
  then show ?thesis using part_view [OF listed_workflow]
    by (cases "list_workflows (pr_tenant p) l s arch d") (auto simp: workflow_call_def part_reads)
qed (auto simp: workflow_call_def part_reads workflow_get_ctl_def list_revisions_def export_workflow_def
    list_revisions_repo_def get_latest_revision_def part_revisions [OF got_workflow] part_view [OF got_workflow]
    list_schedules_def split: option.splits)

lemma part_execution_call: "reading c \<Longrightarrow> answer_of (execution_call v p c (tenant_part (pr_tenant p) d)) = answer_of (execution_call v p c d)"
  by (cases c) (simp_all add: execution_call_def part_reads list_executions_ctl_def get_execution_ctl_def get_tasks_ctl_def
      get_logs_ctl_def list_logs_def)

lemma part_monitor_call: "reading c \<Longrightarrow> pr_tenant p \<noteq> [] \<Longrightarrow>
    answer_of (monitor_call v p c (tenant_part (pr_tenant p) d)) = answer_of (monitor_call v p c d)"
  by (cases c) (simp_all add: monitor_call_def queue_status_def part_reads)

lemma part_ops_call: "reading c \<Longrightarrow> answer_of (ops_call v p c (tenant_part (pr_tenant p) d)) = answer_of (ops_call v p c d)"
  by (cases c) (simp_all add: ops_call_def list_audit_def list_secrets_def secret_list_def list_webhooks_def list_deliveries_def
      list_dead_letters_ctl_def list_dead_letters_def count_dead_letters_def part_reads Let_def cong: sum.case_cong)

text \<open>What a process would have if the database held the rows of one tenant only.\<close>

definition alone :: "uid \<Rightarrow> server \<Rightarrow> server" where
  "alone u sv = sv\<lparr>srv_auth := (srv_auth sv)\<lparr>as_db := tenant_part u (as_db (srv_auth sv))\<rparr>\<rparr>"

lemma answers_map: "List.map_filter id (map answer_of rs) = map (map_sum id fst) (List.map_filter id rs)"
  by (induction rs) (simp_all add: answer_of_def id_def split: option.split)

lemma reading_perform:
  assumes "reading c"
  shows "fst (perform v p c sv) = (let d = as_db (srv_auth sv) in
     case List.map_filter id (map answer_of [auth_call v p c d, workflow_call v p c d, execution_call v p c d, monitor_call v p c d, ops_call v p c d]) of
       b # _ \<Rightarrow> b | [] \<Rightarrow> Inl (ValueError []))"
proof -
  let ?rs = "List.map_filter id [auth_call v p c (as_db (srv_auth sv)), workflow_call v p c (as_db (srv_auth sv)),
    execution_call v p c (as_db (srv_auth sv)), monitor_call v p c (as_db (srv_auth sv)), ops_call v p c (as_db (srv_auth sv))]"
  have "perform v p c sv = (case ?rs of Inr (b, d', sent) # _ \<Rightarrow> (Inr b, with_db d' sent sv) | Inl e # _ \<Rightarrow> (Inl e, sv)
      | [] \<Rightarrow> (Inl (ValueError []), sv))"
    using assms unfolding perform_def Let_def by (cases c) (simp_all only: call.case reading.simps)
  then show ?thesis unfolding answers_map Let_def by (auto split: list.split sum.split)
qed

text \<open>C11. What a request of one tenant sees of another: nothing. Every request that only reads, but for the reports on the whole
  process (the workers, the system snapshot, the diagnostics), gets the same answer, data or error, as it would if the
  database held the rows of the caller's own tenant and no others.\<close>

theorem answers_from_own_part:
  assumes "reading c" and "pr_tenant p \<noteq> []"
  shows "fst (perform v p c (alone (pr_tenant p) sv)) = fst (perform v p c sv)"
proof -
  have "as_db (srv_auth (alone (pr_tenant p) sv)) = tenant_part (pr_tenant p) (as_db (srv_auth sv))" by (simp add: alone_def)
  then show ?thesis using assms
    by (simp only: reading_perform Let_def list.map part_auth_call part_workflow_call part_execution_call part_monitor_call part_ops_call not_False_eq_True)
qed

text \<open>A server that has the workflow of one tenant, and the principals of two.\<close>

definition shared_server :: server where
  "shared_server = demo_server\<lparr>srv_auth := (srv_auth demo_server)\<lparr>as_db := installed\<rparr>\<rparr>"

definition member_of :: "uid \<Rightarrow> principal" where
  "member_of t = \<lparr>pr_tenant = t, pr_tenant_name = t, pr_key = ''k'', pr_key_name = ''ops'', pr_role = ''admin''\<rparr>"

lemma answers_from_own_part_witness:
  "fst (perform demo_env (member_of ''acme'') (Export ''u0'') (alone ''acme'' shared_server)) =
     fst (perform demo_env (member_of ''acme'') (Export ''u0'') shared_server) \<and>
   fst (perform demo_env (member_of ''globex'') (Export ''u0'') (alone ''globex'' shared_server)) =
     fst (perform demo_env (member_of ''globex'') (Export ''u0'') shared_server) \<and>
   fst (perform demo_env (member_of ''acme'') (Export ''u0'') shared_server) \<noteq>
     fst (perform demo_env (member_of ''globex'') (Export ''u0'') shared_server)"
proof -
  have p: "fst (perform demo_env (member_of t) (Export ''u0'') shared_server) = map_sum id BDocument (export_workflow t ''u0'' installed)" for t
    using reading_perform [of "Export ''u0''" demo_env "member_of t" shared_server]
    by (simp add: auth_call_def workflow_call_def execution_call_def monitor_call_def ops_call_def shared_server_def member_of_def)
  have "case export_workflow ''globex'' ''u0'' installed of Inr _ \<Rightarrow> False | Inl _ \<Rightarrow> True" by code_simp
  then have "fst (perform demo_env (member_of ''acme'') (Export ''u0'') shared_server) \<noteq>
    fst (perform demo_env (member_of ''globex'') (Export ''u0'') shared_server)" using installed_export by (auto simp: p split: sum.splits)
  moreover have "fst (perform demo_env (member_of t) (Export ''u0'') (alone t shared_server)) =
    fst (perform demo_env (member_of t) (Export ''u0'') shared_server)" if "t \<noteq> []" for t
    using answers_from_own_part [of "Export ''u0''" "member_of t" demo_env shared_server] that by (simp add: member_of_def)
  ultimately show ?thesis by simp
qed

end
