(* ===== verification/Wall.thy ===== *)
theory Wall
  imports Tenancy
begin

section \<open>What requests leave of the other tenants\<close>

text \<open>
  The foreign keys of the schema: what a row refers to exists, and belongs to the same tenant; and primary keys are
  unique. (For workflows, executions, tasks and jobs that is part of \<open>platform_ok\<close>.)
\<close>

definition references_ok :: "db \<Rightarrow> bool" where
  "references_ok d \<longleftrightarrow>
     (\<forall>j \<in> set (jobs d). \<exists>e \<in> set (executions d). ex_id e = qj_execution j \<and> ex_tenant e = qj_tenant j) \<and>
     (\<forall>j \<in> set (jobs d). \<exists>x \<in> set (etasks d). et_id x = qj_etask j \<and> et_execution x = qj_execution j) \<and>
     (\<forall>x \<in> set (etasks d). case et_task x of None \<Rightarrow> True | Some i \<Rightarrow>
        \<exists>t \<in> set (task_defs d). \<exists>w \<in> set (workflows d). \<exists>e \<in> set (executions d).
          td_id t = i \<and> wf_id w = td_workflow t \<and> ex_id e = et_execution x \<and> ex_tenant e = wf_tenant w) \<and>
     (\<forall>x \<in> set (deliveries d). \<exists>h \<in> set (endpoints d). wh_id h = wd_endpoint x \<and> wh_tenant h = wd_tenant x)"

definition keys_ok :: "db \<Rightarrow> bool" where
  "keys_ok d \<longleftrightarrow> distinct (map ak_id (api_keys d)) \<and> distinct (map sr_id (secrets d)) \<and> distinct (map wh_id (endpoints d)) \<and>
     distinct (map sc_id (schedules d))"

lemma filter_upd_foreign: "(\<And>x. x \<in> set xs \<Longrightarrow> Q x \<Longrightarrow> \<not> P x \<and> \<not> P (f x)) \<Longrightarrow> filter P (upd_where Q f xs) = filter P xs"
  by (induction xs) (auto simp: upd_where_def)

lemma filter_del_foreign: "(\<And>x. x \<in> set xs \<Longrightarrow> Q x \<Longrightarrow> \<not> P x) \<Longrightarrow> filter P (del_where Q xs) = filter P xs"
  by (induction xs) (auto simp: del_where_def)

lemma same_key: "distinct (map k xs) \<Longrightarrow> x \<in> set xs \<Longrightarrow> y \<in> set xs \<Longrightarrow> k x = k y \<Longrightarrow> x = y"
  by (simp add: distinct_map inj_on_def)

lemma filter_upd_key:
  assumes "distinct (map k xs)" and "r \<in> set xs" and "\<not> P r" and "\<And>x. P (f x) = P x"
  shows "filter P (upd_where (\<lambda>x. k x = k r) f xs) = filter P xs"
  using same_key [OF assms(1) _ assms(2)] assms(3,4) by (intro filter_upd_foreign) auto

lemma filter_del_key:
  assumes "distinct (map k xs)" and "r \<in> set xs" and "\<not> P r"
  shows "filter P (del_where (\<lambda>x. k x = k r) xs) = filter P xs"
  using same_key [OF assms(1) _ assms(2)] assms(3) by (intro filter_del_foreign) auto

lemma part_update [simp]:
  "filter (\<lambda>x. ak_tenant x = u) ks = filter (\<lambda>x. ak_tenant x = u) (api_keys d) \<Longrightarrow> tenant_part u (d\<lparr>api_keys := ks\<rparr>) = tenant_part u d"
  "filter (\<lambda>x. sr_tenant x = u) ss = filter (\<lambda>x. sr_tenant x = u) (secrets d) \<Longrightarrow> tenant_part u (d\<lparr>secrets := ss\<rparr>) = tenant_part u d"
  "filter (\<lambda>x. wh_tenant x = u) hs = filter (\<lambda>x. wh_tenant x = u) (endpoints d) \<Longrightarrow> tenant_part u (d\<lparr>endpoints := hs\<rparr>) = tenant_part u d"
  "filter (\<lambda>x. wd_tenant x = u) ws = filter (\<lambda>x. wd_tenant x = u) (deliveries d) \<Longrightarrow> tenant_part u (d\<lparr>deliveries := ws\<rparr>) = tenant_part u d"
  "filter (\<lambda>x. sc_tenant x = u) cs = filter (\<lambda>x. sc_tenant x = u) (schedules d) \<Longrightarrow> tenant_part u (d\<lparr>schedules := cs\<rparr>) = tenant_part u d"
  "filter (\<lambda>x. qj_tenant x = u) js = filter (\<lambda>x. qj_tenant x = u) (jobs d) \<Longrightarrow> tenant_part u (d\<lparr>jobs := js\<rparr>) = tenant_part u d"
  "tenant_part u (d\<lparr>uuid_draws := n\<rparr>) = tenant_part u d"
  by (simp_all add: part_defs)

lemma part_audit: "pr_tenant p \<noteq> u \<Longrightarrow> tenant_part u (audit_write n (Some p) a ty i x t d) = tenant_part u d"
  by (simp add: part_defs audit_write_def generate_uuid_def)

section \<open>Keys, secrets, webhooks, schedules\<close>

lemma part_create_key:
  assumes "create_key_route now hash raw p name role d = Inr (k, raw', d')" and "pr_tenant p \<noteq> u"
  shows "tenant_part u d' = tenant_part u d"
proof -
  obtain d1 where d1: "create_key now hash raw p name role d = Inr (k, raw', d1)" and d': "tenant_part u d' = tenant_part u d1"
    using assms part_audit by (auto simp: create_key_route_def split: sum.splits)
  have "tenant_part u d1 = tenant_part u d"
    using d1 assms(2) by (auto simp: create_key_def insert_key_def generate_uuid_def part_defs Let_def split: sum.splits if_splits)
  with d' show ?thesis by simp
qed

lemma part_revoke_key:
  assumes "revoke_key_route now p kid (d, cache) = Inr (d', cache')" and "pr_tenant p \<noteq> u" and "keys_ok d"
  shows "tenant_part u d' = tenant_part u d"
proof -
  obtain d1 c1 where d1: "revoke_key now p kid (d, cache) = Inr (d1, c1)" and d': "tenant_part u d' = tenant_part u d1"
    using assms part_audit by (auto simp: revoke_key_route_def split: sum.splits)
  then obtain k where k: "find (\<lambda>k. ak_id k = kid \<and> ak_tenant k = pr_tenant p) (api_keys d) = Some k"
    and e: "d1 = d\<lparr>api_keys := upd_where (\<lambda>x. ak_id x = ak_id k) (\<lambda>x. x\<lparr>ak_revoked_at := Some now\<rparr>) (api_keys d)\<rparr>"
    by (auto simp: revoke_key_def split: sum.splits option.splits if_splits)
  have "filter (\<lambda>x. ak_tenant x = u) (upd_where (\<lambda>x. ak_id x = ak_id k) (\<lambda>x. x\<lparr>ak_revoked_at := Some now\<rparr>) (api_keys d)) =
      filter (\<lambda>x. ak_tenant x = u) (api_keys d)"
    using find_SomeD [OF k] assms(2,3) by (intro filter_upd_key) (auto simp: keys_ok_def)
  then show ?thesis unfolding d' e by (rule part_update)
qed

lemma part_create_secret:
  assumes "create_secret enc now p name x d = Inr (r, d')" and "pr_tenant p \<noteq> u" and "keys_ok d"
  shows "tenant_part u d' = tenant_part u d"
proof -
  obtain d1 where d1: "secret_create enc now (pr_tenant p) name x d = (r, d1)" and d': "tenant_part u d' = tenant_part u d1"
    using assms part_audit by (auto simp: create_secret_def split: sum.splits prod.splits)
  have "tenant_part u d1 = tenant_part u d"
  proof (cases "find_secret (pr_tenant p) name d")
    case None
    with d1 assms(2) show ?thesis by (auto simp: secret_create_def generate_uuid_def Let_def)
  next
    case (Some s)
    note s = find_SomeD [OF Some [unfolded find_secret_def]]
    have "filter (\<lambda>x. sr_tenant x = u) (upd_where (\<lambda>x. sr_id x = sr_id s) f (secrets d)) = filter (\<lambda>x. sr_tenant x = u) (secrets d)"
      if "\<And>x. sr_tenant (f x) = sr_tenant x" for f
      using s assms(2,3) that by (intro filter_upd_key) (auto simp: keys_ok_def)
    with d1 Some show ?thesis by (auto simp: secret_create_def Let_def)
  qed
  with d' show ?thesis by simp
qed

lemma part_delete_secret:
  assumes "delete_secret now p name d = Inr d'" and "pr_tenant p \<noteq> u" and "keys_ok d"
  shows "tenant_part u d' = tenant_part u d"
proof -
  obtain d1 where d1: "secret_delete (pr_tenant p) name d = Inr d1" and d': "tenant_part u d' = tenant_part u d1"
    using assms part_audit by (auto simp: delete_secret_def split: sum.splits)
  then obtain r where r: "find_secret (pr_tenant p) name d = Some r" and e: "d1 = d\<lparr>secrets := del_where (\<lambda>x. sr_id x = sr_id r) (secrets d)\<rparr>"
    by (auto simp: secret_delete_def split: option.splits)
  have "filter (\<lambda>x. sr_tenant x = u) (del_where (\<lambda>x. sr_id x = sr_id r) (secrets d)) = filter (\<lambda>x. sr_tenant x = u) (secrets d)"
    using find_SomeD [OF r [unfolded find_secret_def]] assms(2,3) by (intro filter_del_key) (auto simp: keys_ok_def)
  then show ?thesis unfolding d' e by (rule part_update)
qed

lemma part_create_webhook:
  assumes "create_webhook now p w act d = Inr (h, d')" and "pr_tenant p \<noteq> u"
  shows "tenant_part u d' = tenant_part u d"
  using assms part_audit [OF assms(2)]
  by (auto simp: create_webhook_def generate_uuid_def Let_def split: sum.splits prod.splits)

lemma part_delete_webhook:
  assumes "delete_webhook now p i d = Inr d'" and "pr_tenant p \<noteq> u" and "keys_ok d" and "references_ok d"
  shows "tenant_part u d' = tenant_part u d"
proof -
  obtain h where h: "find (\<lambda>h. wh_id h = i \<and> wh_tenant h = pr_tenant p) (endpoints d) = Some h"
    and d': "tenant_part u d' = tenant_part u (d\<lparr>endpoints := del_where (\<lambda>x. wh_id x = wh_id h) (endpoints d),
            deliveries := del_where (\<lambda>w. wd_endpoint w = wh_id h) (deliveries d)\<rparr>)"
    using assms part_audit [OF assms(2)] by (auto simp: delete_webhook_def split: sum.splits option.splits)
  note hd = find_SomeD [OF h]
  have ends: "filter (\<lambda>x. wh_tenant x = u) (del_where (\<lambda>x. wh_id x = wh_id h) (endpoints d)) = filter (\<lambda>x. wh_tenant x = u) (endpoints d)"
    using hd assms(2,3) by (intro filter_del_key) (auto simp: keys_ok_def)
  have "filter (\<lambda>x. wd_tenant x = u) (del_where (\<lambda>w. wd_endpoint w = wh_id h) (deliveries d)) = filter (\<lambda>x. wd_tenant x = u) (deliveries d)"
  proof (rule filter_del_foreign)
    fix x assume x: "x \<in> set (deliveries d)" "wd_endpoint x = wh_id h"
    then obtain g where "g \<in> set (endpoints d)" "wh_id g = wd_endpoint x" "wh_tenant g = wd_tenant x"
      using assms(4) by (auto simp: references_ok_def)
    then show "wd_tenant x \<noteq> u" using same_key [of wh_id "endpoints d" g h] hd x assms(2,3) by (auto simp: keys_ok_def)
  qed
  with ends show ?thesis unfolding d' by simp
qed

lemma part_create_schedule:
  assumes "create_schedule cron now p wid c n d = Inr (s, d')" and "pr_tenant p \<noteq> u"
  shows "tenant_part u d' = tenant_part u d"
proof -
  obtain x where "tenant_part u d' = tenant_part u (d\<lparr>uuid_draws := x, schedules := schedules d @ [s]\<rparr>)" "sc_tenant s = pr_tenant p"
    using assms part_audit [OF assms(2)] by (auto simp: create_schedule_def generate_uuid_def Let_def split: sum.splits option.splits)
  then show ?thesis using assms(2) by simp
qed

lemma part_delete_schedule:
  assumes "delete_schedule now p i d = Inr d'" and "pr_tenant p \<noteq> u" and "keys_ok d"
  shows "tenant_part u d' = tenant_part u d"
proof -
  obtain s where s: "find (\<lambda>s. sc_id s = i \<and> sc_tenant s = pr_tenant p) (schedules d) = Some s"
    and d': "tenant_part u d' = tenant_part u (d\<lparr>schedules := del_where (\<lambda>x. sc_id x = sc_id s) (schedules d)\<rparr>)"
    using assms part_audit [OF assms(2)] by (auto simp: delete_schedule_def split: sum.splits option.splits)
  have "filter (\<lambda>x. sc_tenant x = u) (del_where (\<lambda>x. sc_id x = sc_id s) (schedules d)) = filter (\<lambda>x. sc_tenant x = u) (schedules d)"
    using find_SomeD [OF s] assms(2,3) by (intro filter_del_key) (auto simp: keys_ok_def)
  then show ?thesis unfolding d' by (rule part_update)
qed

section \<open>Workflows\<close>

lemma part_update_workflows:
  "filter (\<lambda>x. wf_tenant x = u) ws = filter (\<lambda>x. wf_tenant x = u) (workflows d) \<Longrightarrow> tenant_part u (d\<lparr>workflows := ws\<rparr>) = tenant_part u d"
  by (simp add: part_defs del: set_filter)

lemma part_insert_task_def:
  "wid \<notin> own_workflows u d \<Longrightarrow> tenant_part u (insert_task_def now wid t d) = tenant_part u d"
  "own_workflows u (insert_task_def now wid t d) = own_workflows u d"
  by (simp_all add: part_defs insert_task_def_def generate_uuid_def)

lemma part_insert_task_defs:
  "wid \<notin> own_workflows u d \<Longrightarrow> tenant_part u (fold (insert_task_def now wid) ts d) = tenant_part u d \<and>
     own_workflows u (fold (insert_task_def now wid) ts d) = own_workflows u d"
  by (induction ts arbitrary: d) (simp_all add: part_insert_task_def)

lemma part_write_document:
  assumes "wid \<notin> own_workflows u d"
  shows "tenant_part u (write_document now wid t a doc d) = tenant_part u d"
proof -
  let ?d = "fold (insert_task_def now wid) (doc_tasks doc) d"
  have "tenant_part u (insert_revision now wid t a doc ?d) = tenant_part u ?d"
    using part_insert_task_defs [OF assms, of now "doc_tasks doc"] assms by (simp add: insert_revision_def generate_uuid_def part_defs)
  then show ?thesis using part_insert_task_defs [OF assms] by (simp add: write_document_def)
qed

lemma part_create_workflow:
  assumes "create_workflow now (\<lambda>x. x) t payload a ov d = Inr (w, d')" and "t \<noteq> u" and "workflows_ok d"
  shows "tenant_part u d' = tenant_part u d"
proof -
  let ?wid = "uuid_supply d (uuid_draws d)"
  let ?d2 = "d\<lparr>uuid_draws := Suc (uuid_draws d), workflows := workflows d @ [created_row now t payload ov ?wid]\<rparr>"
  have d': "d' = write_document now ?wid t a (create_document payload ov) ?d2"
    using assms(1) by (auto simp: create_steps Let_def split: sum.splits if_splits option.splits)
  have row: "wf_tenant (created_row now t payload ov ?wid) = t" by (simp add: created_row_def)
  have "?wid \<notin> wf_id ` set (workflows d)" using assms(3) next_id_fresh [of d] by (auto simp: workflows_ok_def)
  then have "?wid \<notin> own_workflows u ?d2" using row assms(2) by (auto simp: own_workflows_def)
  then have "tenant_part u d' = tenant_part u ?d2" unfolding d' by (rule part_write_document)
  also have "\<dots> = tenant_part u (d\<lparr>uuid_draws := Suc (uuid_draws d)\<rparr>)" using row assms(2) by (intro part_update_workflows) simp
  finally show ?thesis by simp
qed

lemma filter_other_workflow:
  assumes "workflows_ok d" and "get_workflow t wid arch d = Some w" and "t \<noteq> u" and "\<And>x. wf_tenant (f x) = wf_tenant x"
  shows "filter (\<lambda>x. wf_tenant x = u) (upd_where (\<lambda>x. wf_id x = wf_id w) f (workflows d)) = filter (\<lambda>x. wf_tenant x = u) (workflows d)"
    and "wf_id w \<notin> own_workflows u d"
proof -
  have w: "w \<in> set (workflows d)" "wf_tenant w = t" using assms(2) by (auto simp: get_workflow_def dest: find_SomeD)
  with assms show "filter (\<lambda>x. wf_tenant x = u) (upd_where (\<lambda>x. wf_id x = wf_id w) f (workflows d)) = filter (\<lambda>x. wf_tenant x = u) (workflows d)"
    by (intro filter_upd_key) (auto simp: workflows_ok_def)
  show "wf_id w \<notin> own_workflows u d"
    using same_key [of wf_id "workflows d" _ w] w assms(1,3) by (auto simp: own_workflows_def workflows_ok_def)
qed

lemma part_delete_task_defs:
  assumes ok: "workflows_ok d" "rows_ok d" "references_ok d" and w: "w \<in> set (workflows d)" "wf_tenant w \<noteq> u"
  shows "tenant_part u (delete_task_defs (wf_id w) d) = tenant_part u d"
proof -
  let ?gone = "td_id ` set (filter (\<lambda>t. td_workflow t = wf_id w) (task_defs d))"
  have not_own: "wf_id w \<notin> own_workflows u d"
    using same_key [of wf_id "workflows d" _ w] w ok(1) by (auto simp: own_workflows_def workflows_ok_def)
  have defs: "filter (\<lambda>x. td_workflow x \<in> own_workflows u d) (del_where (\<lambda>t. td_workflow t = wf_id w) (task_defs d)) =
      filter (\<lambda>x. td_workflow x \<in> own_workflows u d) (task_defs d)" using not_own by (intro filter_del_foreign) auto
  have "filter (\<lambda>x. et_execution x \<in> own_executions u d)
      (upd_where (\<lambda>i. case et_task i of None \<Rightarrow> False | Some t \<Rightarrow> t \<in> ?gone) (\<lambda>i. i\<lparr>et_task := None\<rparr>) (etasks d)) =
      filter (\<lambda>x. et_execution x \<in> own_executions u d) (etasks d)"
  proof (rule filter_upd_foreign)
    fix x assume x: "x \<in> set (etasks d)" "case et_task x of None \<Rightarrow> False | Some t \<Rightarrow> t \<in> ?gone"
    then obtain s where s: "s \<in> set (task_defs d)" "td_workflow s = wf_id w" "et_task x = Some (td_id s)" by (auto split: option.splits)
    have "case et_task x of None \<Rightarrow> True | Some i \<Rightarrow> \<exists>t \<in> set (task_defs d). \<exists>w \<in> set (workflows d). \<exists>e \<in> set (executions d).
          td_id t = i \<and> wf_id w = td_workflow t \<and> ex_id e = et_execution x \<and> ex_tenant e = wf_tenant w"
      using ok(3) x(1) unfolding references_ok_def by blast
    then obtain t v e where ref: "t \<in> set (task_defs d)" "v \<in> set (workflows d)" "e \<in> set (executions d)"
      "td_id t = td_id s" "wf_id v = td_workflow t" "ex_id e = et_execution x" "ex_tenant e = wf_tenant v"
      unfolding s(3) option.case by blast
    have "t = s" by (rule same_key [OF _ ref(1) s(1) ref(4)]) (use ok(1) in \<open>simp add: workflows_ok_def\<close>)
    then have "v = w" using ref(5) s(2) by (intro same_key [where k = wf_id, OF _ ref(2) w(1)]) (use ok(1) in \<open>simp_all add: workflows_ok_def\<close>)
    have "et_execution x \<notin> own_executions u d"
    proof
      assume "et_execution x \<in> own_executions u d"
      then obtain e' where e': "e' \<in> set (executions d)" "ex_tenant e' = u" "ex_id e' = ex_id e"
        unfolding own_executions_def ref(6) [symmetric] by auto
      have "e' = e" by (rule same_key [OF _ e'(1) ref(3) e'(3)]) (use ok(2) in \<open>simp add: rows_ok_def\<close>)
      with e'(2) ref(7) w(2) \<open>v = w\<close> show False by simp
    qed
    then show "\<not> et_execution x \<in> own_executions u d \<and> \<not> et_execution (x\<lparr>et_task := None\<rparr>) \<in> own_executions u d" by simp
  qed
  with defs show ?thesis by (simp add: tenant_part_def delete_task_defs_def Let_def own_executions_def own_workflows_def del: set_filter)
qed

lemma delete_task_defs_workflows: "delete_task_defs wid (d\<lparr>workflows := ws\<rparr>) = (delete_task_defs wid d)\<lparr>workflows := ws\<rparr>"
  by (cases d) (simp add: delete_task_defs_def Let_def)

lemma part_update_workflow:
  assumes c: "update_workflow now (\<lambda>x. x) t wid payload a d = Inr (w', d')" and ok: "workflows_ok d" "rows_ok d" "references_ok d" and "t \<noteq> u"
  shows "tenant_part u d' = tenant_part u d"
proof -
  obtain w n de r doc where g: "get_workflow t wid False d = Some w"
    and d': "d' = write_document now (wf_id w) t a doc
      (delete_task_defs (wf_id w) (d\<lparr>workflows := upd_where (\<lambda>x. wf_id x = wf_id w) (update_row now w n de r) (workflows d)\<rparr>))"
    using c by (auto simp: update_workflow_def Let_def split: option.splits sum.splits if_splits)
  have w: "w \<in> set (workflows d)" "wf_tenant w \<noteq> u" using g \<open>t \<noteq> u\<close> by (auto simp: get_workflow_def dest: find_SomeD)
  let ?d = "(delete_task_defs (wf_id w) d)\<lparr>workflows := upd_where (\<lambda>x. wf_id x = wf_id w) (update_row now w n de r) (workflows d)\<rparr>"
  have fo: "filter (\<lambda>x. wf_tenant x = u) (upd_where (\<lambda>x. wf_id x = wf_id w) (update_row now w n de r) (workflows d)) =
      filter (\<lambda>x. wf_tenant x = u) (workflows d)" "wf_id w \<notin> own_workflows u d"
    by (rule filter_other_workflow [OF ok(1) g \<open>t \<noteq> u\<close>], simp add: update_row_def)+
  have same: "workflows (delete_task_defs (wf_id w) d) = workflows d" by (simp add: delete_task_defs_def Let_def)
  have "wf_id w \<notin> own_workflows u ?d" using fo unfolding own_workflows_def by simp
  then have "tenant_part u d' = tenant_part u ?d" unfolding d' delete_task_defs_workflows by (rule part_write_document)
  also have "\<dots> = tenant_part u (delete_task_defs (wf_id w) d)" using fo(1) same by (intro part_update_workflows) simp
  finally show ?thesis using part_delete_task_defs [OF ok w] by simp
qed

section \<open>Executions\<close>

text \<open>
  What a session of another tenant's execution writes: logs of the execution, events and jobs of its tenant, and no
  audit record. An instance of the locale for programs on sessions.
\<close>

definition beside :: "uid \<Rightarrow> uid \<Rightarrow> uid \<Rightarrow> db \<Rightarrow> session \<Rightarrow> bool" where
  "beside eid t u d s \<longleftrightarrow> ex_id (se_exec s) = eid \<and> ex_tenant (se_exec s) = t \<and> t \<noteq> u \<and>
     filter (\<lambda>l. lg_execution l \<noteq> eid) (elogs (se_db s)) = filter (\<lambda>l. lg_execution l \<noteq> eid) (elogs d) \<and>
     filter (\<lambda>e. ob_tenant e = u) (outbox (se_db s)) = filter (\<lambda>e. ob_tenant e = u) (outbox d) \<and>
     filter (\<lambda>j. qj_tenant j = u) (jobs (se_db s)) = filter (\<lambda>j. qj_tenant j = u) (jobs d) \<and>
     (\<forall>j \<in> set (jobs d). qj_tenant j = u \<longrightarrow> qj_execution j \<noteq> eid) \<and> audits (se_db s) = audits d"

lemma queue_item_beside:
  assumes "queue_item S n a i s = Inr s'"
  shows "\<exists>r. jobs (se_db s') = jobs (se_db s) @ [r] \<and> qj_tenant r = ex_tenant (se_exec s) \<and> se_exec s' = se_exec s \<and>
    elogs (se_db s') = elogs (se_db s) \<and> outbox (se_db s') = outbox (se_db s) \<and> audits (se_db s') = audits (se_db s)"
  using assms by (auto simp: queue_item_def generate_uuid_def enqueue_def split: sum.splits if_splits)

lemma beside_jobs:
  assumes "beside eid t u d s" and "\<And>j. j \<in> set (jobs d) \<Longrightarrow> qj_tenant j = u \<Longrightarrow> \<not> P j" and "\<And>j. qj_tenant (f j) = qj_tenant j"
  shows "beside eid t u d (on_db (\<lambda>d. d\<lparr>jobs := upd_where P f (jobs d)\<rparr>) s)"
proof -
  have "filter (\<lambda>j. qj_tenant j = u) (upd_where P f (jobs (se_db s))) = filter (\<lambda>j. qj_tenant j = u) (jobs (se_db s))"
  proof (rule filter_upd_foreign)
    fix j assume j: "j \<in> set (jobs (se_db s))" "P j"
    have "qj_tenant j \<noteq> u"
    proof
      assume "qj_tenant j = u"
      with j(1) have "j \<in> set (filter (\<lambda>j. qj_tenant j = u) (jobs (se_db s)))" by simp
      then have "j \<in> set (filter (\<lambda>j. qj_tenant j = u) (jobs d))" using assms(1) unfolding beside_def by metis
      with assms(2) j(2) show False by auto
    qed
    then show "\<not> qj_tenant j = u \<and> \<not> qj_tenant (f j) = u" using assms(3) by simp
  qed
  with assms(1) show ?thesis by (simp add: beside_def on_db_def)
qed

interpretation apart: session_queue "beside eid t u d" S for eid t u d S
proof unfold_locales
  fix s s' n a i
  assume b: "beside eid t u d s" and q: "queue_item S n a i s = Inr s'"
  from queue_item_beside [OF q] b show "beside eid t u d s'" by (auto simp: beside_def)
next
  fix s n
  assume b: "beside eid t u d s"
  have "ex_id (se_exec s) = eid" using b by (simp add: beside_def)
  with b show "beside eid t u d (on_db (\<lambda>d. d\<lparr>jobs := cancel_execution_jobs n (ex_id (se_exec s)) (jobs d)\<rparr>) s)"
    unfolding cancel_execution_jobs_def by (intro beside_jobs) (auto simp: beside_def)
qed (auto simp: beside_def exec_keeps_def log_write_def outbox_write_def generate_uuid_def)

text \<open>Committing such a session leaves the part of every other tenant.\<close>

lemma part_commit:
  assumes ok: "rows_ok d" and load: "load_session eid d = Some s" and ev: "evolves s s'" and b: "beside eid t u d s'"
  shows "tenant_part u (commit s s') = tenant_part u d"
proof -
  note l = load_session_SomeD [OF load]
  have fr: "db_frame d (se_db s')" "exec_keeps (se_exec s) (se_exec s')" using ev l(5) by (simp_all add: evolves_def)
  have e: "ex_id (se_exec s') = ex_id (se_exec s)" "ex_tenant (se_exec s) \<noteq> u" "eid = ex_id (se_exec s)"
    using b fr(2) l(2) by (auto simp: beside_def exec_keeps_def)
  have execs: "filter (\<lambda>x. ex_tenant x = u) (executions (commit s s')) = filter (\<lambda>x. ex_tenant x = u) (executions d)"
    using fr(1) l(3) e(2) ok unfolding commit_def Let_def e(1)
    by (simp add: db_frame_def) (rule filter_upd_key, simp_all add: rows_ok_def)
  have own: "own_executions u (commit s s') = own_executions u d" by (simp only: own_executions_def execs)
  have wfs: "own_workflows u (commit s s') = own_workflows u d" using fr(1) by (simp add: own_workflows_def db_frame_def)
  have not_own: "eid \<notin> own_executions u d"
    using same_key [of ex_id "executions d" _ "se_exec s"] l(3) e(2,3) ok by (auto simp: own_executions_def rows_ok_def)
  have "write_item (se_items s) (se_items s') r = r" if "r \<in> set (etasks d)" "et_execution r \<in> own_executions u d" for r
    by (rule write_item_other [of _ _ "etasks d"]) (use that not_own ok in \<open>auto simp: l(4) rows_ok_def\<close>)
  then have tasks: "filter (\<lambda>x. et_execution x \<in> own_executions u d) (etasks (commit s s')) = filter (\<lambda>x. et_execution x \<in> own_executions u d) (etasks d)"
    using fr(1) by (simp add: commit_def Let_def db_frame_def filter_map comp_def) (auto intro!: map_idI)
  have logs: "filter (\<lambda>x. lg_execution x \<in> own_executions u d) (elogs (se_db s')) = filter (\<lambda>x. lg_execution x \<in> own_executions u d) (elogs d)"
  proof -
    have sub: "filter (\<lambda>x. lg_execution x \<in> own_executions u d) ls = filter (\<lambda>x. lg_execution x \<in> own_executions u d) (filter (\<lambda>l. lg_execution l \<noteq> eid) ls)" for ls
      using not_own by (auto intro!: filter_cong)
    show ?thesis using b by (subst (1 2) sub) (simp add: beside_def)
  qed
  show ?thesis unfolding tenant_part_def own wfs execs tasks using fr(1) b logs
    by (simp add: db_frame_def outer_tables_def beside_def commit_def Let_def)
qed

section \<open>Requests on executions\<close>

lemma job_execution: "references_ok d \<Longrightarrow> j \<in> set (jobs d) \<Longrightarrow> \<exists>e \<in> set (executions d). ex_id e = qj_execution j \<and> ex_tenant e = qj_tenant j"
  by (simp add: references_ok_def)

lemma foreign_jobs:
  assumes "references_ok d" and "rows_ok d" and "e \<in> set (executions d)" and "ex_tenant e \<noteq> u" and "j \<in> set (jobs d)" and "qj_tenant j = u"
  shows "qj_execution j \<noteq> ex_id e"
proof
  assume j: "qj_execution j = ex_id e"
  obtain e' where e': "e' \<in> set (executions d)" "ex_id e' = qj_execution j" "ex_tenant e' = qj_tenant j"
    using job_execution [OF assms(1,5)] by blast
  have "e' = e" by (rule same_key [where k = ex_id, OF _ e'(1) assms(3)]) (use assms(2) e'(2) j in \<open>simp_all add: rows_ok_def\<close>)
  with e'(3) assms(4,6) show False by simp
qed

lemma loaded_beside:
  assumes "get_execution t eid d = Inr s" and "t \<noteq> u" and "references_ok d" and "rows_ok d"
  shows "beside eid t u d s"
proof -
  note g = get_execution_InrD [OF assms(1)]
  note l = load_session_SomeD [OF g(1)]
  have "\<forall>j \<in> set (jobs d). qj_tenant j = u \<longrightarrow> qj_execution j \<noteq> eid"
    using foreign_jobs [OF assms(3,4) l(3)] g(2,3) assms(2) by auto
  then show ?thesis using g(2,3) l(5) assms(2) by (simp add: beside_def)
qed

lemma part_retry_task:
  assumes "retry_task S now t eid ident a d = Inr (e, d', sent)" and "t \<noteq> u" and "references_ok d" and "rows_ok d"
  shows "tenant_part u d' = tenant_part u d"
proof -
  obtain s item s1 where g: "get_execution t eid d = Inr s" and r: "retry_task_session S now a item s = Inr s1" and d': "d' = commit s s1"
    using retry_task_InrD [OF assms(1)] by blast
  show ?thesis unfolding d'
    by (rule part_commit [OF assms(4) get_execution_InrD(1) [OF g] ev.retry_task_I [OF evolves_refl r]
          apart.retry_task_I [OF loaded_beside [OF g assms(2-4)] r]])
qed

lemma part_skip_task:
  assumes "skip_task S now t eid ident a d = Inr (e, d', sent)" and "t \<noteq> u" and "references_ok d" and "rows_ok d"
  shows "tenant_part u d' = tenant_part u d"
proof -
  obtain s item s1 where g: "get_execution t eid d = Inr s" and f: "find_task ident (se_items s) = Inr item"
    and r: "skip_task_session S now a item s = Inr s1" and d': "d' = commit s s1" using skip_task_InrD [OF assms(1)] by blast
  note l = load_session_SomeD [OF get_execution_InrD(1) [OF g]]
  have b: "beside eid t u d s" by (rule loaded_beside [OF g assms(2-4)])
  have item: "item \<in> set (etasks d)" "et_execution item = eid"
    using f l(4) by (auto simp: find_task_def split: option.splits dest!: find_SomeD)
  have jobs: "qj_etask j \<noteq> et_id item" if j: "j \<in> set (jobs d)" "qj_tenant j = u" for j
  proof
    assume same: "qj_etask j = et_id item"
    obtain x where x: "x \<in> set (etasks d)" "et_id x = qj_etask j" "et_execution x = qj_execution j"
      using assms(3) j(1) unfolding references_ok_def by blast
    have "x = item" by (rule same_key [where k = et_id, OF _ x(1) item(1)]) (use assms(4) x(2) same in \<open>simp_all add: rows_ok_def\<close>)
    with x(3) item(2) b j show False by (auto simp: beside_def)
  qed
  have "beside eid t u d (on_db (\<lambda>d. d\<lparr>jobs := cancel_task_jobs now (et_id item) (jobs d)\<rparr>) (finish_item now (et_id item) TSkipped None s))"
    unfolding cancel_task_jobs_def by (rule beside_jobs [OF apart.finish_item_I [OF b]]) (auto simp: jobs)
  then have start: "beside eid t u d (write_log now m ''WARNING'' (Some (et_id item)) (on_db (\<lambda>d. d\<lparr>jobs := cancel_task_jobs now (et_id item) (jobs d)\<rparr>)
      (finish_item now (et_id item) TSkipped None s)))" for m by (rule apart.write_log_I)
  from r have "beside eid t u d s1"
    by (auto simp: skip_task_session_def split: sum.splits intro!: apart.finalize_I dest: apart.ready_pass_I [OF start])
  then show ?thesis unfolding d'
    by (rule part_commit [OF assms(4) get_execution_InrD(1) [OF g] ev.skip_task_I [OF evolves_refl r]])
qed

lemma part_cancel:
  assumes "cancel_execution now (\<lambda>x. x) t eid a mem d = (Inr (e, d', sent), mem')" and "t \<noteq> u" and "references_ok d" and "rows_ok d"
  shows "tenant_part u d' = tenant_part u d"
proof -
  obtain s where g: "get_execution t eid d = Inr s" using assms(1) by (auto simp: cancel_execution_def split: sum.splits)
  have "d' = d \<or> d' = commit s (cancel_mark now a s)"
    using assms(1) g by (auto simp: cancel_execution_def Let_def split: if_splits prod.splits sum.splits)
  moreover have "tenant_part u (commit s (cancel_mark now a s)) = tenant_part u d"
    by (rule part_commit [OF assms(4) get_execution_InrD(1) [OF g] ev.cancel_mark_I [OF evolves_refl]
          apart.cancel_mark_I [OF loaded_beside [OF g assms(2-4)]]])
  ultimately show ?thesis by auto
qed

lemma insert_etasks_rest: "elogs (fold (insert_etask eid defs) ts d) = elogs d" "outbox (fold (insert_etask eid defs) ts d) = outbox d"
  "audits (fold (insert_etask eid defs) ts d) = audits d"
  by (induction ts arbitrary: d) (simp_all add: insert_etask_def generate_uuid_def)

lemma spawn_rows_rest:
  assumes "spawn_rows now t w defs doc rvid revno actor key d = (eid, d1)"
  shows "\<exists>l b. elogs d1 = elogs d @ [l] \<and> lg_execution l = eid \<and> outbox d1 = outbox d @ [b] \<and> ob_tenant b = t \<and> audits d1 = audits d"
  using assms by (auto simp: spawn_rows_def generate_uuid_def Let_def log_write_def outbox_write_def insert_etasks_rest)

lemma part_spawn_rows:
  assumes sp: "spawn_rows now t w defs doc rvid revno actor key d = (eid, d1)" and "t \<noteq> u" and ok: "service_ok S d"
  shows "tenant_part u d1 = tenant_part u d"
proof -
  note t = spawn_rows_tables [OF sp]
  obtain l b where r: "elogs d1 = elogs d @ [l]" "lg_execution l = eid" "outbox d1 = outbox d @ [b]" "ob_tenant b = t" "audits d1 = audits d"
    using spawn_rows_rest [OF sp] by blast
  have "eid \<notin> drawn_ids d" unfolding t(1) using ok by (intro next_id_fresh) (simp add: service_ok_def jobs_good_def)
  then have fresh: "eid \<notin> own_executions u d" using ok by (auto simp: service_ok_def own_executions_def)
  have own: "own_executions u d1 = own_executions u d" using assms(2) by (simp add: own_executions_def t(2) new_execution_def)
  have "filter (\<lambda>x. et_execution x \<in> own_executions u d) (new_tasks eid defs (uuid_supply d) (Suc (uuid_draws d)) (doc_tasks doc)) = []"
    using fresh new_tasks_members by (auto simp: filter_empty_conv)
  then show ?thesis using catalogue_spawn_rows [OF sp] fresh assms(2)
    by (simp add: tenant_part_def own own_workflows_def catalogue_same_def outer_tables_def t r new_execution_def)
qed

lemma part_spawn:
  assumes c: "spawn S now t w doc rvid revno actor key d = Inr (e, d', sent)" and "t \<noteq> u" and "t \<noteq> []" and ok: "service_ok S d" "references_ok d"
  shows "tenant_part u d' = tenant_part u d"
  using c
proof (cases rule: spawn_cases)
  case (created eid d1 s s1)
  have ok1: "rows_ok d1" using spawn_rows_ok(1) [OF ok(1) \<open>t \<noteq> []\<close> created(2)] by (simp add: service_ok_def)
  note l = load_session_SomeD [OF created(3)]
  have s: "ex_tenant (se_exec s) = t" using spawn_rows_load(1) [OF ok(1) created(2)] created(3) by (auto simp: new_execution_def)
  have "eid \<notin> ex_id ` set (executions d)" by (rule spawn_executions(2) [OF ok(1) \<open>t \<noteq> []\<close> created(2-4)])
  then have "qj_execution j \<noteq> eid" if j: "j \<in> set (jobs d)" for j
  proof -
    obtain x where "x \<in> set (executions d)" "ex_id x = qj_execution j" using job_execution [OF ok(2) j] by blast
    with \<open>eid \<notin> ex_id ` set (executions d)\<close> show ?thesis by force
  qed
  then have "beside eid t u d1 s" using l(2,5) s assms(2) spawn_rows_tables(4) [OF created(2)] by (simp add: beside_def)
  from part_commit [OF ok1 created(3) ev.ready_pass_I [OF evolves_refl created(4)] apart.ready_pass_I [OF this created(4)]]
  show ?thesis using part_spawn_rows [OF created(2) assms(2) ok(1)] created(6) by simp
qed

lemma part_trigger:
  assumes "trigger_workflow S now t wid a key d = Inr (e, d', sent)" and "t \<noteq> u" and "t \<noteq> []" and "service_ok S d" and "references_ok d"
  shows "tenant_part u d' = tenant_part u d"
  using assms(1) by (cases rule: trigger_cases) (auto intro: part_spawn [OF _ assms(2-5)])

lemma part_retry_execution:
  assumes c: "retry_execution S now t eid a d = Inr (e, d', sent)" and "t \<noteq> u" and "t \<noteq> []" and ok: "service_ok S d" "references_ok d"
  shows "tenant_part u d' = tenant_part u d"
proof -
  obtain w doc n d1 m where sp: "spawn S now t w doc None n a None d = Inr (e, d1, sent)" and d': "d' = log_write now (ex_id e) m ''INFO'' None d1"
    using c by (auto simp: retry_execution_def split: sum.splits if_splits option.splits)
  have p: "tenant_part u d1 = tenant_part u d" by (rule part_spawn [OF sp assms(2,3) ok])
  from sp have "ex_id e \<notin> own_executions u d1"
  proof (cases rule: spawn_cases)
    case (created eid d0 s s1)
    note x = spawn_executions [OF ok(1) \<open>t \<noteq> []\<close> created(2-4)]
    have "own_executions u d1 = own_executions u d" using arg_cong [OF p, of executions] by (simp add: tenant_part_def own_executions_def del: set_filter)
    with x(2,3) created(5) show ?thesis by (auto simp: own_executions_def)
  qed
  then have "tenant_part u d' = tenant_part u d1" by (simp add: d' part_defs log_write_def generate_uuid_def)
  with p show ?thesis by simp
qed

section \<open>The wall\<close>

lemma part_replay:
  assumes c: "replay_dead_letter_ctl S now p jid d = Inr (e, d', sent)" and "pr_tenant p \<noteq> u" and "service_ok S d" and "references_ok d"
  shows "tenant_part u d' = tenant_part u d"
proof -
  have "require ''operator'' p = Inr ()" using c unfolding replay_dead_letter_ctl_def by (cases "require ''operator'' p") simp_all
  note c = c [unfolded replay_dead_letter_ctl_def this sum.case]
  from c obtain r where q: "get_dead_letter (pr_tenant p) jid (jobs d) = Some r" by (cases "get_dead_letter (pr_tenant p) jid (jobs d)") simp_all
  from c obtain d1 where r: "retry_task S now (pr_tenant p) (qj_execution r) (qj_etask r) (actor_label p) d = Inr (e, d1, sent)"
    and w: "d' = audit_write now (Some p) ''queue.dead_letter_replayed'' ''queue_job'' jid (JObj [(''execution_id'', JStr (qj_execution r))]) None
      (d1\<lparr>jobs := snd (resolve_dead_letter now (pr_tenant p) jid (jobs d1))\<rparr>)"
    unfolding q option.case by (cases "retry_task S now (pr_tenant p) (qj_execution r) (qj_etask r) (actor_label p) d") auto
  have d': "tenant_part u d' = tenant_part u (d1\<lparr>jobs := snd (resolve_dead_letter now (pr_tenant p) jid (jobs d1))\<rparr>)"
    unfolding w by (rule part_audit [OF assms(2)])
  have "service_ok S (fst (service_step S (now, SRetryTask (pr_tenant p) (qj_execution r) (qj_etask r) (actor_label p)) (d, init_exec_mem)))"
    by (rule service_step_ok) (simp_all add: assms(3))
  then have ids: "distinct (map qj_id (jobs d1))" by (simp add: r db_of_def service_ok_def jobs_good_def queue_ok_def)
  have "filter (\<lambda>j. qj_tenant j = u) (snd (resolve_dead_letter now (pr_tenant p) jid (jobs d1))) = filter (\<lambda>j. qj_tenant j = u) (jobs d1)"
  proof (cases "get_dead_letter (pr_tenant p) jid (jobs d1)")
    case (Some x)
    then have "x \<in> set (jobs d1)" "qj_tenant x \<noteq> u" using assms(2) by (auto simp: get_dead_letter_def dest: find_SomeD)
    then show ?thesis unfolding resolve_dead_letter_def Some option.case Let_def snd_conv by (intro filter_upd_key ids) simp_all
  qed (simp add: resolve_dead_letter_def)
  with d' have "tenant_part u d' = tenant_part u d1" by simp
  also have "\<dots> = tenant_part u d" by (rule part_retry_task [OF r assms(2,4)]) (use assms(3) in \<open>simp add: service_ok_def\<close>)
  finally show ?thesis .
qed

lemma in_map_filter_id: "r \<in> set (List.map_filter id rs) \<Longrightarrow> Some r \<in> set rs"
  by (induction rs) (auto simp: id_def split: option.splits)

definition intact :: "uid \<Rightarrow> db \<Rightarrow> reply option \<Rightarrow> bool" where
  "intact u d r \<longleftrightarrow> (case r of Some (Inr (b, d', sent)) \<Rightarrow> tenant_part u d' = tenant_part u d | _ \<Rightarrow> True)"

lemma intact_simps [simp]: "intact u d None" "intact u d (Some (give d b))" "intact u d (Some (ask f r d))"
  "intact u d (Some (change g x)) \<longleftrightarrow> (\<forall>w d'. x = Inr (w, d') \<longrightarrow> tenant_part u d' = tenant_part u d)"
  "intact u d (Some (remove y)) \<longleftrightarrow> (\<forall>d'. y = Inr d' \<longrightarrow> tenant_part u d' = tenant_part u d)"
  "intact u d (Some (service h z)) \<longleftrightarrow> (\<forall>e d' sent. z = Inr (e, d', sent) \<longrightarrow> tenant_part u d' = tenant_part u d)"
  by (auto simp: intact_def give_def ask_def change_def remove_def service_def split: sum.splits prod.splits)

definition guest :: "settings \<Rightarrow> principal \<Rightarrow> uid \<Rightarrow> db \<Rightarrow> bool" where
  "guest S p u d \<longleftrightarrow> platform_ok S d \<and> references_ok d \<and> keys_ok d \<and> pr_tenant p \<noteq> u \<and> pr_tenant p \<noteq> []"

lemma guestD:
  assumes "guest S p u d"
  shows "service_ok S d" "rows_ok d" "workflows_ok d" "references_ok d" "keys_ok d" "pr_tenant p \<noteq> u" "pr_tenant p \<noteq> []"
  using assms by (simp_all add: guest_def platform_ok_def service_ok_def)

lemma auth_intact:
  assumes "guest S p u d"
  shows "intact u d (auth_call v p c d)"
  by (cases c) (auto simp: auth_call_def guestD [OF assms] map_sum_def split: sum.splits dest: part_create_key [OF _ guestD(6) [OF assms]])

lemma part_archive:
  assumes "archive_workflow now t wid d = Inr d'" and "t \<noteq> u" and "workflows_ok d"
  shows "tenant_part u d' = tenant_part u d"
proof -
  obtain w where g: "get_workflow t wid True d = Some w"
    and d': "d' = d\<lparr>workflows := upd_where (\<lambda>x. wf_id x = wf_id w) (\<lambda>x. x\<lparr>wf_is_archived := True, wf_updated_at := now\<rparr>) (workflows d)\<rparr>"
    using assms(1) by (auto simp: archive_workflow_def split: option.splits)
  show ?thesis unfolding d' by (rule part_update_workflows) (rule filter_other_workflow(1) [OF assms(3) g assms(2)], simp)
qed

lemma workflow_intact:
  assumes "guest S p u d"
  shows "intact u d (workflow_call v p c d)"
proof -
  note g = guestD [OF assms] and audit = part_audit [OF guestD(6) [OF assms]]
  have "tenant_part u d' = tenant_part u d" if "workflow_create_ctl now (\<lambda>x. x) p w d = Inr (r, d')" for now w r d'
    using that part_create_workflow [OF _ g(6,3)] by (auto simp: workflow_create_ctl_def audit split: sum.splits)
  moreover have "tenant_part u d' = tenant_part u d" if "workflow_update_ctl now (\<lambda>x. x) p i w d = Inr (r, d')" for now i w r d'
    using that part_update_workflow [OF _ g(3,2,4,6)] by (auto simp: workflow_update_ctl_def audit split: sum.splits)
  moreover have "tenant_part u d' = tenant_part u d" if "workflow_clone_ctl now (\<lambda>x. x) p i n d = Inr (r, d')" for now i n r d'
    using that part_create_workflow [OF _ g(6,3)]
    by (auto simp: workflow_clone_ctl_def clone_workflow_def audit split: sum.splits option.splits)
  moreover have "tenant_part u d' = tenant_part u d" if "workflow_delete_ctl now p i d = Inr d'" for now i d'
    using that part_archive [OF _ g(6,3)] by (auto simp: workflow_delete_ctl_def audit split: sum.splits)
  moreover have "tenant_part u d' = tenant_part u d" if "create_schedule cron now p i k n d = Inr (s, d')" for cron now i k n s d'
    by (rule part_create_schedule [OF that g(6)])
  ultimately show ?thesis by (cases c) (simp_all add: workflow_call_def)
qed

lemma execution_intact:
  assumes "guest S p u d" and "env_settings v = S"
  shows "intact u d (execution_call v p c d)"
proof -
  note g = guestD [OF assms(1)] and audit = part_audit [OF guestD(6) [OF assms(1)]]
  have "tenant_part u d' = tenant_part u d" if "run_workflow_ctl S now p i k d = Inr (e, d', sent)" for now i k e d' sent
    using that part_trigger [OF _ g(6,7,1,4)] by (auto simp: run_workflow_ctl_def audit split: sum.splits py_error.splits)
  moreover have "tenant_part u d' = tenant_part u d" if "retry_execution_ctl S now p i d = Inr (e, d', sent)" for now i e d' sent
    using that part_retry_execution [OF _ g(6,7,1,4)] by (auto simp: retry_execution_ctl_def audited_def audit split: sum.splits)
  moreover have "tenant_part u d' = tenant_part u d" if "retry_task_ctl S now p i t d = Inr (e, d', sent)" for now i t e d' sent
    using that part_retry_task [OF _ g(6,4,2)] by (auto simp: retry_task_ctl_def audited_def audit split: sum.splits)
  moreover have "tenant_part u d' = tenant_part u d" if "skip_task_ctl S now p i t d = Inr (e, d', sent)" for now i t e d' sent
    using that part_skip_task [OF _ g(6,4,2)] by (auto simp: skip_task_ctl_def audited_def audit split: sum.splits)
  ultimately show ?thesis by (cases c) (simp_all add: execution_call_def Let_def assms(2))
qed

lemma ops_intact:
  assumes "guest S p u d" and "env_settings v = S"
  shows "intact u d (ops_call v p c d)"
proof -
  note g = guestD [OF assms(1)]
  show ?thesis
    by (cases c) (auto simp: ops_call_def Let_def assms(2) intro: part_create_secret [OF _ g(6,5)] part_delete_secret [OF _ g(6,5)]
        part_create_webhook [OF _ g(6)] part_delete_webhook [OF _ g(6,5,4)] part_replay [OF _ g(6,1,4)] part_delete_schedule [OF _ g(6,5)])
qed

lemma monitor_intact: "intact u d (monitor_call v p c d)"
  by (cases c) (simp_all add: monitor_call_def Let_def)

text \<open>C10. What requests of one tenant do to another: nothing. Whatever a principal asks of the API, the part of every other
  tenant (its keys, workflows with their revisions and tasks, executions with tasks and logs, jobs, audit trail, secrets,
  webhooks, deliveries, schedules and events) is the same afterwards, whether the request succeeds or is refused.\<close>

theorem tenants_are_walled_off:
  assumes "perform v p c sv = (res, sv')" and "platform_ok (env_settings v) (as_db (srv_auth sv))" and "references_ok (as_db (srv_auth sv))"
    and "keys_ok (as_db (srv_auth sv))" and "pr_tenant p \<noteq> u" and "pr_tenant p \<noteq> []"
  shows "tenant_part u (as_db (srv_auth sv')) = tenant_part u (as_db (srv_auth sv))"
proof -
  let ?d = "as_db (srv_auth sv)"
  have guest: "guest (env_settings v) p u ?d" using assms(2-6) by (simp add: guest_def)
  note g = guestD [OF guest]
  consider (revoke) i where "c = RevokeKey i" | (cancel) i where "c = Cancel i" | (rest) "\<forall>i. c \<noteq> RevokeKey i \<and> c \<noteq> Cancel i" by blast
  then show ?thesis
  proof cases
    case revoke
    with assms(1) part_revoke_key [OF _ g(6,5)] show ?thesis by (auto simp: perform_def split: sum.splits)
  next
    case cancel
    have "tenant_part u d' = tenant_part u ?d" if "cancel_ctl now (\<lambda>x. x) p i m ?d = (Inr (e, d', sent), m')" for now m e d' sent m' i
      using that part_cancel [OF _ g(6,4,2)]
      by (auto simp: cancel_ctl_def audited_def part_audit [OF g(6)] split: sum.splits prod.splits)
    with cancel assms(1) show ?thesis by (auto simp: perform_def with_db_def split: sum.splits prod.splits)
  next
    case rest
    let ?rs = "[auth_call v p c ?d, workflow_call v p c ?d, execution_call v p c ?d, monitor_call v p c ?d, ops_call v p c ?d]"
    have all: "\<forall>r \<in> set ?rs. intact u ?d r" using auth_intact workflow_intact execution_intact monitor_intact ops_intact guest by simp
    have "perform v p c sv = (case List.map_filter id ?rs of Inr (b, d', sent) # _ \<Rightarrow> (Inr b, with_db d' sent sv) | Inl e # _ \<Rightarrow> (Inl e, sv)
      | [] \<Rightarrow> (Inl (ValueError []), sv))"
      using rest unfolding perform_def Let_def by (cases c) (simp_all only: call.case, (use rest in \<open>simp_all\<close>)?)
    moreover have "intact u ?d (Some r)" if "List.map_filter id ?rs = r # xs" for r xs
    proof -
      have "r \<in> set (List.map_filter id ?rs)" using that by simp
      then have "Some r \<in> set ?rs" by (rule in_map_filter_id)
      with all show ?thesis by blast
    qed
    ultimately show ?thesis using assms(1) by (auto simp: intact_def with_db_def split: list.splits sum.splits prod.splits)
  qed
qed

lemma create_service:
  assumes "create_workflow now (\<lambda>x. x) t payload a ov d = Inr (w, d')"
  shows "jobs d' = jobs d" and "etasks d = [] \<Longrightarrow> etasks d' = []"
proof -
  let ?d2 = "d\<lparr>uuid_draws := Suc (uuid_draws d), workflows := workflows d @ [created_row now t payload ov (uuid_supply d (uuid_draws d))]\<rparr>"
  have d': "d' = write_document now (uuid_supply d (uuid_draws d)) t a (create_document payload ov) ?d2"
    using assms by (auto simp: create_steps Let_def split: sum.splits if_splits option.splits)
  from write_document_tables [of now "uuid_supply d (uuid_draws d)" t a "create_document payload ov" ?d2]
  have "service_same ?d2 d'" unfolding d' by metis
  then show "jobs d' = jobs d" and "etasks d = [] \<Longrightarrow> etasks d' = []" by (auto simp: service_same_def)
qed

lemma tenants_are_walled_off_witness:
  "\<exists>b sv'. perform demo_env (member_of ''globex'') (CreateSecret ''TOKEN'' ''t0ken'') shared_server = (Inr b, sv') \<and>
     secrets (as_db (srv_auth sv')) \<noteq> [] \<and>
     tenant_part ''acme'' (as_db (srv_auth sv')) = tenant_part ''acme'' (as_db (srv_auth shared_server)) \<and>
     workflows (tenant_part ''acme'' (as_db (srv_auth sv'))) \<noteq> []"
proof -
  have db: "as_db (srv_auth shared_server) = installed" by (simp add: shared_server_def)
  have "outer_tables installed = outer_tables (empty_db demo_supply)"
    by (auto simp: installed_def wf_db_of_def create_outer split: sum.splits)
  moreover have "jobs installed = jobs (empty_db demo_supply)" "etasks installed = []"
    by (auto simp: installed_def wf_db_of_def create_service empty_db_def split: sum.splits)
  ultimately have empty: "jobs installed = []" "etasks installed = []" "deliveries installed = []" "api_keys installed = []" "secrets installed = []"
    "endpoints installed = []" "schedules installed = []"
    by (simp_all add: outer_tables_def empty_db_def)
  have "require ''admin'' (member_of ''globex'') = Inr ()" by code_simp
  with empty obtain x d' where "create_secret (\<lambda>s. s) 0 (member_of ''globex'') ''TOKEN'' ''t0ken'' installed = Inr (x, d')" "secrets d' \<noteq> []"
    by (auto simp: create_secret_def secret_create_def find_secret_def audit_write_def generate_uuid_def Let_def)
  then obtain b sv' where r: "perform demo_env (member_of ''globex'') (CreateSecret ''TOKEN'' ''t0ken'') shared_server = (Inr b, sv')"
      "secrets (as_db (srv_auth sv')) \<noteq> []"
    by (simp add: perform_def auth_call_def workflow_call_def execution_call_def monitor_call_def ops_call_def demo_env_def db change_def
      with_db_def)
  from empty have "references_ok installed" "keys_ok installed" by (simp_all add: references_ok_def keys_ok_def)
  then have t: "tenant_part ''acme'' (as_db (srv_auth sv')) = tenant_part ''acme'' (as_db (srv_auth shared_server))"
    using tenants_are_walled_off [OF r(1), of "''acme''"] installed_ok
    by (simp add: db platform_ok_def member_of_def demo_env_def)
  moreover have "workflows (tenant_part ''acme'' installed) \<noteq> []" by code_simp
  ultimately show ?thesis using r by (auto simp: db)
qed

end
