(* ===== verification/Process.thy ===== *)
theory Process
  imports Http Watchdog Scheduler Retention Notify
begin

text \<open>
  The processes around the services: the background loops (\<open>start\<close>, \<open>stop\<close> and \<open>_run\<close> of the watchdog, the scheduler,
  retention, the outbox notifier and the webhook dispatcher), the \<open>lifespan\<close> of the API process (\<open>main.py\<close>),
  \<open>run_workers\<close> (\<open>worker_main.py\<close>), the heartbeat file and its health probe (\<open>workers/heartbeat.py\<close>,
  \<open>worker_healthcheck.py\<close>), and the context of log records (\<open>core/context.py\<close>, \<open>core/logging.py\<close>).
\<close>

section \<open>A background service\<close>

text \<open>
  The five services have the same \<open>start\<close>, \<open>stop\<close> and \<open>_run\<close>. Each task that \<open>start\<close> creates is about to test
  \<open>_running\<close>, or asleep until a time, or over. The field \<open>bg_task\<close> is \<open>self._task\<close>, an index into these.
\<close>

datatype loop = Testing | Asleep time | Over

record background =
  bg_running :: bool
  bg_task :: "nat option"
  bg_loops :: "loop list"

definition init_background :: background where
  "init_background = \<lparr>bg_running = False, bg_task = None, bg_loops = []\<rparr>"

definition start_service :: "background \<Rightarrow> background" where
  "start_service b = (if bg_running b then b
     else b\<lparr>bg_running := True, bg_task := Some (length (bg_loops b)), bg_loops := bg_loops b @ [Testing]\<rparr>)"

text \<open>The cancelled task is awaited, so it is over; it is cancelled at an \<open>await\<close>, and re-raises.\<close>

definition stop_service :: "background \<Rightarrow> background" where
  "stop_service b = (let b1 = b\<lparr>bg_running := False\<rparr> in
     case bg_task b1 of None \<Rightarrow> b1 | Some i \<Rightarrow> b1\<lparr>bg_loops := (bg_loops b1)[i := Over], bg_task := None\<rparr>)"

text \<open>How an iteration ends: it returns, it raises an \<open>Exception\<close>, or a \<open>CancelledError\<close> comes out of it.\<close>

datatype turn_result = Finished | Raised | Interrupted

text \<open>One turn of task \<open>i\<close> at a time: it wakes up, or runs an iteration that is over at that time and goes to sleep, or returns.\<close>

definition loop_turn :: "time \<Rightarrow> ('w \<Rightarrow> turn_result \<times> 'w) \<Rightarrow> time \<Rightarrow> nat \<Rightarrow> background \<times> 'w \<Rightarrow> background \<times> 'w" where
  "loop_turn interval run_once now i st = (case st of (b, w) \<Rightarrow>
     if length (bg_loops b) \<le> i then (b, w)
     else case bg_loops b ! i of
       Over \<Rightarrow> (b, w)
     | Asleep t \<Rightarrow> (if t \<le> now then (b\<lparr>bg_loops := (bg_loops b)[i := Testing]\<rparr>, w) else (b, w))
     | Testing \<Rightarrow> (if \<not> bg_running b then (b\<lparr>bg_loops := (bg_loops b)[i := Over]\<rparr>, w)
         else case run_once w of (r, w') \<Rightarrow>
           (b\<lparr>bg_loops := (bg_loops b)[i := if r = Interrupted then Over else Asleep (now + interval)]\<rparr>, w')))"

datatype service = Notifier | Webhooks | Watchdogs | Schedules | Retentions

text \<open>What \<open>_run\<close> sleeps between two iterations.\<close>

definition service_interval :: "settings \<Rightarrow> service \<Rightarrow> time" where
  "service_interval S x = (case x of
     Notifier \<Rightarrow> realtime_poll_interval_ms S * 1000
   | Webhooks \<Rightarrow> secs 2
   | Watchdogs \<Rightarrow> secs (watchdog_interval_seconds S)
   | Schedules \<Rightarrow> secs (scheduler_interval_seconds S)
   | Retentions \<Rightarrow> secs (retention_interval_seconds S))"

definition alive :: "background \<Rightarrow> nat set" where
  "alive b = {i. i < length (bg_loops b) \<and> bg_loops b ! i \<noteq> Over}"

text \<open>At most one loop lives, \<open>self._task\<close> is it, and none does when the service is not running.\<close>

definition sole_loop :: "background \<Rightarrow> bool" where
  "sole_loop b \<longleftrightarrow> (\<forall>i \<in> alive b. bg_task b = Some i) \<and> (\<not> bg_running b \<longrightarrow> bg_task b = None)"

lemma alive_update: "alive (b\<lparr>bg_loops := (bg_loops b)[i := x]\<rparr>) = (if x = Over then alive b - {i} else if i < length (bg_loops b) then insert i (alive b) else alive b)"
  by (auto simp: alive_def nth_list_update)

lemma alive_more [simp]: "alive (b\<lparr>bg_running := r\<rparr>) = alive b" "alive (b\<lparr>bg_task := t\<rparr>) = alive b"
  by (simp_all add: alive_def)

lemma sole_init [simp]: "sole_loop init_background"
  by (simp add: sole_loop_def init_background_def alive_def)

lemma sole_start:
  assumes "sole_loop b"
  shows "sole_loop (start_service b)"
proof (cases "bg_running b")
  case False
  with assms have "alive b = {}" by (auto simp: sole_loop_def)
  then have "alive (start_service b) \<subseteq> {length (bg_loops b)}" using False
    by (auto simp: start_service_def alive_def nth_append less_Suc_eq split: if_splits)
  with False show ?thesis by (auto simp: sole_loop_def start_service_def)
qed (use assms in \<open>simp add: start_service_def\<close>)

lemma stop_quiet:
  assumes "sole_loop b"
  shows "alive (stop_service b) = {}" and "\<not> bg_running (stop_service b)" and "sole_loop (stop_service b)"
proof -
  show a: "alive (stop_service b) = {}"
  proof (cases "bg_task b")
    case None
    with assms show ?thesis by (auto simp: stop_service_def sole_loop_def Let_def)
  next
    case (Some i)
    have "alive (stop_service b) = alive (b\<lparr>bg_loops := (bg_loops b)[i := Over]\<rparr>)"
      by (simp add: stop_service_def Some alive_def)
    with assms Some show ?thesis by (auto simp: sole_loop_def alive_update)
  qed
  show "\<not> bg_running (stop_service b)" by (simp add: stop_service_def Let_def split: option.split)
  with a show "sole_loop (stop_service b)" by (auto simp: sole_loop_def stop_service_def Let_def split: option.split)
qed

lemma sole_turn: "sole_loop b \<Longrightarrow> sole_loop (fst (loop_turn n f now i (b, w)))"
  by (auto simp: loop_turn_def sole_loop_def alive_update split: loop.split prod.split) (auto simp: alive_def)

lemma loop_turn_running: "bg_running (fst (loop_turn n f now i (b, w))) = bg_running b"
  by (simp add: loop_turn_def split: loop.split prod.split)

text \<open>The loop of each service: its \<open>run_once\<close> at the time of the turn, and what it leaves.\<close>

definition notifier_run :: "settings \<Rightarrow> (uid \<Rightarrow> time) \<Rightarrow> time \<Rightarrow> nat \<Rightarrow> background \<times> db \<times> (uid \<times> json) list \<Rightarrow> background \<times> db \<times> (uid \<times> json) list" where
  "notifier_run S clock now = loop_turn (service_interval S Notifier)
     (\<lambda>(d, pushed). case poll_once clock d of (d', ps) \<Rightarrow> (Finished, d', pushed @ ps)) now"

definition webhooks_run :: "settings \<Rightarrow> (string \<Rightarrow> string \<Rightarrow> string) \<Rightarrow> (uid \<Rightarrow> time) \<Rightarrow> (request \<Rightarrow> answer) \<Rightarrow> time \<Rightarrow> nat \<Rightarrow>
    background \<times> db \<times> request list \<Rightarrow> background \<times> db \<times> request list" where
  "webhooks_run S sign clock post now = loop_turn (service_interval S Webhooks)
     (\<lambda>(d, posted). case dispatch_once S sign now clock post d of (e, d', rs) \<Rightarrow> (if e = None then Finished else Raised, d', posted @ rs)) now"

definition watchdog_run :: "settings \<Rightarrow> time \<Rightarrow> nat \<Rightarrow> background \<times> db \<times> queue_mem \<times> exec_mem \<Rightarrow> background \<times> db \<times> queue_mem \<times> exec_mem" where
  "watchdog_run S now = loop_turn (service_interval S Watchdogs) (\<lambda>st. (Finished, watchdog_once S now now now now st)) now"

definition scheduler_run :: "settings \<Rightarrow> (string \<Rightarrow> time \<Rightarrow> time res) \<Rightarrow> (uid \<Rightarrow> time) \<Rightarrow> time \<Rightarrow> nat \<Rightarrow> background \<times> db \<Rightarrow> background \<times> db" where
  "scheduler_run S cron clock now = loop_turn (service_interval S Schedules)
     (\<lambda>d. case scheduler_once S cron now clock d of (r, d') \<Rightarrow>
        (case r of Inr _ \<Rightarrow> Finished | Inl e \<Rightarrow> if e = CancelledError then Interrupted else Raised, d')) now"

definition retention_run :: "settings \<Rightarrow> time \<Rightarrow> nat \<Rightarrow> background \<times> db \<Rightarrow> background \<times> db" where
  "retention_run S now = loop_turn (service_interval S Retentions) (\<lambda>d. (Finished, snd (retention_once S now d))) now"

text \<open>Iterations that fail do not end the loop: it runs one iteration whenever its sleep is over.\<close>

definition wake_and_run :: "(time \<Rightarrow> nat \<Rightarrow> background \<times> 'w \<Rightarrow> background \<times> 'w) \<Rightarrow> nat \<Rightarrow> time \<Rightarrow> background \<times> 'w \<Rightarrow> background \<times> 'w" where
  "wake_and_run run i now st = run now i (run now i st)"

fun spaced :: "time \<Rightarrow> time \<Rightarrow> time list \<Rightarrow> bool" where
  "spaced n t [] = True"
| "spaced n t (x # xs) \<longleftrightarrow> t \<le> x \<and> spaced n (x + n) xs"

lemma loop_keeps_running:
  assumes "bg_running b" and "i < length (bg_loops b)" and "bg_loops b ! i = Asleep t" and "spaced n t ts" and "\<And>now w. fst (f now w) \<noteq> Interrupted"
  shows "snd (fold (wake_and_run (\<lambda>now. loop_turn n (f now) now) i) ts (b, w)) = fold (\<lambda>now. snd \<circ> f now) ts w"
  using assms(1-4)
proof (induction ts arbitrary: b t w)
  case (Cons x ts)
  obtain r w' where f: "f x w = (r, w')" "r \<noteq> Interrupted" using assms(5) [of x w] by (cases "f x w") auto
  let ?b = "b\<lparr>bg_loops := (bg_loops b)[i := Asleep (x + n)]\<rparr>"
  have "wake_and_run (\<lambda>now. loop_turn n (f now) now) i x (b, w) = (?b, w')" using Cons.prems f by (simp add: wake_and_run_def loop_turn_def)
  then show ?case using Cons.IH [of ?b "x + n" w'] Cons.prems f by simp
qed simp

lemma retention_keeps_running:
  assumes "bg_running b" and "i < length (bg_loops b)" and "bg_loops b ! i = Asleep t" and "spaced (service_interval S Retentions) t ts"
  shows "snd (fold (wake_and_run (retention_run S) i) ts (b, d)) = fold (\<lambda>now. snd \<circ> retention_once S now) ts d"
  using loop_keeps_running [OF assms, of "\<lambda>now d. (Finished, snd (retention_once S now d))"] by (simp add: retention_run_def [abs_def] comp_def)

lemma watchdog_keeps_running:
  assumes "bg_running b" and "i < length (bg_loops b)" and "bg_loops b ! i = Asleep t" and "spaced (service_interval S Watchdogs) t ts"
  shows "snd (fold (wake_and_run (watchdog_run S) i) ts (b, st)) = fold (\<lambda>now. watchdog_once S now now now now) ts st"
  using loop_keeps_running [OF assms, of "\<lambda>now st. (Finished, watchdog_once S now now now now st)"]
  by (simp add: watchdog_run_def [abs_def] comp_def)

text \<open>The dispatcher goes on after an exception, and so with the rows of the failed pass still due.\<close>

lemma webhooks_keep_running:
  assumes "bg_running b" and "i < length (bg_loops b)" and "bg_loops b ! i = Asleep t" and "spaced (service_interval S Webhooks) t ts"
  shows "fst (snd (fold (wake_and_run (webhooks_run S sign clock post) i) ts (b, d, rs))) =
    fold (\<lambda>now d. fst (snd (dispatch_once S sign now clock post d))) ts d"
proof -
  let ?f = "\<lambda>now (d, posted). case dispatch_once S sign now clock post d of (e, d', rs) \<Rightarrow> (if e = None then Finished else Raised, d', posted @ rs)"
  have "snd (fold (wake_and_run (webhooks_run S sign clock post) i) ts (b, d, rs)) = fold (\<lambda>now. snd \<circ> ?f now) ts (d, rs)"
    using loop_keeps_running [OF assms, of ?f "(d, rs)"] by (simp add: webhooks_run_def [abs_def] split: prod.split)
  moreover have "fst (fold (\<lambda>now. snd \<circ> ?f now) ts (d, rs)) = fold (\<lambda>now d. fst (snd (dispatch_once S sign now clock post d))) ts d"
    by (induction ts arbitrary: d rs) (auto split: prod.split)
  ultimately show ?thesis by simp
qed

section \<open>The API process\<close>

record app =
  app_db :: db
  app_services :: "service \<Rightarrow> background"
  app_workers :: manager
  app_bus :: bool
  app_engine :: bool

definition on_service :: "(background \<Rightarrow> background) \<Rightarrow> service \<Rightarrow> app \<Rightarrow> app" where
  "on_service f x a = a\<lparr>app_services := (app_services a)(x := f (app_services a x))\<rparr>"

definition on_workers :: "(db \<times> manager \<Rightarrow> db \<times> manager) \<Rightarrow> app \<Rightarrow> app" where
  "on_workers f a = (case f (app_db a, app_workers a) of (d, m) \<Rightarrow> a\<lparr>app_db := d, app_workers := m\<rparr>)"

text \<open>
  What the processes get from outside: the settings, the digest of keys, the migrations (alembic's), the clock, whether
  the database takes the rows of workers, the prefix of their names, whether the bus connects, and how each worker's task
  ends when it is told to drain.
\<close>

record surroundings =
  su_settings :: settings
  su_hash :: "string \<Rightarrow> string"
  su_migrate :: "db \<Rightarrow> db res"
  su_now :: time
  su_up :: bool
  su_prefix :: string
  su_connects :: bool
  su_ends :: "string \<Rightarrow> worker_end"

definition migrated :: "surroundings \<Rightarrow> db \<Rightarrow> db res" where
  "migrated su d = (if auto_migrate (su_settings su) then su_migrate su d else Inr d)"

definition bus_connected :: "surroundings \<Rightarrow> bool" where
  "bus_connected su \<longleftrightarrow> build_realtime_bus (su_settings su) \<and> su_connects su"

text \<open>\<open>lifespan\<close> up to its \<open>yield\<close>. An error before it ends the process (what was committed until then stays, and is not in the result).\<close>

definition lifespan_enter :: "surroundings \<Rightarrow> app \<Rightarrow> app res" where
  "lifespan_enter su a = (let S = su_settings su in
     case migrated su (app_db a) of Inl e \<Rightarrow> Inl e
   | Inr d1 \<Rightarrow> (case start_up S (su_hash su) (su_now su) d1 of Inl e \<Rightarrow> Inl e
     | Inr d \<Rightarrow> (let a1 = fold (on_service start_service) [Notifier, Webhooks, Watchdogs, Schedules, Retentions]
           (a\<lparr>app_db := d, app_bus := bus_connected su \<or> app_bus a\<rparr>)
         in Inr (if inline_workers_enabled S then on_workers (start S (su_now su) (su_up su) (su_prefix su) None) a1 else a1))))"

definition stop_workers :: "surroundings \<Rightarrow> app \<Rightarrow> py_error option \<times> app" where
  "stop_workers su a = (case stop (su_settings su) (su_now su) (su_up su) (su_ends su) (app_db a, app_workers a) of
     (e, d, m) \<Rightarrow> (e, a\<lparr>app_db := d, app_workers := m\<rparr>))"

text \<open>The \<open>finally\<close> of \<open>lifespan\<close>: what stopping the workers raises leaves it at once, with the other services running.\<close>

definition lifespan_exit :: "surroundings \<Rightarrow> app \<Rightarrow> unit res \<times> app" where
  "lifespan_exit su a =
     (case (if inline_workers_enabled (su_settings su) then stop_workers su a else (None, a)) of
        (Some e, a1) \<Rightarrow> (Inl e, a1)
      | (None, a1) \<Rightarrow> (let a2 = fold (on_service stop_service) [Retentions, Schedules, Watchdogs, Webhooks, Notifier] a1
          in (Inr (), a2\<lparr>app_bus := app_bus a2 \<and> \<not> bus_connected su, app_engine := False\<rparr>)))"

text \<open>What goes on in between, as far as the loops are concerned: turns of any of them, and requests.\<close>

datatype happening = Turn service "db \<Rightarrow> turn_result \<times> db" time nat | Writes "db \<Rightarrow> db"

fun happens :: "settings \<Rightarrow> happening \<Rightarrow> app \<Rightarrow> app" where
  "happens S (Turn x f now i) a = (case loop_turn (service_interval S x) f now i (app_services a x, app_db a) of
     (b, d) \<Rightarrow> a\<lparr>app_db := d, app_services := (app_services a)(x := b)\<rparr>)"
| "happens S (Writes f) a = a\<lparr>app_db := f (app_db a)\<rparr>"

definition lifespan :: "surroundings \<Rightarrow> happening list \<Rightarrow> app \<Rightarrow> unit res \<times> app" where
  "lifespan su hs a = (case lifespan_enter su a of Inl e \<Rightarrow> (Inl e, a)
     | Inr a1 \<Rightarrow> lifespan_exit su (fold (happens (su_settings su)) hs a1))"

section \<open>The worker process\<close>

text \<open>
  \<open>run_workers\<close>, from the first statement to its end. \<open>await stop_event.set()\<close> awaits \<open>None\<close>, which raises, so the
  heartbeat task is not awaited and the engine is not disposed of.
\<close>

definition run_workers :: "surroundings \<Rightarrow> happening list \<Rightarrow> app \<Rightarrow> unit res \<times> app" where
  "run_workers su hs a = (let S = su_settings su; now = su_now su in
     case migrated su (app_db a) of Inl e \<Rightarrow> (Inl e, a)
   | Inr d1 \<Rightarrow> (case ensure_bootstrap S (su_hash su) now d1 of (_, d) \<Rightarrow>
       let a1 = on_workers (start S now (su_up su) (su_prefix su) None) (a\<lparr>app_db := d\<rparr>);
           a2 = fold (on_service start_service) [Watchdogs, Schedules, Retentions, Webhooks] a1;
           a3 = fold (happens S) hs a2;
           a4 = fold (on_service stop_service) [Webhooks, Retentions, Schedules, Watchdogs] a3;
           (e, a5) = stop_workers su a4
       in (Inl (case e of Some x \<Rightarrow> x | None \<Rightarrow> TypeError ''object NoneType can't be used in 'await' expression''), a5)))"

section \<open>A process leaves nothing running\<close>

definition idle_app :: "app \<Rightarrow> bool" where
  "idle_app a \<longleftrightarrow> (\<forall>x. sole_loop (app_services a x) \<and> \<not> bg_running (app_services a x)) \<and>
     \<not> mg_running (app_workers a) \<and> mg_tasks (app_workers a) = [] \<and> mg_live (app_workers a) = []"

lemma quiet: "sole_loop b \<Longrightarrow> \<not> bg_running b \<Longrightarrow> alive b = {}"
  by (auto simp: sole_loop_def)

lemma idle_alive: "idle_app a \<Longrightarrow> alive (app_services a x) = {}"
  by (simp add: idle_app_def quiet)

text \<open>What holds of a process in between: every service has at most one loop, and those outside \<open>X\<close> were never started.\<close>

definition app_ok :: "service set \<Rightarrow> app \<Rightarrow> bool" where
  "app_ok X a \<longleftrightarrow> (\<forall>x. sole_loop (app_services a x) \<and> (x \<notin> X \<longrightarrow> \<not> bg_running (app_services a x)))"

lemma app_happens: "app_ok X a \<Longrightarrow> app_ok X (happens S h a)"
proof (cases h)
  case (Turn x f now i)
  obtain b d where t: "loop_turn (service_interval S x) f now i (app_services a x, app_db a) = (b, d)" by fastforce
  assume ok: "app_ok X a"
  then have "sole_loop b" "bg_running b = bg_running (app_services a x)"
    using sole_turn [of "app_services a x" "service_interval S x" f now i "app_db a"]
      loop_turn_running [of "service_interval S x" f now i "app_services a x" "app_db a"] by (simp_all add: t app_ok_def)
  with ok show ?thesis by (simp add: Turn t app_ok_def)
qed (simp add: app_ok_def)

lemma happens_workers [simp]: "app_workers (fold (happens S) hs a) = app_workers a"
proof -
  have "app_workers (happens S h a) = app_workers a" for h a by (cases h) (simp_all split: prod.split)
  then show ?thesis by (induction hs arbitrary: a) simp_all
qed

lemma happens_outside [simp]: "app_bus (fold (happens S) hs a) = app_bus a" "app_engine (fold (happens S) hs a) = app_engine a"
proof -
  have "app_bus (happens S h a) = app_bus a \<and> app_engine (happens S h a) = app_engine a" for h a by (cases h) (simp_all split: prod.split)
  then show "app_bus (fold (happens S) hs a) = app_bus a" "app_engine (fold (happens S) hs a) = app_engine a"
    by (induction hs arbitrary: a) simp_all
qed

lemma app_fold: "app_ok X a \<Longrightarrow> app_ok X (fold (happens S) hs a)"
  by (induction hs arbitrary: a) (auto intro: app_happens)

lemma app_started: "app_ok X a \<Longrightarrow> app_ok (insert x X) (on_service start_service x a)"
  by (simp add: app_ok_def on_service_def sole_start)

lemma app_stopped: "app_ok X a \<Longrightarrow> app_ok (X - {x}) (on_service stop_service x a)"
  by (simp add: app_ok_def on_service_def stop_quiet)

lemma on_service_rest [simp]: "app_workers (on_service f x a) = app_workers a" "app_bus (on_service f x a) = app_bus a"
    "app_engine (on_service f x a) = app_engine a"
  by (simp_all add: on_service_def)

lemma on_workers_rest [simp]: "app_ok X (on_workers f a) = app_ok X a" "app_bus (on_workers f a) = app_bus a"
    "app_engine (on_workers f a) = app_engine a"
  by (simp_all add: on_workers_def app_ok_def split: prod.split)

definition workers_idle :: "manager \<Rightarrow> bool" where
  "workers_idle m \<longleftrightarrow> \<not> mg_running m \<and> mg_tasks m = [] \<and> mg_live m = []"

lemma workers_idle_known: "workers_idle m \<Longrightarrow> tasks_known m"
  by (simp add: workers_idle_def tasks_known_def)

lemma stop_workers_rest:
  assumes "stop_workers su a = (e, a1)"
  shows "app_services a1 = app_services a" and "app_bus a1 = app_bus a" and "app_engine a1 = app_engine a" and "app_ok X a1 = app_ok X a"
  using assms by (auto simp: stop_workers_def app_ok_def split: prod.splits)

text \<open>How stopping the workers ends: all their tasks over, or with the exception of one of them and the rest cancelled.\<close>

lemma stop_workers_quits: "stop_workers su a = (None, a1) \<Longrightarrow> tasks_known (app_workers a) \<Longrightarrow> workers_idle (app_workers a1)"
  by (auto simp: stop_workers_def workers_idle_def split: prod.splits dest: stop_quits)

lemma stop_workers_raises:
  assumes "stop_workers su a = (Some e, a1)" and "tasks_known (app_workers a)"
  shows "e \<noteq> CancelledError \<and> (\<exists>t. task_error (su_ends su t) = Some e) \<and> (\<forall>(t, c) \<in> set (mg_live (app_workers a1)). c)"
proof -
  obtain d m where m: "stop (su_settings su) (su_now su) (su_up su) (su_ends su) (app_db a, app_workers a) = (Some e, d, m)" "app_workers a1 = m"
    using assms(1) by (auto simp: stop_workers_def split: prod.splits)
  from stop_raises [OF m(1) assms(2)] show ?thesis by (simp add: m(2))
qed

lemma idle_iff: "idle_app a \<longleftrightarrow> app_ok {} a \<and> workers_idle (app_workers a)"
  by (simp add: idle_app_def app_ok_def workers_idle_def)

lemma all_stopped: "app_ok (set xs) a \<Longrightarrow> app_ok {} (fold (on_service stop_service) xs a)"
proof (induction xs arbitrary: a)
  case (Cons x xs)
  have "app_ok (set xs) (on_service stop_service x a)" using app_stopped [OF Cons.prems, of x] by (auto simp: app_ok_def)
  then show ?case using Cons.IH by simp
qed simp

lemma all_started: "app_ok X a \<Longrightarrow> app_ok (X \<union> set xs) (fold (on_service start_service) xs a)"
proof (induction xs arbitrary: X a)
  case (Cons x xs)
  then show ?case using Cons.IH [OF app_started [OF Cons.prems, of x]] by (simp add: Un_commute)
qed simp

lemma service_folds [simp]: "app_workers (fold (on_service f) xs a) = app_workers a" "app_bus (fold (on_service f) xs a) = app_bus a"
    "app_engine (fold (on_service f) xs a) = app_engine a"
  by (induction xs arbitrary: a) simp_all

lemma app_ok_mono: "app_ok X a \<Longrightarrow> X \<subseteq> Y \<Longrightarrow> app_ok Y a"
  by (auto simp: app_ok_def)

lemma app_ok_fields [simp]: "app_ok X (a\<lparr>app_db := d\<rparr>) = app_ok X a" "app_ok X (a\<lparr>app_bus := p\<rparr>) = app_ok X a"
    "app_ok X (a\<lparr>app_engine := p\<rparr>) = app_ok X a"
  by (simp_all add: app_ok_def)

lemma lifespan_entered:
  assumes "lifespan_enter su a = Inr a1" and "app_ok {} a"
  shows "app_ok UNIV a1" and "inline_workers_enabled (su_settings su) \<or> app_workers a1 = app_workers a"
    and "tasks_known (app_workers a) \<Longrightarrow> tasks_known (app_workers a1)"
    and "app_bus a1 \<longleftrightarrow> bus_connected su \<or> app_bus a" and "app_engine a1 = app_engine a"
    and "\<forall>x. bg_running (app_services a1 x)"
proof -
  let ?S = "su_settings su" and ?all = "[Notifier, Webhooks, Watchdogs, Schedules, Retentions]"
  obtain d1 d where d: "migrated su (app_db a) = Inr d1" "start_up ?S (su_hash su) (su_now su) d1 = Inr d"
    using assms(1) by (auto simp: lifespan_enter_def Let_def split: sum.splits)
  define a0 where "a0 = a\<lparr>app_db := d, app_bus := bus_connected su \<or> app_bus a\<rparr>"
  then have a0: "app_ok {} a0" "app_workers a0 = app_workers a" using assms(2) by simp_all
  have a1: "a1 = (if inline_workers_enabled ?S then on_workers (start ?S (su_now su) (su_up su) (su_prefix su) None) (fold (on_service start_service) ?all a0)
      else fold (on_service start_service) ?all a0)"
    using assms(1) by (auto simp: lifespan_enter_def d a0_def Let_def simp del: fold.simps)
  show "app_ok UNIV a1" using app_ok_mono [OF all_started [OF a0(1), of ?all], of UNIV] by (simp add: a1 del: fold.simps)
  show "inline_workers_enabled ?S \<or> app_workers a1 = app_workers a" by (simp add: a1 a0(2) del: fold.simps)
  show "tasks_known (app_workers a1)" if "tasks_known (app_workers a)"
    using that start_known [of "app_workers a" ?S "su_now su" "su_up su" "su_prefix su" None] a0(2)
    by (auto simp: a1 on_workers_def split: prod.split simp del: fold.simps) (metis snd_conv)
  show "app_bus a1 \<longleftrightarrow> bus_connected su \<or> app_bus a" "app_engine a1 = app_engine a" by (simp_all add: a1 a0_def del: fold.simps)
  have "bg_running (app_services (fold (on_service start_service) ?all a0) x)" for x
    by (cases x) (simp_all add: on_service_def start_service_def)
  then show "\<forall>x. bg_running (app_services a1 x)" by (simp add: a1 on_workers_def split: prod.split del: fold.simps)
qed

lemma service_UNIV: "set [Retentions, Schedules, Watchdogs, Webhooks, Notifier] = UNIV"
  using service.exhaust by auto

lemma happens_running: "bg_running (app_services (fold (happens S) hs a) x) = bg_running (app_services a x)"
proof -
  have "bg_running (app_services (happens S h a) x) = bg_running (app_services a x)" for h a
  proof (cases h)
    case (Turn y f now i)
    then show ?thesis using loop_turn_running [of "service_interval S y" f now i "app_services a y" "app_db a"] by (auto split: prod.split)
  qed simp
  then show ?thesis by (induction hs arbitrary: a) simp_all
qed

lemma lifespan_exited:
  assumes "app_ok UNIV a" and "tasks_known (app_workers a)" and "inline_workers_enabled (su_settings su) \<or> workers_idle (app_workers a)"
  shows "case lifespan_exit su a of
      (Inr _, a') \<Rightarrow> idle_app a' \<and> (app_bus a' \<longleftrightarrow> app_bus a \<and> \<not> bus_connected su) \<and> \<not> app_engine a'
    | (Inl e, a') \<Rightarrow> e \<noteq> CancelledError \<and> (\<exists>t. task_error (su_ends su t) = Some e) \<and> (\<forall>(t, c) \<in> set (mg_live (app_workers a')). c) \<and>
        app_services a' = app_services a \<and> app_engine a' = app_engine a"
proof -
  let ?xs = "[Retentions, Schedules, Watchdogs, Webhooks, Notifier]"
  obtain e a1 where a1: "(if inline_workers_enabled (su_settings su) then stop_workers su a else (None, a)) = (e, a1)" by fastforce
  show ?thesis
  proof (cases e)
    case None
    have ok: "app_ok (set ?xs) a1" unfolding service_UNIV using a1 assms(1) by (auto simp: stop_workers_rest(4) split: if_splits)
    have "workers_idle (app_workers a1)" "app_bus a1 = app_bus a"
      using a1 assms(2,3) None stop_workers_quits [of su a a1] by (auto simp: stop_workers_rest(2) split: if_splits)
    with all_stopped [OF ok] show ?thesis by (simp add: lifespan_exit_def a1 None Let_def idle_iff del: fold.simps)
  next
    case (Some x)
    with a1 have st: "stop_workers su a = (Some x, a1)" by (simp split: if_splits)
    show ?thesis using stop_workers_raises [OF st assms(2)] stop_workers_rest [OF st] by (simp add: lifespan_exit_def a1 Some)
  qed
qed

lemma workers_run:
  assumes "app_ok {} a"
  shows "app_ok {} (fold (on_service stop_service) [Webhooks, Retentions, Schedules, Watchdogs]
    (fold (happens S) hs (fold (on_service start_service) [Watchdogs, Schedules, Retentions, Webhooks] a)))"
proof -
  have "app_ok (set [Webhooks, Retentions, Schedules, Watchdogs]) (fold (happens S) hs (fold (on_service start_service) [Watchdogs, Schedules, Retentions, Webhooks] a))"
    by (rule app_fold, rule app_ok_mono [OF all_started [OF assms]]) auto
  then show ?thesis by (rule all_stopped)
qed

lemma run_workers_ends:
  assumes "idle_app a"
  shows "case run_workers su hs a of (r, a') \<Rightarrow> r \<noteq> Inr () \<and> app_engine a' = app_engine a \<and> app_ok {} a' \<and>
    (workers_idle (app_workers a') \<or>
     (\<exists>t e. r = Inl e \<and> task_error (su_ends su t) = Some e \<and> e \<noteq> CancelledError \<and> (\<forall>(t, c) \<in> set (mg_live (app_workers a')). c)))"
proof (cases "migrated su (app_db a)")
  case (Inl e)
  with assms show ?thesis by (simp add: run_workers_def Let_def idle_iff)
next
  case (Inr d1)
  let ?S = "su_settings su"
  obtain b d where boot: "ensure_bootstrap ?S (su_hash su) (su_now su) d1 = (b, d)" by fastforce
  define a1 where "a1 = on_workers (start ?S (su_now su) (su_up su) (su_prefix su) None) (a\<lparr>app_db := d\<rparr>)"
  define a4 where "a4 = fold (on_service stop_service) [Webhooks, Retentions, Schedules, Watchdogs]
    (fold (happens ?S) hs (fold (on_service start_service) [Watchdogs, Schedules, Retentions, Webhooks] a1))"
  have a1: "app_ok {} a1" "app_engine a1 = app_engine a" using assms by (simp_all add: a1_def idle_iff)
  have "tasks_known (app_workers a)" using assms by (simp add: idle_iff workers_idle_known)
  then have "tasks_known (app_workers a1)"
    using start_known [of "app_workers a" ?S "su_now su" "su_up su" "su_prefix su" None d]
    by (auto simp: a1_def on_workers_def split: prod.splits)
  then have a4: "tasks_known (app_workers a4)" "app_ok {} a4" "app_engine a4 = app_engine a"
    using workers_run [OF a1(1), of ?S hs] by (simp_all add: a4_def a1(2) del: fold.simps)
  obtain e a5 where a5: "stop_workers su a4 = (e, a5)" by fastforce
  note rest = stop_workers_rest [OF a5]
  have run: "run_workers su hs a = (Inl (case e of Some x \<Rightarrow> x | None \<Rightarrow> TypeError ''object NoneType can't be used in 'await' expression''), a5)"
    unfolding run_workers_def Let_def Inr boot prod.case sum.case a1_def [symmetric] a4_def [symmetric] a5 ..
  show ?thesis
  proof (cases e)
    case None
    with stop_workers_quits [of su a4 a5] a5 a4 rest show ?thesis by (simp add: run)
  next
    case (Some x)
    with stop_workers_raises [of su a4 x a5] a5 a4 rest show ?thesis by (auto simp: run)
  qed
qed


section \<open>The heartbeat file\<close>

text \<open>A file is its content and the time of its last change.\<close>

type_synonym files = "string \<Rightarrow> (string \<times> time) option"

type_synonym environ = "string \<Rightarrow> string option"

definition heartbeat_path :: "environ \<Rightarrow> string \<Rightarrow> string" where
  "heartbeat_path environ tmp = (let configured = py_strip (get_or (environ ''DEVFLOW_WORKER_HEARTBEAT_FILE'') []) in
     if configured \<noteq> [] then configured else tmp @ ''/devflow-worker-heartbeat'')"

text \<open>One round of \<open>write_heartbeat_loop\<close>: when it begins, whether the stop event is set, and whether the write succeeds.\<close>

record beat =
  bt_at :: time
  bt_stopped :: bool
  bt_written :: bool

definition write_text :: "string \<Rightarrow> string \<Rightarrow> time \<Rightarrow> files \<Rightarrow> files" where
  "write_text path content now fs = fs(path \<mapsto> (content, now))"

fun write_heartbeat_loop :: "(time \<Rightarrow> string) \<Rightarrow> string \<Rightarrow> beat list \<Rightarrow> files \<Rightarrow> files" where
  "write_heartbeat_loop str path [] fs = fs"
| "write_heartbeat_loop str path (b # bs) fs =
     (if bt_stopped b then fs
      else write_heartbeat_loop str path bs (if bt_written b then write_text path (str (bt_at b)) (bt_at b) fs else fs))"

definition heartbeat_interval :: "time \<Rightarrow> time" where
  "heartbeat_interval seconds = max (secs 1) seconds"

text \<open>The rounds of a worker whose event loop comes back to a timer at most \<open>slack\<close> late.\<close>

fun paced :: "time \<Rightarrow> time \<Rightarrow> beat list \<Rightarrow> bool" where
  "paced n slack (a # b # bs) \<longleftrightarrow> bt_at a + n \<le> bt_at b \<and> bt_at b \<le> bt_at a + n + slack \<and> paced n slack (b # bs)"
| "paced n slack _ = True"

section \<open>The health probe\<close>

text \<open>What \<open>float\<close> makes of a text, as far as a comparison tells.\<close>

datatype py_float = Finite rat | Infinite | MinusInfinite | NotANumber

definition exceeds :: "rat \<Rightarrow> py_float \<Rightarrow> bool" where
  "exceeds x y = (case y of Finite z \<Rightarrow> z < x | Infinite \<Rightarrow> False | MinusInfinite \<Rightarrow> True | NotANumber \<Rightarrow> False)"

definition MAX_AGE_SECONDS :: py_float where
  "MAX_AGE_SECONDS = Finite 30"

definition max_age :: "(string \<Rightarrow> py_float option) \<Rightarrow> environ \<Rightarrow> py_float option" where
  "max_age to_float environ = (let configured = get_or (environ ''DEVFLOW_WORKER_HEARTBEAT_MAX_AGE'') [] in
     if configured \<noteq> [] then to_float configured else Some MAX_AGE_SECONDS)"

definition age_seconds :: "time \<Rightarrow> time \<Rightarrow> rat" where
  "age_seconds now mtime = of_int (now - mtime) / 1000000"

text \<open>The exit code of \<open>main\<close>.\<close>

definition probe :: "(string \<Rightarrow> py_float option) \<Rightarrow> environ \<Rightarrow> string \<Rightarrow> files \<Rightarrow> time \<Rightarrow> nat" where
  "probe to_float environ tmp fs now = (case max_age to_float environ of
     None \<Rightarrow> 1
   | Some limit \<Rightarrow> (case fs (heartbeat_path environ tmp) of
       None \<Rightarrow> 1
     | Some (_, mtime) \<Rightarrow> if exceeds (age_seconds now mtime) limit then 1 else 0))"

definition beats_written :: "beat list \<Rightarrow> time list" where
  "beats_written bs = map bt_at (filter bt_written (takeWhile (\<lambda>b. \<not> bt_stopped b) bs))"

lemma heartbeat_file:
  "write_heartbeat_loop str path bs fs path = (if beats_written bs = [] then fs path
     else Some (str (last (beats_written bs)), last (beats_written bs)))"
  by (induction bs arbitrary: fs) (auto simp: beats_written_def write_text_def)

lemma exceeds_mono: "exceeds x y \<Longrightarrow> x \<le> z \<Longrightarrow> exceeds z y"
  by (auto simp: exceeds_def split: py_float.splits)

lemma sorted_last: "sorted ts \<Longrightarrow> t \<in> set ts \<Longrightarrow> t \<le> last ts" for t :: int
  by (induction ts) (auto split: if_splits)

text \<open>C39. The probe tells whether a worker that shares its environment has written its heartbeat lately: it exits with 0 exactly when
  the age limit can be read and a heartbeat not older than that was written; so a file that was never written, an
  event loop that is stuck, or a limit that is not a number in the syntax of \<open>float\<close> give 1.\<close>

theorem probe_tells_recent_heartbeat:
  assumes "fs (heartbeat_path environ tmp) = None" and "sorted (map bt_at bs)"
  shows "probe to_float environ tmp (write_heartbeat_loop str (heartbeat_path environ tmp) bs fs) now = 0 \<longleftrightarrow>
    (\<exists>limit t. max_age to_float environ = Some limit \<and> t \<in> set (beats_written bs) \<and> \<not> exceeds (age_seconds now t) limit)"
proof (cases "beats_written bs = []")
  case True
  then show ?thesis using assms(1) by (simp add: probe_def heartbeat_file split: option.split)
next
  case False
  have "sorted (beats_written bs)" using assms(2) unfolding beats_written_def
    by (metis sorted_wrt_filter sorted_wrt_map sorted_wrt_take takeWhile_eq_take)
  then have "\<not> exceeds (age_seconds now (last (beats_written bs))) limit" if "t \<in> set (beats_written bs)" "\<not> exceeds (age_seconds now t) limit" for t limit
    using that sorted_last [of "beats_written bs" t] exceeds_mono [of "age_seconds now (last (beats_written bs))" limit "age_seconds now t"]
    by (auto simp: age_seconds_def divide_right_mono)
  then have "(\<exists>limit t. max_age to_float environ = Some limit \<and> t \<in> set (beats_written bs) \<and> \<not> exceeds (age_seconds now t) limit) \<longleftrightarrow>
      (\<exists>limit. max_age to_float environ = Some limit \<and> \<not> exceeds (age_seconds now (last (beats_written bs))) limit)"
    using last_in_set [OF False] by blast
  with False show ?thesis by (simp add: probe_def heartbeat_file split: option.split)
qed

text \<open>A worker that comes back to its timer in time is healthy when interval and lateness fit into the limit.\<close>

lemma punctual_worker_is_healthy:
  assumes "fs (heartbeat_path environ tmp) = None" and "bs \<noteq> []" and "list_all (\<lambda>b. bt_written b \<and> \<not> bt_stopped b) bs"
    and "max_age to_float environ = Some (Finite limit)" and "now \<le> bt_at (last bs) + n + slack" and "of_int (n + slack) \<le> limit * 1000000"
  shows "probe to_float environ tmp (write_heartbeat_loop str (heartbeat_path environ tmp) bs fs) now = 0"
proof -
  have all: "takeWhile (\<lambda>b. \<not> bt_stopped b) bs = bs" "filter bt_written bs = bs" using assms(3) by (simp_all add: list_all_iff)
  then have beats: "beats_written bs \<noteq> []" "last (beats_written bs) = bt_at (last bs)" using assms(2) unfolding beats_written_def all
    by (simp_all add: last_map)
  have "now - bt_at (last bs) \<le> n + slack" using assms(5) by simp
  then have "(of_int (now - bt_at (last bs)) :: rat) \<le> limit * 1000000" using assms(6) by (metis of_int_le_iff order_trans)
  then show ?thesis using assms(4) beats by (simp add: probe_def heartbeat_file exceeds_def age_seconds_def field_simps)
qed

text \<open>The settings allow an interval of up to 300 seconds; the probe of a worker that keeps it fails in between.\<close>

definition slow_beats :: "beat list" where
  "slow_beats = [\<lparr>bt_at = 0, bt_stopped = False, bt_written = True\<rparr>, \<lparr>bt_at = secs 60, bt_stopped = False, bt_written = True\<rparr>]"

lemma punctual_worker_reported_stale:
  "settings_in_range (default_settings\<lparr>worker_heartbeat_interval_seconds := 60\<rparr>) \<and> paced (heartbeat_interval (secs 60)) 0 slow_beats \<and>
   probe (\<lambda>_. None) (\<lambda>_. None) ''/tmp'' (write_heartbeat_loop (\<lambda>_. ''0'') (heartbeat_path (\<lambda>_. None) ''/tmp'') slow_beats (\<lambda>_. None)) (secs 100) = 1"
  by (simp add: settings_in_range_def default_settings_def between_def slow_beats_def heartbeat_interval_def secs_def probe_def max_age_def MAX_AGE_SECONDS_def
      write_text_def age_seconds_def exceeds_def)

section \<open>The context of log records\<close>

type_synonym context_vars = "string \<Rightarrow> string"

definition context_names :: "string list" where
  "context_names = [''request_id'', ''tenant_id'', ''execution_id'', ''task_id'', ''worker_id'']"

definition current_context :: "context_vars \<Rightarrow> (string \<times> string) list" where
  "current_context c = map (\<lambda>n. (n, c n)) context_names"

text \<open>
  \<open>binding\<close> around a body, which may set context variables itself and whose result may be an exception. A token
  is a name and the value to go back to; names that are not context variables, and values \<open>None\<close>, are passed over.
\<close>

definition set_var :: "string \<times> string option \<Rightarrow> (string \<times> string) list \<times> context_vars \<Rightarrow> (string \<times> string) list \<times> context_vars" where
  "set_var nv st = (case (nv, st) of ((n, v), (tokens, c)) \<Rightarrow>
     (case v of Some x \<Rightarrow> if n \<in> set context_names then (tokens @ [(n, c n)], c(n := x)) else (tokens, c) | None \<Rightarrow> (tokens, c)))"

definition reset_var :: "string \<times> string \<Rightarrow> context_vars \<Rightarrow> context_vars" where
  "reset_var nv c = (case nv of (n, old) \<Rightarrow> c(n := old))"

definition binding :: "(string \<times> string option) list \<Rightarrow> (context_vars \<Rightarrow> 'r \<times> context_vars) \<Rightarrow> context_vars \<Rightarrow> 'r \<times> context_vars" where
  "binding vs body c = (case fold set_var vs ([], c) of (tokens, c1) \<Rightarrow>
     (case body c1 of (r, c2) \<Rightarrow> (r, fold reset_var (rev tokens) c2)))"

text \<open>The fields of a record that \<open>JsonFormatter.format\<close> reads; the extras are those that are not \<open>None\<close>, in its order.\<close>

record log_record =
  lr_timestamp :: string
  lr_level :: string
  lr_logger :: string
  lr_message :: string
  lr_exception :: "string option"
  lr_extras :: "string \<Rightarrow> json option"

definition log_payload :: "settings \<Rightarrow> context_vars \<Rightarrow> log_record \<Rightarrow> (string \<times> json) list" where
  "log_payload S c r =
     [(''timestamp'', JStr (lr_timestamp r)), (''level'', JStr (lr_level r)), (''logger'', JStr (lr_logger r)),
      (''message'', JStr (lr_message r)), (''service'', JStr (app_name S)), (''environment'', JStr (environment S))] @
     map (\<lambda>(n, x). (n, JStr x)) (current_context c) @
     (case lr_exception r of None \<Rightarrow> [] | Some e \<Rightarrow> [(''exception'', JStr e)]) @
     List.map_filter (\<lambda>k. map_option (Pair k) (lr_extras r k)) [''method'', ''path'', ''status_code'', ''duration_ms'', ''tenant'', ''event'']"

text \<open>What \<open>binding\<close> binds.\<close>

definition bound :: "(string \<times> string option) list \<Rightarrow> (string \<times> string) list" where
  "bound vs = List.map_filter (\<lambda>(n, v). if n \<in> set context_names then map_option (Pair n) v else None) vs"

lemma bound_Cons: "bound ((n, v) # vs) = (case v of Some x \<Rightarrow> if n \<in> set context_names then (n, x) # bound vs else bound vs
    | None \<Rightarrow> bound vs)"
  by (simp add: bound_def split: option.split)

lemma bound_keys: "fst ` set (bound vs) \<subseteq> fst ` set vs"
  by (induction vs) (auto simp: bound_Cons bound_def split: option.splits if_splits)

lemma set_vars:
  assumes "distinct (map fst vs)"
  shows "fold set_var vs (tokens, c) = (tokens @ map (\<lambda>(n, x). (n, c n)) (bound vs), \<lambda>n. get_or (map_of (bound vs) n) (c n))"
  using assms
proof (induction vs arbitrary: tokens c)
  case (Cons nv vs)
  obtain n v where nv: "nv = (n, v)" by fastforce
  have new: "n \<notin> fst ` set (bound vs)" using Cons.prems bound_keys [of vs] by (auto simp: nv)
  then have "map_of (bound vs) n = None" by (simp add: map_of_eq_None_iff)
  moreover have "map (\<lambda>(m, x). (m, (c(n := y)) m)) (bound vs) = map (\<lambda>(m, x). (m, c m)) (bound vs)" for y
    using new by (intro map_cong) force+
  ultimately show ?case using Cons by (auto simp: nv set_var_def bound_Cons get_or_def fun_eq_iff split: option.split)
qed (simp add: bound_def get_or_def List.map_filter_def)

lemma reset_vars: "fold reset_var (rev tokens) c n = get_or (map_of tokens n) (c n)"
  by (induction tokens) (auto simp: reset_var_def get_or_def)

lemma map_of_olds: "map_of (map (\<lambda>(m, x). (m, c m)) xs) n = map_option (\<lambda>_. c n) (map_of xs n)"
  by (induction xs) auto

text \<open>The body of \<open>binding\<close> runs with the vs given; afterwards what was bound is as before, whatever the body set or raised.\<close>

lemma binding_restores:
  assumes "distinct (map fst vs)" and "body (\<lambda>n. get_or (map_of (bound vs) n) (c n)) = (r, c2)"
  shows "binding vs body c = (r, \<lambda>n. if map_of (bound vs) n = None then c2 n else c n)"
  using assms by (simp add: binding_def set_vars [where tokens = "[]", simplified] reset_vars map_of_olds fun_eq_iff get_or_def split: option.split)

lemma log_carries_context:
  assumes "n \<in> set context_names"
  shows "map_of (log_payload S c r) n = Some (JStr (c n))"
  using assms by (auto simp: log_payload_def context_names_def current_context_def)

text \<open>A process started on an empty database, with a pass of retention while it runs.\<close>

definition demo_app :: app where
  "demo_app = \<lparr>app_db = empty_db demo_supply, app_services = (\<lambda>_. init_background), app_workers = init_manager, app_bus = False, app_engine = True\<rparr>"

definition demo_surroundings :: surroundings where
  "demo_surroundings = \<lparr>su_settings = default_settings, su_hash = demo_hash, su_migrate = Inr, su_now = 0, su_up = True,
     su_prefix = ''host-1-abcdef'', su_connects = True, su_ends = (\<lambda>_. AfterCancel (Some CancelledError))\<rparr>"


lemma probe_tells_recent_heartbeat_witness:
  "probe (\<lambda>_. None) (\<lambda>_. None) ''/tmp'' (write_heartbeat_loop (\<lambda>_. ''0'') (heartbeat_path (\<lambda>_. None) ''/tmp'') slow_beats (\<lambda>_. None)) (secs 80) = 0 \<and>
   probe (\<lambda>_. None) (\<lambda>_. None) ''/tmp'' (write_heartbeat_loop (\<lambda>_. ''0'') (heartbeat_path (\<lambda>_. None) ''/tmp'') slow_beats (\<lambda>_. None)) (secs 100) \<noteq> 0"
proof -
  have "sorted (map bt_at slow_beats)" by (simp add: slow_beats_def secs_def)
  note probe = probe_tells_recent_heartbeat [OF _ this, of "\<lambda>_. None"]
  have "max_age (\<lambda>_. None) (\<lambda>_. None) = Some (Finite 30)" by (simp add: max_age_def MAX_AGE_SECONDS_def get_or_def)
  moreover have "beats_written slow_beats = [0, 60000000]" by (simp add: beats_written_def slow_beats_def secs_def)
  ultimately show ?thesis by (auto simp: probe secs_def age_seconds_def exceeds_def)
qed

end
