(* ===== verification/Spec2Isabelle.thy ===== *)
theory Spec2Isabelle
  imports Settings Dag Job_Queue Service Worker Watchdog Catalogue Rate_Limit Auth Scheduler Retention Realtime Queries Ops Handlers Http Wall Process
begin

text \<open>
  A model of DevFlow, a multi-tenant workflow engine (FastAPI, SQLAlchemy, Python), and of what makes
  it correct.

  \<^bold>\<open>The program.\<close> A tenant defines workflows: documents with tasks and dependencies between them. A
  trigger copies the document of the latest revision into an execution with one execution task per
  task. A scheduling pass queues every task whose dependencies are done. Workers claim jobs from a
  queue that is a database table, under a lease they renew, run the task's handler and write its
  result; a finished task starts the next pass. Leases that run out are reaped: the job is queued
  again, or becomes a dead letter that fails its task. Users cancel executions, and retry or skip tasks.

  \<^bold>\<open>Conventions.\<close> A table is a list of records in insertion order, the database a record of tables with
  a supply of identifiers (\<open>uuid_supply\<close>, \<open>uuid_draws\<close>). Times are integers, in microseconds. A method
  returns \<open>py_error + result\<close>: \<open>Inl\<close> is a raised exception, and then the database is as before, since
  the transaction is rolled back. A method that works on the rows it has loaded takes a \<open>session\<close>:
  the loaded execution and tasks, the database, and the realtime messages sent; \<open>commit\<close> writes what
  the session changed, column by column, over rows other sessions may have changed meanwhile, as
  SQLAlchemy's unit of work does. What runs between two of a method's steps in other processes is an
  argument (\<open>others\<close>); a handler's result is an \<open>outcome\<close>.

  \<^bold>\<open>Theories.\<close>
  \<^item> \<open>DF_Prelude\<close>: errors, folds that may fail, updates of table rows, time and rounding, the locales
    \<open>keyed_update\<close> (a bulk update that keeps the keys) and \<open>command_machine\<close> (commands that keep an
    invariant, and what they reach).
  \<^item> \<open>Entities\<close>: \<open>models/entities.py\<close>, the rows of every table, and the log and outbox writers.
  \<^item> \<open>Settings\<close>: \<open>core/config.py\<close>, every setting, its range, and the production checks.
  \<^item> \<open>Dag\<close>: \<open>services/dag_service.py\<close>, Kahn's algorithm as the code has it. Its loop terminates since
    the queue length plus the number of positive indegrees falls. It accepts exactly the well-formed
    acyclic task lists.
  \<^item> \<open>Job_Queue\<close>: \<open>queue/job_queue.py\<close>, each method a function on the job table (and the process's
    reaper clock and dead-letter buffer); the methods as commands of a state machine with its
    invariant, the state machine of a job, what a claim and the reaper do, and the locale
    \<open>lease_store\<close> for the exclusion that leases promise. \<open>dequeue\<close> polls until its deadline, which
    is the measure of its recursion; another process may act between two polls.
  \<^item> \<open>Execution\<close>: \<open>services/execution_service.py\<close>. A pass is \<open>ready_pass\<close>; starting and finishing a
    task are \<open>execute_task\<close> and \<open>finish_task\<close>, between them the handler runs and anything may happen.
    The loop of \<open>_fail_downstream\<close> ends since every repetition fails a pending task.
  \<^item> \<open>Scheduling\<close>: what a pass, the failure loop, the status refresh and the downstream walk compute.
  \<^item> \<open>Execution_Life\<close>: locales for programs on sessions (\<open>session_frame\<close>, \<open>session_queue\<close>, \<open>session_invariant\<close>,
    \<open>session_program\<close>), interpreted for what a session may change; cancellation, retries, isolation of
    executions and tenants, the release of jobs, and the invariant of the service's tables.
  \<^item> \<open>Service\<close>: triggering, quotas and idempotency keys; the whole service and its queue as one state
    machine; and the known misbehaviours, each proved on a concrete run.

  \<^bold>\<open>Not modelled.\<close> Metrics, logging and tracing contexts (no effect on the state); HTTP routing and
  serialization; the database engine (a table operation is atomic, row locks are an argument of the
  claim); floating point (durations are rationals, rounded to microseconds as \<open>timedelta\<close> does). The
  worker loop, watchdog, authentication, rate limits, schedules, retention, webhooks, realtime
  connections and task handlers are not yet covered.
\<close>

end
